(* ===== verification/Prelude.thy ===== *)
theory Prelude
  imports
    Complex_Main
    "HOL-Library.List_Lexorder"
    "HOL-Library.Char_ord"
    "HOL-Library.Product_Lexorder"
    "HOL-Library.Multiset"
    "HOL-Library.AList"
begin

text \<open>
  Shared vocabulary of the development: Python results and exceptions, Python strings,
  dictionaries and sorting, and the generic lemmas on lists the component theories use.

  A Python \<open>str\<close> is modelled by its UTF-8 bytes, a \<^typ>\<open>string\<close>; \<open>bytes\<close> are the same type.
  Equality, concatenation, substring tests, replacement and the ordering of \<open>str\<close> (by code
  point) coincide with those of the UTF-8 bytes, encoding is the identity and decoding is the
  check \<open>utf8_valid\<close>. What counts characters goes through \<open>utf8_chars\<close>, the list of a text's
  characters, each as its own UTF-8 bytes. Case conversion is that of ASCII letters.

  A Python \<open>dict\<close> is an association list in insertion order whose keys are distinct; storing a
  key is \<^const>\<open>AList.update\<close>, which overwrites in place and otherwise appends. A Python
  \<open>float\<close> is a \<^typ>\<open>real\<close>: rounding, NaN and the infinities are not modelled.
\<close>

section \<open>Results and exceptions\<close>

text \<open>Why a replay refuses to go on: one constructor per \<open>raise ReplayMiss\<close> of the session.\<close>

datatype miss =
    MissModelCall | MissBackend | MissRecordedStream | MissRecordedPlain
  | MissTool | MissToolArgs | MissDispatch
  | MissOutcomeStatus | MissNoOutcome | MissEnv
  | MissFsNever | MissFsExhausted | MissFsContent | MissReadOnly

datatype exn =
    ValueError | TypeError | KeyError | IndexError | RuntimeError | StopIteration
  | FileNotFoundError | IntegrityError | ValidationError | UnicodeDecodeError
  | TracewakeError | ReplayMiss miss | Raised string

type_synonym 'a res = "exn + 'a"

named_theorems res_simps \<open>computation rules of results\<close>
named_theorems res_splits \<open>case splits of results\<close>

definition bind_res :: "'a res \<Rightarrow> ('a \<Rightarrow> 'b res) \<Rightarrow> 'b res" where
  "bind_res r f = (case r of Inl e \<Rightarrow> Inl e | Inr x \<Rightarrow> f x)"

definition guard_res :: "bool \<Rightarrow> exn \<Rightarrow> unit res" where
  "guard_res b e = (if b then Inr () else Inl e)"

fun map_res :: "('a \<Rightarrow> 'b res) \<Rightarrow> 'a list \<Rightarrow> 'b list res" where
  "map_res f [] = Inr []"
| "map_res f (x # xs) = bind_res (f x) (\<lambda>y. bind_res (map_res f xs) (\<lambda>ys. Inr (y # ys)))"

text \<open>A \<open>for\<close> loop whose body may raise.\<close>

fun fold_res :: "('a \<Rightarrow> 's \<Rightarrow> 's res) \<Rightarrow> 'a list \<Rightarrow> 's \<Rightarrow> 's res" where
  "fold_res f [] s = Inr s"
| "fold_res f (x # xs) s = bind_res (f x s) (fold_res f xs)"

lemma bind_res_Inl [simp, res_simps]: "bind_res (Inl e) f = Inl e"
  by (simp add: bind_res_def)

lemma bind_res_Inr [simp, res_simps]: "bind_res (Inr x) f = f x"
  by (simp add: bind_res_def)

lemma bind_res_eq_Inr [res_simps]:
  "bind_res r f = Inr y \<longleftrightarrow> (\<exists>x. r = Inr x \<and> f x = Inr y)"
  by (cases r) auto

lemma bind_res_eq_Inl [res_simps]:
  "bind_res r f = Inl e \<longleftrightarrow> r = Inl e \<or> (\<exists>x. r = Inr x \<and> f x = Inl e)"
  by (cases r) auto

lemma guard_res_eq_Inr [simp, res_simps]: "guard_res b e = Inr u \<longleftrightarrow> b"
  by (cases u) (simp add: guard_res_def)

lemma guard_res_True [simp, res_simps]: "guard_res True e = Inr ()"
  by (simp add: guard_res_def)

lemma guard_res_False [simp, res_simps]: "guard_res False e = Inl e"
  by (simp add: guard_res_def)

lemma map_res_Inr:
  "(\<And>x. x \<in> set xs \<Longrightarrow> f x = Inr (g x)) \<Longrightarrow> map_res f xs = Inr (map g xs)"
  by (induction xs) auto

lemma map_res_total:
  "(\<And>x. x \<in> set xs \<Longrightarrow> \<exists>y. f x = Inr y) \<Longrightarrow> \<exists>ys. map_res f xs = Inr ys"
proof (induction xs)
  case (Cons x xs)
  then obtain y ys where "f x = Inr y" "map_res f xs = Inr ys" by fastforce
  then show ?case by simp
qed simp

lemma map_res_eq_Inl: "map_res f xs = Inl e \<Longrightarrow> \<exists>x\<in>set xs. f x = Inl e"
  by (induction xs) (auto simp: bind_res_def split: sum.splits)

lemma map_res_eq_Inr_length: "map_res f xs = Inr ys \<Longrightarrow> length ys = length xs"
  by (induction xs arbitrary: ys) (auto simp: bind_res_eq_Inr)

lemma map_res_eq_Inr_nth:
  "map_res f xs = Inr ys \<Longrightarrow> i < length xs \<Longrightarrow> f (xs ! i) = Inr (ys ! i)"
proof (induction xs arbitrary: ys i)
  case (Cons x xs)
  then obtain y ys' where "f x = Inr y" "map_res f xs = Inr ys'" "ys = y # ys'"
    by (auto simp: bind_res_eq_Inr)
  with Cons show ?case by (cases i) auto
qed simp

lemma map_res_nthI:
  "length ys = length xs \<Longrightarrow> (\<And>i. i < length xs \<Longrightarrow> f (xs ! i) = Inr (ys ! i)) \<Longrightarrow> map_res f xs = Inr ys"
proof (induction ys xs rule: list_induct2)
  case (Cons y ys x xs)
  have "f x = Inr y" using Cons.prems [of 0] by simp
  moreover have "map_res f xs = Inr ys" using Cons.prems [of "Suc _"] by (intro Cons.IH) auto
  ultimately show ?case by simp
qed simp

text \<open>The loop rule: an invariant indexed by the number of iterations done.\<close>

lemma fold_res_inv:
  assumes "I 0 s" "\<And>k t. k < length xs \<Longrightarrow> I k t \<Longrightarrow> \<exists>t'. f (xs ! k) t = Inr t' \<and> I (Suc k) t'"
  shows "\<exists>t. fold_res f xs s = Inr t \<and> I (length xs) t"
  using assms
proof (induction xs arbitrary: I s)
  case (Cons x xs)
  from Cons.prems(2) [of 0 s] Cons.prems(1) obtain t where t: "f x s = Inr t" "I 1 t" by auto
  have "\<exists>u. fold_res f xs t = Inr u \<and> I (Suc (length xs)) u"
  proof (rule Cons.IH [of "\<lambda>k. I (Suc k)"])
    fix k u assume "k < length xs" "I (Suc k) u"
    then show "\<exists>t'. f (xs ! k) u = Inr t' \<and> I (Suc (Suc k)) t'"
      using Cons.prems(2) [of "Suc k" u] by simp
  qed (use t in simp)
  then show ?case using t by simp
qed simp

section \<open>Python strings\<close>

definition byte_val :: "char \<Rightarrow> nat" where
  "byte_val c = of_char c"

definition is_cont :: "char \<Rightarrow> bool" where
  "is_cont c \<longleftrightarrow> 128 \<le> byte_val c \<and> byte_val c < 192"

text \<open>The characters of a text, each as its UTF-8 bytes.\<close>

function utf8_chars :: "string \<Rightarrow> string list" where
  "utf8_chars [] = []"
| "utf8_chars (c # cs) = (c # takeWhile is_cont cs) # utf8_chars (dropWhile is_cont cs)"
  by pat_completeness auto
termination
  by (relation "measure length") (auto simp: le_imp_less_Suc length_dropWhile_le)

text \<open>\<open>len\<close> of a \<open>str\<close>: the number of code points.\<close>

definition str_len :: "string \<Rightarrow> nat" where
  "str_len s = length (utf8_chars s)"

text \<open>\<open>text[:n]\<close>.\<close>

definition take_chars :: "nat \<Rightarrow> string \<Rightarrow> string" where
  "take_chars n s = concat (take n (utf8_chars s))"

lemma concat_utf8_chars: "concat (utf8_chars s) = s"
  by (induction s rule: utf8_chars.induct) simp_all

lemma utf8_chars_append: "b = [] \<or> \<not> is_cont (hd b) \<Longrightarrow> utf8_chars (a @ b) = utf8_chars a @ utf8_chars b"
proof (induction a rule: utf8_chars.induct)
  case (2 c cs)
  have "takeWhile is_cont (cs @ b) = takeWhile is_cont cs" "dropWhile is_cont (cs @ b) = dropWhile is_cont cs @ b"
    using 2(2) by (cases b; induction cs; simp)+
  then show ?case using 2 by simp
qed simp

lemma utf8_chars_ne: "c \<in> set (utf8_chars s) \<Longrightarrow> c \<noteq> []"
  by (induction s rule: utf8_chars.induct) auto

text \<open>Python's strict UTF-8 decoder accepts exactly these byte sequences.\<close>

fun utf8_ok :: "nat list \<Rightarrow> bool" where
  "utf8_ok [] = True"
| "utf8_ok (a # r) =
     (if a < 128 then utf8_ok r
      else if 194 \<le> a \<and> a \<le> 223 then
        (case r of b # r' \<Rightarrow> 128 \<le> b \<and> b < 192 \<and> utf8_ok r' | _ \<Rightarrow> False)
      else if 224 \<le> a \<and> a \<le> 239 then
        (case r of b # c # r' \<Rightarrow>
            128 \<le> b \<and> b < 192 \<and> 128 \<le> c \<and> c < 192
            \<and> (a = 224 \<longrightarrow> 160 \<le> b) \<and> (a = 237 \<longrightarrow> b < 160) \<and> utf8_ok r'
         | _ \<Rightarrow> False)
      else if 240 \<le> a \<and> a \<le> 244 then
        (case r of b # c # d # r' \<Rightarrow>
            128 \<le> b \<and> b < 192 \<and> 128 \<le> c \<and> c < 192 \<and> 128 \<le> d \<and> d < 192
            \<and> (a = 240 \<longrightarrow> 144 \<le> b) \<and> (a = 244 \<longrightarrow> b < 144) \<and> utf8_ok r'
         | _ \<Rightarrow> False)
      else False)"

definition utf8_valid :: "string \<Rightarrow> bool" where
  "utf8_valid s = utf8_ok (map byte_val s)"

definition decode_utf8 :: "string \<Rightarrow> string res" where
  "decode_utf8 s = (if utf8_valid s then Inr s else Inl UnicodeDecodeError)"

fun starts_with :: "string \<Rightarrow> string \<Rightarrow> bool" where
  "starts_with [] s = True"
| "starts_with (p # ps) [] = False"
| "starts_with (p # ps) (c # cs) = (p = c \<and> starts_with ps cs)"

text \<open>Python's \<open>sub in s\<close>.\<close>

fun in_str :: "string \<Rightarrow> string \<Rightarrow> bool" where
  "in_str sub [] = (sub = [])"
| "in_str sub (c # cs) = (starts_with sub (c # cs) \<or> in_str sub cs)"

text \<open>
  Python's \<open>s.replace(old, new)\<close> for a non-empty \<open>old\<close>: leftmost matches that do not overlap.
  Every caller passes a non-empty \<open>old\<close>.
\<close>

function replace_str :: "string \<Rightarrow> string \<Rightarrow> string \<Rightarrow> string" where
  "replace_str old new s =
     (case s of
        [] \<Rightarrow> []
      | c # cs \<Rightarrow>
          if old \<noteq> [] \<and> starts_with old s
          then new @ replace_str old new (drop (length old) s)
          else c # replace_str old new cs)"
  by pat_completeness auto
termination
  by (relation "measure (\<lambda>(old, new, s). length s)") (auto simp: neq_Nil_conv)

declare replace_str.simps [simp del]

lemma replace_str_simps [simp]:
  "replace_str old new [] = []"
  "replace_str old new (c # cs) =
     (if old \<noteq> [] \<and> starts_with old (c # cs)
      then new @ replace_str old new (drop (length old) (c # cs))
      else c # replace_str old new cs)"
  by (subst replace_str.simps, simp)+

definition lower_char :: "char \<Rightarrow> char" where
  "lower_char c = (if 65 \<le> byte_val c \<and> byte_val c \<le> 90 then char_of (byte_val c + 32) else c)"

definition upper_char :: "char \<Rightarrow> char" where
  "upper_char c = (if 97 \<le> byte_val c \<and> byte_val c \<le> 122 then char_of (byte_val c - 32) else c)"

definition lower_str :: "string \<Rightarrow> string" where
  "lower_str = map lower_char"

definition upper_str :: "string \<Rightarrow> string" where
  "upper_str = map upper_char"

fun join_str :: "string \<Rightarrow> string list \<Rightarrow> string" where
  "join_str sep [] = []"
| "join_str sep [s] = s"
| "join_str sep (s # t # ts) = s @ sep @ join_str sep (t # ts)"

text \<open>\<open>s.split(c)\<close> for a one-byte separator: always at least one piece.\<close>

fun split_char :: "char \<Rightarrow> string \<Rightarrow> string list" where
  "split_char c [] = [[]]"
| "split_char c (x # xs) =
     (if x = c then [] # split_char c xs
      else (case split_char c xs of p # ps \<Rightarrow> (x # p) # ps | [] \<Rightarrow> [[x]]))"

text \<open>The characters \<open>str.isspace\<close> accepts, as UTF-8 bytes.\<close>

definition bytes_of :: "nat list \<Rightarrow> string" where
  "bytes_of = map char_of"

definition space_chars :: "string list" where
  "space_chars =
     map (\<lambda>n. bytes_of [n]) [9, 10, 11, 12, 13, 28, 29, 30, 31, 32]
     @ map bytes_of [[194, 133], [194, 160], [225, 154, 128], [226, 128, 168], [226, 128, 169],
         [226, 128, 175], [226, 129, 159], [227, 128, 128]]
     @ map (\<lambda>n. bytes_of [226, 128, n]) [128..<139]"

definition is_space :: "string \<Rightarrow> bool" where
  "is_space c \<longleftrightarrow> c \<in> set space_chars"

lemma eq_char_of: "n < 256 \<Longrightarrow> c = char_of n \<longleftrightarrow> byte_val c = n"
  unfolding byte_val_def by (auto simp: of_char_of)

lemma byte_val_char_of [simp]: "n < 256 \<Longrightarrow> byte_val (char_of n) = n"
  by (simp add: byte_val_def)

lemma is_space_byte [simp]:
  "is_space [c] \<longleftrightarrow> byte_val c \<in> {9, 10, 11, 12, 13, 28, 29, 30, 31, 32}"
  by (simp add: is_space_def space_chars_def bytes_of_def eq_char_of)

text \<open>\<open>s.split()\<close>: the maximal runs of characters that are not white space.\<close>

fun words_of :: "string list \<Rightarrow> string \<Rightarrow> string list" where
  "words_of [] acc = (if acc = [] then [] else [acc])"
| "words_of (c # cs) acc =
     (if is_space c then (if acc = [] then words_of cs [] else acc # words_of cs [])
      else words_of cs (acc @ c))"

definition split_ws :: "string \<Rightarrow> string list" where
  "split_ws s = words_of (utf8_chars s) []"

text \<open>\<open>str(n)\<close> of an integer.\<close>

fun nat_str :: "nat \<Rightarrow> string" where
  "nat_str n =
     (if n < 10 then [char_of (48 + n)] else nat_str (n div 10) @ [char_of (48 + n mod 10)])"

declare nat_str.simps [simp del]

definition int_str :: "int \<Rightarrow> string" where
  "int_str n = (if n < 0 then CHR ''-'' # nat_str (nat (- n)) else nat_str (nat n))"

text \<open>The pattern \<open>^[0-9a-f]{64}$\<close> of every digest.\<close>

definition hex_char :: "char \<Rightarrow> bool" where
  "hex_char c \<longleftrightarrow> c \<in> set ''0123456789abcdef''"

definition is_digest :: "string \<Rightarrow> bool" where
  "is_digest s \<longleftrightarrow> length s = 64 \<and> list_all hex_char s"

section \<open>Truth values and dictionaries\<close>

text \<open>\<open>a or b\<close> on an optional string: \<open>None\<close> and the empty string are false.\<close>

definition truthy :: "string option \<Rightarrow> bool" where
  "truthy s = (case s of None \<Rightarrow> False | Some t \<Rightarrow> t \<noteq> [])"

definition or_str :: "string option \<Rightarrow> string \<Rightarrow> string" where
  "or_str s t = (if truthy s then the s else t)"

text \<open>A dictionary built by a comprehension: a later pair overrides an earlier one.\<close>

definition dict_of :: "('k \<times> 'v) list \<Rightarrow> 'k \<rightharpoonup> 'v" where
  "dict_of kvs = map_of (rev kvs)"

lemma dict_of_Nil [simp]: "dict_of [] = Map.empty"
  by (simp add: dict_of_def)

lemma dict_of_snoc [simp]: "dict_of (kvs @ [(k, v)]) = (dict_of kvs)(k \<mapsto> v)"
  by (simp add: dict_of_def)

lemma dict_of_distinct: "distinct (map fst kvs) \<Longrightarrow> dict_of kvs = map_of kvs"
  unfolding dict_of_def by (subst map_of_inject_set) (simp_all add: rev_map [symmetric])

lemma dom_dict_of: "dom (dict_of kvs) = fst ` set kvs"
  by (simp add: dict_of_def dom_map_of_conv_image_fst)

lemma dict_of_swap:
  "fst a \<noteq> fst b \<Longrightarrow> dict_of (xs @ [a, b] @ ys) = dict_of (xs @ [b, a] @ ys)"
  by (cases a, cases b) (auto simp: dict_of_def map_add_def fun_eq_iff split: option.splits)

text \<open>\<open>int(x)\<close> of a float.\<close>

definition trunc :: "real \<Rightarrow> int" where
  "trunc x = (if 0 \<le> x then \<lfloor>x\<rfloor> else \<lceil>x\<rceil>)"

section \<open>Lists\<close>

named_theorems list_facts \<open>generic list lemmas the component proofs unfold\<close>

lemma filter_nth_split: "i < length xs \<Longrightarrow> xs = take i xs @ xs ! i # drop (Suc i) xs"
  by (simp add: id_take_nth_drop)

lemma sum_list_update_int:
  "i < length xs \<Longrightarrow> sum_list (xs[i := v]) = sum_list xs - xs ! i + (v :: int)"
  by (induction xs arbitrary: i) (auto split: nat.splits)

text \<open>Two stable sorts agree when an order-preserving renaming relates their inputs.\<close>

lemma sort_key_eqI:
  assumes m: "mset ys = mset xs" and s: "sorted (map f ys)" and i: "inj_on f (set xs)"
  shows "sort_key f xs = ys"
proof (rule properties_for_sort_key [OF m _ s])
  fix k assume k: "k \<in> set ys"
  have e: "set ys = set xs" using m by (rule mset_eq_setD)
  have "filter (\<lambda>x. f k = f x) zs = filter ((=) k) zs" if "set zs = set xs" for zs
    using i k e that by (intro filter_cong) (auto dest: inj_onD)
  then show "filter (\<lambda>x. f k = f x) ys = filter (\<lambda>x. f k = f x) xs"
    using e m by (simp add: flip: replicate_count_mset_eq_filter_eq)
qed

text \<open>Occurrences and pieces of a text.\<close>

lemma starts_with_iff: "starts_with p s \<longleftrightarrow> (\<exists>r. s = p @ r)"
  by (induction p s rule: starts_with.induct) auto

lemma in_str_iff: "in_str p s \<longleftrightarrow> (\<exists>a b. s = a @ p @ b)"
proof (induction s)
  case (Cons c cs)
  show ?case unfolding in_str.simps Cons.IH starts_with_iff
    by (metis append_Cons append_Nil list.exhaust list.sel(3))
qed auto

lemma split_char_append: "c \<notin> set s \<Longrightarrow> split_char c (s @ c # t) = s # split_char c t"
  by (induction s) auto

lemma split_char_clean: "c \<notin> set s \<Longrightarrow> split_char c s = [s]"
  by (induction s) auto

end
