(* ===== verification/Json.thy ===== *)
theory Json
  imports Prelude
begin

text \<open>
  JSON values and the canonical writer of \<open>src/tracewake/events.py\<close> (\<open>canonical_json\<close>,
  \<open>_sort_keys\<close>): values as a datatype, \<open>json.dumps\<close> with compact separators and
  \<open>ensure_ascii=False\<close>, and the facts every digest rests on: canonical text ignores the
  insertion order of objects, and determines the value up to that order.

  \<open>repr\<close> of a float is the parameter \<open>frepr\<close> of the writer; \<open>frepr_ok\<close> states what is
  documented of it for the floats of a set.
\<close>

datatype json =
    JNull
  | JBool bool
  | JInt int
  | JFloat real
  | JStr string
  | JArr "json list"
  | JObj "(string \<times> json) list"

type_synonym jobject = "(string \<times> json) list"

section \<open>Definitions\<close>

primrec sort_keys :: "json \<Rightarrow> json" where
  "sort_keys JNull = JNull"
| "sort_keys (JBool b) = JBool b"
| "sort_keys (JInt n) = JInt n"
| "sort_keys (JFloat x) = JFloat x"
| "sort_keys (JStr s) = JStr s"
| "sort_keys (JArr vs) = JArr (map sort_keys vs)"
| "sort_keys (JObj kvs) = JObj (sort_key fst (map (map_prod id sort_keys) kvs))"

text \<open>The escapes of \<open>json.encoder.ESCAPE\<close>: quote, backslash and the control characters.\<close>

definition hex_digit :: "nat \<Rightarrow> char" where
  "hex_digit n = ''0123456789abcdef'' ! n"

definition esc_char :: "char \<Rightarrow> string" where
  "esc_char c =
     (if c = CHR 0x22 then [CHR 0x5C, CHR 0x22]
      else if c = CHR 0x5C then [CHR 0x5C, CHR 0x5C]
      else if c = CHR 0x0A then [CHR 0x5C, CHR ''n'']
      else if c = CHR 0x0D then [CHR 0x5C, CHR ''r'']
      else if c = CHR 0x09 then [CHR 0x5C, CHR ''t'']
      else if c = CHR 0x0C then [CHR 0x5C, CHR ''f'']
      else if c = CHR 0x08 then [CHR 0x5C, CHR ''b'']
      else if byte_val c < 32 then
        [CHR 0x5C, CHR ''u'', CHR ''0'', CHR ''0'',
         hex_digit (byte_val c div 16), hex_digit (byte_val c mod 16)]
      else [c])"

definition quote_str :: "string \<Rightarrow> string" where
  "quote_str s = CHR 0x22 # concat (map esc_char s) @ [CHR 0x22]"

text \<open>\<open>json.dumps(value, separators=(",", ":"), ensure_ascii=False)\<close>, keys in their order.\<close>

primrec render :: "(real \<Rightarrow> string) \<Rightarrow> json \<Rightarrow> string" where
  "render frepr JNull = ''null''"
| "render frepr (JBool b) = (if b then ''true'' else ''false'')"
| "render frepr (JInt n) = int_str n"
| "render frepr (JFloat x) = frepr x"
| "render frepr (JStr s) = quote_str s"
| "render frepr (JArr vs) = ''['' @ join_str '','' (map (render frepr) vs) @ '']''"
| "render frepr (JObj kvs) =
     ''{'' @ join_str '',''
       (map (\<lambda>(k, s). quote_str k @ '':'' @ s) (map (map_prod id (render frepr)) kvs)) @ ''}''"

definition canonical_json :: "(real \<Rightarrow> string) \<Rightarrow> json \<Rightarrow> string" where
  "canonical_json frepr v = render frepr (sort_keys v)"

primrec json_floats :: "json \<Rightarrow> real set" where
  "json_floats JNull = {}"
| "json_floats (JBool b) = {}"
| "json_floats (JInt n) = {}"
| "json_floats (JFloat x) = {x}"
| "json_floats (JStr s) = {}"
| "json_floats (JArr vs) = \<Union> (set (map json_floats vs))"
| "json_floats (JObj kvs) = \<Union> (snd ` set (map (map_prod id json_floats) kvs))"

definition num_char :: "char \<Rightarrow> bool" where
  "num_char c \<longleftrightarrow> c \<in> set ''0123456789+-.e''"

text \<open>
  What \<open>repr\<close> of a float does on the floats of \<open>F\<close>: distinct floats have distinct texts, and a
  text is written with digits, signs, a point or an exponent, one of the last two present.
\<close>

definition frepr_ok :: "(real \<Rightarrow> string) \<Rightarrow> real set \<Rightarrow> bool" where
  "frepr_ok frepr F \<longleftrightarrow>
     inj_on frepr F \<and>
     (\<forall>x\<in>F. list_all num_char (frepr x) \<and> (\<exists>c\<in>set (frepr x). c \<in> set ''.e''))"

section \<open>Sorting keys\<close>

lemma snds_map_prod [simp]: "p \<in> set kvs \<Longrightarrow> snd p \<in> Basic_BNFs.snds p"
  by (cases p) (simp add: Basic_BNFs.snds.simps)

lemma json_obj_induct [case_names Null Bool Int Float Str Arr Obj]:
  assumes "P JNull" "\<And>b. P (JBool b)" "\<And>n. P (JInt n)" "\<And>x. P (JFloat x)" "\<And>s. P (JStr s)"
    and "\<And>vs. (\<And>v. v \<in> set vs \<Longrightarrow> P v) \<Longrightarrow> P (JArr vs)"
    and "\<And>kvs. (\<And>k v. (k, v) \<in> set kvs \<Longrightarrow> P v) \<Longrightarrow> P (JObj kvs)"
  shows "P v"
  by (rule json.induct) (use assms in \<open>force simp: Basic_BNFs.snds.simps\<close>)+

lemma map_fst_map_prod [simp]: "map fst (map (map_prod id f) kvs) = map fst kvs"
  by (simp add: comp_def)

lemma sort_keys_idem [simp]: "sort_keys (sort_keys v) = sort_keys v"
proof (induction v rule: json_obj_induct)
  case (Obj kvs)
  let ?s = "\<lambda>xs. sort_key fst xs :: jobject"
  have *: "map (map_prod id sort_keys) (?s (map (map_prod id sort_keys) kvs))
      = ?s (map (map_prod id sort_keys) kvs)"
    using Obj by (intro map_idI) auto
  show ?case by (simp add: *) (simp add: sort_key_id_if_sorted)
qed (simp_all cong: map_cong)

lemma sort_key_fst_perm:
  "mset kvs = mset kvs' \<Longrightarrow> distinct (map fst kvs) \<Longrightarrow> sort_key fst kvs = sort_key fst kvs'"
  by (rule sort_key_eqI) (auto simp: distinct_map)

lemma sort_keys_perm:
  assumes "mset kvs = mset kvs'" and "distinct (map fst kvs)"
  shows "sort_keys (JObj kvs) = sort_keys (JObj kvs')"
  using assms by (simp add: sort_key_fst_perm comp_def)

section \<open>Unique readability\<close>

text \<open>The characters that can follow a value inside an array, an object or a document.\<close>

definition closes :: "string \<Rightarrow> bool" where
  "closes r \<longleftrightarrow> r = [] \<or> hd r \<in> set '',]}''"

lemma closes_simps [simp]:
  "closes []" "closes (CHR '','' # r)" "closes (CHR '']'' # r)" "closes (CHR ''}'' # r)"
  by (simp_all add: closes_def)

definition hex_val :: "char \<Rightarrow> nat" where
  "hex_val c = (if byte_val c < 58 then byte_val c - 48 else byte_val c - 87)"

definition unesc :: "string \<Rightarrow> char \<times> string" where
  "unesc s =
     (if hd s \<noteq> CHR 0x5C then (hd s, tl s)
      else if s ! 1 = CHR ''u'' then (char_of (16 * hex_val (s ! 4) + hex_val (s ! 5)), drop 6 s)
      else if s ! 1 = CHR ''n'' then (CHR 0x0A, drop 2 s)
      else if s ! 1 = CHR ''r'' then (CHR 0x0D, drop 2 s)
      else if s ! 1 = CHR ''t'' then (CHR 0x09, drop 2 s)
      else if s ! 1 = CHR ''f'' then (CHR 0x0C, drop 2 s)
      else if s ! 1 = CHR ''b'' then (CHR 0x08, drop 2 s)
      else (s ! 1, drop 2 s))"

lemma hex_val_digit: "n < 16 \<Longrightarrow> hex_val (hex_digit n) = n"
proof -
  have "\<forall>n\<in>set [0..<16]. hex_val (hex_digit n) = n" by code_simp
  then show "n < 16 \<Longrightarrow> hex_val (hex_digit n) = n" by simp
qed

lemma unesc_esc: "unesc (esc_char c @ r) = (c, r)"
proof -
  have "char_of (16 * (byte_val c div 16) + byte_val c mod 16) = c"
    by (simp add: byte_val_def)
  then show ?thesis
    by (simp add: esc_char_def unesc_def hex_val_digit byte_val_def)
qed

lemma esc_char_prefix_free: "esc_char c @ r = esc_char d @ r' \<Longrightarrow> c = d \<and> r = r'"
  by (metis unesc_esc prod.inject)

lemma esc_char_not_quote [simp]:
  "esc_char c @ r \<noteq> CHR 0x22 # r'" "CHR 0x22 # r' \<noteq> esc_char c @ r"
  by (simp_all add: esc_char_def)

lemma quote_str_prefix_free:
  assumes "quote_str s @ r = quote_str t @ r'" shows "s = t \<and> r = r'"
proof -
  have "concat (map esc_char s) @ CHR 0x22 # r = concat (map esc_char t) @ CHR 0x22 # r'
      \<Longrightarrow> s = t \<and> r = r'"
  proof (induction s arbitrary: t)
    case Nil
    then show ?case by (cases t) auto
  next
    case (Cons c s)
    show ?case
    proof (cases t)
      case Nil
      then show ?thesis using Cons.prems by auto
    next
      case (Cons d t')
      with Cons.prems have "esc_char c @ concat (map esc_char s) @ CHR 0x22 # r
          = esc_char d @ concat (map esc_char t') @ CHR 0x22 # r'" by simp
      with esc_char_prefix_free have "c = d"
        "concat (map esc_char s) @ CHR 0x22 # r = concat (map esc_char t') @ CHR 0x22 # r'"
        by blast+
      with Cons.IH Cons show ?thesis by blast
    qed
  qed
  with assms show ?thesis by (simp add: quote_str_def)
qed


text \<open>Numbers: maximal runs of number characters, so a token is determined by its context.\<close>

definition digit_char :: "char \<Rightarrow> bool" where
  "digit_char c \<longleftrightarrow> c \<in> set ''0123456789''"

fun digits_val :: "nat \<Rightarrow> string \<Rightarrow> nat" where
  "digits_val acc [] = acc"
| "digits_val acc (c # cs) = digits_val (10 * acc + (byte_val c - 48)) cs"

lemma digits_val_append: "digits_val acc (xs @ ys) = digits_val (digits_val acc xs) ys"
  by (induction xs arbitrary: acc) auto

lemma digits_val_nat_str: "digits_val 0 (nat_str n) = n"
proof (induction n rule: nat_str.induct)
  case (1 n)
  then show ?case
    by (cases "n < 10") (simp_all add: nat_str.simps [of n] digits_val_append)
qed

lemma nat_str_inj: "nat_str m = nat_str n \<Longrightarrow> m = n"
  by (metis digits_val_nat_str)

lemma digit_char_of: "(n::nat) < 10 \<Longrightarrow> digit_char (char_of (48 + n))"
proof -
  have "\<forall>n\<in>set [0..<10]. digit_char (char_of (48 + n :: nat))" by code_simp
  then show "(n::nat) < 10 \<Longrightarrow> digit_char (char_of (48 + n))" by simp
qed

lemma nat_str_digits: "list_all digit_char (nat_str n) \<and> nat_str n \<noteq> []"
proof (induction n rule: nat_str.induct)
  case (1 n)
  then show ?case
    by (cases "n < 10") (simp_all add: nat_str.simps [of n] digit_char_of)
qed

lemma digit_char_num: "digit_char c \<Longrightarrow> num_char c \<and> c \<noteq> CHR ''-'' \<and> c \<noteq> CHR ''.'' \<and> c \<noteq> CHR ''e''"
  by (auto simp: digit_char_def num_char_def)

lemma nat_str_chars:
  "list_all num_char (nat_str n)" "CHR ''.'' \<notin> set (nat_str n)" "CHR ''e'' \<notin> set (nat_str n)"
  using nat_str_digits [of n] digit_char_num unfolding list_all_iff by blast+

lemma int_str_chars:
  "list_all num_char (int_str n)" "CHR ''.'' \<notin> set (int_str n)" "CHR ''e'' \<notin> set (int_str n)"
  by (simp_all add: int_str_def nat_str_chars num_char_def)

lemma int_str_inj: "int_str m = int_str n \<Longrightarrow> m = n"
proof -
  have "nat_str k \<noteq> CHR ''-'' # s" for k s
    using nat_str_digits [of k] digit_char_num by (cases "nat_str k") auto
  then show "int_str m = int_str n \<Longrightarrow> m = n"
    by (auto simp: int_str_def split: if_splits dest!: nat_str_inj)
      (metis nat_str_inj)+
qed

lemma num_token_unique:
  assumes "list_all num_char t" "list_all num_char t'" "closes r" "closes r'" "t @ r = t' @ r'"
  shows "t = t' \<and> r = r'"
proof -
  have n: "takeWhile num_char (u @ q) = u" if "list_all num_char u" "closes q" for u q
  proof -
    have "takeWhile num_char q = []"
      using that(2) by (cases q) (auto simp: closes_def num_char_def)
    with that(1) show ?thesis by (simp add: takeWhile_append list_all_iff)
  qed
  have "t = t'" using n [OF assms(1,3)] n [OF assms(2,4)] assms(5) by metis
  with assms(5) show ?thesis by simp
qed


text \<open>How a value's text starts tells its kind.\<close>

lemma nat_str_hd: "digit_char (hd (nat_str n))"
  using nat_str_digits [of n] by (cases "nat_str n") auto

lemma int_str_hd: "hd (int_str n) = CHR ''-'' \<or> digit_char (hd (int_str n))"
  by (simp add: int_str_def nat_str_hd)

lemma int_str_ne: "int_str n \<noteq> []"
  using nat_str_digits by (simp add: int_str_def)

lemma render_start:
  assumes "frepr_ok frepr (json_floats v)"
  shows "\<exists>c s. render frepr v = c # s \<and>
     (case v of JNull \<Rightarrow> c = CHR ''n'' | JBool b \<Rightarrow> c = (if b then CHR ''t'' else CHR ''f'')
      | JInt n \<Rightarrow> num_char c | JFloat x \<Rightarrow> num_char c | JStr t \<Rightarrow> c = CHR 0x22
      | JArr vs \<Rightarrow> c = CHR ''['' | JObj kvs \<Rightarrow> c = CHR ''{'')"
proof (cases v)
  case (JInt n)
  then show ?thesis
    using int_str_ne [of n] int_str_chars(1) [of n] by (cases "int_str n") auto
next
  case (JFloat x)
  with assms have "list_all num_char (frepr x)" "frepr x \<noteq> []" by (auto simp: frepr_ok_def)
  with JFloat show ?thesis by (cases "frepr x") auto
qed (simp_all add: quote_str_def)

lemma num_char_kinds:
  "\<not> num_char (CHR ''n'')" "\<not> num_char (CHR ''t'')" "\<not> num_char (CHR ''f'')"
  "\<not> num_char (CHR 0x22)" "\<not> num_char (CHR ''['')" "\<not> num_char (CHR ''{'')"
  "\<not> num_char (CHR '']'')" "\<not> num_char (CHR ''}'')"
  by (simp_all add: num_char_def)

lemma render_not_closing:
  assumes "frepr_ok frepr (json_floats v)"
  shows "render frepr v @ r \<noteq> CHR '']'' # r'"
  using render_start [OF assms] num_char_kinds by (cases v) auto


lemma join_str_Cons:
  "join_str '','' (x # xs) = x @ (if xs = [] then [] else CHR '','' # join_str '','' xs)"
  by (cases xs) simp_all

lemma join_unique:
  assumes uniq: "\<And>x y r r'. x \<in> set xs \<Longrightarrow> y \<in> set ys \<Longrightarrow> closes r \<Longrightarrow> closes r' \<Longrightarrow>
      f x @ r = f y @ r' \<Longrightarrow> x = y \<and> r = r'"
    and start: "\<And>x r r'. x \<in> set xs \<union> set ys \<Longrightarrow> f x @ r \<noteq> d # r'"
    and d: "d = CHR '']'' \<or> d = CHR ''}''"
    and eq: "join_str '','' (map f xs) @ d # r = join_str '','' (map f ys) @ d # r'"
  shows "xs = ys \<and> r = r'"
  using uniq start eq
proof (induction xs arbitrary: ys)
  case Nil
  then show ?case
    by (cases ys) (auto simp: join_str_Cons dest: sym)
next
  case (Cons x xs)
  show ?case
  proof (cases ys)
    case Nil
    with Cons.prems(2) [of x] Cons.prems(3) show ?thesis by (auto simp: join_str_Cons)
  next
    case (Cons y ys')
    let ?t = "\<lambda>zs q. if zs = [] then d # q else CHR '','' # join_str '','' (map f zs) @ d # q"
    have "f x @ ?t xs r = f y @ ?t ys' r'"
      using Cons.prems(3) Cons by (simp add: join_str_Cons split: if_splits)
    moreover have "closes (?t zs q)" for zs q using d by auto
    ultimately have "x = y" and t: "?t xs r = ?t ys' r'"
      using Cons.prems(1) [of x y "?t xs r" "?t ys' r'"] Cons by auto
    have "xs = ys' \<and> r = r'"
    proof (cases "xs = [] \<or> ys' = []")
      case True
      with t d show ?thesis by (auto split: if_splits)
    next
      case False
      with t have "join_str '','' (map f xs) @ d # r = join_str '','' (map f ys') @ d # r'" by simp
      then show ?thesis
        by (intro Cons.IH) (use Cons.prems(1,2) Cons in auto)
    qed
    with \<open>x = y\<close> Cons show ?thesis by simp
  qed
qed

lemma frepr_ok_subset: "frepr_ok frepr F \<Longrightarrow> G \<subseteq> F \<Longrightarrow> frepr_ok frepr G"
  by (auto simp: frepr_ok_def intro: inj_on_subset)

lemma json_floats_Arr_member: "v \<in> set vs \<Longrightarrow> json_floats v \<subseteq> json_floats (JArr vs)"
  by auto

lemma json_floats_Obj_member: "(k, v) \<in> set kvs \<Longrightarrow> json_floats v \<subseteq> json_floats (JObj kvs)"
  by (force simp: map_prod_def)

lemma render_Obj_alt:
  "render frepr (JObj kvs) =
     ''{'' @ join_str '','' (map (\<lambda>kv. quote_str (fst kv) @ '':'' @ render frepr (snd kv)) kvs) @ ''}''"
  by (simp add: comp_def case_prod_beta)

lemma render_kind:
  assumes "frepr_ok frepr (json_floats v \<union> json_floats w)" and "render frepr v @ r = render frepr w @ r'"
  shows "case v of JNull \<Rightarrow> w = JNull | JBool b \<Rightarrow> w = JBool b
      | JInt n \<Rightarrow> (\<exists>m. w = JInt m) \<or> (\<exists>x. w = JFloat x)
      | JFloat x \<Rightarrow> (\<exists>m. w = JInt m) \<or> (\<exists>x. w = JFloat x)
      | JStr s \<Rightarrow> (\<exists>t. w = JStr t) | JArr vs \<Rightarrow> (\<exists>ws. w = JArr ws) | JObj kvs \<Rightarrow> (\<exists>kws. w = JObj kws)"
proof -
  have "frepr_ok frepr (json_floats v)" "frepr_ok frepr (json_floats w)"
    using assms(1) by (auto intro: frepr_ok_subset)
  from this [THEN render_start] assms(2) show ?thesis
    by (cases v; cases w) (auto simp: num_char_kinds split: if_splits)
qed

lemma render_num_unique:
  assumes "frepr_ok frepr (json_floats v \<union> json_floats w)" "closes r" "closes r'"
    and "render frepr v @ r = render frepr w @ r'"
    and "v = JInt m \<or> v = JFloat x" "w = JInt n \<or> w = JFloat y"
  shows "v = w \<and> r = r'"
proof -
  have t: "list_all num_char (render frepr v)" "list_all num_char (render frepr w)"
    using assms(1,5,6) int_str_chars(1) by (auto simp: frepr_ok_def)
  have e: "render frepr v = render frepr w \<and> r = r'"
    by (rule num_token_unique [OF t assms(2,3,4)])
  have "\<exists>c\<in>set (frepr z). c \<in> set ''.e''" if "z \<in> json_floats v \<union> json_floats w" for z
    using assms(1) that by (auto simp: frepr_ok_def)
  then have "v = w"
    using e assms(1,5,6) int_str_chars(2,3)
    by (auto dest: int_str_inj inj_onD simp: frepr_ok_def) metis+
  with e show ?thesis by simp
qed

theorem render_unique:
  assumes "frepr_ok frepr (json_floats v \<union> json_floats w)" "closes r" "closes r'"
    and "render frepr v @ r = render frepr w @ r'"
  shows "v = w \<and> r = r'"
  using assms
proof (induction v arbitrary: w r r' rule: json_obj_induct)
  case (Arr vs)
  from render_kind [OF Arr.prems(1,4)] obtain ws where w: "w = JArr ws" by auto
  have ok: "frepr_ok frepr (json_floats x \<union> json_floats y)" if "x \<in> set vs" "y \<in> set ws" for x y
    using Arr.prems(1) that w by (elim frepr_ok_subset) auto
  have ok1: "frepr_ok frepr (json_floats x)" if "x \<in> set vs \<union> set ws" for x
    using Arr.prems(1) that w by (elim frepr_ok_subset) auto
  have "vs = ws \<and> r = r'"
  proof (rule join_unique [where f = "render frepr" and d = "CHR '']''"])
    fix x y t t'
    assume "x \<in> set vs" "y \<in> set ws" "closes t" "closes t'" "render frepr x @ t = render frepr y @ t'"
    then show "x = y \<and> t = t'" using Arr.IH ok by blast
  next
    fix x t t' assume "x \<in> set vs \<union> set ws"
    then show "render frepr x @ t \<noteq> CHR '']'' # t'" by (rule render_not_closing [OF ok1])
  next
    show "join_str '','' (map (render frepr) vs) @ CHR '']'' # r
        = join_str '','' (map (render frepr) ws) @ CHR '']'' # r'"
      using Arr.prems(4) w by simp
  qed simp
  with w show ?case by simp
next
  case (Obj kvs)
  from render_kind [OF Obj.prems(1,4)] obtain kws where w: "w = JObj kws" by auto
  let ?f = "\<lambda>kv. quote_str (fst kv) @ '':'' @ render frepr (snd kv)"
  have ok: "frepr_ok frepr (json_floats (snd p) \<union> json_floats (snd q))"
    if "p \<in> set kvs" "q \<in> set kws" for p q
    using Obj.prems(1) that w json_floats_Obj_member [of "fst p" "snd p" kvs]
      json_floats_Obj_member [of "fst q" "snd q" kws]
    by (elim frepr_ok_subset) (auto simp del: json_floats.simps)
  have "kvs = kws \<and> r = r'"
  proof (rule join_unique [where f = ?f and d = "CHR ''}''"])
    fix p q t t'
    assume pq: "p \<in> set kvs" "q \<in> set kws" "closes t" "closes t'" "?f p @ t = ?f q @ t'"
    then have "fst p = fst q" and "render frepr (snd p) @ t = render frepr (snd q) @ t'"
      using quote_str_prefix_free [of "fst p" "'':'' @ render frepr (snd p) @ t"
          "fst q" "'':'' @ render frepr (snd q) @ t'"] by auto
    moreover have "(fst p, snd p) \<in> set kvs" using pq by simp
    with Obj.IH ok [OF pq(1,2)] pq(3,4) calculation(2) have "snd p = snd q \<and> t = t'" by blast
    ultimately show "p = q \<and> t = t'" by (simp add: prod_eq_iff)
  next
    show "join_str '','' (map ?f kvs) @ CHR ''}'' # r = join_str '','' (map ?f kws) @ CHR ''}'' # r'"
      using Obj.prems(4) w unfolding w render_Obj_alt by simp
  qed (simp_all add: quote_str_def)
  with w show ?case by simp
next
  case (Str s)
  from render_kind [OF Str.prems(1,4)] obtain t where "w = JStr t" by auto
  with Str.prems(4) quote_str_prefix_free [of s r t r'] show ?case by simp
next
  case (Int n)
  with render_kind [OF Int.prems(1,4)] render_num_unique [OF Int.prems] show ?case by auto
next
  case (Float x)
  with render_kind [OF Float.prems(1,4)] render_num_unique [OF Float.prems] show ?case by auto
next
  case Null
  with render_kind [OF Null.prems(1,4)] show ?case by auto
next
  case (Bool b)
  with render_kind [OF Bool.prems(1,4)] show ?case by auto
qed

lemma json_floats_sort_keys [simp]: "json_floats (sort_keys v) = json_floats v"
proof (induction v rule: json_obj_induct)
  case (Obj kvs)
  then show ?case by (force simp: image_iff)
qed auto


lemma canonical_json_unique:
  assumes "frepr_ok frepr (json_floats v \<union> json_floats w)"
  shows "canonical_json frepr v = canonical_json frepr w \<longleftrightarrow> sort_keys v = sort_keys w"
proof
  assume "canonical_json frepr v = canonical_json frepr w"
  with assms show "sort_keys v = sort_keys w"
    using render_unique [of frepr "sort_keys v" "sort_keys w" "[]" "[]"]
    by (simp add: canonical_json_def)
qed (simp add: canonical_json_def)

text \<open>
  C31. Canonical JSON is a faithful identity: two values have the same canonical text exactly when
  they are equal up to the insertion order of their objects (\<open>_sort_keys\<close>), given that \<open>repr\<close>
  tells the floats that occur in them apart.
\<close>

theorem canonical_json_identity:
  assumes "frepr_ok frepr (json_floats v \<union> json_floats w)"
  shows "canonical_json frepr v = canonical_json frepr w \<longleftrightarrow> sort_keys v = sort_keys w"
  using assms by (rule canonical_json_unique)

theorem canonical_json_identity_witness:
  "frepr_ok (\<lambda>x. if x = 1 / 2 then ''0.5'' else ''0.25'')
     (json_floats (JObj [(''b'', JFloat (1 / 2)), (''a'', JNull)])
      \<union> json_floats (JObj [(''a'', JNull), (''b'', JFloat (1 / 4))]))
   \<and> canonical_json (\<lambda>x. if x = 1 / 2 then ''0.5'' else ''0.25'')
        (JObj [(''b'', JFloat (1 / 2)), (''a'', JNull)])
      \<noteq> canonical_json (\<lambda>x. if x = 1 / 2 then ''0.5'' else ''0.25'')
        (JObj [(''a'', JNull), (''b'', JFloat (1 / 4))])"
proof -
  let ?f = "\<lambda>x::real. if x = 1 / 2 then ''0.5'' else ''0.25''"
  have ok: "frepr_ok ?f
     (json_floats (JObj [(''b'', JFloat (1 / 2)), (''a'', JNull)])
      \<union> json_floats (JObj [(''a'', JNull), (''b'', JFloat (1 / 4))]))"
    by (simp add: frepr_ok_def num_char_def)
  show ?thesis using ok canonical_json_identity [OF ok] by simp
qed

end
