(* ===== verification/Events.thy ===== *)
theory Events
  imports Json
begin

text \<open>
  The event schema of \<open>src/tracewake/events.py\<close>: the pydantic models as records, the event union
  as a datatype, the canonical bytes of an event, the hashes that identify requests, the stream
  check of a model call, the deterministic order of a run and its digest.

  \<open>hashlib.sha256\<close>, \<open>repr\<close> of a float and \<open>repr\<close> of a JSON value are the fields of the
  environment \<open>py_env\<close>, an argument of every definition that uses them.
\<close>

record py_env =
  sha256 :: "string \<Rightarrow> string"
  frepr :: "real \<Rightarrow> string"
  crepr :: "json \<Rightarrow> string"
  udigit :: "string \<Rightarrow> nat option"

section \<open>Models\<close>

definition EVENT_SCHEMA_VERSION :: int where
  "EVENT_SCHEMA_VERSION = 3"

definition sha256_hex :: "py_env \<Rightarrow> string \<Rightarrow> string" where
  "sha256_hex env data = sha256 env data"

record blob_ref =
  digest :: string
  blob_size :: int

definition blob_ref_ok :: "blob_ref \<Rightarrow> bool" where
  "blob_ref_ok b \<longleftrightarrow> is_digest (digest b) \<and> 0 \<le> blob_size b"

record event_meta =
  recorded_at :: real
  duration_ms :: "real option"
  chunk_offsets_ms :: "real list option"

datatype role = RSystem | RUser | RAssistant | RTool

fun role_str :: "role \<Rightarrow> string" where
  "role_str RSystem = ''system''"
| "role_str RUser = ''user''"
| "role_str RAssistant = ''assistant''"
| "role_str RTool = ''tool''"

record message =
  role :: role
  msg_content :: string
  msg_tool_call_id :: "string option"
  provenance :: "string option"

record decode_params =
  temperature :: "real option"
  top_p :: "real option"
  max_tokens :: "int option"
  stop_words :: "string list option"
  seed :: "int option"

record model_identity =
  id_provider :: string
  id_model_id :: string
  id_model_version :: "string option"

record tool_call_request =
  req_id :: string
  req_name :: string
  req_args :: jobject
  req_batch_index :: int

record usage =
  input_tokens :: int
  output_tokens :: int
  cached_input_tokens :: int

record model_response =
  resp_text :: string
  resp_tool_calls :: "tool_call_request list"
  finish_reason :: string
  resp_usage :: usage
  logprobs :: "json list option"

record stream_chunk =
  chunk_index :: int
  text_delta :: string
  tool_call_delta :: "jobject option"

datatype status = StOk | StError

record tool_outcome =
  out_content :: string
  out_status :: status
  out_error :: "string option"

section \<open>Events\<close>

record model_call_event =
  mc_parent :: "string option"
  mc_tool :: "string option"
  mc_meta :: event_meta
  call_id :: string
  mc_provider :: string
  mc_model_id :: string
  mc_model_version :: "string option"
  mc_params :: decode_params
  mc_tools :: "string list option"
  mc_messages :: "message list"
  messages_hash :: string
  mc_response :: model_response
  mc_stream :: "stream_chunk list option"

record tool_call_event =
  tc_parent :: string
  tc_tool :: string
  tc_meta :: event_meta
  tc_batch_index :: int
  tc_name :: string
  tc_args :: jobject
  tc_args_hash :: string
  tc_result :: blob_ref
  tc_status :: status
  tc_error :: "string option"

datatype env_source = SClock | SMonotonic | SPerfCounter | SRandom | SUuid | SEnv

record environment_event =
  ee_parent :: "string option"
  ee_tool :: "string option"
  ee_meta :: event_meta
  ee_source :: env_source
  ee_key :: "string option"
  ee_value :: json

datatype read_kind = KContent | KListing | KExists

record fs_read_event =
  fr_parent :: "string option"
  fr_tool :: "string option"
  fr_meta :: event_meta
  fr_path :: string
  fr_kind :: read_kind
  fr_exists :: bool
  fr_content :: "blob_ref option"

record fs_write_event =
  fw_parent :: "string option"
  fw_tool :: "string option"
  fw_meta :: event_meta
  fw_path :: string
  fw_content :: blob_ref

record outcome_event =
  oc_parent :: "string option"
  oc_tool :: "string option"
  oc_meta :: event_meta
  oc_status :: status
  oc_error :: "string option"
  oc_usage :: usage
  oc_coverage :: "bool option"
  oc_resolve :: "bool option"
  oc_patch :: "blob_ref option"
  oc_test_summary :: "string option"

record intervention_event =
  ie_parent :: "string option"
  ie_tool :: "string option"
  ie_meta :: event_meta
  ie_source_run_id :: string
  ie_drop_tags :: "string list"
  ie_from_turn :: int

datatype any_event =
    ModelCall model_call_event
  | ToolCall tool_call_event
  | Environment environment_event
  | FsRead fs_read_event
  | FsWrite fs_write_event
  | Outcome outcome_event
  | InterventionMark intervention_event

fun parent_call_id :: "any_event \<Rightarrow> string option" where
  "parent_call_id (ModelCall e) = mc_parent e"
| "parent_call_id (ToolCall e) = Some (tc_parent e)"
| "parent_call_id (Environment e) = ee_parent e"
| "parent_call_id (FsRead e) = fr_parent e"
| "parent_call_id (FsWrite e) = fw_parent e"
| "parent_call_id (Outcome e) = oc_parent e"
| "parent_call_id (InterventionMark e) = ie_parent e"

fun tool_call_id :: "any_event \<Rightarrow> string option" where
  "tool_call_id (ModelCall e) = mc_tool e"
| "tool_call_id (ToolCall e) = Some (tc_tool e)"
| "tool_call_id (Environment e) = ee_tool e"
| "tool_call_id (FsRead e) = fr_tool e"
| "tool_call_id (FsWrite e) = fw_tool e"
| "tool_call_id (Outcome e) = oc_tool e"
| "tool_call_id (InterventionMark e) = ie_tool e"

fun meta_of :: "any_event \<Rightarrow> event_meta" where
  "meta_of (ModelCall e) = mc_meta e"
| "meta_of (ToolCall e) = tc_meta e"
| "meta_of (Environment e) = ee_meta e"
| "meta_of (FsRead e) = fr_meta e"
| "meta_of (FsWrite e) = fw_meta e"
| "meta_of (Outcome e) = oc_meta e"
| "meta_of (InterventionMark e) = ie_meta e"

fun event_type :: "any_event \<Rightarrow> string" where
  "event_type (ModelCall _) = ''model_call''"
| "event_type (ToolCall _) = ''tool_call''"
| "event_type (Environment _) = ''environment''"
| "event_type (FsRead _) = ''fs_read''"
| "event_type (FsWrite _) = ''fs_write''"
| "event_type (Outcome _) = ''outcome''"
| "event_type (InterventionMark _) = ''intervention''"

fun is_model_call :: "any_event \<Rightarrow> bool" where
  "is_model_call (ModelCall _) = True"
| "is_model_call _ = False"

section \<open>Dumps\<close>

text \<open>\<open>model_dump(mode="json")\<close> of each model: its fields as a JSON object.\<close>

definition jopt :: "('a \<Rightarrow> json) \<Rightarrow> 'a option \<Rightarrow> json" where
  "jopt f x = (case x of None \<Rightarrow> JNull | Some y \<Rightarrow> f y)"

definition jstrs :: "string list \<Rightarrow> json" where
  "jstrs ss = JArr (map JStr ss)"

definition dump_blob_ref :: "blob_ref \<Rightarrow> json" where
  "dump_blob_ref b = JObj [(''digest'', JStr (digest b)), (''size'', JInt (blob_size b))]"

definition dump_request_message :: "message \<Rightarrow> json" where
  "dump_request_message m =
     JObj [(''role'', JStr (role_str (role m))), (''content'', JStr (msg_content m)),
           (''tool_call_id'', jopt JStr (msg_tool_call_id m))]"

definition dump_message :: "message \<Rightarrow> json" where
  "dump_message m =
     JObj [(''role'', JStr (role_str (role m))), (''content'', JStr (msg_content m)),
           (''tool_call_id'', jopt JStr (msg_tool_call_id m)),
           (''provenance'', jopt JStr (provenance m))]"

definition dump_params :: "decode_params \<Rightarrow> json" where
  "dump_params p =
     JObj [(''temperature'', jopt JFloat (temperature p)), (''top_p'', jopt JFloat (top_p p)),
           (''max_tokens'', jopt JInt (max_tokens p)), (''stop'', jopt jstrs (stop_words p)),
           (''seed'', jopt JInt (seed p))]"

definition dump_request :: "tool_call_request \<Rightarrow> json" where
  "dump_request t =
     JObj [(''id'', JStr (req_id t)), (''name'', JStr (req_name t)), (''args'', JObj (req_args t)),
           (''batch_index'', JInt (req_batch_index t))]"

definition dump_usage :: "usage \<Rightarrow> json" where
  "dump_usage u =
     JObj [(''input_tokens'', JInt (input_tokens u)), (''output_tokens'', JInt (output_tokens u)),
           (''cached_input_tokens'', JInt (cached_input_tokens u))]"

definition dump_response :: "model_response \<Rightarrow> json" where
  "dump_response r =
     JObj [(''text'', JStr (resp_text r)), (''tool_calls'', JArr (map dump_request (resp_tool_calls r))),
           (''finish_reason'', JStr (finish_reason r)), (''usage'', dump_usage (resp_usage r)),
           (''logprobs'', jopt JArr (logprobs r))]"

definition dump_chunk :: "stream_chunk \<Rightarrow> json" where
  "dump_chunk c =
     JObj [(''index'', JInt (chunk_index c)), (''text_delta'', JStr (text_delta c)),
           (''tool_call_delta'', jopt JObj (tool_call_delta c))]"

definition dump_stream :: "stream_chunk list \<Rightarrow> json" where
  "dump_stream cs = JObj [(''chunks'', JArr (map dump_chunk cs))]"

fun status_str :: "status \<Rightarrow> string" where
  "status_str StOk = ''ok''"
| "status_str StError = ''error''"

fun source_str :: "env_source \<Rightarrow> string" where
  "source_str SClock = ''clock''"
| "source_str SMonotonic = ''monotonic''"
| "source_str SPerfCounter = ''perf_counter''"
| "source_str SRandom = ''random''"
| "source_str SUuid = ''uuid''"
| "source_str SEnv = ''env''"

fun kind_str :: "read_kind \<Rightarrow> string" where
  "kind_str KContent = ''content''"
| "kind_str KListing = ''listing''"
| "kind_str KExists = ''exists''"

text \<open>\<open>model_dump(mode="json", exclude={"meta"})\<close> of an event.\<close>

definition dump_base :: "any_event \<Rightarrow> jobject" where
  "dump_base e =
     [(''type'', JStr (event_type e)), (''parent_call_id'', jopt JStr (parent_call_id e)),
      (''tool_call_id'', jopt JStr (tool_call_id e))]"

fun dump_fields :: "any_event \<Rightarrow> jobject" where
  "dump_fields (ModelCall e) =
     [(''call_id'', JStr (call_id e)), (''provider'', JStr (mc_provider e)),
      (''model_id'', JStr (mc_model_id e)), (''model_version'', jopt JStr (mc_model_version e)),
      (''params'', dump_params (mc_params e)), (''tools'', jopt jstrs (mc_tools e)),
      (''messages'', JArr (map dump_message (mc_messages e))),
      (''messages_hash'', JStr (messages_hash e)), (''response'', dump_response (mc_response e)),
      (''stream'', jopt dump_stream (mc_stream e))]"
| "dump_fields (ToolCall e) =
     [(''batch_index'', JInt (tc_batch_index e)), (''name'', JStr (tc_name e)),
      (''args'', JObj (tc_args e)), (''args_hash'', JStr (tc_args_hash e)),
      (''result'', dump_blob_ref (tc_result e)), (''status'', JStr (status_str (tc_status e))),
      (''error'', jopt JStr (tc_error e))]"
| "dump_fields (Environment e) =
     [(''source'', JStr (source_str (ee_source e))), (''key'', jopt JStr (ee_key e)),
      (''value'', ee_value e)]"
| "dump_fields (FsRead e) =
     [(''path'', JStr (fr_path e)), (''kind'', JStr (kind_str (fr_kind e))),
      (''exists'', JBool (fr_exists e)), (''content'', jopt dump_blob_ref (fr_content e))]"
| "dump_fields (FsWrite e) =
     [(''path'', JStr (fw_path e)), (''content'', dump_blob_ref (fw_content e))]"
| "dump_fields (Outcome e) =
     [(''status'', JStr (status_str (oc_status e))), (''error'', jopt JStr (oc_error e)),
      (''usage'', dump_usage (oc_usage e)), (''coverage'', jopt JBool (oc_coverage e)),
      (''resolve'', jopt JBool (oc_resolve e)), (''patch'', jopt dump_blob_ref (oc_patch e)),
      (''test_summary'', jopt JStr (oc_test_summary e))]"
| "dump_fields (InterventionMark e) =
     [(''source_run_id'', JStr (ie_source_run_id e)), (''drop_tags'', jstrs (ie_drop_tags e)),
      (''from_turn'', JInt (ie_from_turn e))]"

definition dump_event :: "any_event \<Rightarrow> json" where
  "dump_event e = JObj (dump_base e @ dump_fields e)"

definition canonical_bytes :: "py_env \<Rightarrow> any_event \<Rightarrow> string" where
  "canonical_bytes env e = canonical_json (frepr env) (dump_event e)"

section \<open>Hashes\<close>

definition hash_messages :: "py_env \<Rightarrow> message list \<Rightarrow> string" where
  "hash_messages env ms =
     sha256_hex env (canonical_json (frepr env) (JArr (map dump_request_message ms)))"

definition hash_args :: "py_env \<Rightarrow> jobject \<Rightarrow> string" where
  "hash_args env args = sha256_hex env (canonical_json (frepr env) (JObj args))"

section \<open>The stream check\<close>

text \<open>\<open>str(value)\<close> of a JSON value.\<close>

fun py_str :: "py_env \<Rightarrow> json \<Rightarrow> string" where
  "py_str env (JStr s) = s"
| "py_str env (JInt n) = int_str n"
| "py_str env (JBool b) = (if b then ''True'' else ''False'')"
| "py_str env JNull = ''None''"
| "py_str env (JFloat x) = frepr env x"
| "py_str env v = crepr env v"

definition delta_ids :: "py_env \<Rightarrow> stream_chunk list \<Rightarrow> string list" where
  "delta_ids env cs =
     List.map_filter
       (\<lambda>c. case tool_call_delta c of None \<Rightarrow> None | Some d \<Rightarrow> map_option (py_str env) (map_of d ''id''))
       cs"

definition stream_reassembles :: "py_env \<Rightarrow> model_call_event \<Rightarrow> model_call_event res" where
  "stream_reassembles env e =
     (case mc_stream e of
        None \<Rightarrow> Inr e
      | Some chunks \<Rightarrow>
          if concat (map text_delta chunks) \<noteq> resp_text (mc_response e) then Inl ValueError
          else
            let ids = delta_ids env chunks in
            if ids \<noteq> [] \<and> sort ids \<noteq> sort (map req_id (resp_tool_calls (mc_response e)))
            then Inl ValueError
            else Inr e)"

section \<open>Runs\<close>

datatype run_status = Running | Ended status

record run_header =
  hdr_run_id :: string
  hdr_name :: string
  started_at :: real
  finished_at :: "real option"
  hdr_status :: run_status
  schema_version :: int
  hdr_models :: "model_identity list"
  command :: "string list option"
  redacted :: bool
  task_id :: "string option"

record stored_event =
  se_run_id :: string
  seq :: int
  event :: any_event

section \<open>Canonical order\<close>

definition seq_of_call :: "stored_event list \<Rightarrow> string \<rightharpoonup> int" where
  "seq_of_call es =
     dict_of (List.map_filter
       (\<lambda>e. case event e of ModelCall m \<Rightarrow> Some (call_id m, seq e) | _ \<Rightarrow> None) es)"

definition batch_of_tool :: "stored_event list \<Rightarrow> string \<rightharpoonup> int" where
  "batch_of_tool es =
     dict_of (List.map_filter
       (\<lambda>e. case event e of ToolCall t \<Rightarrow> Some (tc_tool t, tc_batch_index t) | _ \<Rightarrow> None) es)"

text \<open>\<open>table.get(key, default) if key else default\<close> for an optional key.\<close>

definition get_or :: "(string \<rightharpoonup> int) \<Rightarrow> string option \<Rightarrow> int \<Rightarrow> int" where
  "get_or table key dflt =
     (if truthy key then (case table (the key) of Some n \<Rightarrow> n | None \<Rightarrow> dflt) else dflt)"

definition order_key :: "stored_event list \<Rightarrow> stored_event \<Rightarrow> int \<times> int \<times> int \<times> int \<times> int" where
  "order_key es e =
     (case event e of
        ModelCall m \<Rightarrow> (seq e, 0, 0, 0, 0)
      | ToolCall t \<Rightarrow>
          (get_or (seq_of_call es) (parent_call_id (event e)) (seq e), 1, tc_batch_index t, 1, seq e)
      | _ \<Rightarrow>
          (get_or (seq_of_call es) (parent_call_id (event e)) (seq e), 1,
           get_or (batch_of_tool es) (tool_call_id (event e)) (-1), 0, seq e))"

definition canonical_order :: "stored_event list \<Rightarrow> stored_event list" where
  "canonical_order es = sort_key (order_key es) es"

definition run_digest :: "py_env \<Rightarrow> stored_event list \<Rightarrow> string" where
  "run_digest env es =
     sha256_hex env
       (concat (map (\<lambda>e. canonical_bytes env (event e) @ [CHR 0x0A]) (canonical_order es)))"


section \<open>The canonical order does not see completion order\<close>

lemma mset_canonical_order [simp]: "mset (canonical_order es) = mset es"
  by (simp add: canonical_order_def)

lemma set_canonical_order [simp]: "set (canonical_order es) = set es"
  by (simp add: canonical_order_def)

lemma sorted_canonical_order: "sorted (map (order_key es) (canonical_order es))"
  by (simp add: canonical_order_def)

text \<open>The position of an event inside its parent's batch, as the sort key uses it.\<close>

definition batch_pos :: "stored_event list \<Rightarrow> stored_event \<Rightarrow> int" where
  "batch_pos es e =
     (case event e of
        ToolCall t \<Rightarrow> tc_batch_index t
      | ev \<Rightarrow> get_or (batch_of_tool es) (tool_call_id ev) (-1))"

lemma order_key_model_call: "is_model_call (event e) \<Longrightarrow> order_key es e = (seq e, 0, 0, 0, 0)"
  by (cases "event e") (simp_all add: order_key_def)

lemma order_key_child:
  "\<not> is_model_call (event e) \<Longrightarrow> \<exists>f.
     order_key es e = (get_or (seq_of_call es) (parent_call_id (event e)) (seq e), 1,
       batch_pos es e, f, seq e) \<and> f = (case event e of ToolCall t \<Rightarrow> 1 | _ \<Rightarrow> 0)"
  by (cases "event e") (simp_all add: order_key_def batch_pos_def)

lemma order_key_shape:
  "order_key es e = (seq e, 0, 0, 0, 0) \<or> (\<exists>g p f. order_key es e = (g, 1, p, f, seq e))"
  using order_key_model_call [of e es] order_key_child [of e es]
  by (cases "is_model_call (event e)") auto

lemma inj_on_order_key:
  assumes "distinct (map seq es)" shows "inj_on (order_key fs) (set es)"
proof (rule inj_onI)
  fix x y assume "x \<in> set es" "y \<in> set es" "order_key fs x = order_key fs y"
  moreover from this have "seq x = seq y"
    using order_key_shape [of fs x] order_key_shape [of fs y] by auto
  ultimately show "x = y" using assms by (auto simp: distinct_map dest: inj_onD)
qed

text \<open>
  One exchange of completion order: two consecutive appends made under the same recorded model
  call, by different tools at different batch positions, arrive the other way round.
\<close>

inductive batch_swap :: "stored_event list \<Rightarrow> stored_event list \<Rightarrow> bool" where
  swap: "\<lbrakk>es = xs @ [a, b] @ ys; \<not> is_model_call (event a); \<not> is_model_call (event b);
     parent_call_id (event a) = Some p; parent_call_id (event b) = Some p;
     p \<noteq> []; p \<in> dom (seq_of_call es);
     batch_pos es a \<noteq> batch_pos es b; tool_call_id (event a) \<noteq> tool_call_id (event b);
     seq b = seq a + 1; distinct (map seq es)\<rbrakk> \<Longrightarrow>
     batch_swap es (xs @ [b\<lparr>seq := seq a\<rparr>, a\<lparr>seq := seq b\<rparr>] @ ys)"

lemma seq_of_call_swap:
  assumes "\<not> is_model_call (event a)" "\<not> is_model_call (event b)"
  shows "seq_of_call (xs @ [b\<lparr>seq := s\<rparr>, a\<lparr>seq := t\<rparr>] @ ys) = seq_of_call (xs @ [a, b] @ ys)"
  using assms by (cases "event a"; cases "event b") (simp_all add: seq_of_call_def map_filter_def)

lemma batch_of_tool_swap:
  assumes "tool_call_id (event a) \<noteq> tool_call_id (event b)"
  shows "batch_of_tool (xs @ [b\<lparr>seq := s\<rparr>, a\<lparr>seq := t\<rparr>] @ ys) = batch_of_tool (xs @ [a, b] @ ys)"
  using assms
  by (cases "event a"; cases "event b")
    (simp_all add: batch_of_tool_def map_filter_def, rule dict_of_swap [simplified], auto)

lemma order_key_cong:
  "seq_of_call es = seq_of_call fs \<Longrightarrow> batch_of_tool es = batch_of_tool fs \<Longrightarrow>
   order_key es = order_key fs"
  by (rule ext) (simp add: order_key_def split: any_event.split)

lemma batch_swap_canonical_order:
  assumes "batch_swap es es'"
  shows "map event (canonical_order es') = map event (canonical_order es)"
  using assms
proof cases
  case (swap xs a b ys p)
  define a' b' where "a' = a\<lparr>seq := seq b\<rparr>" and "b' = b\<lparr>seq := seq a\<rparr>"
  define pi where "pi e = (if e = a then a' else if e = b then b' else e)" for e
  let ?K = "order_key es"
  note es = swap(2) and es' = swap(1)
  have K': "order_key es' = ?K"
    unfolding es es' by (intro order_key_cong seq_of_call_swap batch_of_tool_swap) (rule swap)+
  have ab: "a \<noteq> b" using swap(11) by auto
  have out: "seq e \<noteq> seq a \<and> seq e \<noteq> seq b \<and> pi e = e" if "e \<in> set xs \<union> set ys" for e
    using that swap(12) es by (auto simp: pi_def image_iff)
  have tab: "truthy (Some p)" "seq_of_call es p \<noteq> None"
    using swap(7,8) by (auto simp: truthy_def)
  obtain g fa fb where
    Ka: "?K a = (g, 1, batch_pos es a, fa, seq a)" "?K a' = (g, 1, batch_pos es a, fa, seq b)" and
    Kb: "?K b = (g, 1, batch_pos es b, fb, seq b)" "?K b' = (g, 1, batch_pos es b, fb, seq a)"
    using order_key_child [of a es] order_key_child [of b es] order_key_child [of a' es]
      order_key_child [of b' es] swap(3-6) tab
    by (auto simp: a'_def b'_def get_or_def batch_pos_def split: option.splits)
  have mono: "?K (pi x) \<le> ?K (pi y)" if "x \<in> set es" "y \<in> set es" "?K x \<le> ?K y" for x y
  proof -
    have "x = a \<or> x = b \<or> x \<in> set xs \<union> set ys" "y = a \<or> y = b \<or> y \<in> set xs \<union> set ys"
      using that(1,2) es by auto
    then show ?thesis
      using that(3) out [of x] out [of y] order_key_shape [of es x] order_key_shape [of es y]
        Ka Kb ab swap(9,11)
      by (elim disjE exE) (auto simp: pi_def)
  qed
  have "sort_key ?K es' = map pi (sort_key ?K es)"
  proof (rule sort_key_eqI)
    have "map pi xs = xs" "map pi ys = ys" using out by (auto intro: map_idI)
    moreover have "pi a = a'" "pi b = b'" using ab by (auto simp: pi_def)
    ultimately have "mset (map pi es) = mset es'" using es es' a'_def b'_def by simp
    then show "mset (map pi (sort_key ?K es)) = mset es'" by simp
    have "sorted_wrt (\<lambda>x y. ?K x \<le> ?K y) (sort_key ?K es)"
      using sorted_sort_key [of ?K es] by (simp add: sorted_map)
    then have "sorted_wrt (\<lambda>x y. ?K (pi x) \<le> ?K (pi y)) (sort_key ?K es)"
      by (rule sorted_wrt_mono_rel [rotated]) (simp add: mono)
    then show "sorted (map ?K (map pi (sort_key ?K es)))" by (simp add: sorted_map)
    show "inj_on ?K (set es')"
      by (rule inj_on_order_key) (use swap(11,12) es es' in auto)
  qed
  moreover have "event (pi e) = event e" for e by (simp add: pi_def a'_def b'_def)
  ultimately show ?thesis by (simp add: canonical_order_def K')
qed

text \<open>
  C5. The completion order of a parallel tool batch is not part of a run's identity: any number of
  exchanges of neighbouring appends made under one recorded model call by different tools leaves
  the canonical sequence of events, and so the run digest, unchanged.
\<close>

theorem run_digest_completion_order:
  assumes "batch_swap\<^sup>*\<^sup>* es es'"
  shows "map event (canonical_order es') = map event (canonical_order es)
    \<and> run_digest env es' = run_digest env es"
proof -
  have o: "map event (canonical_order es') = map event (canonical_order es)"
    using assms by (induction rule: rtranclp_induct) (auto dest: batch_swap_canonical_order)
  have "map (\<lambda>e. canonical_bytes env (event e) @ [CHR 0x0A]) fs
      = map (\<lambda>v. canonical_bytes env v @ [CHR 0x0A]) (map event fs)" for fs by simp
  with o show ?thesis unfolding run_digest_def by (metis (no_types))
qed


text \<open>A small recorded run for the witnesses: one model call and its batch of two tools.\<close>

definition ex_meta :: event_meta where
  "ex_meta = \<lparr>recorded_at = 0, duration_ms = None, chunk_offsets_ms = None\<rparr>"

definition ex_params :: decode_params where
  "ex_params = \<lparr>temperature = None, top_p = None, max_tokens = None, stop_words = None, seed = None\<rparr>"

definition ex_usage :: usage where
  "ex_usage = \<lparr>input_tokens = 3, output_tokens = 2, cached_input_tokens = 0\<rparr>"

definition ex_response :: model_response where
  "ex_response = \<lparr>resp_text = ''go'', resp_tool_calls = [], finish_reason = ''stop'',
     resp_usage = ex_usage, logprobs = None\<rparr>"

definition ex_message :: message where
  "ex_message = \<lparr>role = RUser, msg_content = ''fix'', msg_tool_call_id = None, provenance = None\<rparr>"

definition ex_call :: model_call_event where
  "ex_call = \<lparr>mc_parent = None, mc_tool = None, mc_meta = ex_meta, call_id = ''m'',
     mc_provider = ''acme'', mc_model_id = ''acme-1'', mc_model_version = None,
     mc_params = ex_params, mc_tools = None, mc_messages = [ex_message], messages_hash = ''h'',
     mc_response = ex_response, mc_stream = None\<rparr>"

definition ex_tool :: "string \<Rightarrow> int \<Rightarrow> tool_call_event" where
  "ex_tool t i = \<lparr>tc_parent = ''m'', tc_tool = t, tc_meta = ex_meta, tc_batch_index = i,
     tc_name = ''read'', tc_args = [], tc_args_hash = ''a'',
     tc_result = \<lparr>digest = ''d'', blob_size = 0\<rparr>, tc_status = StOk, tc_error = None\<rparr>"

definition ex_stored :: "int \<Rightarrow> any_event \<Rightarrow> stored_event" where
  "ex_stored n e = \<lparr>se_run_id = ''r'', seq = n, event = e\<rparr>"

lemmas ex_defs = ex_meta_def ex_params_def ex_usage_def ex_response_def ex_message_def ex_call_def
  ex_tool_def ex_stored_def

definition ex_env :: py_env where
  "ex_env = \<lparr>sha256 = (\<lambda>d. d), frepr = (\<lambda>_. ''0.0''), crepr = (\<lambda>_. []), udigit = Map.empty\<rparr>"

definition ex_log :: "stored_event list" where
  "ex_log = [ex_stored 0 (ModelCall ex_call), ex_stored 1 (ToolCall (ex_tool ''t2'' 1)),
     ex_stored 2 (ToolCall (ex_tool ''t1'' 0))]"

definition ex_log' :: "stored_event list" where
  "ex_log' = [ex_stored 0 (ModelCall ex_call), ex_stored 1 (ToolCall (ex_tool ''t1'' 0)),
     ex_stored 2 (ToolCall (ex_tool ''t2'' 1))]"

lemma ex_batch_swap: "batch_swap\<^sup>*\<^sup>* ex_log ex_log'"
proof -
  let ?m = "ex_stored 0 (ModelCall ex_call)"
  let ?a = "ex_stored 1 (ToolCall (ex_tool ''t2'' 1))"
  let ?b = "ex_stored 2 (ToolCall (ex_tool ''t1'' 0))"
  have "batch_swap [?m, ?a, ?b] ([?m] @ [?b\<lparr>seq := seq ?a\<rparr>, ?a\<lparr>seq := seq ?b\<rparr>] @ [])"
    by (rule batch_swap.swap [where p = "''m''"])
      (simp_all add: ex_defs seq_of_call_def batch_pos_def map_filter_def dict_of_def)
  then show ?thesis
    unfolding ex_log_def ex_log'_def by (intro r_into_rtranclp) (simp add: ex_stored_def)
qed

theorem run_digest_completion_order_witness:
  "batch_swap\<^sup>*\<^sup>* ex_log ex_log' \<and> ex_log \<noteq> ex_log'
   \<and> run_digest ex_env ex_log' = run_digest ex_env ex_log"
  using ex_batch_swap run_digest_completion_order [OF ex_batch_swap, of ex_env]
  by (simp add: ex_log_def ex_log'_def ex_stored_def ex_tool_def)


section \<open>Hashes identify requests\<close>

definition messages_payload :: "py_env \<Rightarrow> message list \<Rightarrow> string" where
  "messages_payload env ms = canonical_json (frepr env) (JArr (map dump_request_message ms))"

definition strip_provenance :: "message \<Rightarrow> message" where
  "strip_provenance m = m\<lparr>provenance := None\<rparr>"

lemma role_str_inj [simp]: "role_str a = role_str b \<longleftrightarrow> a = b"
  by (cases a; cases b) simp_all

lemma jopt_JStr_inj [simp]: "jopt JStr a = jopt JStr b \<longleftrightarrow> a = b"
  by (cases a; cases b) (simp_all add: jopt_def)

lemma sort_keys_jopt_JStr [simp]: "sort_keys (jopt JStr a) = jopt JStr a"
  by (cases a) (simp_all add: jopt_def)

lemma sort_keys_request_message:
  "sort_keys (dump_request_message m) =
     JObj [(''content'', JStr (msg_content m)), (''role'', JStr (role_str (role m))),
           (''tool_call_id'', jopt JStr (msg_tool_call_id m))]"
  by (simp add: dump_request_message_def)

lemma sort_keys_request_message_eq:
  "sort_keys (dump_request_message a) = sort_keys (dump_request_message b)
    \<longleftrightarrow> strip_provenance a = strip_provenance b"
  by (cases a; cases b) (auto simp: sort_keys_request_message strip_provenance_def)

lemma map_eq_conv_pointwise:
  "(\<And>x y. f x = f y \<longleftrightarrow> g x = g y) \<Longrightarrow> map f xs = map f ys \<longleftrightarrow> map g xs = map g ys"
  by (simp add: list_eq_iff_nth_eq cong: conj_cong)

lemma json_floats_request_message [simp]: "json_floats (dump_request_message m) = {}"
  by (simp add: dump_request_message_def jopt_def split: option.split)

lemma frepr_ok_empty [simp]: "frepr_ok f {}"
  by (simp add: frepr_ok_def)

lemma messages_payload_eq:
  "messages_payload env ms = messages_payload env ms'
    \<longleftrightarrow> map strip_provenance ms = map strip_provenance ms'"
proof -
  have "messages_payload env ms = messages_payload env ms' \<longleftrightarrow>
      sort_keys (JArr (map dump_request_message ms)) = sort_keys (JArr (map dump_request_message ms'))"
    unfolding messages_payload_def by (rule canonical_json_unique) simp
  also have "\<dots> \<longleftrightarrow> map (sort_keys \<circ> dump_request_message) ms
      = map (sort_keys \<circ> dump_request_message) ms'" by simp
  also have "\<dots> \<longleftrightarrow> map strip_provenance ms = map strip_provenance ms'"
    by (rule map_eq_conv_pointwise) (simp add: sort_keys_request_message_eq)
  finally show ?thesis .
qed

text \<open>
  A messages hash identifies what the model was sent: absent a SHA-256 collision between the
  two request texts, two message lists have the same hash exactly when they agree in role, content
  and tool call id at every position; provenance annotations never matter.
\<close>

theorem hash_messages_identity:
  assumes "sha256 env (messages_payload env ms) = sha256 env (messages_payload env ms')
    \<Longrightarrow> messages_payload env ms = messages_payload env ms'"
  shows "hash_messages env ms = hash_messages env ms'
    \<longleftrightarrow> map strip_provenance ms = map strip_provenance ms'"
  using assms messages_payload_eq [of env ms ms']
  by (auto simp: hash_messages_def sha256_hex_def messages_payload_def)

theorem hash_messages_identity_witness:
  "hash_messages ex_env [ex_message] = hash_messages ex_env [ex_message\<lparr>provenance := Some ''tag''\<rparr>]
   \<and> hash_messages ex_env [ex_message] \<noteq> hash_messages ex_env [ex_message\<lparr>msg_content := ''b''\<rparr>]"
proof -
  have "sha256 ex_env = (\<lambda>d. d)" by (simp add: ex_env_def)
  then show ?thesis
    using hash_messages_identity [of ex_env "[ex_message]" "[ex_message\<lparr>provenance := Some ''tag''\<rparr>]"]
      hash_messages_identity [of ex_env "[ex_message]" "[ex_message\<lparr>msg_content := ''b''\<rparr>]"]
    by (simp add: strip_provenance_def ex_message_def)
qed

lemma hash_args_perm:
  assumes "mset args = mset args'" "distinct (map fst args)"
  shows "hash_args env args = hash_args env args'"
  using sort_keys_perm [OF assms] by (simp add: hash_args_def canonical_json_def)

end
