(* ===== verification/Steps.thy ===== *)
theory Steps
  imports Events
begin

text \<open>
  Steps of a trajectory (\<open>src/tracewake/align.py\<close>, \<open>Step\<close>, \<open>StepTrace\<close>, \<open>target_of\<close>,
  \<open>extract_traces\<close>, \<open>extract_steps\<close>): a run's log is folded into one step per model call that
  used tools, a parallel batch being one step. The lemmas give the closed form of the fold, that
  every tool call is in exactly one step, and that completion order inside a batch is not seen.
\<close>

section \<open>Definitions\<close>

record step =
  step_name :: string
  step_args :: jobject
  step_target :: string
  reasoning :: string
  changed_files :: "(string \<times> string) set"
  batch_names :: "string list"
  batch_targets :: "string list"
  step_writes :: "string set"
  observation :: string

definition names :: "step \<Rightarrow> string set" where
  "names s = (if batch_names s \<noteq> [] then set (batch_names s) else {step_name s})"

definition targets :: "step \<Rightarrow> string set" where
  "targets s =
     (if batch_targets s \<noteq> [] then {t \<in> set (batch_targets s). t \<noteq> []}
      else if step_target s \<noteq> [] then {step_target s} else {})"

definition target_of :: "py_env \<Rightarrow> jobject \<Rightarrow> string" where
  "target_of env args =
     (case map_of args ''path'' of
        Some v \<Rightarrow> py_str env v
      | None \<Rightarrow> (case map_of args ''query'' of Some v \<Rightarrow> py_str env v | None \<Rightarrow> []))"

definition target_agree :: "step \<Rightarrow> step \<Rightarrow> bool" where
  "target_agree a b \<longleftrightarrow> names a = names b \<and> targets a = targets b"

record step_trace =
  tr_step :: step
  tr_parent :: string
  tr_tools :: "tool_call_event list"

text \<open>The state of the first loop of \<open>extract_traces\<close>: its three dictionaries.\<close>

record grouping =
  writes_by_tool :: "string \<rightharpoonup> (string \<times> string) list"
  tool_groups :: "string \<rightharpoonup> tool_call_event list"
  group_order :: "string list"

definition empty_grouping :: grouping where
  "empty_grouping = \<lparr>writes_by_tool = Map.empty, tool_groups = Map.empty, group_order = []\<rparr>"

definition list_at :: "('k \<rightharpoonup> 'v list) \<Rightarrow> 'k \<Rightarrow> 'v list" where
  "list_at m k = (case m k of None \<Rightarrow> [] | Some vs \<Rightarrow> vs)"

fun group_event :: "grouping \<Rightarrow> any_event \<Rightarrow> grouping" where
  "group_event g (FsWrite w) =
     (if truthy (fw_tool w)
      then g\<lparr>writes_by_tool := (writes_by_tool g)(the (fw_tool w) \<mapsto>
              list_at (writes_by_tool g) (the (fw_tool w)) @ [(fw_path w, digest (fw_content w))])\<rparr>
      else g)"
| "group_event g (ToolCall t) =
     g\<lparr>tool_groups := (tool_groups g)(tc_parent t \<mapsto> list_at (tool_groups g) (tc_parent t) @ [t]),
       group_order := (if tool_groups g (tc_parent t) = None
                       then group_order g @ [tc_parent t] else group_order g)\<rparr>"
| "group_event g _ = g"

definition group_events :: "any_event list \<Rightarrow> grouping" where
  "group_events evs = foldl group_event empty_grouping evs"

definition model_calls_by_id :: "any_event list \<Rightarrow> string \<rightharpoonup> model_call_event" where
  "model_calls_by_id evs =
     dict_of (List.map_filter (\<lambda>e. case e of ModelCall m \<Rightarrow> Some (call_id m, m) | _ \<Rightarrow> None) evs)"

definition step_reasoning :: "model_call_event option \<Rightarrow> string" where
  "step_reasoning parent =
     (case parent of
        None \<Rightarrow> []
      | Some m \<Rightarrow> if resp_text (mc_response m) \<noteq> []
                 then join_str '' '' (split_ws (resp_text (mc_response m))) else [])"

definition build_step ::
  "py_env \<Rightarrow> tool_call_event list \<Rightarrow> string \<Rightarrow> (string \<times> string) set \<Rightarrow> string set \<Rightarrow> step" where
  "build_step env tools reason files written =
     (case tools of
        [t] \<Rightarrow>
          \<lparr>step_name = tc_name t, step_args = tc_args t, step_target = target_of env (tc_args t),
           reasoning = reason, changed_files = files, batch_names = [], batch_targets = [],
           step_writes = written, observation = []\<rparr>
      | _ \<Rightarrow>
          \<lparr>step_name = join_str ''+'' (sort (remdups (map tc_name tools))),
           step_args = [(''batch'', JArr (map (\<lambda>t. JObj (tc_args t)) tools))], step_target = [],
           reasoning = reason, changed_files = files, batch_names = map tc_name tools,
           batch_targets = map (\<lambda>t. target_of env (tc_args t)) tools,
           step_writes = written, observation = []\<rparr>)"

text \<open>The second loop: one trace per group, the set of changed files accumulating.\<close>

fun traces_loop ::
  "py_env \<Rightarrow> (string \<rightharpoonup> model_call_event) \<Rightarrow> grouping \<Rightarrow> (string \<times> string) set \<Rightarrow> string list
    \<Rightarrow> step_trace list \<times> (string \<times> string) set" where
  "traces_loop env models g changed [] = ([], changed)"
| "traces_loop env models g changed (p # ps) =
     (let tools = sort_key tc_batch_index (list_at (tool_groups g) p);
          step_ws = concat (map (\<lambda>t. list_at (writes_by_tool g) (tc_tool t)) tools);
          changed' = changed \<union> set step_ws;
          s = build_step env tools (step_reasoning (models p)) changed' (fst ` set step_ws);
          (rest, final) = traces_loop env models g changed' ps
      in (\<lparr>tr_step = s, tr_parent = p, tr_tools = tools\<rparr> # rest, final))"

definition submit_trace :: "(string \<times> string) set \<Rightarrow> step_trace" where
  "submit_trace changed =
     \<lparr>tr_step = \<lparr>step_name = ''submit'', step_args = [], step_target = [], reasoning = [],
        changed_files = changed, batch_names = [], batch_targets = [], step_writes = {},
        observation = []\<rparr>,
      tr_parent = [], tr_tools = []\<rparr>"

definition extract_traces :: "py_env \<Rightarrow> stored_event list \<Rightarrow> bool \<Rightarrow> step_trace list" where
  "extract_traces env es append_submit =
     (let evs = map event es;
          g = group_events evs;
          (out, changed) = traces_loop env (model_calls_by_id evs) g {} (group_order g)
      in if append_submit then out @ [submit_trace changed] else out)"

definition extract_steps :: "py_env \<Rightarrow> stored_event list \<Rightarrow> bool \<Rightarrow> step list" where
  "extract_steps env es append_submit = map tr_step (extract_traces env es append_submit)"

section \<open>The closed form of the grouping\<close>

fun tool_calls_of :: "any_event list \<Rightarrow> tool_call_event list" where
  "tool_calls_of [] = []"
| "tool_calls_of (ToolCall t # es) = t # tool_calls_of es"
| "tool_calls_of (_ # es) = tool_calls_of es"

fun tool_writes_of :: "any_event list \<Rightarrow> (string \<times> string \<times> string) list" where
  "tool_writes_of [] = []"
| "tool_writes_of (FsWrite w # es) =
     (if truthy (fw_tool w)
      then [(the (fw_tool w), fw_path w, digest (fw_content w))] else []) @ tool_writes_of es"
| "tool_writes_of (_ # es) = tool_writes_of es"

text \<open>The keys of a list in the order of their first occurrence.\<close>

fun nub_onto :: "'a list \<Rightarrow> 'a list \<Rightarrow> 'a list" where
  "nub_onto acc [] = acc"
| "nub_onto acc (x # xs) = nub_onto (if x \<in> set acc then acc else acc @ [x]) xs"

lemma set_nub_onto [simp]: "set (nub_onto acc xs) = set acc \<union> set xs"
  by (induction xs arbitrary: acc) auto

lemma distinct_nub_onto: "distinct acc \<Longrightarrow> distinct (nub_onto acc xs)"
  by (induction xs arbitrary: acc) auto

lemma group_events_snoc: "group_events (evs @ [e]) = group_event (group_events evs) e"
  by (simp add: group_events_def)

lemma tool_calls_of_append [simp]: "tool_calls_of (xs @ ys) = tool_calls_of xs @ tool_calls_of ys"
  by (induction xs rule: tool_calls_of.induct) auto

lemma tool_writes_of_append [simp]:
  "tool_writes_of (xs @ ys) = tool_writes_of xs @ tool_writes_of ys"
  by (induction xs rule: tool_writes_of.induct) auto

lemma nub_onto_append: "nub_onto acc (xs @ ys) = nub_onto (nub_onto acc xs) ys"
  by (induction xs arbitrary: acc) auto

lemma list_at_upd [simp]:
  "list_at (m(k \<mapsto> vs)) k' = (if k' = k then vs else list_at m k')"
  "list_at (\<lambda>a. if a = k then Some vs else m a) k' = (if k' = k then vs else list_at m k')"
  by (simp_all add: list_at_def)

lemma group_events_closed:
  "list_at (tool_groups (group_events evs)) p = filter (\<lambda>t. tc_parent t = p) (tool_calls_of evs)"
  "dom (tool_groups (group_events evs)) = tc_parent ` set (tool_calls_of evs)"
  "group_order (group_events evs) = nub_onto [] (map tc_parent (tool_calls_of evs))"
  "list_at (writes_by_tool (group_events evs)) i = map snd (filter (\<lambda>w. fst w = i) (tool_writes_of evs))"
proof (induction evs arbitrary: p i rule: rev_induct)
  case Nil
  { case 1 show ?case by (simp add: group_events_def empty_grouping_def list_at_def) }
  { case 2 show ?case by (simp add: group_events_def empty_grouping_def list_at_def) }
  { case 3 show ?case by (simp add: group_events_def empty_grouping_def list_at_def) }
  { case 4 show ?case by (simp add: group_events_def empty_grouping_def list_at_def) }
next
  case (snoc e evs)
  have new: "tool_groups (group_events evs) k = None \<longleftrightarrow> k \<notin> tc_parent ` set (tool_calls_of evs)" for k
    by (simp add: domIff flip: snoc.IH(2))
  { case 1
    show ?case by (cases e) (simp_all add: group_events_snoc snoc.IH(1)) }
  { case 2
    show ?case by (cases e) (auto simp: group_events_snoc snoc.IH(2) dom_if) }
  { case 3
    show ?case using snoc.IH(3) new
      by (cases e) (auto simp: group_events_snoc nub_onto_append) }
  { case 4
    show ?case using snoc.IH(4) by (cases e) (auto simp: group_events_snoc) }
qed


section \<open>Every tool call is in exactly one step\<close>

lemma traces_loop_tools:
  "map tr_tools (fst (traces_loop env ms g ch ps))
    = map (\<lambda>p. sort_key tc_batch_index (list_at (tool_groups g) p)) ps"
  by (induction ps arbitrary: ch) (simp_all add: Let_def case_prod_beta)

lemma traces_loop_parents: "map tr_parent (fst (traces_loop env ms g ch ps)) = ps"
  by (induction ps arbitrary: ch) (simp_all add: Let_def case_prod_beta)

lemma mset_concat_groups:
  "distinct ps \<Longrightarrow> f ` set xs \<subseteq> set ps \<Longrightarrow>
   mset (concat (map (\<lambda>p. filter (\<lambda>x. f x = p) xs) ps)) = mset xs"
proof (induction ps arbitrary: xs)
  case (Cons p ps)
  let ?ys = "filter (\<lambda>x. f x \<noteq> p) xs"
  have "map (\<lambda>q. filter (\<lambda>x. f x = q) xs) ps = map (\<lambda>q. filter (\<lambda>x. f x = q) ?ys) ps"
    using Cons.prems(1) by (auto simp: filter_filter intro!: filter_cong)
  moreover have "mset (concat (map (\<lambda>q. filter (\<lambda>x. f x = q) ?ys) ps)) = mset ?ys"
    using Cons.prems by (intro Cons.IH) auto
  moreover have "mset (filter (\<lambda>x. f x = p) xs) + mset ?ys = mset xs"
    by (induction xs) auto
  ultimately show ?case by (simp only: list.map concat.simps mset_append)
qed simp

lemma mset_concat_sort_groups:
  "mset (concat (map (\<lambda>p. sort_key k (h p)) ps)) = mset (concat (map h ps))"
  by (induction ps) simp_all

lemma extract_traces_tools:
  "map tr_tools (extract_traces env es False) =
     map (\<lambda>p. sort_key tc_batch_index (filter (\<lambda>t. tc_parent t = p) (tool_calls_of (map event es))))
       (nub_onto [] (map tc_parent (tool_calls_of (map event es))))"
  by (simp add: extract_traces_def Let_def case_prod_beta traces_loop_tools group_events_closed)

lemma extract_traces_parents:
  "map tr_parent (extract_traces env es False) =
     nub_onto [] (map tc_parent (tool_calls_of (map event es)))"
  by (simp add: extract_traces_def Let_def case_prod_beta traces_loop_parents group_events_closed)

text \<open>
  C38. Steps partition a run's tool calls: one step per model call that used tools, holding exactly
  the tool calls recorded under it in batch order, so no action of the run is lost, duplicated or
  attributed to another turn.
\<close>

theorem extract_traces_partition:
  "mset (concat (map tr_tools (extract_traces env es False))) = mset (tool_calls_of (map event es))
   \<and> distinct (map tr_parent (extract_traces env es False))
   \<and> (\<forall>tr \<in> set (extract_traces env es False).
        tr_tools tr \<noteq> [] \<and> sorted (map tc_batch_index (tr_tools tr))
        \<and> set (tr_tools tr) = {t \<in> set (tool_calls_of (map event es)). tc_parent t = tr_parent tr})"
proof (intro conjI ballI)
  let ?ts = "tool_calls_of (map event es)"
  let ?ps = "nub_onto [] (map tc_parent ?ts)"
  have d: "distinct ?ps" by (simp add: distinct_nub_onto)
  show "mset (concat (map tr_tools (extract_traces env es False))) = mset ?ts"
    unfolding extract_traces_tools mset_concat_sort_groups
    by (rule mset_concat_groups [OF d]) auto
  show "distinct (map tr_parent (extract_traces env es False))"
    unfolding extract_traces_parents by (rule d)
  fix tr assume "tr \<in> set (extract_traces env es False)"
  then obtain i where i: "i < length (extract_traces env es False)"
    "tr = extract_traces env es False ! i" by (auto simp: in_set_conv_nth)
  let ?p = "?ps ! i"
  have l: "length (extract_traces env es False) = length ?ps"
    using extract_traces_parents [of env es] by (metis length_map)
  have p: "tr_parent tr = ?p"
    using arg_cong [OF extract_traces_parents [of env es], of "\<lambda>xs. xs ! i"] i by simp
  have t: "tr_tools tr = sort_key tc_batch_index (filter (\<lambda>t. tc_parent t = ?p) ?ts)"
    using arg_cong [OF extract_traces_tools [of env es], of "\<lambda>xs. xs ! i"] i l by simp
  have "?p \<in> set ?ps" using i(1) l by (metis nth_mem)
  then have "\<exists>t\<in>set ?ts. tc_parent t = ?p" by (auto simp: eq_commute)
  then have "filter (\<lambda>t. tc_parent t = ?p) ?ts \<noteq> []" by (simp add: filter_empty_conv)
  then show "tr_tools tr \<noteq> []" unfolding t by (metis set_sort set_empty)
  show "sorted (map tc_batch_index (tr_tools tr))" unfolding t by simp
  show "set (tr_tools tr) = {t \<in> set ?ts. tc_parent t = tr_parent tr}" unfolding t p by auto
qed

theorem extract_traces_partition_witness:
  "extract_traces ex_env ex_log False \<noteq> []
   \<and> list_all (\<lambda>tr. tr_tools tr \<noteq> [] \<and> sorted (map tc_batch_index (tr_tools tr)))
        (extract_traces ex_env ex_log False)"
proof -
  have "extract_traces ex_env ex_log False \<noteq> []"
    by (simp add: ex_log_def ex_defs extract_traces_def group_events_def empty_grouping_def list_at_def Let_def)
  then show ?thesis using extract_traces_partition [of ex_env ex_log] by (simp add: list_all_iff)
qed

section \<open>Completion order inside a batch is not seen\<close>

lemma sort_key_swap:
  assumes "f a \<noteq> f b"
  shows "sort_key f (xs @ [a, b] @ ys) = sort_key f (xs @ [b, a] @ ys)"
proof (rule properties_for_sort_key)
  fix k
  have sym: "(\<lambda>x. f k = f x) = (\<lambda>x. f x = f k)" by auto
  show "filter (\<lambda>x. f k = f x) (sort_key f (xs @ [b, a] @ ys))
      = filter (\<lambda>x. f k = f x) (xs @ [a, b] @ ys)"
    unfolding sym sort_key_stable using assms by auto
qed simp_all

lemma tool_groups_swap:
  assumes "tc_batch_index a \<noteq> tc_batch_index b"
  shows "sort_key tc_batch_index (filter P (xs @ [a, b] @ ys))
      = sort_key tc_batch_index (filter P (xs @ [b, a] @ ys))"
  using assms sort_key_swap [of tc_batch_index a b "filter P xs" "filter P ys"] by auto

lemma traces_loop_cong:
  assumes "\<And>p. p \<in> set ps \<Longrightarrow> sort_key tc_batch_index (list_at (tool_groups g) p)
      = sort_key tc_batch_index (list_at (tool_groups h) p)"
    and "\<And>i. list_at (writes_by_tool g) i = list_at (writes_by_tool h) i"
  shows "traces_loop env ms g ch ps = traces_loop env ms h ch ps"
  using assms by (induction ps arbitrary: ch) (simp_all add: Let_def)

lemma tool_writes_swap:
  assumes "tool_call_id x \<noteq> tool_call_id y"
  shows "filter (\<lambda>w. fst w = i) (tool_writes_of (xs @ [x, y] @ ys))
      = filter (\<lambda>w. fst w = i) (tool_writes_of (xs @ [y, x] @ ys))"
  using assms by (cases x; cases y) (auto simp: truthy_def split: option.splits)

lemma tool_calls_swap:
  assumes "parent_call_id x = parent_call_id y"
  shows "map tc_parent (tool_calls_of (xs @ [x, y] @ ys)) = map tc_parent (tool_calls_of (xs @ [y, x] @ ys))"
  using assms by (cases x; cases y) auto

lemma model_calls_swap:
  assumes "\<not> is_model_call x" "\<not> is_model_call y"
  shows "model_calls_by_id (xs @ [x, y] @ ys) = model_calls_by_id (xs @ [y, x] @ ys)"
  using assms by (cases x; cases y) (simp_all add: model_calls_by_id_def map_filter_def)

text \<open>
  Alignment does not invent divergence from scheduling: two logs of a run that differ in the
  completion order of parallel tool calls (exchanges of neighbouring appends under one model call)
  have the same steps.
\<close>

theorem extract_traces_completion_order:
  assumes "batch_swap\<^sup>*\<^sup>* es es'"
  shows "extract_traces env es' sub = extract_traces env es sub"
  using assms
proof (induction rule: rtranclp_induct)
  case (step fs fs')
  from step.hyps(2) have "extract_traces env fs' sub = extract_traces env fs sub"
  proof cases
    case (swap xs a b ys p)
    let ?x = "event a" and ?y = "event b" and ?xs = "map event xs" and ?ys = "map event ys"
    have e: "map event fs = ?xs @ [?x, ?y] @ ?ys" "map event fs' = ?xs @ [?y, ?x] @ ?ys"
      using swap(1,2) by simp_all
    have pp: "parent_call_id ?x = parent_call_id ?y" using swap(5,6) by simp
    have "sort_key tc_batch_index (filter P (tool_calls_of (?xs @ [?x, ?y] @ ?ys)))
        = sort_key tc_batch_index (filter P (tool_calls_of (?xs @ [?y, ?x] @ ?ys)))" for P
      using tool_groups_swap [of _ _ P "tool_calls_of ?xs" "tool_calls_of ?ys"] swap(3,4,9)
      by (cases ?x; cases ?y) (auto simp: batch_pos_def)
    then show ?thesis
      unfolding extract_traces_def Let_def e model_calls_swap [OF swap(3,4)]
      by (simp only: group_events_closed tool_calls_swap [OF pp] traces_loop_cong
          [of _ "group_events (?xs @ [?y, ?x] @ ?ys)" "group_events (?xs @ [?x, ?y] @ ?ys)"]
          tool_writes_swap [OF swap(10)])
  qed
  with step.IH show ?case by simp
qed simp

theorem extract_traces_completion_order_witness:
  "batch_swap\<^sup>*\<^sup>* ex_log ex_log'
   \<and> map (map tc_tool \<circ> tr_tools) (extract_traces ex_env ex_log' True) = [[''t1'', ''t2''], []]
   \<and> extract_traces ex_env ex_log' True = extract_traces ex_env ex_log True"
proof (intro conjI)
  show "batch_swap\<^sup>*\<^sup>* ex_log ex_log'" by (rule ex_batch_swap)
  show "extract_traces ex_env ex_log' True = extract_traces ex_env ex_log True"
    by (rule extract_traces_completion_order [OF ex_batch_swap])
  show "map (map tc_tool \<circ> tr_tools) (extract_traces ex_env ex_log' True) = [[''t1'', ''t2''], []]"
    by (simp add: ex_log'_def ex_defs extract_traces_def submit_trace_def group_events_def
        empty_grouping_def list_at_def Let_def)
qed

end
