(* ===== verification/Difflib.thy ===== *)
theory Difflib
  imports Prelude
begin

text \<open>
  \<open>difflib.SequenceMatcher(None, a, b).ratio()\<close> of the Python standard library, as
  \<open>text_similarity\<close> of \<open>src/tracewake/align.py\<close> uses it: the index of the second sequence without
  its popular elements, the longest matching block of a pair of ranges, and the sum of the sizes of
  the matching blocks. The lemmas show that the recursion over ranges ends and that the ratio is
  between 0 and 1. The sequences are the characters of two texts.
\<close>

section \<open>The matcher\<close>

text \<open>\<open>__chain_b\<close> with \<open>isjunk=None\<close> and \<open>autojunk=True\<close>: the positions of an element in \<open>b\<close>.\<close>

definition positions :: "'a list \<Rightarrow> 'a \<Rightarrow> nat list" where
  "positions b x = filter (\<lambda>j. b ! j = x) [0..<length b]"

definition b2j :: "'a list \<Rightarrow> 'a \<Rightarrow> nat list" where
  "b2j b x =
     (let n = length b; idxs = positions b x
      in if n \<ge> 200 \<and> length idxs > n div 100 + 1 then [] else idxs)"

type_synonym best = "nat \<times> nat \<times> nat"

text \<open>The inner loop of \<open>find_longest_match\<close> over the positions of \<open>a[i]\<close>.\<close>

fun scan_row :: "nat \<Rightarrow> nat \<Rightarrow> nat \<Rightarrow> (nat \<Rightarrow> nat) \<Rightarrow> nat list \<Rightarrow> (nat \<Rightarrow> nat) \<Rightarrow> best
    \<Rightarrow> (nat \<Rightarrow> nat) \<times> best" where
  "scan_row i blo bhi j2len [] newj2len best = (newj2len, best)"
| "scan_row i blo bhi j2len (j # js) newj2len (besti, bestj, bestsize) =
     (if j < blo then scan_row i blo bhi j2len js newj2len (besti, bestj, bestsize)
      else if j \<ge> bhi then (newj2len, (besti, bestj, bestsize))
      else
        let k = (if j = 0 then 0 else j2len (j - 1)) + 1
        in scan_row i blo bhi j2len js (newj2len(j := k))
             (if k > bestsize then (i + 1 - k, j + 1 - k, k) else (besti, bestj, bestsize)))"

fun scan_rows :: "'a list \<Rightarrow> 'a list \<Rightarrow> nat \<Rightarrow> nat \<Rightarrow> nat list \<Rightarrow> (nat \<Rightarrow> nat) \<Rightarrow> best \<Rightarrow> best" where
  "scan_rows a b blo bhi [] j2len best = best"
| "scan_rows a b blo bhi (i # is) j2len best =
     (let (newj2len, best') = scan_row i blo bhi j2len (b2j b (a ! i)) (\<lambda>_. 0) best
      in scan_rows a b blo bhi is newj2len best')"

text \<open>The two loops that extend the block over popular elements.\<close>

fun extend_left :: "'a list \<Rightarrow> 'a list \<Rightarrow> nat \<Rightarrow> nat \<Rightarrow> nat \<Rightarrow> nat \<Rightarrow> nat \<Rightarrow> best" where
  "extend_left a b alo blo 0 bestj bestsize = (0, bestj, bestsize)"
| "extend_left a b alo blo (Suc i) bestj bestsize =
     (if Suc i > alo \<and> bestj > blo \<and> a ! i = b ! (bestj - 1)
      then extend_left a b alo blo i (bestj - 1) (bestsize + 1)
      else (Suc i, bestj, bestsize))"

function extend_right :: "'a list \<Rightarrow> 'a list \<Rightarrow> nat \<Rightarrow> nat \<Rightarrow> nat \<Rightarrow> nat \<Rightarrow> nat \<Rightarrow> best" where
  "extend_right a b ahi bhi besti bestj bestsize =
     (if besti + bestsize < ahi \<and> bestj + bestsize < bhi
         \<and> a ! (besti + bestsize) = b ! (bestj + bestsize)
      then extend_right a b ahi bhi besti bestj (bestsize + 1)
      else (besti, bestj, bestsize))"
  by pat_completeness auto
termination
  by (relation "measure (\<lambda>(a, b, ahi, bhi, i, j, k). ahi - (i + k))") auto

declare extend_right.simps [simp del]

definition find_longest_match ::
  "'a list \<Rightarrow> 'a list \<Rightarrow> nat \<Rightarrow> nat \<Rightarrow> nat \<Rightarrow> nat \<Rightarrow> best" where
  "find_longest_match a b alo ahi blo bhi =
     (let (i, j, k) = scan_rows a b blo bhi [alo..<ahi] (\<lambda>_. 0) (alo, blo, 0);
          (i', j', k') = extend_left a b alo blo i j k
      in extend_right a b ahi bhi i' j' k')"

section \<open>Blocks stay in their ranges\<close>

definition in_range :: "nat \<Rightarrow> nat \<Rightarrow> nat \<Rightarrow> nat \<Rightarrow> best \<Rightarrow> bool" where
  "in_range alo ahi blo bhi = (\<lambda>(i, j, k). alo \<le> i \<and> i + k \<le> ahi \<and> blo \<le> j \<and> j + k \<le> bhi
     \<or> (i, j, k) = (alo, blo, 0))"

text \<open>A run length ending at \<open>(i, j)\<close> does not leave the ranges.\<close>

definition runs_ok :: "nat \<Rightarrow> nat \<Rightarrow> nat \<Rightarrow> nat \<Rightarrow> (nat \<Rightarrow> nat) \<Rightarrow> bool" where
  "runs_ok alo blo bhi i len \<longleftrightarrow> (\<forall>j. len j > 0 \<longrightarrow> blo + len j \<le> Suc j \<and> alo + len j \<le> i \<and> j < bhi)"

lemma scan_row_ok:
  assumes "runs_ok alo blo bhi i j2len" "runs_ok alo blo bhi (Suc i) new" "alo \<le> i" "i < ahi"
    "in_range alo ahi blo bhi best"
  shows "runs_ok alo blo bhi (Suc i) (fst (scan_row i blo bhi j2len js new best))
    \<and> in_range alo ahi blo bhi (snd (scan_row i blo bhi j2len js new best))"
  using assms
proof (induction js arbitrary: new best)
  case (Cons j js)
  obtain bi bj bs where b: "best = (bi, bj, bs)" by (cases best)
  show ?case
  proof (cases "j < blo \<or> j \<ge> bhi")
    case True
    then show ?thesis using Cons b by auto
  next
    case False
    define k where "k = (if j = 0 then 0 else j2len (j - 1)) + 1"
    have k: "blo + k \<le> Suc j" "alo + k \<le> Suc i" "0 < k"
    proof (atomize (full), cases "j = 0 \<or> j2len (j - 1) = 0")
      case False
      then have "blo + j2len (j - 1) \<le> j" "alo + j2len (j - 1) \<le> i"
        using Cons.prems(1) unfolding runs_ok_def by (metis Suc_pred' gr0I)+
      then show "blo + k \<le> Suc j \<and> alo + k \<le> Suc i \<and> 0 < k" using False by (simp add: k_def)
    qed (use \<open>\<not> (j < blo \<or> bhi \<le> j)\<close> Cons.prems(3) in \<open>auto simp: k_def\<close>)
    have "runs_ok alo blo bhi (Suc i) (new(j := k))"
      using Cons.prems(2) k False by (auto simp: runs_ok_def)
    moreover have "in_range alo ahi blo bhi (if k > bs then (i + 1 - k, j + 1 - k, k) else (bi, bj, bs))"
      using Cons.prems(4,5) k False b by (auto simp: in_range_def)
    moreover have "scan_row i blo bhi j2len (j # js) new best = scan_row i blo bhi j2len js (new(j := k))
        (if k > bs then (i + 1 - k, j + 1 - k, k) else (bi, bj, bs))"
      unfolding b k_def using False by (simp add: Let_def)
    ultimately show ?thesis by (simp only: Cons.IH [OF Cons.prems(1) _ Cons.prems(3,4)])
  qed
qed simp

lemma scan_rows_ok:
  assumes "runs_ok alo blo bhi i j2len" "alo \<le> i" "in_range alo ahi blo bhi best"
  shows "in_range alo ahi blo bhi (scan_rows a b blo bhi [i..<ahi] j2len best)"
  using assms
proof (induction "ahi - i" arbitrary: i j2len best)
  case (Suc n)
  let ?r = "scan_row i blo bhi j2len (b2j b (a ! i)) (\<lambda>_. 0) best"
  have i: "i < ahi" "[i..<ahi] = i # [Suc i..<ahi]" using Suc.hyps(2) by (auto simp: upt_conv_Cons)
  have "runs_ok alo blo bhi (Suc i) (fst ?r) \<and> in_range alo ahi blo bhi (snd ?r)"
    using Suc.prems i(1) by (intro scan_row_ok) (auto simp: runs_ok_def)
  then have "in_range alo ahi blo bhi (scan_rows a b blo bhi [Suc i..<ahi] (fst ?r) (snd ?r))"
    using Suc.prems(2) Suc.hyps(2) by (intro Suc.hyps(1)) auto
  then show ?case by (simp add: i(2) case_prod_beta)
qed simp

lemma extend_left_ok:
  "in_range alo ahi blo bhi (i, j, k) \<Longrightarrow> in_range alo ahi blo bhi (extend_left a b alo blo i j k)"
proof (induction a b alo blo i j k rule: extend_left.induct)
  case (2 a b alo blo i j k)
  show ?case
  proof (cases "Suc i > alo \<and> j > blo \<and> a ! i = b ! (j - 1)")
    case True
    then have "in_range alo ahi blo bhi (i, j - 1, k + 1)" using 2(2) by (auto simp: in_range_def)
    then show ?thesis using 2(1) True by simp
  qed (use 2(2) in auto)
qed simp

lemma extend_right_ok:
  "in_range alo ahi blo bhi (i, j, k) \<Longrightarrow> in_range alo ahi blo bhi (extend_right a b ahi bhi i j k)"
proof (induction a b ahi bhi i j k rule: extend_right.induct)
  case (1 a b ahi bhi i j k)
  then show ?case by (subst extend_right.simps) (auto simp: in_range_def)
qed

lemma find_longest_match_ok:
  "in_range alo ahi blo bhi (find_longest_match a b alo ahi blo bhi)"
proof -
  have "in_range alo ahi blo bhi (scan_rows a b blo bhi [alo..<ahi] (\<lambda>_. 0) (alo, blo, 0))"
    by (rule scan_rows_ok) (auto simp: runs_ok_def in_range_def)
  then show ?thesis
    unfolding find_longest_match_def Let_def
    by (metis (no_types, lifting) extend_left_ok extend_right_ok case_prod_conv surj_pair)
qed

section \<open>The ratio\<close>

text \<open>
  The sum of the sizes of \<open>get_matching_blocks\<close>, whose work list is a recursion on both sides of
  the block found; sorting and merging adjacent blocks keep the sum.
\<close>

function matches :: "'a list \<Rightarrow> 'a list \<Rightarrow> nat \<Rightarrow> nat \<Rightarrow> nat \<Rightarrow> nat \<Rightarrow> nat" where
  "matches a b alo ahi blo bhi =
     (let (i, j, k) = find_longest_match a b alo ahi blo bhi
      in if k = 0 then 0
         else k + (if alo < i \<and> blo < j then matches a b alo i blo j else 0)
                + (if i + k < ahi \<and> j + k < bhi then matches a b (i + k) ahi (j + k) bhi else 0))"
  by pat_completeness auto
termination
proof (relation "measure (\<lambda>(a, b, alo, ahi, blo, bhi). ahi - alo)", goal_cases)
  case (2 a b alo ahi blo bhi x i y j k)
  then show ?case using find_longest_match_ok [of alo ahi blo bhi a b] by (auto simp: in_range_def)
next
  case (3 a b alo ahi blo bhi x i y j k)
  then show ?case using find_longest_match_ok [of alo ahi blo bhi a b] by (auto simp: in_range_def)
qed simp

declare matches.simps [simp del]

definition ratio :: "'a list \<Rightarrow> 'a list \<Rightarrow> real" where
  "ratio a b =
     (let total = length a + length b
      in if total > 0 then 2 * real (matches a b 0 (length a) 0 (length b)) / real total else 1)"

lemma matches_le:
  "alo \<le> ahi \<Longrightarrow> blo \<le> bhi \<Longrightarrow> matches a b alo ahi blo bhi \<le> min (ahi - alo) (bhi - blo)"
proof (induction a b alo ahi blo bhi rule: matches.induct)
  case (1 a b alo ahi blo bhi)
  obtain i j k where f: "find_longest_match a b alo ahi blo bhi = (i, j, k)" by (metis surj_pair)
  have r: "k = 0 \<or> (alo \<le> i \<and> i + k \<le> ahi \<and> blo \<le> j \<and> j + k \<le> bhi)"
    using find_longest_match_ok [of alo ahi blo bhi a b] f by (auto simp: in_range_def)
  have "alo < i \<and> blo < j \<Longrightarrow> k \<noteq> 0 \<Longrightarrow> matches a b alo i blo j \<le> min (i - alo) (j - blo)"
    "i + k < ahi \<and> j + k < bhi \<Longrightarrow> k \<noteq> 0 \<Longrightarrow>
       matches a b (i + k) ahi (j + k) bhi \<le> min (ahi - (i + k)) (bhi - (j + k))"
    using 1 f by auto
  then show ?case using r f by (subst matches.simps) auto
qed

lemma ratio_bounds: "0 \<le> ratio a b \<and> ratio a b \<le> 1"
  using matches_le [of 0 "length a" 0 "length b" a b] by (auto simp: ratio_def Let_def divide_le_eq)

end
