(* ===== verification/Similarity.thy ===== *)
theory Similarity
  imports Steps Difflib
begin

text \<open>
  The distance components of \<open>src/tracewake/align.py\<close>: the alignment configuration and its
  variants, the similarities of paths, tokens, texts, numbers, files and arguments, the cosine of two
  vectors, the bag-of-words embedder and the weighted step similarity. The lemmas show that every
  component is a similarity: between 0 and 1, and 1 on equal inputs.
\<close>

section \<open>Configuration\<close>

datatype arg_mode = Weighted | TargetOnly | Strict

record align_config =
  weight_tool :: real
  weight_args :: real
  weight_reasoning :: real
  weight_files :: real
  weight_target :: real
  weight_arg_rest :: real
  gap_open :: real
  gap_extend :: real
  arg_mode :: arg_mode

definition score_from_similarity :: "real \<Rightarrow> real" where
  "score_from_similarity s = 2 * s - 1"

definition LINE_FALLOFF :: real where
  "LINE_FALLOFF = 50"

definition DEFAULT_CONFIG :: align_config where
  "DEFAULT_CONFIG =
     \<lparr>weight_tool = 45 / 100, weight_args = 25 / 100, weight_reasoning = 20 / 100,
      weight_files = 10 / 100, weight_target = 70 / 100, weight_arg_rest = 30 / 100,
      gap_open = -1, gap_extend = - (2 / 10), arg_mode = Weighted\<rparr>"

text \<open>\<open>__post_init__\<close>: a configuration given by the text of its mode.\<close>

definition check_arg_mode :: "string \<Rightarrow> arg_mode res" where
  "check_arg_mode s =
     (if s = ''weighted'' then Inr Weighted
      else if s = ''target_only'' then Inr TargetOnly
      else if s = ''strict'' then Inr Strict
      else Inl ValueError)"

definition needleman_wunsch_config :: align_config where
  "needleman_wunsch_config = DEFAULT_CONFIG\<lparr>gap_open := -1, gap_extend := -1\<rparr>"

definition drop_reasoning_config :: align_config where
  "drop_reasoning_config =
     (let rest = weight_tool DEFAULT_CONFIG + weight_args DEFAULT_CONFIG + weight_files DEFAULT_CONFIG
      in DEFAULT_CONFIG\<lparr>weight_tool := weight_tool DEFAULT_CONFIG / rest,
           weight_args := weight_args DEFAULT_CONFIG / rest, weight_reasoning := 0,
           weight_files := weight_files DEFAULT_CONFIG / rest\<rparr>)"

definition target_only_args_config :: align_config where
  "target_only_args_config = DEFAULT_CONFIG\<lparr>arg_mode := TargetOnly\<rparr>"

definition strict_args_config :: align_config where
  "strict_args_config = DEFAULT_CONFIG\<lparr>arg_mode := Strict\<rparr>"

section \<open>Python equality and numbers\<close>

text \<open>
  \<open>a == b\<close> on JSON values: booleans and numbers compare by value, objects ignore insertion order.
  Two values are equal when these forms are.
\<close>

primrec eq_form :: "json \<Rightarrow> json" where
  "eq_form JNull = JNull"
| "eq_form (JBool b) = JFloat (if b then 1 else 0)"
| "eq_form (JInt n) = JFloat (real_of_int n)"
| "eq_form (JFloat x) = JFloat x"
| "eq_form (JStr s) = JStr s"
| "eq_form (JArr vs) = JArr (map eq_form vs)"
| "eq_form (JObj kvs) = JObj (sort_key fst (map (map_prod id eq_form) kvs))"

definition py_eq :: "json \<Rightarrow> json \<Rightarrow> bool" where
  "py_eq a b \<longleftrightarrow> eq_form a = eq_form b"

text \<open>
  \<open>float(s)\<close> of a text: white space around it is dropped, the decimal digits of other scripts become
  ASCII digits, then come a sign and either a decimal literal with underscores between digits or one of the names of
  the values that are not finite. A literal too large for a float is infinite, and an integer too
  large for one raises \<open>OverflowError\<close>: from the number on that is halfway between the largest float and its successor.
\<close>

definition OverflowError :: exn where
  "OverflowError = Raised ''OverflowError''"

definition FLOAT_LIMIT :: int where
  "FLOAT_LIMIT = 2 ^ 1024 - 2 ^ 970"

datatype py_float = Finite real | NonFinite

definition is_digit :: "char \<Rightarrow> bool" where
  "is_digit c \<longleftrightarrow> 48 \<le> byte_val c \<and> byte_val c \<le> 57"

definition is_digitpart :: "string \<Rightarrow> bool" where
  "is_digitpart s \<longleftrightarrow> list_all (\<lambda>p. p \<noteq> [] \<and> list_all is_digit p) (split_char (CHR ''_'') s)"

definition digits_val :: "string \<Rightarrow> nat" where
  "digits_val s = foldl (\<lambda>n c. 10 * n + (byte_val c - 48)) 0 (filter is_digit s)"

definition strip_sign :: "string \<Rightarrow> bool \<times> string" where
  "strip_sign s =
     (case s of
        [] \<Rightarrow> (False, s)
      | c # r \<Rightarrow> if c = CHR ''-'' then (True, r) else if c = CHR ''+'' then (False, r) else (False, s))"

definition parse_mantissa :: "string \<Rightarrow> real option" where
  "parse_mantissa s =
     (case split_char (CHR ''.'') s of
        [whole] \<Rightarrow> if is_digitpart whole then Some (real (digits_val whole)) else None
      | [whole, fracpart] \<Rightarrow>
          if (whole = [] \<or> is_digitpart whole) \<and> (fracpart = [] \<or> is_digitpart fracpart) \<and> whole @ fracpart \<noteq> []
          then Some (real (digits_val (whole @ fracpart)) / 10 ^ length (filter is_digit fracpart))
          else None
      | _ \<Rightarrow> None)"

definition parse_decimal :: "string \<Rightarrow> real option" where
  "parse_decimal s =
     (case split_char (CHR ''e'') s of
        [mant] \<Rightarrow> parse_mantissa mant
      | [mant, ex] \<Rightarrow>
          (let (minus, digits) = strip_sign ex
           in if is_digitpart digits
              then map_option (\<lambda>x. if minus then x / 10 ^ digits_val digits else x * 10 ^ digits_val digits)
                     (parse_mantissa mant)
              else None)
      | _ \<Rightarrow> None)"

fun drop_spaces :: "string list \<Rightarrow> string list" where
  "drop_spaces [] = []"
| "drop_spaces (c # cs) = (if is_space c then drop_spaces cs else c # cs)"

definition strip :: "string \<Rightarrow> string" where
  "strip s = concat (rev (drop_spaces (rev (drop_spaces (utf8_chars s)))))"

definition ascii_digits :: "py_env \<Rightarrow> string \<Rightarrow> string" where
  "ascii_digits env s =
     concat (map (\<lambda>c. case udigit env c of Some d \<Rightarrow> nat_str d | None \<Rightarrow> c) (utf8_chars s))"

definition parse_float :: "py_env \<Rightarrow> string \<Rightarrow> py_float res" where
  "parse_float env s =
     (let (minus, body) = strip_sign (lower_str (ascii_digits env (strip s)))
      in if body \<in> set [''inf'', ''infinity'', ''nan''] then Inr NonFinite
         else case parse_decimal body of
                Some x \<Rightarrow>
                  if x \<ge> real_of_int FLOAT_LIMIT then Inr NonFinite else Inr (Finite (if minus then - x else x))
              | None \<Rightarrow> Inl ValueError)"

fun to_float :: "py_env \<Rightarrow> json \<Rightarrow> py_float res" where
  "to_float env (JInt n) = (if \<bar>n\<bar> \<ge> FLOAT_LIMIT then Inl OverflowError else Inr (Finite (real_of_int n)))"
| "to_float env (JFloat x) = Inr (Finite x)"
| "to_float env (JBool b) = Inr (Finite (if b then 1 else 0))"
| "to_float env (JStr s) = parse_float env s"
| "to_float env _ = Inl TypeError"

section \<open>Components\<close>

fun common_prefix :: "'a list \<Rightarrow> 'a list \<Rightarrow> nat" where
  "common_prefix (x # xs) (y # ys) = (if x \<noteq> y then 0 else 1 + common_prefix xs ys)"
| "common_prefix _ _ = 0"

definition path_similarity :: "string \<Rightarrow> string \<Rightarrow> real" where
  "path_similarity a b =
     (if a = b then 1
      else if a = [] \<or> b = [] then 0
      else
        let pa = filter (\<lambda>p. p \<noteq> []) (split_char (CHR ''/'') a);
            pb = filter (\<lambda>p. p \<noteq> []) (split_char (CHR ''/'') b)
        in if pa = [] \<or> pb = [] then (if a = b then 1 else 0)
           else real (common_prefix (rev pa) (rev pb)) / real (max (length pa) (length pb)))"

text \<open>\<open>_TOKEN.findall\<close>: the maximal runs of token characters.\<close>

definition token_char :: "char \<Rightarrow> bool" where
  "token_char c \<longleftrightarrow>
     (65 \<le> byte_val c \<and> byte_val c \<le> 90) \<or> (97 \<le> byte_val c \<and> byte_val c \<le> 122)
     \<or> is_digit c \<or> c \<in> set ''_./-''"

function findall :: "string \<Rightarrow> string list" where
  "findall s =
     (let t = takeWhile token_char s; r = dropWhile token_char s
      in if t \<noteq> [] then t # findall r else case s of [] \<Rightarrow> [] | c # cs \<Rightarrow> findall cs)"
  by pat_completeness auto
termination
  by (relation "measure length")
    (auto simp: dropWhile_eq_drop takeWhile_eq_Nil_iff gr0_conv_Suc neq_Nil_conv)

declare findall.simps [simp del]

text \<open>Jaccard index of two finite sets, at least one of them not empty.\<close>

definition jaccard :: "'a set \<Rightarrow> 'a set \<Rightarrow> real" where
  "jaccard a b = real (card (a \<inter> b)) / real (card (a \<union> b))"

definition token_jaccard :: "string \<Rightarrow> string \<Rightarrow> real" where
  "token_jaccard a b =
     (if a = b then 1
      else
        let ta = set (findall (lower_str a)); tb = set (findall (lower_str b))
        in if ta = {} \<and> tb = {} then 1
           else if ta = {} \<or> tb = {} then 0
           else jaccard ta tb)"

definition text_similarity :: "string \<Rightarrow> string \<Rightarrow> real" where
  "text_similarity a b =
     (if a = b then 1 else if a = [] \<or> b = [] then 0 else ratio (utf8_chars a) (utf8_chars b))"

text \<open>
  With a value that is not finite, the difference is infinite or NaN, and \<open>max(0.0, ...)\<close> keeps its
  first argument. The \<open>except\<close> clause lists \<open>TypeError\<close> and \<open>ValueError\<close>, so that
  \<^const>\<open>OverflowError\<close> leaves the function.
\<close>

definition number_similarity :: "py_env \<Rightarrow> json \<Rightarrow> json \<Rightarrow> real res" where
  "number_similarity env a b =
     (case bind_res (to_float env a) (\<lambda>x. bind_res (to_float env b) (\<lambda>y. Inr (x, y))) of
        Inr (Finite x, Finite y) \<Rightarrow> Inr (max 0 (1 - \<bar>x - y\<bar> / LINE_FALLOFF))
      | Inr _ \<Rightarrow> Inr 0
      | Inl e \<Rightarrow>
          if e = TypeError \<or> e = ValueError then Inr (text_similarity (py_str env a) (py_str env b)) else Inl e)"

definition jaccard_files :: "(string \<times> string) set \<Rightarrow> (string \<times> string) set \<Rightarrow> real" where
  "jaccard_files a b = (if a = {} \<and> b = {} then 1 else jaccard a b)"

fun is_number :: "json \<Rightarrow> bool" where
  "is_number (JInt n) = True"
| "is_number (JFloat x) = True"
| "is_number (JBool b) = True"
| "is_number _ = False"

definition value_similarity :: "py_env \<Rightarrow> string \<Rightarrow> json \<Rightarrow> json \<Rightarrow> real res" where
  "value_similarity env key a b =
     (if py_eq a b then Inr 1
      else if key = ''path'' then Inr (path_similarity (py_str env a) (py_str env b))
      else if key \<in> set [''query'', ''old'', ''new''] then
        Inr (if key = ''query'' then token_jaccard (py_str env a) (py_str env b)
             else text_similarity (py_str env a) (py_str env b))
      else if key \<in> set [''around'', ''at''] then number_similarity env a b
      else if is_number a \<and> is_number b then number_similarity env a b
      else Inr (text_similarity (py_str env a) (py_str env b)))"

definition has_key :: "jobject \<Rightarrow> string \<Rightarrow> bool" where
  "has_key args k \<longleftrightarrow> map_of args k \<noteq> None"

definition rest_keys :: "jobject \<Rightarrow> jobject \<Rightarrow> string list" where
  "rest_keys a b =
     sort (filter (\<lambda>k. k \<notin> set [''path'', ''query'']) (remdups (map fst a @ map fst b)))"

definition rest_parts :: "py_env \<Rightarrow> jobject \<Rightarrow> jobject \<Rightarrow> real list res" where
  "rest_parts env a b =
     map_res (\<lambda>k. case (map_of a k, map_of b k) of
                (Some v, Some w) \<Rightarrow> value_similarity env k v w
              | _ \<Rightarrow> Inr 0) (rest_keys a b)"

definition target_similarity :: "step \<Rightarrow> step \<Rightarrow> real" where
  "target_similarity a b =
     (let ta = step_target a; tb = step_target b
      in if ta \<noteq> [] \<or> tb \<noteq> [] then
           if has_key (step_args a) ''path'' \<or> has_key (step_args b) ''path'' then path_similarity ta tb
           else if has_key (step_args a) ''query'' \<or> has_key (step_args b) ''query'' then token_jaccard ta tb
           else if ta = tb then 1 else 0
         else 1)"

definition batch_target_similarity :: "step \<Rightarrow> step \<Rightarrow> real" where
  "batch_target_similarity a b =
     (let ta = targets a; tb = targets b
      in if ta = {} \<and> tb = {} then 1 else if ta = {} \<or> tb = {} then 0 else jaccard ta tb)"

definition argument_similarity :: "py_env \<Rightarrow> align_config \<Rightarrow> step \<Rightarrow> step \<Rightarrow> real res" where
  "argument_similarity env config a b =
     (if arg_mode config = Strict then
        Inr (if py_eq (JObj (step_args a)) (JObj (step_args b)) then 1 else 0)
      else if batch_names a \<noteq> [] \<or> batch_names b \<noteq> [] then
        (let target_sim = batch_target_similarity a b
         in if arg_mode config = TargetOnly then Inr target_sim
            else Inr (weight_target config * target_sim + weight_arg_rest config * target_sim))
      else
        (let target_sim = target_similarity a b
         in if arg_mode config = TargetOnly then Inr target_sim
            else
              bind_res (rest_parts env (step_args a) (step_args b)) (\<lambda>parts.
                let rest_sim = (if parts = [] then 1 else sum_list parts / real (length parts))
                in Inr (weight_target config * target_sim + weight_arg_rest config * rest_sim))))"

definition tool_similarity :: "step \<Rightarrow> step \<Rightarrow> real" where
  "tool_similarity a b = (if names a = names b then 1 else 0)"

type_synonym vector = "real list"

definition cosine :: "vector \<Rightarrow> vector \<Rightarrow> real res" where
  "cosine u v =
     (if length u \<noteq> length v then Inl ValueError
      else
        let dot = sum_list (map2 (*) u v);
            nu = sqrt (sum_list (map (\<lambda>x. x * x) u));
            nv = sqrt (sum_list (map (\<lambda>y. y * y) v))
        in if nu = 0 \<or> nv = 0 then Inr 0 else Inr (max 0 (min 1 (dot / (nu * nv)))))"

definition step_similarity ::
  "py_env \<Rightarrow> align_config \<Rightarrow> step \<Rightarrow> step \<Rightarrow> (vector \<times> vector) option \<Rightarrow> real res" where
  "step_similarity env config a b reasoning_vectors =
     bind_res (argument_similarity env config a b) (\<lambda>argument_sim.
       let base = weight_tool config * tool_similarity a b
                  + weight_args config * argument_sim
                  + weight_files config * jaccard_files (changed_files a) (changed_files b)
       in if weight_reasoning config \<noteq> 0 then
            (case reasoning_vectors of
               None \<Rightarrow>
                 if reasoning a = [] \<and> reasoning b = [] then Inr (base + weight_reasoning config * 1)
                 else Inl TracewakeError
             | Some (u, v) \<Rightarrow>
                 bind_res (cosine u v) (\<lambda>c. Inr (base + weight_reasoning config * c)))
          else Inr base)"

section \<open>The bag-of-words embedder\<close>

fun add_tokens :: "string list \<Rightarrow> string list \<Rightarrow> string list" where
  "add_tokens vocab [] = vocab"
| "add_tokens vocab (t # ts) = add_tokens (if t \<in> set vocab then vocab else vocab @ [t]) ts"

text \<open>\<open>vocab[tok]\<close>: the position a token was given when it was first seen.\<close>

definition index_of :: "string list \<Rightarrow> string \<Rightarrow> nat" where
  "index_of vocab t = length (takeWhile (\<lambda>u. u \<noteq> t) vocab)"

fun count_tokens :: "string list \<Rightarrow> vector \<Rightarrow> string list \<Rightarrow> vector" where
  "count_tokens vocab vec [] = vec"
| "count_tokens vocab vec (t # ts) =
     count_tokens vocab (vec[index_of vocab t := vec ! index_of vocab t + 1]) ts"

definition fill_blank :: "string \<Rightarrow> string" where
  "fill_blank t = (if strip t \<noteq> [] then t else ''.'')"

definition lexical_embed :: "string list \<Rightarrow> vector list" where
  "lexical_embed texts =
     (let tokenized = map (\<lambda>t. findall (lower_str t)) (map fill_blank texts);
          vocab = foldl add_tokens [] tokenized;
          dim = max (length vocab) 1
      in map (count_tokens vocab (replicate dim 0)) tokenized)"

section \<open>Similarities\<close>

text \<open>
  What alignment relies on of each component: a value between 0 and 1, and 1 on equal arguments.
\<close>

locale similarity =
  fixes ok :: "'a \<Rightarrow> bool" and sim :: "'a \<Rightarrow> 'a \<Rightarrow> real"
  assumes range: "ok a \<Longrightarrow> ok b \<Longrightarrow> 0 \<le> sim a b \<and> sim a b \<le> 1"
    and refl: "ok a \<Longrightarrow> sim a a = 1"
begin

lemma weight_range: "0 \<le> w \<Longrightarrow> ok a \<Longrightarrow> ok b \<Longrightarrow> 0 \<le> w * sim a b \<and> w * sim a b \<le> w"
  using range [of a b] by (simp add: mult_left_le)

lemma score_range:
  "ok a \<Longrightarrow> ok b \<Longrightarrow> - 1 \<le> score_from_similarity (sim a b) \<and> score_from_similarity (sim a b) \<le> 1"
  using range [of a b] by (simp add: score_from_similarity_def)

lemma score_refl: "ok a \<Longrightarrow> score_from_similarity (sim a a) = 1"
  by (simp add: refl score_from_similarity_def)

end

lemma common_prefix_le: "common_prefix xs ys \<le> min (length xs) (length ys)"
  by (induction xs ys rule: common_prefix.induct) auto

lemma jaccard_range: "0 \<le> jaccard a b \<and> jaccard a b \<le> 1"
proof (cases "finite (a \<union> b)")
  case True
  then show ?thesis
    using card_mono [of "a \<union> b" "a \<inter> b"] by (auto simp: jaccard_def divide_le_eq)
qed (auto simp: jaccard_def)

lemma jaccard_refl: "finite a \<Longrightarrow> a \<noteq> {} \<Longrightarrow> jaccard a a = 1"
  by (simp add: jaccard_def)

interpretation path: similarity "\<lambda>_. True" path_similarity
proof
  fix a b
  let ?pa = "rev (filter (\<lambda>p. p \<noteq> []) (split_char (CHR ''/'') a))"
  let ?pb = "rev (filter (\<lambda>p. p \<noteq> []) (split_char (CHR ''/'') b))"
  show "0 \<le> path_similarity a b \<and> path_similarity a b \<le> 1"
    using common_prefix_le [of ?pa ?pb] by (auto simp: path_similarity_def Let_def divide_le_eq)
qed (simp add: path_similarity_def)

interpretation token: similarity "\<lambda>_. True" token_jaccard
  by unfold_locales (auto simp: token_jaccard_def Let_def jaccard_range)

interpretation texts: similarity "\<lambda>_. True" text_similarity
  by unfold_locales (auto simp: text_similarity_def ratio_bounds)

interpretation tool: similarity "\<lambda>_. True" tool_similarity
  by unfold_locales (auto simp: tool_similarity_def)

interpretation files: similarity finite jaccard_files
  by unfold_locales (auto simp: jaccard_files_def jaccard_range jaccard_refl)

lemma py_eq_refl [simp]: "py_eq a a"
  by (simp add: py_eq_def)

text \<open>
  The similarities that read numbers raise nothing but \<^const>\<open>OverflowError\<close>, and that only on an integer
  a float cannot hold.
\<close>

fun small :: "json \<Rightarrow> bool" where
  "small (JInt n) \<longleftrightarrow> \<bar>n\<bar> < FLOAT_LIMIT"
| "small _ \<longleftrightarrow> True"

locale partial_similarity =
  fixes ok :: "'a \<Rightarrow> bool" and sim :: "'a \<Rightarrow> 'a \<Rightarrow> real res"
  assumes range: "sim a b = Inr s \<Longrightarrow> 0 \<le> s \<and> s \<le> 1"
    and refl: "sim a a = Inr 1"
    and raises: "sim a b = Inl e \<Longrightarrow> e = OverflowError \<and> \<not> (ok a \<and> ok b)"
begin

lemma returns: "ok a \<Longrightarrow> ok b \<Longrightarrow> \<exists>s. sim a b = Inr s"
  using raises [of a b] by (cases "sim a b") auto

end

lemma float_errors [simp]: "OverflowError \<noteq> TypeError" "OverflowError \<noteq> ValueError"
  by (simp_all add: OverflowError_def)

lemma parse_float_raises: "parse_float env s = Inl e \<Longrightarrow> e = ValueError"
  by (auto simp: parse_float_def Let_def split: prod.splits if_splits option.splits)

lemma to_float_raises: "to_float env a = Inl e \<Longrightarrow> e = TypeError \<or> e = ValueError \<or> e = OverflowError \<and> \<not> small a"
  by (cases "(env, a)" rule: to_float.cases) (auto dest: parse_float_raises split: if_splits)

lemma number_similarity_range: "number_similarity env a b = Inr s \<Longrightarrow> 0 \<le> s \<and> s \<le> 1"
  using texts.range [of "py_str env a" "py_str env b"]
  by (auto simp: number_similarity_def LINE_FALLOFF_def split: sum.splits prod.splits py_float.splits if_splits)

lemma number_similarity_raises: "number_similarity env a b = Inl e \<Longrightarrow> e = OverflowError \<and> \<not> (small a \<and> small b)"
  using to_float_raises [of env a e] to_float_raises [of env b e]
  by (auto simp: number_similarity_def bind_res_def split: sum.splits prod.splits py_float.splits if_splits)

interpretation val: partial_similarity small "value_similarity env key" for env key
proof
  fix a b s e
  let ?s = "py_str env a" and ?t = "py_str env b"
  show "value_similarity env key a b = Inr s \<Longrightarrow> 0 \<le> s \<and> s \<le> 1"
    using path.range [of ?s ?t] token.range [of ?s ?t] texts.range [of ?s ?t] number_similarity_range [of env a b s]
    by (auto simp: value_similarity_def split: if_splits)
  show "value_similarity env key a b = Inl e \<Longrightarrow> e = OverflowError \<and> \<not> (small a \<and> small b)"
    using number_similarity_raises [of env a b e] by (auto simp: value_similarity_def split: if_splits)
qed (simp add: value_similarity_def)

interpretation tgt: similarity "\<lambda>_. True" target_similarity
  by unfold_locales
    (use path.range token.range path.refl token.refl in \<open>auto simp: target_similarity_def Let_def\<close>)

lemma finite_targets [simp]: "finite (targets s)"
  by (simp add: targets_def)

interpretation batch: similarity "\<lambda>_. True" batch_target_similarity
  by unfold_locales (auto simp: batch_target_similarity_def Let_def jaccard_range jaccard_refl)

definition mean :: "real list \<Rightarrow> real" where
  "mean xs = (if xs = [] then 1 else sum_list xs / real (length xs))"

lemma sum_list_range:
  "\<forall>x \<in> set xs. 0 \<le> x \<and> x \<le> (1 :: real) \<Longrightarrow> 0 \<le> sum_list xs \<and> sum_list xs \<le> real (length xs)"
  by (induction xs) auto

lemma mean_range: "\<forall>x \<in> set xs. 0 \<le> x \<and> x \<le> 1 \<Longrightarrow> 0 \<le> mean xs \<and> mean xs \<le> 1"
  using sum_list_range [of xs] by (auto simp: mean_def divide_le_eq)

lemma mean_ones: "\<forall>x \<in> set xs. x = 1 \<Longrightarrow> mean xs = 1"
proof -
  assume "\<forall>x \<in> set xs. x = 1"
  then have "sum_list xs = real (length xs)" by (induction xs) auto
  then show ?thesis by (simp add: mean_def)
qed

lemma rest_parts_range: "rest_parts env a b = Inr xs \<Longrightarrow> \<forall>x \<in> set xs. 0 \<le> x \<and> x \<le> 1"
proof
  fix x assume r: "rest_parts env a b = Inr xs" and "x \<in> set xs"
  then obtain i where i: "i < length xs" "x = xs ! i" by (auto simp: in_set_conv_nth)
  then show "0 \<le> x \<and> x \<le> 1"
    using map_res_eq_Inr_nth [OF r [unfolded rest_parts_def], of i] map_res_eq_Inr_length [OF r [unfolded rest_parts_def]] val.range
    by (auto split: option.splits)
qed

lemma rest_parts_refl: "rest_parts env a a = Inr (map (\<lambda>_. 1) (rest_keys a a))"
proof -
  have "map_of a k \<noteq> None" if "k \<in> set (rest_keys a a)" for k
    using that by (auto simp: rest_keys_def map_of_eq_None_iff)
  then show ?thesis unfolding rest_parts_def by (intro map_res_Inr) (auto simp: val.refl split: option.split)
qed

definition sized :: "step \<Rightarrow> bool" where
  "sized s \<longleftrightarrow> list_all (small \<circ> snd) (step_args s)"

lemma rest_parts_raises:
  assumes "rest_parts env (step_args a) (step_args b) = Inl e" shows "e = OverflowError \<and> \<not> (sized a \<and> sized b)"
proof -
  obtain k where "(case (map_of (step_args a) k, map_of (step_args b) k) of
      (Some v, Some w) \<Rightarrow> value_similarity env k v w | _ \<Rightarrow> Inr 0) = Inl e"
    using map_res_eq_Inl [OF assms [unfolded rest_parts_def]] by blast
  then obtain v w where vw: "map_of (step_args a) k = Some v" "map_of (step_args b) k = Some w" "value_similarity env k v w = Inl e"
    by (auto split: option.splits)
  then have "(k, v) \<in> set (step_args a)" "(k, w) \<in> set (step_args b)" by (auto dest: map_of_SomeD)
  then show ?thesis using val.raises [OF vw(3)] by (fastforce simp: sized_def list_all_iff)
qed

definition config_ok :: "align_config \<Rightarrow> bool" where
  "config_ok c \<longleftrightarrow> 0 \<le> weight_tool c \<and> 0 \<le> weight_args c \<and> 0 \<le> weight_reasoning c \<and> 0 \<le> weight_files c
     \<and> weight_tool c + weight_args c + weight_reasoning c + weight_files c = 1
     \<and> 0 \<le> weight_target c \<and> 0 \<le> weight_arg_rest c \<and> weight_target c + weight_arg_rest c = 1"

lemma configs_ok:
  "config_ok DEFAULT_CONFIG" "config_ok needleman_wunsch_config" "config_ok drop_reasoning_config"
  "config_ok target_only_args_config" "config_ok strict_args_config"
  by (simp_all add: config_ok_def DEFAULT_CONFIG_def needleman_wunsch_config_def
      drop_reasoning_config_def target_only_args_config_def strict_args_config_def)

lemma convex_range:
  "0 \<le> v \<Longrightarrow> 0 \<le> w \<Longrightarrow> v + w = 1 \<Longrightarrow> 0 \<le> x \<and> x \<le> 1 \<Longrightarrow> 0 \<le> y \<and> y \<le> 1 \<Longrightarrow>
   0 \<le> v * x + w * y \<and> v * x + w * y \<le> (1 :: real)"
  using mult_left_le [of x v] mult_left_le [of y w] mult_nonneg_nonneg [of v x] mult_nonneg_nonneg [of w y]
  by linarith

lemma argument_similarity_alt:
  "argument_similarity env config a b =
     (if arg_mode config = Strict then
        Inr (if py_eq (JObj (step_args a)) (JObj (step_args b)) then 1 else 0)
      else
        let batched = batch_names a \<noteq> [] \<or> batch_names b \<noteq> [];
            t = (if batched then batch_target_similarity a b else target_similarity a b)
        in if arg_mode config = TargetOnly then Inr t
           else bind_res (if batched then Inr t
                          else bind_res (rest_parts env (step_args a) (step_args b)) (\<lambda>parts. Inr (mean parts)))
                  (\<lambda>r. Inr (weight_target config * t + weight_arg_rest config * r)))"
  by (auto simp: argument_similarity_def mean_def Let_def bind_res_def split: sum.split)

lemma argument_similarity_range:
  assumes "config_ok config" "argument_similarity env config a b = Inr s"
  shows "0 \<le> s \<and> s \<le> 1"
proof -
  have w: "0 \<le> weight_target config" "0 \<le> weight_arg_rest config"
    "weight_target config + weight_arg_rest config = 1" using assms by (simp_all add: config_ok_def)
  have m: "0 \<le> mean xs \<and> mean xs \<le> 1" if "rest_parts env (step_args a) (step_args b) = Inr xs" for xs
    by (rule mean_range [OF rest_parts_range [OF that]])
  show ?thesis
    using assms(2) batch.range [of a b] tgt.range [of a b] m unfolding argument_similarity_alt Let_def
    by (auto simp: bind_res_eq_Inr intro!: convex_range [OF w, THEN conjunct1] convex_range [OF w, THEN conjunct2] split: if_splits)
qed

lemma argument_similarity_raises:
  "argument_similarity env config a b = Inl e \<Longrightarrow> e = OverflowError \<and> \<not> (sized a \<and> sized b)"
  using rest_parts_raises [of env a b e]
  by (auto simp: argument_similarity_def Let_def bind_res_def split: if_splits sum.splits)

lemma argument_similarity_refl:
  assumes "config_ok config" shows "argument_similarity env config a a = Inr 1"
proof -
  have "weight_target config + weight_arg_rest config = 1" using assms by (simp add: config_ok_def)
  moreover have "mean (map (\<lambda>_. 1) xs) = 1" for xs :: "string list" by (rule mean_ones) simp
  ultimately show ?thesis
    by (simp add: argument_similarity_alt Let_def batch.refl tgt.refl rest_parts_refl)
qed

section \<open>Step similarity\<close>

lemma cosine_range: "cosine u v = Inr c \<Longrightarrow> 0 \<le> c \<and> c \<le> 1"
  by (auto simp: cosine_def Let_def split: if_splits)

lemma cosine_total: "length u = length v \<Longrightarrow> \<exists>c. cosine u v = Inr c"
  by (auto simp: cosine_def Let_def)

lemma sum_squares_nonneg: "0 \<le> sum_list (map (\<lambda>x. x * x) (u :: vector))"
  by (induction u) auto

lemma sum_squares_zero: "sum_list (map (\<lambda>x. x * x) (u :: vector)) = 0 \<longleftrightarrow> (\<forall>x \<in> set u. x = 0)"
  using sum_squares_nonneg by (induction u) (auto simp: add_nonneg_eq_0_iff)

lemma cosine_self: "cosine u u = Inr (if \<forall>x \<in> set u. x = 0 then 0 else 1)"
proof -
  let ?q = "sum_list (map (\<lambda>x. x * x) u)"
  have "map2 (*) u u = map (\<lambda>x. x * x) u" by (induction u) auto
  then show ?thesis
    using sum_squares_nonneg [of u] sum_squares_zero [of u]
    by (simp add: cosine_def Let_def)
qed

definition step_ok :: "step \<Rightarrow> bool" where
  "step_ok s \<longleftrightarrow> finite (changed_files s)"

definition vectors_ok :: "align_config \<Rightarrow> step \<Rightarrow> step \<Rightarrow> (vector \<times> vector) option \<Rightarrow> bool" where
  "vectors_ok config a b vs \<longleftrightarrow>
     weight_reasoning config = 0 \<or>
     (case vs of None \<Rightarrow> reasoning a = [] \<and> reasoning b = [] | Some (u, v) \<Rightarrow> length u = length v)"

lemma step_similarity_eq_Inr:
  assumes "step_similarity env config a b vs = Inr s"
  obtains x c where "argument_similarity env config a b = Inr x" "0 \<le> c \<and> c \<le> 1"
    "s = weight_tool config * tool_similarity a b + weight_args config * x
       + weight_files config * jaccard_files (changed_files a) (changed_files b) + weight_reasoning config * c"
proof -
  obtain x where x: "argument_similarity env config a b = Inr x"
    using assms by (auto simp: step_similarity_def bind_res_eq_Inr)
  show ?thesis
    using assms x cosine_range that [OF x, of 1] that [OF x]
    by (fastforce simp: step_similarity_def Let_def bind_res_eq_Inr split: if_splits option.splits)
qed

text \<open>
  Step similarity is a similarity: for weights that are a convex combination, as in every shipped
  configuration, it lies between 0 and 1; with reasoning vectors of one width, or where none are needed, it raises
  only for an argument no float can hold.
\<close>

theorem step_similarity_range:
  assumes "config_ok config" "step_ok a" "step_ok b" "step_similarity env config a b vs = Inr s"
  shows "0 \<le> s \<and> s \<le> 1"
proof -
  obtain x c where s: "argument_similarity env config a b = Inr x" "0 \<le> c \<and> c \<le> 1"
    "s = weight_tool config * tool_similarity a b + weight_args config * x
       + weight_files config * jaccard_files (changed_files a) (changed_files b) + weight_reasoning config * c"
    using step_similarity_eq_Inr [OF assms(4)] .
  have w: "0 \<le> weight_tool config" "0 \<le> weight_args config" "0 \<le> weight_files config"
    "0 \<le> weight_reasoning config"
    "weight_tool config + weight_args config + weight_reasoning config + weight_files config = 1"
    using assms(1) by (simp_all add: config_ok_def)
  have "0 \<le> weight_files config * jaccard_files (changed_files a) (changed_files b)
      \<and> weight_files config * jaccard_files (changed_files a) (changed_files b) \<le> weight_files config"
    using files.weight_range [OF w(3)] assms(2,3) by (simp add: step_ok_def)
  moreover have "0 \<le> weight_args config * x \<and> weight_args config * x \<le> weight_args config"
    using argument_similarity_range [OF assms(1) s(1)] w(2) by (simp add: mult_left_le)
  moreover have "0 \<le> weight_reasoning config * c \<and> weight_reasoning config * c \<le> weight_reasoning config"
    using s(2) w(4) by (simp add: mult_left_le)
  ultimately show ?thesis
    using tool.weight_range [OF w(1), of a b, simplified] w(5) unfolding s(3) by linarith
qed

lemma step_similarity_raises:
  assumes "vectors_ok config a b vs" "step_similarity env config a b vs = Inl e"
  shows "e = OverflowError \<and> \<not> (sized a \<and> sized b)"
proof (cases "argument_similarity env config a b")
  case (Inl e')
  then show ?thesis using argument_similarity_raises [OF Inl] assms(2) by (simp add: step_similarity_def)
next
  case (Inr x)
  have "cosine u v \<noteq> Inl e" if "vs = Some (u, v)" "weight_reasoning config \<noteq> 0" for u v
    using assms(1) that cosine_total [of u v] by (auto simp: vectors_ok_def)
  then show ?thesis
    using assms Inr by (auto simp: step_similarity_def vectors_ok_def Let_def bind_res_def split: if_splits option.splits sum.splits)
qed

lemma step_similarity_self:
  assumes "config_ok config" "step_ok a"
  shows "step_similarity env config a a (Some (u, u)) =
    Inr (if \<forall>x \<in> set u. x = 0 then 1 - weight_reasoning config else 1)"
proof -
  have "weight_tool config + weight_args config + weight_files config = 1 - weight_reasoning config"
    using assms(1) by (simp add: config_ok_def)
  then show ?thesis
    using assms
    by (simp add: step_similarity_def Let_def cosine_self tool.refl argument_similarity_refl
        files.refl step_ok_def)
qed

section \<open>The embedder\<close>

lemma add_tokens_set: "set (add_tokens vocab ts) = set vocab \<union> set ts"
  by (induction ts arbitrary: vocab) auto

lemma foldl_add_tokens_set: "set (foldl add_tokens vocab tss) = set vocab \<union> \<Union> (set ` set tss)"
  by (induction tss arbitrary: vocab) (auto simp: add_tokens_set)

lemma index_of_less: "t \<in> set vocab \<Longrightarrow> index_of vocab t < length vocab"
  unfolding index_of_def by (induction vocab) auto

lemma length_count_tokens [simp]: "length (count_tokens vocab vec ts) = length vec"
  by (induction ts arbitrary: vec) auto

lemma sum_list_update_real:
  "i < length xs \<Longrightarrow> sum_list (xs[i := xs ! i + 1]) = sum_list xs + (1 :: real)"
  by (induction xs arbitrary: i) (auto split: nat.splits)

lemma sum_list_zero: "\<forall>x \<in> set xs. x = 0 \<Longrightarrow> sum_list xs = (0 :: real)"
  by (induction xs) auto

lemma sum_count_tokens:
  "length vocab \<le> length vec \<Longrightarrow> set ts \<subseteq> set vocab \<Longrightarrow>
   sum_list (count_tokens vocab vec ts) = sum_list vec + real (length ts)"
proof (induction ts arbitrary: vec)
  case (Cons t ts)
  then have "index_of vocab t < length vec" using index_of_less [of t vocab] by auto
  then show ?case using Cons by (simp add: sum_list_update_real)
qed simp

lemma length_lexical_embed [simp]: "length (lexical_embed texts) = length texts"
  by (simp add: lexical_embed_def Let_def)

lemma lexical_embed_width:
  "u \<in> set (lexical_embed texts) \<Longrightarrow> v \<in> set (lexical_embed texts) \<Longrightarrow> length u = length v"
  by (auto simp: lexical_embed_def Let_def)

definition has_token :: "string \<Rightarrow> bool" where
  "has_token t \<longleftrightarrow> findall (lower_str (fill_blank t)) \<noteq> []"

text \<open>A vector is zero exactly when its text, after filling a blank one, has no token.\<close>

lemma lexical_embed_nonzero:
  assumes "i < length texts" "has_token (texts ! i)"
  shows "\<not> (\<forall>x \<in> set (lexical_embed texts ! i). x = 0)"
proof
  let ?tok = "\<lambda>t. findall (lower_str (fill_blank t))"
  let ?vocab = "foldl add_tokens [] (map ?tok texts)"
  let ?vec = "count_tokens ?vocab (replicate (max (length ?vocab) 1) 0) (?tok (texts ! i))"
  assume "\<forall>x \<in> set (lexical_embed texts ! i). x = 0"
  moreover have v: "lexical_embed texts ! i = ?vec"
    using assms(1) by (simp add: lexical_embed_def Let_def comp_def)
  ultimately have "sum_list ?vec = 0" by (intro sum_list_zero) simp
  moreover have "set (?tok (texts ! i)) \<subseteq> set ?vocab"
    using assms(1) unfolding foldl_add_tokens_set by force
  then have "sum_list ?vec = real (length (?tok (texts ! i)))"
    by (subst sum_count_tokens) (auto simp: sum_list_replicate)
  ultimately show False using assms(2) by (simp add: has_token_def)
qed

lemma has_token_blank: "strip t = [] \<Longrightarrow> has_token t"
proof -
  have "findall ''.'' = [''.'']"
    by (simp add: findall.simps [of "''.''"] findall.simps [of "[]"] token_char_def byte_val_def is_digit_def)
  moreover have "lower_str ''.'' = ''.''" by (simp add: lower_str_def lower_char_def byte_val_def)
  ultimately show "strip t = [] \<Longrightarrow> has_token t" by (simp add: has_token_def fill_blank_def)
qed

end
