(* ===== verification/Gotoh.thy ===== *)
theory Gotoh
  imports Prelude
begin

text \<open>
  Affine-gap global alignment (\<open>gotoh\<close> of \<open>src/tracewake/align.py\<close>): the three score tables filled
  by nested loops over lists of lists, and the traceback loop. The lemmas relate the filled tables
  to a recursion, show that the traceback ends and reads off an alignment of both sequences whose
  affine score is the returned one, and that no alignment of the searched kind scores higher.
\<close>

section \<open>The algorithm\<close>

text \<open>The labels of the traceback, ordered as the strings \<open>"M" < "X" < "Y"\<close>.\<close>

datatype gstate = GM | GX | GY

fun gstate_rank :: "gstate \<Rightarrow> nat" where
  "gstate_rank GM = 0"
| "gstate_rank GX = 1"
| "gstate_rank GY = 2"

lemma gstate_rank_inj: "gstate_rank a = gstate_rank b \<Longrightarrow> a = b"
  by (cases a; cases b) simp_all

instantiation gstate :: linorder
begin

definition less_eq_gstate :: "gstate \<Rightarrow> gstate \<Rightarrow> bool" where
  "less_eq_gstate a b \<longleftrightarrow> gstate_rank a \<le> gstate_rank b"

definition less_gstate :: "gstate \<Rightarrow> gstate \<Rightarrow> bool" where
  "less_gstate a b \<longleftrightarrow> gstate_rank a < gstate_rank b"

instance
  by standard (auto simp: less_eq_gstate_def less_gstate_def dest: gstate_rank_inj)

end

type_synonym aligned = "(nat option \<times> nat option) list"

type_synonym table = "real list list"

record tables =
  tM :: table
  tX :: table
  tY :: table

definition cell :: "table \<Rightarrow> nat \<Rightarrow> nat \<Rightarrow> real" where
  "cell t i j = t ! i ! j"

definition set_cell :: "table \<Rightarrow> nat \<Rightarrow> nat \<Rightarrow> real \<Rightarrow> table" where
  "set_cell t i j v = t[i := (t ! i)[j := v]]"

definition neg :: real where
  "neg = - (10 ^ 30)"

definition init_tables :: "nat \<Rightarrow> nat \<Rightarrow> real \<Rightarrow> real \<Rightarrow> tables" where
  "init_tables n m gap_open gap_extend =
     (let blank = replicate (n + 1) (replicate (m + 1) neg)
      in \<lparr>tM = set_cell blank 0 0 0,
          tX = foldl (\<lambda>X i. set_cell X i 0 (gap_open + real (i - 1) * gap_extend)) blank [1..<n + 1],
          tY = foldl (\<lambda>Y j. set_cell Y 0 j (gap_open + real (j - 1) * gap_extend)) blank [1..<m + 1]\<rparr>)"

text \<open>The body of the inner loop; a row of \<open>scores\<close> that is too short raises.\<close>

definition fill_cell :: "table \<Rightarrow> real \<Rightarrow> real \<Rightarrow> nat \<Rightarrow> nat \<Rightarrow> tables \<Rightarrow> tables res" where
  "fill_cell scores gap_open gap_extend i j T =
     (if j - 1 \<ge> length (scores ! (i - 1)) then Inl IndexError
      else
        let s = scores ! (i - 1) ! (j - 1);
            M' = set_cell (tM T) i j
              (max (max (cell (tM T) (i - 1) (j - 1)) (cell (tX T) (i - 1) (j - 1)))
                 (cell (tY T) (i - 1) (j - 1)) + s);
            X' = set_cell (tX T) i j
              (max (cell M' (i - 1) j + gap_open) (cell (tX T) (i - 1) j + gap_extend));
            Y' = set_cell (tY T) i j
              (max (cell M' i (j - 1) + gap_open) (cell (tY T) i (j - 1) + gap_extend))
        in Inr \<lparr>tM = M', tX = X', tY = Y'\<rparr>)"

definition fill_tables :: "table \<Rightarrow> nat \<Rightarrow> nat \<Rightarrow> real \<Rightarrow> real \<Rightarrow> tables res" where
  "fill_tables scores n m gap_open gap_extend =
     fold_res (\<lambda>i. fold_res (\<lambda>j. fill_cell scores gap_open gap_extend i j) [1..<m + 1]) [1..<n + 1]
       (init_tables n m gap_open gap_extend)"

text \<open>The traceback loop; the pairs in the order they are appended.\<close>

function traceback :: "tables \<Rightarrow> real \<Rightarrow> real \<Rightarrow> nat \<Rightarrow> nat \<Rightarrow> gstate \<Rightarrow> aligned" where
  "traceback T gap_open gap_extend i j state =
     (if i > 0 \<or> j > 0 then
        if i > 0 \<and> j > 0 \<and> state = GM then
          (Some (i - 1), Some (j - 1)) #
          traceback T gap_open gap_extend (i - 1) (j - 1)
            (snd (max (max (cell (tM T) (i - 1) (j - 1), GM) (cell (tX T) (i - 1) (j - 1), GX))
                    (cell (tY T) (i - 1) (j - 1), GY)))
        else if i > 0 \<and> state = GX then
          (Some (i - 1), None) #
          traceback T gap_open gap_extend (i - 1) j
            (let state' = (if cell (tX T) (i - 1) j + gap_extend \<ge> cell (tM T) (i - 1) j + gap_open
                              \<and> i > 1 then GX else GM)
             in if i - 1 = 0 then (if j > 0 then GY else state') else state')
        else if j > 0 then
          (None, Some (j - 1)) #
          traceback T gap_open gap_extend i (j - 1)
            (let state' = (if j > 1 \<and> cell (tY T) i (j - 1) + gap_extend
                              \<ge> cell (tM T) i (j - 1) + gap_open then GY else GM)
             in if j - 1 = 0 \<and> i > 0 then GX else state')
        else []
      else [])"
  by pat_completeness auto
termination
  by (relation "measure (\<lambda>(T, a, b, i, j, state). i + j)") auto

declare traceback.simps [simp del]

definition gotoh :: "table \<Rightarrow> real \<Rightarrow> real \<Rightarrow> (real \<times> aligned) res" where
  "gotoh scores gap_open gap_extend =
     (let n = length scores;
          m = (if n > 0 then length (scores ! 0) else 0)
      in if n = 0 \<and> m = 0 then Inr (0, [])
         else if n = 0 then
           Inr (gap_open + real (m - 1) * gap_extend, map (\<lambda>j. (None, Some j)) [0..<m])
         else if m = 0 then
           Inr (gap_open + real (n - 1) * gap_extend, map (\<lambda>i. (Some i, None)) [0..<n])
         else
           bind_res (fill_tables scores n m gap_open gap_extend) (\<lambda>T.
             let best = max (max (cell (tM T) n m) (cell (tX T) n m)) (cell (tY T) n m);
                 state = (if cell (tM T) n m = best then GM
                          else if cell (tX T) n m = best then GX else GY)
             in Inr (best, rev (traceback T gap_open gap_extend n m state))))"

section \<open>The tables as a recursion\<close>

fun gM :: "(nat \<Rightarrow> nat \<Rightarrow> real) \<Rightarrow> real \<Rightarrow> real \<Rightarrow> nat \<Rightarrow> nat \<Rightarrow> real"
  and gX :: "(nat \<Rightarrow> nat \<Rightarrow> real) \<Rightarrow> real \<Rightarrow> real \<Rightarrow> nat \<Rightarrow> nat \<Rightarrow> real"
  and gY :: "(nat \<Rightarrow> nat \<Rightarrow> real) \<Rightarrow> real \<Rightarrow> real \<Rightarrow> nat \<Rightarrow> nat \<Rightarrow> real" where
  "gM sc go ge 0 0 = 0"
| "gM sc go ge (Suc i) 0 = neg"
| "gM sc go ge 0 (Suc j) = neg"
| "gM sc go ge (Suc i) (Suc j) =
     max (max (gM sc go ge i j) (gX sc go ge i j)) (gY sc go ge i j) + sc i j"
| "gX sc go ge 0 j = neg"
| "gX sc go ge (Suc i) 0 = go + real i * ge"
| "gX sc go ge (Suc i) (Suc j) = max (gM sc go ge i (Suc j) + go) (gX sc go ge i (Suc j) + ge)"
| "gY sc go ge i 0 = neg"
| "gY sc go ge 0 (Suc j) = go + real j * ge"
| "gY sc go ge (Suc i) (Suc j) = max (gM sc go ge (Suc i) j + go) (gY sc go ge (Suc i) j + ge)"

definition dims :: "nat \<Rightarrow> nat \<Rightarrow> table \<Rightarrow> bool" where
  "dims n m t \<longleftrightarrow> length t = n \<and> (\<forall>r \<in> set t. length r = m)"

lemma cell_set_cell:
  "dims n m t \<Longrightarrow> i < n \<Longrightarrow> j < m \<Longrightarrow>
   cell (set_cell t i j v) a b = (if a = i \<and> b = j then v else cell t a b)"
  by (auto simp: dims_def cell_def set_cell_def nth_list_update)

lemma dims_set_cell [simp]: "dims n m t \<Longrightarrow> i < n \<Longrightarrow> dims n m (set_cell t i j v)"
  by (auto simp: dims_def set_cell_def dest!: subsetD [OF set_update_subset_insert])

text \<open>The tables hold the recursion's values on the cells \<open>S\<close>.\<close>

definition filled ::
  "(nat \<Rightarrow> nat \<Rightarrow> real) \<Rightarrow> real \<Rightarrow> real \<Rightarrow> nat \<Rightarrow> nat \<Rightarrow> (nat \<times> nat) set \<Rightarrow> tables \<Rightarrow> bool" where
  "filled sc go ge n m S T \<longleftrightarrow>
     dims (n + 1) (m + 1) (tM T) \<and> dims (n + 1) (m + 1) (tX T) \<and> dims (n + 1) (m + 1) (tY T) \<and>
     (\<forall>i j. (i, j) \<in> S \<longrightarrow> cell (tM T) i j = gM sc go ge i j \<and> cell (tX T) i j = gX sc go ge i j
        \<and> cell (tY T) i j = gY sc go ge i j)"

lemma dims_blank: "dims (n + 1) (m + 1) (replicate (n + 1) (replicate (m + 1) neg))"
  by (simp add: dims_def)

lemma cell_blank: "i \<le> n \<Longrightarrow> j \<le> m \<Longrightarrow> cell (replicate (n + 1) (replicate (m + 1) v)) i j = v"
  by (simp add: cell_def del: replicate_Suc)

lemma init_X:
  fixes f :: "nat \<Rightarrow> real" and t :: table and k :: nat
  assumes "dims (n + 1) (m + 1) t" "k \<le> n"
  defines "X \<equiv> foldl (\<lambda>X i. set_cell X i 0 (f i)) t [1..<k + 1]"
  shows "dims (n + 1) (m + 1) X \<and>
    (\<forall>i j. cell X i j = (if 1 \<le> i \<and> i \<le> k \<and> j = 0 then f i else cell t i j))"
  using assms(2) unfolding X_def
  by (induction k) (use assms(1) in \<open>auto simp: cell_set_cell le_Suc_eq\<close>)

lemma init_Y:
  fixes f :: "nat \<Rightarrow> real" and t :: table and k :: nat
  assumes "dims (n + 1) (m + 1) t" "k \<le> m"
  defines "Y \<equiv> foldl (\<lambda>Y j. set_cell Y 0 j (f j)) t [1..<k + 1]"
  shows "dims (n + 1) (m + 1) Y \<and>
    (\<forall>i j. cell Y i j = (if 1 \<le> j \<and> j \<le> k \<and> i = 0 then f j else cell t i j))"
  using assms(2) unfolding Y_def
  by (induction k) (use assms(1) in \<open>auto simp: cell_set_cell le_Suc_eq\<close>)

definition border :: "nat \<Rightarrow> nat \<Rightarrow> (nat \<times> nat) set" where
  "border n m = {(i, j). i \<le> n \<and> j \<le> m \<and> (i = 0 \<or> j = 0)}"

lemma filled_init: "filled sc go ge n m (border n m) (init_tables n m go ge)"
proof -
  let ?blank = "replicate (n + 1) (replicate (m + 1) neg)"
  note b = dims_blank [of n m]
  have "cell (tM (init_tables n m go ge)) i j = gM sc go ge i j
      \<and> cell (tX (init_tables n m go ge)) i j = gX sc go ge i j
      \<and> cell (tY (init_tables n m go ge)) i j = gY sc go ge i j" if "(i, j) \<in> border n m" for i j
    using that init_X [OF b order_refl, of "\<lambda>i. go + real (i - 1) * ge"]
      init_Y [OF b order_refl, of "\<lambda>j. go + real (j - 1) * ge"]
      cell_blank [of i n j m neg] cell_set_cell [OF b, of 0 0 0 i j]
    by (cases i; cases j) (auto simp: init_tables_def border_def Let_def simp del: replicate_Suc)
  moreover have "dims (n + 1) (m + 1) (tM (init_tables n m go ge))"
    "dims (n + 1) (m + 1) (tX (init_tables n m go ge))"
    "dims (n + 1) (m + 1) (tY (init_tables n m go ge))"
    using init_X [OF b order_refl] init_Y [OF b order_refl] dims_set_cell [OF b]
    by (simp_all add: init_tables_def Let_def del: replicate_Suc)
  ultimately show ?thesis unfolding filled_def by blast
qed

lemma filled_cell:
  assumes "filled (\<lambda>i j. scores ! i ! j) go ge n m S T" "dims n m scores"
    and "1 \<le> i" "i \<le> n" "1 \<le> j" "j \<le> m"
    and "(i - 1, j - 1) \<in> S" "(i - 1, j) \<in> S" "(i, j - 1) \<in> S"
  shows "\<exists>T'. fill_cell scores go ge i j T = Inr T'
    \<and> filled (\<lambda>i j. scores ! i ! j) go ge n m (insert (i, j) S) T'"
proof -
  obtain a b where ab: "i = Suc a" "j = Suc b" using assms(3,5) by (cases i; cases j) auto
  have r: "length (scores ! a) = m" using assms(2,4) ab by (simp add: dims_def)
  show ?thesis
    using assms r unfolding ab filled_def
    by (auto simp: fill_cell_def Let_def cell_set_cell)
qed

lemma filled_mono: "filled sc go ge n m S T \<Longrightarrow> S' \<subseteq> S \<Longrightarrow> filled sc go ge n m S' T"
  unfolding filled_def by blast

text \<open>The cells known after \<open>i\<close> full rows and the cells up to column \<open>j\<close> of row \<open>i + 1\<close>.\<close>

definition done_cells :: "nat \<Rightarrow> nat \<Rightarrow> nat \<Rightarrow> nat \<Rightarrow> (nat \<times> nat) set" where
  "done_cells n m i j = border n m \<union> {(a, b). b \<le> m \<and> (a \<le> i \<or> a = Suc i \<and> b \<le> j)} \<inter> {(a, b). a \<le> n}"

lemma filled_row:
  assumes "dims n m scores" "i < n" "filled (\<lambda>i j. scores ! i ! j) go ge n m (done_cells n m i 0) T"
  shows "\<exists>T'. fold_res (\<lambda>j. fill_cell scores go ge (Suc i) j) [1..<m + 1] T = Inr T'
    \<and> filled (\<lambda>i j. scores ! i ! j) go ge n m (done_cells n m i m) T'"
proof -
  let ?I = "\<lambda>k. filled (\<lambda>i j. scores ! i ! j) go ge n m (done_cells n m i k)"
  have "\<exists>T'. fold_res (\<lambda>j. fill_cell scores go ge (Suc i) j) [1..<m + 1] T = Inr T'
      \<and> ?I (length [1..<m + 1]) T'"
  proof (rule fold_res_inv)
    fix k U assume k: "k < length [1..<m + 1]" and U: "?I k U"
    have "insert (Suc i, Suc k) (done_cells n m i k) \<supseteq> done_cells n m i (Suc k)"
      by (auto simp: done_cells_def)
    moreover have "\<exists>U'. fill_cell scores go ge (Suc i) (Suc k) U = Inr U'
        \<and> filled (\<lambda>i j. scores ! i ! j) go ge n m (insert (Suc i, Suc k) (done_cells n m i k)) U'"
      using k assms(2) by (intro filled_cell [OF U assms(1)]) (auto simp: done_cells_def border_def simp del: upt_Suc)
    ultimately show "\<exists>U'. fill_cell scores go ge (Suc i) ([1..<m + 1] ! k) U = Inr U' \<and> ?I (Suc k) U'"
      using k by (auto intro: filled_mono simp del: upt_Suc)
  qed (rule assms(3))
  then show ?thesis by (simp del: upt_Suc)
qed

lemma fill_tables_filled:
  assumes "dims n m scores"
  shows "\<exists>T. fill_tables scores n m go ge = Inr T
    \<and> filled (\<lambda>i j. scores ! i ! j) go ge n m ({0..n} \<times> {0..m}) T"
proof -
  let ?I = "\<lambda>k. filled (\<lambda>i j. scores ! i ! j) go ge n m (done_cells n m k 0)"
  have "\<exists>T. fill_tables scores n m go ge = Inr T \<and> ?I (length [1..<n + 1]) T"
    unfolding fill_tables_def
  proof (rule fold_res_inv)
    show "?I 0 (init_tables n m go ge)"
      by (rule filled_mono [OF filled_init]) (auto simp: done_cells_def border_def)
    fix k T assume k: "k < length [1..<n + 1]" "?I k T"
    have "done_cells n m k m \<supseteq> done_cells n m (Suc k) 0"
      by (auto simp: done_cells_def border_def)
    then show "\<exists>T'. fold_res (\<lambda>j. fill_cell scores go ge ([1..<n + 1] ! k) j) [1..<m + 1] T = Inr T'
        \<and> ?I (Suc k) T'"
      using filled_row [OF assms, of k go ge T] k by (auto intro: filled_mono simp del: upt_Suc)
  qed
  moreover have "{0..n} \<times> {0..m} \<subseteq> done_cells n m n 0" by (auto simp: done_cells_def)
  ultimately show ?thesis by (auto intro: filled_mono simp del: upt_Suc)
qed

section \<open>Alignments and their score\<close>

text \<open>
  An alignment is a list of columns that uses every index of both sides once and in order; its
  affine score charges \<open>gap_open\<close> for the first column of a gap and \<open>gap_extend\<close> for the others.
  The searched alignments have no gap in one side directly next to a gap in the other.
\<close>

definition covers :: "nat \<Rightarrow> nat \<Rightarrow> aligned \<Rightarrow> bool" where
  "covers n m cols \<longleftrightarrow> List.map_filter fst cols = [0..<n] \<and> List.map_filter snd cols = [0..<m]
     \<and> (None, None) \<notin> set cols"

fun kind :: "nat option \<times> nat option \<Rightarrow> gstate" where
  "kind (Some i, Some j) = GM"
| "kind (Some i, None) = GX"
| "kind (None, j) = GY"

fun column_score ::
  "(nat \<Rightarrow> nat \<Rightarrow> real) \<Rightarrow> real \<Rightarrow> real \<Rightarrow> gstate \<Rightarrow> nat option \<times> nat option \<Rightarrow> real" where
  "column_score sc go ge prev (Some i, Some j) = sc i j"
| "column_score sc go ge prev c = (if prev = kind c then ge else go)"

fun affine_score :: "(nat \<Rightarrow> nat \<Rightarrow> real) \<Rightarrow> real \<Rightarrow> real \<Rightarrow> gstate \<Rightarrow> aligned \<Rightarrow> real" where
  "affine_score sc go ge prev [] = 0"
| "affine_score sc go ge prev (c # cs) =
     column_score sc go ge prev c + affine_score sc go ge (kind c) cs"

definition one_sided :: "aligned \<Rightarrow> bool" where
  "one_sided cols \<longleftrightarrow> successively (\<lambda>a b. {kind a, kind b} \<noteq> {GX, GY}) cols"

definition last_kind :: "aligned \<Rightarrow> gstate" where
  "last_kind cols = (if cols = [] then GM else kind (last cols))"

lemma last_kind_simps [simp]: "last_kind [] = GM" "last_kind (cs @ [c]) = kind c"
  by (simp_all add: last_kind_def)

lemma affine_score_snoc:
  "affine_score sc go ge p (cs @ [c]) = affine_score sc go ge p cs
     + column_score sc go ge (if cs = [] then p else kind (last cs)) c"
  by (induction cs arbitrary: p) auto

lemma affine_score_snoc_GM [simp]:
  "affine_score sc go ge GM (cs @ [c]) = affine_score sc go ge GM cs
     + column_score sc go ge (last_kind cs) c"
  by (simp add: affine_score_snoc last_kind_def)

lemma one_sided_snoc [simp]:
  "one_sided (cs @ [c]) \<longleftrightarrow> one_sided cs \<and> (cs \<noteq> [] \<longrightarrow> {last_kind cs, kind c} \<noteq> {GX, GY})"
  by (auto simp: one_sided_def successively_append_iff last_kind_def)

lemma map_filter_snoc:
  "List.map_filter f (xs @ [x]) = List.map_filter f xs @ (case f x of None \<Rightarrow> [] | Some y \<Rightarrow> [y])"
  by (simp add: map_filter_def split: option.split)

lemma snoc_eq_upt: "xs @ [x] = [0..<n] \<longleftrightarrow> (\<exists>k. n = Suc k \<and> x = k \<and> xs = [0..<k])"
  by (cases n) auto

lemma covers_Nil [simp]: "covers n m [] \<longleftrightarrow> n = 0 \<and> m = 0"
  by (auto simp: covers_def map_filter_def eq_commute [of "[]"])

lemma covers_snoc:
  "covers n m (cs @ [c]) \<longleftrightarrow>
     (\<exists>i j. c = (Some i, Some j) \<and> n = Suc i \<and> m = Suc j \<and> covers i j cs)
   \<or> (\<exists>i. c = (Some i, None) \<and> n = Suc i \<and> covers i m cs)
   \<or> (\<exists>j. c = (None, Some j) \<and> m = Suc j \<and> covers n j cs)"
proof -
  obtain a b where c: "c = (a, b)" by force
  show ?thesis
    unfolding c covers_def map_filter_snoc
    by (cases a; cases b) (auto simp: snoc_eq_upt)
qed

text \<open>The table a state stands for.\<close>

fun g_of :: "gstate \<Rightarrow> (nat \<Rightarrow> nat \<Rightarrow> real) \<Rightarrow> real \<Rightarrow> real \<Rightarrow> nat \<Rightarrow> nat \<Rightarrow> real" where
  "g_of GM = gM" | "g_of GX = gX" | "g_of GY = gY"

definition g_best :: "(nat \<Rightarrow> nat \<Rightarrow> real) \<Rightarrow> real \<Rightarrow> real \<Rightarrow> nat \<Rightarrow> nat \<Rightarrow> real" where
  "g_best sc go ge i j = max (max (gM sc go ge i j) (gX sc go ge i j)) (gY sc go ge i j)"

lemma g_of_le_best: "g_of st sc go ge i j \<le> g_best sc go ge i j"
  by (cases st) (auto simp: g_best_def)

lemma gX_step:
  "(i, j) = (0, 0) \<or> (0 < i \<and> 0 < j) \<Longrightarrow> gM sc go ge i j + go \<le> gX sc go ge (Suc i) j"
  "0 < i \<Longrightarrow> gX sc go ge i j + ge \<le> gX sc go ge (Suc i) j"
  by (cases j; cases i; simp add: algebra_simps)+

lemma gY_step:
  "(i, j) = (0, 0) \<or> (0 < i \<and> 0 < j) \<Longrightarrow> gM sc go ge i j + go \<le> gY sc go ge i (Suc j)"
  "0 < j \<Longrightarrow> gY sc go ge i j + ge \<le> gY sc go ge i (Suc j)"
  by (cases i; cases j; simp add: algebra_simps)+

lemma last_kind_covers:
  assumes "covers i j cs"
  shows "last_kind cs = GM \<Longrightarrow> (i, j) = (0, 0) \<or> (0 < i \<and> 0 < j)"
    and "last_kind cs = GX \<Longrightarrow> 0 < i" and "last_kind cs = GY \<Longrightarrow> 0 < j"
  using assms by (cases cs rule: rev_cases; force simp: covers_snoc)+

text \<open>No alignment scores above the table entry of its last column.\<close>

lemma affine_score_upper:
  "covers i j cs \<Longrightarrow> one_sided cs \<Longrightarrow>
   affine_score sc go ge GM cs \<le> g_of (last_kind cs) sc go ge i j"
proof (induction cs arbitrary: i j rule: rev_induct)
  case (snoc c cs)
  then have os: "one_sided cs" by simp
  from snoc.prems(1) show ?case unfolding covers_snoc
  proof (elim disjE exE conjE)
    fix a b assume c: "c = (Some a, Some b)" "i = Suc a" "j = Suc b" "covers a b cs"
    then show ?thesis
      using snoc.IH [OF c(4) os] g_of_le_best [of "last_kind cs" sc go ge a b]
      by (simp add: g_best_def)
  next
    fix a assume c: "c = (Some a, None)" "i = Suc a" "covers a j cs"
    then have "last_kind cs \<noteq> GY" using snoc.prems(2) by (auto simp: last_kind_def split: if_splits)
    then show ?thesis
      using snoc.IH [OF c(3) os] last_kind_covers [OF c(3)] c gX_step [where i = a and j = j and sc = sc and go = go and ge = ge]
      by (cases "last_kind cs") fastforce+
  next
    fix b assume c: "c = (None, Some b)" "j = Suc b" "covers i b cs"
    then have "last_kind cs \<noteq> GX" using snoc.prems(2) by (auto simp: last_kind_def split: if_splits)
    then show ?thesis
      using snoc.IH [OF c(3) os] last_kind_covers [OF c(3)] c gY_step [where i = i and j = b and sc = sc and go = go and ge = ge]
      by (cases "last_kind cs") fastforce+
  qed
qed simp

section \<open>The traceback attains the table entry\<close>

text \<open>
  The sentinel \<^const>\<open>neg\<close> stands for an impossible entry. With scores and penalties bounded by
  \<open>K\<close> and tables small against the sentinel, an entry is either possible and above \<open>-10^30 / 2\<close> or
  stays below it, so the two never mix.
\<close>

definition sane :: "(nat \<Rightarrow> nat \<Rightarrow> real) \<Rightarrow> real \<Rightarrow> real \<Rightarrow> nat \<Rightarrow> nat \<Rightarrow> real \<Rightarrow> bool" where
  "sane sc go ge n m K \<longleftrightarrow> \<bar>go\<bar> \<le> K \<and> \<bar>ge\<bar> \<le> K \<and> (\<forall>i < n. \<forall>j < m. \<bar>sc i j\<bar> \<le> K)
     \<and> 2 * (real (n + m + 1) * K) < 10 ^ 30"

definition live :: "real \<Rightarrow> bool" where
  "live v \<longleftrightarrow> - (10 ^ 30) / 2 < v"

definition apart :: "real \<Rightarrow> real \<Rightarrow> bool" where
  "apart k v \<longleftrightarrow> - k \<le> v \<or> v \<le> neg + k"

lemma apart_max: "apart k a \<Longrightarrow> apart k b \<Longrightarrow> apart k (max a b)"
  by (simp add: max_def)

lemma apart_add: "apart k v \<Longrightarrow> \<bar>d\<bar> \<le> K \<Longrightarrow> k + K \<le> l \<Longrightarrow> apart l (v + d)"
  by (auto simp: apart_def)

lemma apart_neg: "0 \<le> k \<Longrightarrow> apart k neg"
  by (simp add: apart_def)

lemma sane_pos: "sane sc go ge n m K \<Longrightarrow> 0 \<le> K"
  by (auto simp: sane_def)

lemma border_bound:
  assumes "\<bar>go\<bar> \<le> K" "\<bar>ge\<bar> \<le> K" shows "\<bar>go + real k * ge\<bar> \<le> real (Suc k) * K"
proof -
  have "real k * \<bar>ge\<bar> \<le> real k * K" using assms(2) by (intro mult_left_mono) auto
  then show ?thesis
    using assms(1) by (intro order_trans [OF abs_triangle_ineq]) (simp add: abs_mult algebra_simps)
qed

lemma border_apart:
  "\<bar>go\<bar> \<le> K \<Longrightarrow> \<bar>ge\<bar> \<le> K \<Longrightarrow> apart (real (Suc k) * K) (go + real k * ge)"
  using border_bound [of go K ge k] unfolding apart_def by linarith

lemma g_apart:
  assumes "sane sc go ge n m K" "i \<le> n" "j \<le> m"
  shows "apart (real (i + j) * K) (g_of st sc go ge i j)"
  using assms(2,3)
proof (induction "i + j" arbitrary: i j st rule: less_induct)
  case less
  note K = sane_pos [OF assms(1)]
  have b: "\<bar>go\<bar> \<le> K" "\<bar>ge\<bar> \<le> K" "\<And>i j. i < n \<Longrightarrow> j < m \<Longrightarrow> \<bar>sc i j\<bar> \<le> K"
    using assms(1) by (auto simp: sane_def)
  have IH: "apart (real (a + b) * K) (gM sc go ge a b)" "apart (real (a + b) * K) (gX sc go ge a b)"
    "apart (real (a + b) * K) (gY sc go ge a b)" if "a + b < i + j" "a \<le> n" "b \<le> m" for a b
    using less.hyps [OF that, of GM] less.hyps [OF that, of GX] less.hyps [OF that, of GY] by simp_all
  have neg: "apart (real k * K) neg" for k using K by (intro apart_neg) simp
  show ?case
  proof (cases i; cases j)
    fix a b assume ij: "i = Suc a" "j = Suc b"
    have "apart (real (i + j) * K) (gM sc go ge i j)" unfolding ij gM.simps
      using less.prems ij K by (intro apart_add [where k = "real (a + b) * K", OF _ b(3)] apart_max IH) (auto simp: algebra_simps)
    moreover have "apart (real (i + j) * K) (gX sc go ge i j)" unfolding ij gX.simps
      using less.prems ij
      by (intro apart_max apart_add [OF IH(1) b(1)] apart_add [OF IH(2) b(2)]) (auto simp: algebra_simps)
    moreover have "apart (real (i + j) * K) (gY sc go ge i j)" unfolding ij gY.simps
      using less.prems ij
      by (intro apart_max apart_add [OF IH(1) b(1)] apart_add [OF IH(3) b(2)]) (auto simp: algebra_simps)
    ultimately show ?thesis by (cases st) simp_all
  qed (use neg [of "i + j"] border_apart [OF b(1,2)] K in \<open>cases st; auto simp: apart_def\<close>)+
qed

lemma live_sum:
  "apart k v \<Longrightarrow> \<bar>d\<bar> \<le> K \<Longrightarrow> 0 \<le> K \<Longrightarrow> k + K \<le> B \<Longrightarrow> 2 * B < 10 ^ 30 \<Longrightarrow> live (v + d) \<Longrightarrow> live v"
  by (auto simp: apart_def live_def neg_def)

lemma live_pred:
  assumes "sane sc go ge n m K" "i + j \<le> n + m" "apart (real (i + j) * K) v" "\<bar>d\<bar> \<le> K" "live (v + d)"
  shows "live v"
proof (rule live_sum [OF assms(3,4) sane_pos [OF assms(1)] _ _ assms(5)])
  show "real (i + j) * K + K \<le> real (n + m + 1) * K"
    using assms(2) sane_pos [OF assms(1)] mult_right_mono [of "real (i + j + 1)" "real (n + m + 1)" K]
    by (simp add: algebra_simps)
  show "2 * (real (n + m + 1) * K) < 10 ^ 30" using assms(1) by (simp add: sane_def)
qed

lemma dead_sum: "\<bar>d\<bar> \<le> K \<Longrightarrow> K \<le> B \<Longrightarrow> 2 * B < 10 ^ 30 \<Longrightarrow> \<not> live (neg + d)"
  by (simp add: live_def neg_def)

lemma dead_entries:
  assumes "sane sc go ge n m K"
  shows "\<not> live neg" "\<not> live (max (neg + go) (neg + ge))"
proof -
  have *: "\<bar>go\<bar> \<le> K" "\<bar>ge\<bar> \<le> K" "2 * (real (n + m + 1) * K) < 10 ^ 30"
    using assms by (auto simp: sane_def)
  have "K \<le> real (n + m + 1) * K"
    using mult_right_mono [of 1 "real (n + m + 1)" K] sane_pos [OF assms] by simp
  note dead_sum [OF *(1) this *(3)] dead_sum [OF *(2) this *(3)]
  then show "\<not> live neg" "\<not> live (max (neg + go) (neg + ge))"
    by (simp_all add: live_def neg_def max_def)
qed

lemma live_M: "sane sc go ge n m K \<Longrightarrow> live (gM sc go ge i j) \<Longrightarrow> (i = 0 \<and> j = 0) \<or> (0 < i \<and> 0 < j)"
  using dead_entries(1) by (cases i; cases j) auto

lemma live_X:
  "sane sc go ge n m K \<Longrightarrow> live (gX sc go ge i j) \<Longrightarrow> 0 < i \<and> (j = 0 \<or> 1 < i)"
  using dead_entries by (cases i; cases j; cases "i - 1") auto

lemma live_Y:
  "sane sc go ge n m K \<Longrightarrow> live (gY sc go ge i j) \<Longrightarrow> 0 < j \<and> (i = 0 \<or> 1 < j)"
  using dead_entries by (cases j; cases i; cases "j - 1") auto

lemma argmax_state:
  "g_of (snd (max (max (gM sc go ge a b, GM) (gX sc go ge a b, GX)) (gY sc go ge a b, GY))) sc go ge a b
    = g_best sc go ge a b"
  by (auto simp: max_def g_best_def less_eq_gstate_def)

text \<open>One iteration of the traceback from a live entry, in each of its three states.\<close>

lemma filled_cells:
  assumes "filled sc go ge n m ({0..n} \<times> {0..m}) T" "i \<le> n" "j \<le> m"
  shows "cell (tM T) i j = gM sc go ge i j" "cell (tX T) i j = gX sc go ge i j"
    "cell (tY T) i j = gY sc go ge i j"
  using assms by (simp_all add: filled_def)

lemma trace_M:
  assumes "filled sc go ge n m ({0..n} \<times> {0..m}) T" "Suc a \<le> n" "Suc b \<le> m"
  shows "\<exists>st. traceback T go ge (Suc a) (Suc b) GM = (Some a, Some b) # traceback T go ge a b st
    \<and> g_of st sc go ge a b = g_best sc go ge a b"
  using assms argmax_state [of sc go ge a b]
  by (subst traceback.simps) (auto simp: filled_cells [OF assms(1)] intro!: exI)

lemma neg_le_gaps:
  assumes "sane sc go ge n m K" "k \<le> n + m" shows "neg \<le> real k * ge"
proof -
  have "real k * \<bar>ge\<bar> \<le> real (n + m + 1) * K"
    using assms by (intro mult_mono) (auto simp: sane_def)
  moreover have "2 * (real (n + m + 1) * K) < 10 ^ 30" using assms(1) by (simp add: sane_def)
  moreover have "- (real k * ge) \<le> real k * \<bar>ge\<bar>"
    by (metis abs_ge_minus_self abs_mult abs_of_nat)
  moreover have "0 \<le> real k * \<bar>ge\<bar>" by simp
  ultimately show ?thesis unfolding neg_def by linarith
qed

lemma trace_X:
  assumes "sane sc go ge n m K" "filled sc go ge n m ({0..n} \<times> {0..m}) T" "Suc a \<le> n" "j \<le> m"
    and "live (gX sc go ge (Suc a) j)"
  shows "\<exists>st. traceback T go ge (Suc a) j GX = (Some a, None) # traceback T go ge a j st
    \<and> gX sc go ge (Suc a) j = g_of st sc go ge a j + (if st = GX then ge else go)
    \<and> st \<noteq> GY \<and> live (g_of st sc go ge a j)"
proof -
  define st where
    "st = (if gX sc go ge a j + ge \<ge> gM sc go ge a j + go \<and> 0 < a then GX else GM)"
  have t: "traceback T go ge (Suc a) j GX = (Some a, None) # traceback T go ge a j st"
    using live_X [OF assms(1,5)] assms(3,4)
    by (subst traceback.simps) (auto simp: filled_cells [OF assms(2)] st_def)
  have v: "gX sc go ge (Suc a) j = g_of st sc go ge a j + (if st = GX then ge else go)"
    using live_X [OF assms(1,5)] neg_le_gaps [OF assms(1), of a] assms(3)
    by (cases a; cases j) (auto simp: st_def max_def algebra_simps)
  have "\<bar>if st = GX then ge else go\<bar> \<le> K" using assms(1) by (simp add: sane_def)
  then have "live (g_of st sc go ge a j)"
    using assms(1,3,4,5) v by (intro live_pred [OF assms(1) _ g_apart [OF assms(1)]]) auto
  moreover have "st \<noteq> GY" by (simp add: st_def)
  ultimately show ?thesis using t v by blast
qed

lemma trace_Y:
  assumes "sane sc go ge n m K" "filled sc go ge n m ({0..n} \<times> {0..m}) T" "i \<le> n" "Suc b \<le> m"
    and "live (gY sc go ge i (Suc b))"
  shows "\<exists>st. traceback T go ge i (Suc b) GY = (None, Some b) # traceback T go ge i b st
    \<and> gY sc go ge i (Suc b) = g_of st sc go ge i b + (if st = GY then ge else go)
    \<and> st \<noteq> GX \<and> live (g_of st sc go ge i b)"
proof -
  define st where
    "st = (if 0 < b \<and> gY sc go ge i b + ge \<ge> gM sc go ge i b + go then GY else GM)"
  have t: "traceback T go ge i (Suc b) GY = (None, Some b) # traceback T go ge i b st"
    using live_Y [OF assms(1,5)] assms(3,4)
    by (subst traceback.simps) (auto simp: filled_cells [OF assms(2)] st_def)
  have v: "gY sc go ge i (Suc b) = g_of st sc go ge i b + (if st = GY then ge else go)"
    using live_Y [OF assms(1,5)] neg_le_gaps [OF assms(1), of b] assms(4)
    by (cases i; cases b) (auto simp: st_def max_def algebra_simps)
  have "\<bar>if st = GY then ge else go\<bar> \<le> K" using assms(1) by (simp add: sane_def)
  then have "live (g_of st sc go ge i b)"
    using assms(1,3,4,5) v by (intro live_pred [OF assms(1) _ g_apart [OF assms(1)]]) auto
  moreover have "st \<noteq> GX" by (simp add: st_def)
  ultimately show ?thesis using t v by blast
qed

text \<open>What the traceback from a state at a cell has to return.\<close>

definition attains ::
  "(nat \<Rightarrow> nat \<Rightarrow> real) \<Rightarrow> real \<Rightarrow> real \<Rightarrow> nat \<Rightarrow> nat \<Rightarrow> gstate \<Rightarrow> aligned \<Rightarrow> bool" where
  "attains sc go ge i j st cols \<longleftrightarrow> covers i j cols \<and> one_sided cols \<and> last_kind cols = st
     \<and> affine_score sc go ge GM cols = g_of st sc go ge i j"

lemma attains_M:
  "attains sc go ge a b st cs \<Longrightarrow> g_of st sc go ge a b = g_best sc go ge a b \<Longrightarrow>
   attains sc go ge (Suc a) (Suc b) GM (cs @ [(Some a, Some b)])"
  by (auto simp: attains_def covers_snoc g_best_def)

lemma attains_X:
  "attains sc go ge a j st cs \<Longrightarrow> st \<noteq> GY \<Longrightarrow>
   gX sc go ge (Suc a) j = g_of st sc go ge a j + (if st = GX then ge else go) \<Longrightarrow>
   attains sc go ge (Suc a) j GX (cs @ [(Some a, None)])"
  by (cases st) (auto simp: attains_def covers_snoc)

lemma attains_Y:
  "attains sc go ge i b st cs \<Longrightarrow> st \<noteq> GX \<Longrightarrow>
   gY sc go ge i (Suc b) = g_of st sc go ge i b + (if st = GY then ge else go) \<Longrightarrow>
   attains sc go ge i (Suc b) GY (cs @ [(None, Some b)])"
  by (cases st) (auto simp: attains_def covers_snoc)

lemma traceback_attains:
  assumes sane: "sane sc go ge n m K" and full: "filled sc go ge n m ({0..n} \<times> {0..m}) T"
  shows "i \<le> n \<Longrightarrow> j \<le> m \<Longrightarrow> live (g_of st sc go ge i j) \<Longrightarrow>
    attains sc go ge i j st (rev (traceback T go ge i j st))"
proof (induction "i + j" arbitrary: i j st rule: less_induct)
  case less
  show ?case
  proof (cases st)
    case GM
    consider "i = 0" "j = 0" | a b where "i = Suc a" "j = Suc b"
      using live_M [OF sane, of i j] less.prems(3) GM by (cases i; cases j) auto
    then show ?thesis
    proof cases
      case 1
      then show ?thesis using GM by (subst traceback.simps) (simp add: attains_def one_sided_def)
    next
      case (2 a b)
      obtain st' where t: "traceback T go ge i j GM = (Some a, Some b) # traceback T go ge a b st'"
        "g_of st' sc go ge a b = g_best sc go ge a b"
        using trace_M [OF full, of a b] 2 less.prems by auto
      have "live (g_of st' sc go ge a b)"
        using sane 2 less.prems GM t(2)
        by (intro live_pred [where d = "sc a b", OF sane _ g_apart [OF sane]])
          (auto simp: sane_def g_best_def)
      then have "attains sc go ge a b st' (rev (traceback T go ge a b st'))"
        using 2 less.prems by (intro less.hyps) auto
      then show ?thesis using attains_M t 2 GM by simp
    qed
  next
    case GX
    then obtain a where a: "i = Suc a" using live_X [OF sane, of i j] less.prems(3) by (cases i) auto
    from trace_X [OF sane full, of a j] a less.prems GX obtain st' where
      t: "traceback T go ge i j GX = (Some a, None) # traceback T go ge a j st'" and
      v: "gX sc go ge (Suc a) j = g_of st' sc go ge a j + (if st' = GX then ge else go)"
        "st' \<noteq> GY" "live (g_of st' sc go ge a j)"
      by auto
    have "attains sc go ge a j st' (rev (traceback T go ge a j st'))"
      using a less.prems v(3) by (intro less.hyps) auto
    then show ?thesis using attains_X [OF _ v(2,1)] t a GX by simp
  next
    case GY
    then obtain b where b: "j = Suc b" using live_Y [OF sane, of i j] less.prems(3) by (cases j) auto
    from trace_Y [OF sane full, of i b] b less.prems GY obtain st' where
      t: "traceback T go ge i j GY = (None, Some b) # traceback T go ge i b st'" and
      v: "gY sc go ge i (Suc b) = g_of st' sc go ge i b + (if st' = GY then ge else go)"
        "st' \<noteq> GX" "live (g_of st' sc go ge i b)"
      by auto
    have "attains sc go ge i b st' (rev (traceback T go ge i b st'))"
      using b less.prems v(3) by (intro less.hyps) auto
    then show ?thesis using attains_Y [OF _ v(2,1)] t b GY by simp
  qed
qed

lemma g_best_lower:
  assumes "sane sc go ge n m K" "i \<le> n" "j \<le> m"
  shows "- (real (i + j) * K) \<le> g_best sc go ge i j"
  using assms(2,3)
proof (induction i arbitrary: j)
  case 0
  have "\<bar>go\<bar> \<le> K" "\<bar>ge\<bar> \<le> K" using assms(1) by (auto simp: sane_def)
  then show ?case
    using border_bound [of go K ge "j - 1"]
    by (cases j) (auto simp: g_best_def abs_le_iff le_max_iff_disj)
next
  case (Suc i)
  have b: "\<bar>go\<bar> \<le> K" "\<bar>ge\<bar> \<le> K" "\<And>j. j < m \<Longrightarrow> \<bar>sc i j\<bar> \<le> K"
    using assms(1) Suc.prems by (auto simp: sane_def)
  show ?case
  proof (cases j)
    case 0
    then show ?thesis using border_bound [OF b(1,2), of i] by (auto simp: g_best_def abs_le_iff le_max_iff_disj)
  next
    case (Suc k)
    then have "- (real (i + k) * K) \<le> g_best sc go ge i k" "- K \<le> sc i k"
      using Suc.IH [of k] Suc.prems b(3) [of k] by auto
    moreover have "g_best sc go ge i k + sc i k \<le> g_best sc go ge (Suc i) j"
      using Suc g_of_le_best [of GM sc go ge "Suc i" j] by (simp add: g_best_def)
    ultimately show ?thesis using sane_pos [OF assms(1)] Suc by (simp add: algebra_simps)
  qed
qed

lemma g_best_live:
  assumes "sane sc go ge n m K" shows "live (g_best sc go ge n m)"
proof -
  have "real (n + m) * K \<le> real (n + m + 1) * K"
    using sane_pos [OF assms] by (intro mult_right_mono) simp_all
  moreover have "2 * (real (n + m + 1) * K) < 10 ^ 30" using assms by (simp add: sane_def)
  ultimately show ?thesis
    using g_best_lower [OF assms order_refl order_refl] unfolding live_def by linarith
qed

lemma gotoh_best:
  assumes "dims n m scores" "0 < n" "0 < m" "sane (\<lambda>i j. scores ! i ! j) go ge n m K"
  shows "\<exists>best pairs. gotoh scores go ge = Inr (best, pairs) \<and> covers n m pairs \<and> one_sided pairs
    \<and> affine_score (\<lambda>i j. scores ! i ! j) go ge GM pairs = best
    \<and> (\<forall>cols. covers n m cols \<longrightarrow> one_sided cols \<longrightarrow>
         affine_score (\<lambda>i j. scores ! i ! j) go ge GM cols \<le> best)"
proof -
  let ?sc = "\<lambda>i j. scores ! i ! j"
  let ?best = "g_best ?sc go ge n m"
  define st where "st = (if gM ?sc go ge n m = ?best then GM else if gX ?sc go ge n m = ?best then GX else GY)"
  obtain T where T: "fill_tables scores n m go ge = Inr T"
    "filled ?sc go ge n m ({0..n} \<times> {0..m}) T" using fill_tables_filled [OF assms(1)] by blast
  have st: "g_of st ?sc go ge n m = ?best" by (auto simp: st_def g_best_def max_def)
  then have "attains ?sc go ge n m st (rev (traceback T go ge n m st))"
    using g_best_live [OF assms(4)] by (intro traceback_attains [OF assms(4) T(2)]) simp_all
  moreover have "length scores = n" "length (scores ! 0) = m" using assms(1,2) by (auto simp: dims_def)
  then have "gotoh scores go ge = Inr (?best, rev (traceback T go ge n m st))"
    using assms(2,3) T(1)
    by (simp add: gotoh_def Let_def filled_cells [OF T(2)] st_def flip: g_best_def)
  moreover have "affine_score ?sc go ge GM cols \<le> ?best" if "covers n m cols" "one_sided cols" for cols
    using affine_score_upper [OF that, of ?sc go ge] g_of_le_best order_trans by blast
  ultimately show ?thesis using st by (auto simp: attains_def)
qed

text \<open>
  C1. Alignment is optimal: on a rectangular score matrix with at least one row and column, scores
  and penalties bounded by \<open>K\<close> and a size that keeps the sentinel out of reach, \<open>gotoh\<close> returns an
  alignment that uses every step of both runs once and in order, whose affine gap score is the score
  it returns, and no alignment without directly adjacent opposite gaps scores higher.
\<close>

theorem gotoh_optimal:
  assumes "dims n m scores" "0 < n" "0 < m" "sane (\<lambda>i j. scores ! i ! j) go ge n m K"
  shows "\<exists>best pairs. gotoh scores go ge = Inr (best, pairs) \<and> covers n m pairs \<and> one_sided pairs
    \<and> affine_score (\<lambda>i j. scores ! i ! j) go ge GM pairs = best
    \<and> (\<forall>cols. covers n m cols \<longrightarrow> one_sided cols \<longrightarrow>
         affine_score (\<lambda>i j. scores ! i ! j) go ge GM cols \<le> best)"
  by (rule gotoh_best [OF assms])

theorem gotoh_optimal_witness:
  "\<exists>best pairs. gotoh [[1, -1], [-1, 1]] (-1) (-1/5) = Inr (best, pairs) \<and> covers 2 2 pairs \<and> 2 \<le> best"
proof -
  let ?s = "[[1, -1], [-1, 1]] :: table"
  have d: "dims 2 2 ?s" by (simp add: dims_def)
  have s: "sane (\<lambda>i j. ?s ! i ! j) (-1) (-1/5) 2 2 1"
    by (auto simp: sane_def less_2_cases_iff)
  let ?cols = "[(Some 0, Some 0), (Some 1, Some 1)] :: aligned"
  have c: "covers 2 2 ?cols" "one_sided ?cols"
    by (simp_all add: covers_def map_filter_def one_sided_def upt_rec)
  have "affine_score (\<lambda>i j. ?s ! i ! j) (-1) (-1/5) GM ?cols = 2" by simp
  with gotoh_optimal [OF d _ _ s] c show ?thesis by fastforce
qed

end
