(* ===== verification/Diverge.thy ===== *)
theory Diverge
  imports Steps
begin

text \<open>
  The single-trace divergence rule (\<open>src/tracewake/diverge.py\<close>) and the profile built on it
  (\<open>localize_v1\<close> of \<open>src/tracewake/profiles.py\<close>): the loops over the steps of a failing run as
  recursive functions that carry the loop's sets. The lemmas replace each loop by a declarative
  description of the steps it reports.
\<close>

section \<open>Definitions\<close>

definition CREATE_MARKERS :: "string list" where
  "CREATE_MARKERS = [''create'', ''touch'', ''new_file'', ''write_file'']"

definition creates_files :: "step \<Rightarrow> bool" where
  "creates_files s \<longleftrightarrow> (\<exists>n \<in> names s. \<exists>m \<in> set CREATE_MARKERS. in_str m (lower_str n))"

type_synonym writes_fn = "step \<Rightarrow> string set res"

text \<open>The default of the parameter \<open>writes_of\<close>.\<close>

definition own_writes :: writes_fn where
  "own_writes s = Inr (step_writes s)"

fun commitments_loop ::
  "writes_fn \<Rightarrow> nat \<Rightarrow> string set \<Rightarrow> string set \<Rightarrow> step list \<Rightarrow> (nat \<times> string set) list res" where
  "commitments_loop writes_of i seen owned [] = Inr []"
| "commitments_loop writes_of i seen owned (s # ss) =
     (let made = creates_files s in
      bind_res (writes_of s) (\<lambda>written.
        let changed = {p \<in> written. p \<notin> owned \<and> (p \<in> seen \<or> \<not> made)};
            owned' = (if made then owned \<union> {p \<in> written. p \<notin> seen} else owned);
            seen' = seen \<union> written \<union> {t \<in> targets s. t \<noteq> []}
        in bind_res (commitments_loop writes_of (i + 1) seen' owned' ss) (\<lambda>rest.
             Inr (if changed \<noteq> {} then (i, changed) # rest else rest))))"

definition commitments :: "writes_fn \<Rightarrow> step list \<Rightarrow> (nat \<times> string set) list res" where
  "commitments writes_of steps = commitments_loop writes_of 1 {} {} steps"

definition commitment_steps :: "step list \<Rightarrow> nat list res" where
  "commitment_steps steps = bind_res (commitments own_writes steps) (\<lambda>cs. Inr (map fst cs))"

definition SCRATCH_FALLBACK :: nat where
  "SCRATCH_FALLBACK = 12"

definition verbs :: "string list" where
  "verbs = [''edit'', ''create'', ''write'', ''replace'', ''insert'', ''append'', ''patch'', ''apply'',
     ''touch'', ''new'', ''save'', ''sed'', ''tee'', ''add'']"

text \<open>\<open>(name or "").split()[0].split(".")[-1].lower() if name else ""\<close>: a blank name raises.\<close>

definition tail_of :: "string \<Rightarrow> string res" where
  "tail_of name =
     (if name = [] then Inr []
      else case split_ws name of
             [] \<Rightarrow> Inl IndexError
           | w # _ \<Rightarrow> Inr (lower_str (last (split_char (CHR ''.'') w))))"

definition is_verb :: "string \<Rightarrow> bool" where
  "is_verb tail \<longleftrightarrow>
     (\<exists>word \<in> set (split_char (CHR ''_'') (replace_str ''-'' ''_'' tail)).
        \<exists>v \<in> set verbs. starts_with v word)"

fun written_loop :: "(string \<times> string) list \<Rightarrow> string set \<Rightarrow> string set res" where
  "written_loop [] out = Inr out"
| "written_loop ((name, target) # rest) out =
     bind_res (tail_of name) (\<lambda>tail.
       written_loop rest (if target \<noteq> [] \<and> is_verb tail then insert target out else out))"

definition name_targets :: "step \<Rightarrow> (string \<times> string) list" where
  "name_targets s =
     zip (if batch_names s \<noteq> [] then batch_names s else [step_name s])
       (if batch_targets s \<noteq> [] then batch_targets s else [step_target s])"

definition written_paths :: writes_fn where
  "written_paths s =
     (if step_writes s \<noteq> {} then Inr (step_writes s) else written_loop (name_targets s) {})"

text \<open>The loop of \<open>first_nonscratch_write\<close>; \<^const>\<open>None\<close> when it runs to its end.\<close>

fun nonscratch_loop ::
  "nat \<Rightarrow> string set \<Rightarrow> string option \<Rightarrow> step list \<Rightarrow> nat option res" where
  "nonscratch_loop i read scratch [] = Inr None"
| "nonscratch_loop i read scratch (s # ss) =
     bind_res (written_paths s) (\<lambda>written.
       if \<exists>path \<in> written. path \<in> read \<or> (scratch \<noteq> None \<and> path \<noteq> the scratch)
       then Inr (Some i)
       else nonscratch_loop (i + 1) (read \<union> {t \<in> targets s. t \<noteq> [] \<and> t \<notin> written})
              (if written \<noteq> {} \<and> scratch = None then Some (Min written) else scratch) ss)"

definition first_nonscratch_write :: "step list \<Rightarrow> nat res" where
  "first_nonscratch_write bad =
     bind_res (nonscratch_loop 1 {} None bad) (\<lambda>r.
       Inr (case r of
              Some i \<Rightarrow> i
            | None \<Rightarrow> if bad \<noteq> [] then min SCRATCH_FALLBACK (length bad) else 1))"

datatype reliability_class =
  CommitShort | SilentShort | CommitLongSingle | CommitLongMany | SilentLong

datatype confidence = High | Moderate | Low | VeryLow

fun RELIABILITY_BAND :: "reliability_class \<Rightarrow> confidence" where
  "RELIABILITY_BAND CommitShort = High"
| "RELIABILITY_BAND CommitLongSingle = Moderate"
| "RELIABILITY_BAND CommitLongMany = Low"
| "RELIABILITY_BAND SilentShort = Low"
| "RELIABILITY_BAND SilentLong = VeryLow"

definition LONG_TRACE :: nat where
  "LONG_TRACE = 18"

definition reliability :: "step list \<Rightarrow> reliability_class res" where
  "reliability bad =
     bind_res (commitments written_paths bad) (\<lambda>cs.
       Inr (if cs = [] then (if length bad > LONG_TRACE then SilentLong else SilentShort)
            else if length bad \<le> LONG_TRACE then CommitShort
            else if length cs = 1 then CommitLongSingle else CommitLongMany))"

definition localize :: "step list \<Rightarrow> (nat \<times> reliability_class) res" where
  "localize bad =
     (if bad = [] then Inl ValueError
      else bind_res (first_nonscratch_write bad) (\<lambda>k.
             bind_res (reliability bad) (\<lambda>r. Inr (k, r))))"

record profile_localization =
  pl_step :: nat
  pl_step_count :: nat
  pl_reliability :: reliability_class

definition localize_v1 :: "step list \<Rightarrow> profile_localization res" where
  "localize_v1 bad =
     bind_res (localize bad) (\<lambda>(step, klass).
       Inr \<lparr>pl_step = step, pl_step_count = length bad, pl_reliability = klass\<rparr>)"

section \<open>Which steps commit, declaratively\<close>

text \<open>
  What the run knows before step \<open>i\<close> (counted from 0), for a total function \<open>W\<close> of the paths each
  step writes: the paths referenced, the paths it brought into existence, the paths it read without
  writing them, and the first path it wrote.
\<close>

definition seen_before :: "(step \<Rightarrow> string set) \<Rightarrow> step list \<Rightarrow> nat \<Rightarrow> string set" where
  "seen_before W ss i = (\<Union>s \<in> set (take i ss). W s \<union> {t \<in> targets s. t \<noteq> []})"

definition owned_before :: "(step \<Rightarrow> string set) \<Rightarrow> step list \<Rightarrow> nat \<Rightarrow> string set" where
  "owned_before W ss i =
     {p. \<exists>j < i. j < length ss \<and> creates_files (ss ! j) \<and> p \<in> W (ss ! j) \<and> p \<notin> seen_before W ss j}"

definition changed_at :: "(step \<Rightarrow> string set) \<Rightarrow> step list \<Rightarrow> nat \<Rightarrow> string set" where
  "changed_at W ss i =
     {p \<in> W (ss ! i). p \<notin> owned_before W ss i
        \<and> (p \<in> seen_before W ss i \<or> \<not> creates_files (ss ! i))}"

definition read_before :: "(step \<Rightarrow> string set) \<Rightarrow> step list \<Rightarrow> nat \<Rightarrow> string set" where
  "read_before W ss i = (\<Union>s \<in> set (take i ss). {t \<in> targets s. t \<noteq> [] \<and> t \<notin> W s})"

definition scratch_before :: "(step \<Rightarrow> string set) \<Rightarrow> step list \<Rightarrow> nat \<Rightarrow> string option" where
  "scratch_before W ss i =
     map_option (\<lambda>s. Min (W s)) (List.find (\<lambda>s. W s \<noteq> {}) (take i ss))"

definition commits_at :: "(step \<Rightarrow> string set) \<Rightarrow> step list \<Rightarrow> nat \<Rightarrow> bool" where
  "commits_at W ss i \<longleftrightarrow>
     (\<exists>p \<in> W (ss ! i). p \<in> read_before W ss i
        \<or> (\<exists>c. scratch_before W ss i = Some c \<and> p \<noteq> c))"

definition total_writes :: "(step \<Rightarrow> string set) \<Rightarrow> writes_fn \<Rightarrow> step list \<Rightarrow> bool" where
  "total_writes W writes_of ss \<longleftrightarrow> (\<forall>s \<in> set ss. writes_of s = Inr (W s))"

lemma before_0 [simp]:
  "seen_before W ss 0 = {}" "owned_before W ss 0 = {}" "read_before W ss 0 = {}"
  "scratch_before W ss 0 = None"
  by (simp_all add: seen_before_def owned_before_def read_before_def scratch_before_def)

lemma seen_before_Suc:
  "i < length ss \<Longrightarrow>
   seen_before W ss (Suc i) = seen_before W ss i \<union> W (ss ! i) \<union> {t \<in> targets (ss ! i). t \<noteq> []}"
  by (auto simp: seen_before_def take_Suc_conv_app_nth)

lemma owned_before_Suc:
  "i < length ss \<Longrightarrow>
   owned_before W ss (Suc i) = owned_before W ss i \<union>
     (if creates_files (ss ! i) then {p \<in> W (ss ! i). p \<notin> seen_before W ss i} else {})"
  by (auto simp: owned_before_def less_Suc_eq)

lemma read_before_Suc:
  "i < length ss \<Longrightarrow>
   read_before W ss (Suc i) = read_before W ss i \<union> {t \<in> targets (ss ! i). t \<noteq> [] \<and> t \<notin> W (ss ! i)}"
  by (auto simp: read_before_def take_Suc_conv_app_nth)

lemma find_append: "List.find P (xs @ ys) = (case List.find P xs of None \<Rightarrow> List.find P ys | r \<Rightarrow> r)"
  by (induction xs) auto

lemma scratch_before_Suc:
  "i < length ss \<Longrightarrow>
   scratch_before W ss (Suc i) =
     (if W (ss ! i) \<noteq> {} \<and> scratch_before W ss i = None then Some (Min (W (ss ! i)))
      else scratch_before W ss i)"
  by (auto simp: scratch_before_def take_Suc_conv_app_nth find_append split: option.splits)

lemmas before_Suc = seen_before_Suc owned_before_Suc read_before_Suc scratch_before_Suc

definition committed :: "(step \<Rightarrow> string set) \<Rightarrow> step list \<Rightarrow> nat \<Rightarrow> (nat \<times> string set) list" where
  "committed W ss i =
     map (\<lambda>j. (j + 1, changed_at W ss j)) (filter (\<lambda>j. changed_at W ss j \<noteq> {}) [i..<length ss])"

lemma commitments_loop_closed:
  assumes "total_writes W writes_of ss" "i \<le> length ss"
  shows "commitments_loop writes_of (i + 1) (seen_before W ss i) (owned_before W ss i) (drop i ss)
    = Inr (committed W ss i)"
  using assms(2)
proof (induction "length ss - i" arbitrary: i)
  case 0
  then show ?case by (simp add: committed_def)
next
  case (Suc n)
  then have i: "i < length ss" by simp
  have w: "writes_of (ss ! i) = Inr (W (ss ! i))"
    using assms(1) i by (simp add: total_writes_def)
  have IH: "commitments_loop writes_of (Suc i + 1) (seen_before W ss (Suc i))
      (owned_before W ss (Suc i)) (drop (Suc i) ss) = Inr (committed W ss (Suc i))"
    using Suc by (intro Suc.hyps(1)) simp_all
  have c: "committed W ss i = (if changed_at W ss i \<noteq> {} then [(i + 1, changed_at W ss i)] else [])
      @ committed W ss (Suc i)"
    using i by (simp add: committed_def upt_conv_Cons)
  show ?case
    using IH w i unfolding c
    by (cases "creates_files (ss ! i)")
      (simp_all add: Cons_nth_drop_Suc [symmetric] Let_def changed_at_def before_Suc Un_assoc
        del: Cons_nth_drop_Suc)
qed

lemma nonscratch_loop_closed:
  assumes "total_writes W written_paths ss" "i \<le> length ss"
  shows "nonscratch_loop (i + 1) (read_before W ss i) (scratch_before W ss i) (drop i ss)
    = Inr (map_option Suc (List.find (commits_at W ss) [i..<length ss]))"
  using assms(2)
proof (induction "length ss - i" arbitrary: i)
  case (Suc n)
  then have i: "i < length ss" by simp
  have w: "written_paths (ss ! i) = Inr (W (ss ! i))"
    using assms(1) i by (simp add: total_writes_def)
  have IH: "nonscratch_loop (Suc i + 1) (read_before W ss (Suc i)) (scratch_before W ss (Suc i))
      (drop (Suc i) ss) = Inr (map_option Suc (List.find (commits_at W ss) [Suc i..<length ss]))"
    using Suc by (intro Suc.hyps(1)) simp_all
  have c: "commits_at W ss i \<longleftrightarrow> (\<exists>p \<in> W (ss ! i). p \<in> read_before W ss i
        \<or> (scratch_before W ss i \<noteq> None \<and> p \<noteq> the (scratch_before W ss i)))"
    unfolding commits_at_def by (cases "scratch_before W ss i") auto
  have "nonscratch_loop (i + 1) (read_before W ss i) (scratch_before W ss i) (ss ! i # drop (Suc i) ss)
    = (if commits_at W ss i then Inr (Some (i + 1))
       else nonscratch_loop (Suc i + 1) (read_before W ss (Suc i)) (scratch_before W ss (Suc i))
              (drop (Suc i) ss))"
    unfolding nonscratch_loop.simps w bind_res_Inr c [symmetric] before_Suc(3,4) [OF i] by simp
  then show ?case
    using i by (simp only: Cons_nth_drop_Suc IH) (simp add: upt_conv_Cons)
qed simp

lemma commitments_closed:
  "total_writes W writes_of ss \<Longrightarrow> commitments writes_of ss = Inr (committed W ss 0)"
  using commitments_loop_closed [of W writes_of ss 0] by (simp add: commitments_def)

lemma find_upt_Some:
  "List.find P [0..<n] = Some k \<longleftrightarrow> k < n \<and> P k \<and> (\<forall>j < k. \<not> P j)"
  by (auto simp: find_Some_iff)

lemma find_upt_None: "List.find P [0..<n] = None \<longleftrightarrow> (\<forall>j < n. \<not> P j)"
  by (auto simp: find_None_iff)

text \<open>
  C36. The reported step is the one the rule describes: when the paths each step wrote are known, it
  is the first step that writes a path read before, or a path other than the run's first written
  (scratch) path once there is one; and when no step does, the fallback, capped by the length.
\<close>

theorem first_nonscratch_write_spec:
  assumes "total_writes W written_paths bad" "bad \<noteq> []"
  shows "\<exists>k. first_nonscratch_write bad = Inr k \<and> 1 \<le> k \<and> k \<le> length bad
    \<and> (if \<exists>i < length bad. commits_at W bad i
       then commits_at W bad (k - 1) \<and> (\<forall>i < k - 1. \<not> commits_at W bad i)
       else k = min SCRATCH_FALLBACK (length bad))"
proof -
  let ?f = "List.find (commits_at W bad) [0..<length bad]"
  have "nonscratch_loop 1 {} None bad = Inr (map_option Suc ?f)"
    using nonscratch_loop_closed [OF assms(1), of 0] by simp
  moreover have "1 \<le> length bad" using assms(2) by (simp add: Suc_le_eq)
  moreover have "?f = Some k \<Longrightarrow> k < length bad \<and> commits_at W bad k \<and> (\<forall>j < k. \<not> commits_at W bad j)" for k
    by (simp add: find_upt_Some)
  moreover have "?f = None \<Longrightarrow> \<not> (\<exists>i < length bad. commits_at W bad i)" by (simp add: find_upt_None)
  ultimately show ?thesis
    by (cases ?f) (auto simp: first_nonscratch_write_def SCRATCH_FALLBACK_def)
qed

text \<open>
  The commitments are exactly the steps that change pre-existing state: a step is listed, once
  and in order, with the paths it wrote that the run had not itself created before and that the run
  had already referenced or that the step does not create.
\<close>

theorem commitments_spec:
  assumes "total_writes W writes_of steps"
  shows "\<exists>cs. commitments writes_of steps = Inr cs \<and> sorted_wrt (<) (map fst cs)
    \<and> (\<forall>i ps. (i, ps) \<in> set cs \<longleftrightarrow>
         1 \<le> i \<and> i \<le> length steps \<and> ps = changed_at W steps (i - 1) \<and> ps \<noteq> {})"
proof (intro exI conjI allI)
  show "commitments writes_of steps = Inr (committed W steps 0)"
    by (rule commitments_closed [OF assms])
  have "sorted_wrt (<) (filter (\<lambda>j. changed_at W steps j \<noteq> {}) [0..<length steps])"
    by (intro sorted_wrt_filter) simp
  then show "sorted_wrt (<) (map fst (committed W steps 0))"
    by (simp add: committed_def sorted_wrt_map comp_def)
  show "(i, ps) \<in> set (committed W steps 0) \<longleftrightarrow>
      1 \<le> i \<and> i \<le> length steps \<and> ps = changed_at W steps (i - 1) \<and> ps \<noteq> {}" for i ps
    by (cases i) (auto simp: committed_def)
qed

text \<open>The names the rule can read: not blank, unless the adapter derived the step's writes.\<close>

definition readable :: "step \<Rightarrow> bool" where
  "readable s \<longleftrightarrow> step_writes s \<noteq> {} \<or> (\<forall>(n, t) \<in> set (name_targets s). n = [] \<or> split_ws n \<noteq> [])"

lemma written_loop_result:
  "written_loop nts out = Inl e \<longleftrightarrow> e = IndexError \<and> \<not> (\<forall>(n, t) \<in> set nts. n = [] \<or> split_ws n \<noteq> [])"
proof (induction nts arbitrary: out)
  case (Cons nt nts)
  obtain n t where nt: "nt = (n, t)" by force
  show ?case
  proof (cases "n = [] \<or> split_ws n \<noteq> []")
    case True
    then have "\<exists>tail. tail_of n = Inr tail" by (auto simp: tail_of_def split: list.split)
    then obtain tail where "tail_of n = Inr tail" ..
    then show ?thesis using Cons nt True by simp
  next
    case False
    then have "tail_of n = Inl IndexError" by (simp add: tail_of_def)
    then show ?thesis using nt False by auto
  qed
qed simp

lemma written_paths_raises: "written_paths s = Inl e \<longleftrightarrow> e = IndexError \<and> \<not> readable s"
  unfolding readable_def written_paths_def using written_loop_result [of "name_targets s" "{}"] by auto

lemma written_paths_total: "readable s \<Longrightarrow> \<exists>w. written_paths s = Inr w"
  using written_paths_raises [of s] by (cases "written_paths s") auto

definition written_or_none :: "step \<Rightarrow> string set" where
  "written_or_none s = (case written_paths s of Inr w \<Rightarrow> w | Inl _ \<Rightarrow> {})"

lemma total_writes_readable:
  "list_all readable ss \<Longrightarrow> total_writes written_or_none written_paths ss"
  using written_paths_total by (fastforce simp: total_writes_def written_or_none_def list_all_iff)

lemma loops_raise_IndexError:
  "nonscratch_loop i rd scratch ss = Inl e \<Longrightarrow> e = IndexError"
  "commitments_loop written_paths i seen owned ss = Inl e \<Longrightarrow> e = IndexError"
proof (induction ss arbitrary: i rd scratch seen owned)
  case (Cons s ss)
  { case 1
    then show ?case using Cons.IH(1) written_paths_raises [of s] by (auto simp: bind_res_def split: sum.splits if_splits)
  next
    case 2
    then show ?case using Cons.IH(2) written_paths_raises [of s] by (auto simp: bind_res_def Let_def split: sum.splits if_splits)
  }
qed simp_all

lemma commitments_readable:
  "commitments_loop written_paths i seen owned ss = Inr cs \<Longrightarrow> list_all readable ss"
proof (induction ss arbitrary: i seen owned cs)
  case (Cons s ss)
  then obtain w where "written_paths s = Inr w" by (auto simp: bind_res_eq_Inr Let_def)
  then have "readable s" using written_paths_raises [of s IndexError] by auto
  moreover have "list_all readable ss" using Cons.prems Cons.IH by (auto simp: bind_res_eq_Inr Let_def)
  ultimately show ?case by simp
qed simp

lemma localize_answers_readable:
  assumes "list_all readable bad" "bad \<noteq> []"
  shows "\<exists>k r cs. localize bad = Inr (k, r) \<and> 1 \<le> k \<and> k \<le> length bad \<and> commitments written_paths bad = Inr cs
    \<and> r = (if cs = [] then if length bad > 18 then SilentLong else SilentShort
           else if length bad \<le> 18 then CommitShort else if length cs = 1 then CommitLongSingle else CommitLongMany)"
proof -
  note w = total_writes_readable [OF assms(1)]
  have cs: "commitments written_paths bad = Inr (committed written_or_none bad 0)" by (rule commitments_closed [OF w])
  obtain k where "first_nonscratch_write bad = Inr k" "1 \<le> k" "k \<le> length bad"
    using nonscratch_loop_closed [OF w, of 0] assms(2) find_upt_Some [of _ "length bad"]
    by (cases "List.find (commits_at written_or_none bad) [0..<length bad]")
      (auto simp: first_nonscratch_write_def SCRATCH_FALLBACK_def Suc_le_eq)
  then show ?thesis using assms(2) cs by (auto simp: localize_def reliability_def LONG_TRACE_def)
qed

lemma localize_IndexError:
  assumes "bad \<noteq> []" "localize bad = Inl e" shows "e = IndexError"
proof (cases "nonscratch_loop 1 {} None bad")
  case (Inl e')
  then show ?thesis using assms loops_raise_IndexError(1) [OF Inl] by (simp add: localize_def first_nonscratch_write_def)
next
  case (Inr r)
  then have "commitments_loop written_paths 1 {} {} bad = Inl e"
    using assms by (cases "commitments_loop written_paths 1 {} {} bad")
      (simp_all add: localize_def first_nonscratch_write_def reliability_def commitments_def)
  then show ?thesis by (rule loops_raise_IndexError(2))
qed

lemma localize_raises:
  assumes "bad \<noteq> []" shows "localize bad = Inl e \<longleftrightarrow> e = IndexError \<and> \<not> list_all readable bad"
proof
  assume e: "localize bad = Inl e"
  then have "e = IndexError" by (rule localize_IndexError [OF assms])
  moreover have "\<not> list_all readable bad" using localize_answers_readable [OF _ assms] e by auto
  ultimately show "e = IndexError \<and> \<not> list_all readable bad" by simp
next
  assume r: "e = IndexError \<and> \<not> list_all readable bad"
  have "\<exists>e'. localize bad = Inl e'"
  proof (cases "localize bad")
    case (Inr x)
    then have "list_all readable bad"
      using assms commitments_readable
      by (auto simp: localize_def reliability_def commitments_def bind_res_eq_Inr)
    then show ?thesis using r by simp
  qed simp
  then obtain e' where e': "localize bad = Inl e'" by blast
  then show "localize bad = Inl e" using localize_IndexError [OF assms e'] r by simp
qed

text \<open>
  C40. What localisation does with every run: it raises \<open>ValueError\<close> exactly on a run without steps, and \<open>IndexError\<close>
  exactly when some step, wherever it stands, has a tool name of white space only and no writes of its own; on every other run
  it reports a step of the run, and the class of the run's commitments: silent or committed, short up to 18 steps, and
  for a longer run with commitments whether there is one or many.
\<close>

theorem localize_answers:
  "case localize bad of
     Inl e \<Rightarrow> bad = [] \<and> e = ValueError \<or> bad \<noteq> [] \<and> \<not> list_all readable bad \<and> e = IndexError
   | Inr (k, r) \<Rightarrow> list_all readable bad \<and> 1 \<le> k \<and> k \<le> length bad
       \<and> (\<exists>cs. commitments written_paths bad = Inr cs
          \<and> r = (if cs = [] then if length bad > 18 then SilentLong else SilentShort
                 else if length bad \<le> 18 then CommitShort else if length cs = 1 then CommitLongSingle else CommitLongMany))"
proof (cases "bad = []")
  case False
  show ?thesis
  proof (cases "localize bad")
    case (Inl e)
    then show ?thesis using False localize_raises [OF False, of e] by simp
  next
    case (Inr x)
    then have ok: "list_all readable bad" using localize_raises [OF False, of IndexError] by auto
    obtain k r cs where a: "localize bad = Inr (k, r)" "1 \<le> k" "k \<le> length bad" "commitments written_paths bad = Inr cs"
      "r = (if cs = [] then if length bad > 18 then SilentLong else SilentShort
            else if length bad \<le> 18 then CommitShort else if length cs = 1 then CommitLongSingle else CommitLongMany)"
      using localize_answers_readable [OF ok False] by blast
    show ?thesis unfolding a(1) sum.case prod.case by (intro conjI exI [of _ cs] ok a(2-5))
  qed
qed (simp add: localize_def)

text \<open>Small runs for the witnesses.\<close>

definition ex_step :: "string \<Rightarrow> string \<Rightarrow> string set \<Rightarrow> step" where
  "ex_step n t w = \<lparr>step_name = n, step_args = [], step_target = t, reasoning = [],
     changed_files = {}, batch_names = [], batch_targets = [], step_writes = w, observation = []\<rparr>"

lemmas ex_step_simps = ex_step_def targets_def names_def creates_files_def CREATE_MARKERS_def
  lower_str_def lower_char_def byte_val_def

text \<open>A read of \<open>a.py\<close>, a scratch script, then an edit of \<open>a.py\<close>: the last step commits.\<close>

definition ex_run :: "step list" where
  "ex_run = [ex_step ''read'' ''a.py'' {}, ex_step ''create'' ''t.py'' {''t.py''},
     ex_step ''edit'' ''a.py'' {''a.py''}]"

lemma ex_words [simp]:
  "split_ws ''read'' = [''read'']" "is_verb ''read'' = False" "lower_str ''read'' = ''read''"
  by (simp_all add: split_ws_def is_cont_def byte_val_def
      is_verb_def verbs_def lower_str_def lower_char_def)

lemma ex_run_writes: "total_writes step_writes written_paths ex_run"
  by (simp add: total_writes_def ex_run_def ex_step_def written_paths_def name_targets_def tail_of_def)

lemma ex_run_readable: "list_all readable ex_run"
  by (simp add: ex_run_def ex_step_def readable_def name_targets_def)

theorem first_nonscratch_write_spec_witness:
  "first_nonscratch_write ex_run = Inr 3 \<and> commits_at step_writes ex_run 2"
proof -
  have k: "first_nonscratch_write ex_run = Inr 3"
    by (simp add: first_nonscratch_write_def ex_run_def ex_step_def written_paths_def name_targets_def
        tail_of_def targets_def)
  have "commits_at step_writes ex_run 2"
    by (simp add: commits_at_def ex_run_def ex_step_def read_before_def targets_def numeral_2_eq_2)
  then show ?thesis
    using first_nonscratch_write_spec [OF ex_run_writes] k by (auto simp: ex_run_def)
qed

theorem commitments_spec_witness:
  "\<exists>cs. commitments written_paths ex_run = Inr cs \<and> (3, {''a.py''}) \<in> set cs \<and> (\<forall>ps. (2, ps) \<notin> set cs)"
proof -
  have "changed_at step_writes ex_run 2 = {''a.py''}" "changed_at step_writes ex_run 1 = {}"
    by (auto simp: changed_at_def owned_before_def seen_before_def ex_run_def ex_step_simps
        numeral_2_eq_2 less_Suc_eq)
  then show ?thesis
    using commitments_spec [OF ex_run_writes] by (fastforce simp: ex_run_def)
qed

text \<open>
  The class and the reported step come from two different notions of commitment. An edit of a file
  never read before commits for the class and is scratch work for the step, and a file the run
  created, then read, then edited is the other way round.
\<close>

theorem localize_class_disagrees:
  "localize [ex_step ''edit'' ''a.py'' {''a.py''}, ex_step ''read'' [] {}, ex_step ''read'' [] {}]
     = Inr (3, CommitShort)
   \<and> commitments written_paths
     [ex_step ''edit'' ''a.py'' {''a.py''}, ex_step ''read'' [] {}, ex_step ''read'' [] {}]
     = Inr [(1, {''a.py''})]
   \<and> localize [ex_step ''create'' ''t.py'' {''t.py''}, ex_step ''read'' ''t.py'' {},
       ex_step ''edit'' ''t.py'' {''t.py''}, ex_step ''read'' [] {}] = Inr (3, SilentShort)"
proof -
  have [simp]: "\<not> creates_files (ex_step ''edit'' t w)" "\<not> creates_files (ex_step ''read'' t w)"
    "creates_files (ex_step ''create'' t w)" for t w
    by (simp_all add: ex_step_simps)
  have [simp]: "written_paths (ex_step ''read'' t {}) = Inr {}" for t
    by (simp add: written_paths_def name_targets_def ex_step_def tail_of_def)
  have [simp]: "written_paths (ex_step n t {x}) = Inr {x}" for n t x
    by (simp add: written_paths_def ex_step_def)
  have [simp]: "targets (ex_step n t w) = (if t = [] then {} else {t})" for n t w
    by (simp add: ex_step_def targets_def)
  note defs = localize_def first_nonscratch_write_def reliability_def commitments_def
    SCRATCH_FALLBACK_def LONG_TRACE_def Let_def
  show ?thesis by (intro conjI; simp add: defs)
qed

end
