(* ===== verification/Align.thy ===== *)
theory Align
  imports Similarity Gotoh Diverge
begin

text \<open>
  Alignment of two runs (\<open>align\<close>, \<open>divergence_step\<close>, \<open>diff_runs\<close> and the baselines of
  \<open>src/tracewake/align.py\<close>, \<open>align_v2\<close> of \<open>src/tracewake/profiles.py\<close>): the score matrix, the
  alignment, where the failing run stops agreeing, and the result of a comparison. An embedder is an
  argument; the locale \<open>embedder\<close> states what alignment needs of one, and the bag-of-words embedder
  provides it.
\<close>

section \<open>Definitions\<close>

type_synonym embed_fn = "string list \<Rightarrow> vector list"

definition embed_reasoning ::
  "embed_fn option \<Rightarrow> align_config \<Rightarrow> step list \<Rightarrow> step list \<Rightarrow> (vector list \<times> vector list) option res" where
  "embed_reasoning emb config a b =
     (case emb of
        None \<Rightarrow> Inr None
      | Some f \<Rightarrow>
          if weight_reasoning config \<noteq> 0 then
            (let combined = f (map reasoning a @ map reasoning b)
             in if length combined \<noteq> length a + length b then Inl ValueError
                else Inr (Some (take (length a) combined, drop (length a) combined)))
          else Inr None)"

definition pair_vectors :: "(vector list \<times> vector list) option \<Rightarrow> nat \<Rightarrow> nat \<Rightarrow> (vector \<times> vector) option" where
  "pair_vectors vecs i j = (case vecs of None \<Rightarrow> None | Some (va, vb) \<Rightarrow> Some (va ! i, vb ! j))"

definition score_matrix ::
  "py_env \<Rightarrow> step list \<Rightarrow> step list \<Rightarrow> embed_fn option \<Rightarrow> align_config \<Rightarrow> table res" where
  "score_matrix env a b emb config =
     (if a = [] \<or> b = [] then Inr (if a \<noteq> [] \<and> b = [] then map (\<lambda>_. [0]) a else [])
      else
        bind_res (embed_reasoning emb config a b) (\<lambda>vecs.
          map_res (\<lambda>i.
            map_res (\<lambda>j.
              bind_res (step_similarity env config (a ! i) (b ! j)
                  (pair_vectors vecs i j))
                (\<lambda>s. Inr (score_from_similarity s)))
              [0..<length b])
            [0..<length a]))"

definition align ::
  "py_env \<Rightarrow> step list \<Rightarrow> step list \<Rightarrow> embed_fn option \<Rightarrow> align_config
    \<Rightarrow> (real \<times> aligned \<times> table) res" where
  "align env a b emb config =
     (if a = [] \<or> b = [] then
        if a = [] \<and> b = [] then Inr (0, [], [])
        else if a = [] then
          Inr (gap_open config + real (length b - 1) * gap_extend config,
               map (\<lambda>j. (None, Some j)) [0..<length b], [])
        else
          Inr (gap_open config + real (length a - 1) * gap_extend config,
               map (\<lambda>i. (Some i, None)) [0..<length a], [])
      else
        bind_res (score_matrix env a b emb config) (\<lambda>scores.
          bind_res (gotoh scores (gap_open config) (gap_extend config)) (\<lambda>(total, pairs).
            Inr (total, pairs, scores))))"

definition same_action :: "step \<Rightarrow> step \<Rightarrow> bool" where
  "same_action a b \<longleftrightarrow> step_name a = step_name b \<and> py_eq (JObj (step_args a)) (JObj (step_args b))"

text \<open>The \<open>while\<close> loop of \<open>_trailing_identical_loop_start\<close>.\<close>

fun loop_start_from :: "step list \<Rightarrow> step \<Rightarrow> nat \<Rightarrow> nat" where
  "loop_start_from steps lst 0 = 0"
| "loop_start_from steps lst (Suc s) =
     (if same_action (steps ! s) lst then loop_start_from steps lst s else Suc s)"

definition trailing_identical_loop_start :: "step list \<Rightarrow> nat option" where
  "trailing_identical_loop_start steps =
     (if length steps < 2 then None
      else
        let start = loop_start_from steps (last steps) (length steps - 1)
        in if start = length steps - 1 then None else Some start)"

text \<open>The loop over the columns that keeps the last one that agrees; an index out of range raises.\<close>

fun last_agree_loop ::
  "nat option \<Rightarrow> step list \<Rightarrow> step list \<Rightarrow> int \<Rightarrow> int \<Rightarrow> aligned \<Rightarrow> int res" where
  "last_agree_loop loop_start good bad k last_agree [] = Inr last_agree"
| "last_agree_loop loop_start good bad k last_agree ((Some i, Some j) # cols) =
     (if loop_start \<noteq> None \<and> j \<ge> the loop_start
      then last_agree_loop loop_start good bad (k + 1) last_agree cols
      else if i \<ge> length good \<or> j \<ge> length bad then Inl IndexError
      else last_agree_loop loop_start good bad (k + 1)
             (if target_agree (good ! i) (bad ! j) then k else last_agree) cols)"
| "last_agree_loop loop_start good bad k last_agree (_ # cols) =
     last_agree_loop loop_start good bad (k + 1) last_agree cols"

fun first_bad :: "aligned \<Rightarrow> nat option" where
  "first_bad [] = None"
| "first_bad ((_, Some j) # cols) = Some (j + 1)"
| "first_bad ((_, None) # cols) = first_bad cols"

definition divergence_step :: "aligned \<Rightarrow> step list \<Rightarrow> step list \<Rightarrow> nat option res" where
  "divergence_step alignment good bad =
     (if bad = [] then Inl ValueError
      else
        bind_res (last_agree_loop (trailing_identical_loop_start bad) good bad 0 (-1) alignment)
          (\<lambda>last_agree.
            case first_bad (drop (nat (last_agree + 1)) alignment) of
              Some d \<Rightarrow> Inr (Some d)
            | None \<Rightarrow> if last_agree < 0 then Inr (Some 1) else Inr None))"

text \<open>\<open>float("inf")\<close> is the only value of a length ratio that is not finite.\<close>

datatype ratio_value = Ratio real | Infinite_Ratio

definition length_ratio :: "step list \<Rightarrow> step list \<Rightarrow> ratio_value" where
  "length_ratio a b =
     (let shorter = min (length a) (length b); longer = max (length a) (length b)
      in if shorter = 0 then (if longer \<noteq> 0 then Infinite_Ratio else Ratio 1)
         else Ratio (real longer / real shorter))"

record diff_result =
  good_steps :: "step list"
  bad_steps :: "step list"
  dr_alignment :: aligned
  dr_score :: real
  dr_divergence :: "nat option"
  dr_length_ratio :: ratio_value
  embedding_model :: "string option"
  embedding_revision :: "string option"
  dr_scores :: table

definition column_similarity :: "diff_result \<Rightarrow> nat option \<Rightarrow> nat option \<Rightarrow> real option res" where
  "column_similarity r i j =
     (case (i, j) of
        (Some i, Some j) \<Rightarrow>
          if dr_scores r = [] then Inr None
          else if i \<ge> length (dr_scores r) \<or> j \<ge> length (dr_scores r ! i) then Inl IndexError
          else Inr (Some ((dr_scores r ! i ! j + 1) / 2))
      | _ \<Rightarrow> Inr None)"

definition excluded_by_length :: "diff_result \<Rightarrow> bool" where
  "excluded_by_length r = (case dr_length_ratio r of Infinite_Ratio \<Rightarrow> True | Ratio x \<Rightarrow> x > 4)"

definition divergence_or_end :: "diff_result \<Rightarrow> nat" where
  "divergence_or_end r =
     (case dr_divergence r of Some d \<Rightarrow> d | None \<Rightarrow> length (bad_steps r))"

definition diff_runs ::
  "py_env \<Rightarrow> stored_event list \<Rightarrow> stored_event list \<Rightarrow> embed_fn option \<Rightarrow> bool \<Rightarrow> bool
    \<Rightarrow> string option \<Rightarrow> string option \<Rightarrow> diff_result res" where
  "diff_runs env good_events bad_events emb append_submit_good append_submit_bad model revision =
     (let good = extract_steps env good_events append_submit_good;
          bad = extract_steps env bad_events append_submit_bad
      in bind_res (align env good bad emb DEFAULT_CONFIG) (\<lambda>(total, pairs, scores).
           bind_res (divergence_step pairs good bad) (\<lambda>divergence.
             Inr \<lparr>good_steps = good, bad_steps = bad, dr_alignment = pairs, dr_score = total,
                  dr_divergence = divergence, dr_length_ratio = length_ratio good bad,
                  embedding_model = model, embedding_revision = revision, dr_scores = scores\<rparr>)))"

section \<open>Baselines\<close>

fun first_difference_loop :: "nat \<Rightarrow> step list \<Rightarrow> step list \<Rightarrow> nat option" where
  "first_difference_loop i (g # gs) (b # bs) =
     (if \<not> target_agree g b then Some (i + 1) else first_difference_loop (i + 1) gs bs)"
| "first_difference_loop i _ _ = None"

definition first_target_difference :: "step list \<Rightarrow> step list \<Rightarrow> nat" where
  "first_target_difference good bad =
     (let n = min (length good) (length bad)
      in case first_difference_loop 0 good bad of
           Some d \<Rightarrow> d
         | None \<Rightarrow>
             if length good \<noteq> length bad then (if n < length bad then n + 1 else max (length bad) 1)
             else length bad)"

fun agreed_loop :: "nat \<Rightarrow> nat \<Rightarrow> step list \<Rightarrow> step list \<Rightarrow> nat" where
  "agreed_loop i agreed (g # gs) (b # bs) =
     (if \<not> target_agree g b then agreed else agreed_loop (i + 1) (i + 1) gs bs)"
| "agreed_loop i agreed _ _ = agreed"

definition last_common_prefix :: "step list \<Rightarrow> step list \<Rightarrow> nat" where
  "last_common_prefix good bad =
     (let agreed = agreed_loop 0 0 good bad in if agreed = 0 then 1 else agreed)"

section \<open>The hosted profile\<close>

record profile_alignment =
  pa_alignment :: aligned
  pa_score :: real
  pa_divergence :: "nat option"
  pa_scores :: table

definition align_v2 :: "py_env \<Rightarrow> step list \<Rightarrow> step list \<Rightarrow> profile_alignment res" where
  "align_v2 env good bad =
     bind_res (align env good bad (Some lexical_embed) DEFAULT_CONFIG) (\<lambda>(total, pairs, scores).
       bind_res (if bad \<noteq> [] then bind_res (localize bad) (\<lambda>(k, _). Inr (Some k)) else Inr None)
         (\<lambda>divergence.
            Inr \<lparr>pa_alignment = pairs, pa_score = total, pa_divergence = divergence,
                 pa_scores = scores\<rparr>))"

section \<open>Alignments of an empty run\<close>

lemma map_filter_map_Some: "List.map_filter fst (map (\<lambda>i. (Some i, None)) is) = is"
  "List.map_filter snd (map (\<lambda>i. (Some i, None)) is) = []"
  "List.map_filter snd (map (\<lambda>j. (None, Some j)) js) = js"
  "List.map_filter fst (map (\<lambda>j. (None, Some j)) js) = []"
  by (induction "is"; simp add: map_filter_def) (induction js; simp add: map_filter_def)+

lemma covers_left: "covers n 0 cols \<longleftrightarrow> cols = map (\<lambda>i. (Some i, None)) [0..<n]"
proof (induction n arbitrary: cols)
  case 0
  then show ?case by (cases cols rule: rev_cases) (auto simp: covers_snoc)
next
  case (Suc n)
  then show ?case by (cases cols rule: rev_cases) (auto simp: covers_snoc)
qed

lemma covers_right: "covers 0 m cols \<longleftrightarrow> cols = map (\<lambda>j. (None, Some j)) [0..<m]"
proof (induction m arbitrary: cols)
  case 0
  then show ?case by (cases cols rule: rev_cases) (auto simp: covers_snoc)
next
  case (Suc m)
  then show ?case by (cases cols rule: rev_cases) (auto simp: covers_snoc)
qed

lemma last_kind_gaps:
  "last_kind (map (\<lambda>i. (Some i, None)) [0..<n]) = (if n = 0 then GM else GX)"
  "last_kind (map (\<lambda>j. (None, Some j)) [0..<n]) = (if n = 0 then GM else GY)"
  by (cases n; simp)+

lemma gap_run_score_cases:
  "affine_score sc go ge GM (map (\<lambda>i. (Some i, None)) [0..<n]) = (if n = 0 then 0 else go + real (n - 1) * ge)"
  "affine_score sc go ge GM (map (\<lambda>j. (None, Some j)) [0..<n]) = (if n = 0 then 0 else go + real (n - 1) * ge)"
  by (induction n) (simp_all add: last_kind_gaps algebra_simps of_nat_diff)

lemma gap_run_score:
  "affine_score sc go ge GM (map (\<lambda>i. (Some i, None)) [0..<Suc n]) = go + real n * ge"
  "affine_score sc go ge GM (map (\<lambda>j. (None, Some j)) [0..<Suc n]) = go + real n * ge"
  unfolding gap_run_score_cases by simp_all

lemma gap_run_one_sided:
  "one_sided (map (\<lambda>i. (Some i, None)) [0..<n])" "one_sided (map (\<lambda>j. (None, Some j)) [0..<n])"
  by (induction n) (auto simp: last_kind_gaps one_sided_def [of "[]"])

section \<open>What alignment needs of an embedder\<close>

text \<open>What an alignment has to be, for the matrix it was computed from.\<close>

definition best_alignment ::
  "table \<Rightarrow> real \<Rightarrow> real \<Rightarrow> nat \<Rightarrow> nat \<Rightarrow> real \<Rightarrow> aligned \<Rightarrow> bool" where
  "best_alignment scores go ge n m score pairs \<longleftrightarrow>
     covers n m pairs \<and> one_sided pairs \<and> affine_score (\<lambda>i j. scores ! i ! j) go ge GM pairs = score
     \<and> (\<forall>cols. covers n m cols \<longrightarrow> one_sided cols \<longrightarrow>
          affine_score (\<lambda>i j. scores ! i ! j) go ge GM cols \<le> score)"

definition gaps_ok :: "align_config \<Rightarrow> bool" where
  "gaps_ok config \<longleftrightarrow> \<bar>gap_open config\<bar> \<le> 1 \<and> \<bar>gap_extend config\<bar> \<le> 1"

locale embedder =
  fixes emb :: embed_fn
  assumes count: "length (emb texts) = length texts"
    and width: "u \<in> set (emb texts) \<Longrightarrow> v \<in> set (emb texts) \<Longrightarrow> length u = length v"
begin

lemma embed_reasoning_ok:
  "\<exists>vecs. embed_reasoning (Some emb) config a b = Inr vecs
    \<and> (\<forall>i < length a. \<forall>j < length b.
         vectors_ok config (a ! i) (b ! j) (pair_vectors vecs i j))"
proof (cases "weight_reasoning config = 0")
  case False
  let ?c = "emb (map reasoning a @ map reasoning b)"
  have l: "length ?c = length a + length b" by (simp add: count)
  have "length (take (length a) ?c ! i) = length (drop (length a) ?c ! j)"
    if "i < length a" "j < length b" for i j
    using that l by (intro width [of _ "map reasoning a @ map reasoning b"]) auto
  then show ?thesis using False l by (auto simp: embed_reasoning_def vectors_ok_def pair_vectors_def Let_def)
qed (simp add: embed_reasoning_def vectors_ok_def)

lemma embed_reasoning_Some: "\<exists>vecs. embed_reasoning (Some emb) config a b = Inr vecs"
  using embed_reasoning_ok by blast

text \<open>A matrix has the shape of its runs and scores between -1 and 1; computing it raises for an oversized number only.\<close>

lemma score_matrix_Inr:
  assumes "config_ok config" "list_all step_ok a" "list_all step_ok b" "a \<noteq> []" "b \<noteq> []"
    and "score_matrix env a b (Some emb) config = Inr scores"
  shows "dims (length a) (length b) scores \<and> (\<forall>i < length a. \<forall>j < length b. \<bar>scores ! i ! j\<bar> \<le> 1)"
proof -
  obtain vecs where v: "embed_reasoning (Some emb) config a b = Inr vecs" using embed_reasoning_Some by blast
  define f where "f i j = bind_res (step_similarity env config (a ! i) (b ! j)
    (pair_vectors vecs i j)) (\<lambda>s. Inr (score_from_similarity s))" for i j
  have rows: "map_res (\<lambda>i. map_res (f i) [0..<length b]) [0..<length a] = Inr scores"
    using v assms(4-6) by (simp add: score_matrix_def f_def [abs_def])
  have row: "map_res (f i) [0..<length b] = Inr (scores ! i)" if "i < length a" for i
    using map_res_eq_Inr_nth [OF rows, of i] that by simp
  have cell: "\<bar>scores ! i ! j\<bar> \<le> 1" if ij: "i < length a" "j < length b" for i j
  proof -
    have "f i j = Inr (scores ! i ! j)" using map_res_eq_Inr_nth [OF row [OF ij(1)], of j] ij by simp
    moreover have "step_ok (a ! i)" "step_ok (b ! j)" using assms(2,3) ij by (simp_all add: list_all_length)
    ultimately show ?thesis
      using step_similarity_range [OF assms(1)]
      by (fastforce simp: f_def bind_res_eq_Inr score_from_similarity_def abs_le_iff)
  qed
  have "length scores = length a" using map_res_eq_Inr_length [OF rows] by simp
  moreover have "length (scores ! i) = length b" if "i < length a" for i
    using map_res_eq_Inr_length [OF row [OF that]] by simp
  ultimately show ?thesis using cell by (auto simp: dims_def in_set_conv_nth)
qed

lemma score_matrix_raises:
  assumes "score_matrix env a b (Some emb) config = Inl e"
  shows "e = OverflowError \<and> \<not> list_all sized (a @ b)"
proof -
  obtain vecs where v: "embed_reasoning (Some emb) config a b = Inr vecs"
    "\<And>i j. i < length a \<Longrightarrow> j < length b \<Longrightarrow>
       vectors_ok config (a ! i) (b ! j) (pair_vectors vecs i j)"
    using embed_reasoning_ok [of config a b] by blast
  have "map_res (\<lambda>i. map_res (\<lambda>j. bind_res (step_similarity env config (a ! i) (b ! j) (pair_vectors vecs i j))
      (\<lambda>s. Inr (score_from_similarity s))) [0..<length b]) [0..<length a] = Inl e"
    using assms v(1) by (auto simp: score_matrix_def split: if_splits)
  then obtain i j where ij: "i < length a" "j < length b"
    "step_similarity env config (a ! i) (b ! j) (pair_vectors vecs i j) = Inl e"
    by (auto dest!: map_res_eq_Inl simp: bind_res_def split: sum.splits)
  then have "e = OverflowError \<and> \<not> (sized (a ! i) \<and> sized (b ! j))"
    using step_similarity_raises [OF v(2)] by blast
  then show ?thesis using ij by (auto simp: list_all_iff)
qed

lemma align_raises:
  assumes "align env a b (Some emb) config = Inl e"
    and "config_ok config" "gaps_ok config" "list_all step_ok a" "list_all step_ok b"
    and "real (length a + length b + 1) < 10 ^ 29"
  shows "e = OverflowError \<and> \<not> list_all sized (a @ b)"
proof (cases "a = [] \<or> b = []")
  case False
  then have ne: "a \<noteq> []" "b \<noteq> []" by simp_all
  show ?thesis
  proof (cases "score_matrix env a b (Some emb) config")
    case (Inl e')
    then show ?thesis using assms(1) False score_matrix_raises [OF Inl] by (simp add: align_def)
  next
    case (Inr scores)
    have s: "dims (length a) (length b) scores" "\<forall>i < length a. \<forall>j < length b. \<bar>scores ! i ! j\<bar> \<le> 1"
      using score_matrix_Inr [OF assms(2,4,5) ne Inr] by simp_all
    have "sane (\<lambda>i j. scores ! i ! j) (gap_open config) (gap_extend config) (length a) (length b) 1"
      using assms(3,6) s(2) by (simp add: sane_def gaps_ok_def)
    then show ?thesis
      using gotoh_best [OF s(1)] ne Inr assms(1) by (fastforce simp: align_def)
  qed
qed (use assms(1) in \<open>auto simp: align_def split: if_splits\<close>)

lemma align_best:
  assumes "align env a b (Some emb) config = Inr (score, pairs, scores)"
    and "config_ok config" "gaps_ok config" "list_all step_ok a" "list_all step_ok b"
    and "real (length a + length b + 1) < 10 ^ 29"
  shows "best_alignment scores (gap_open config) (gap_extend config) (length a) (length b) score pairs
    \<and> (a \<noteq> [] \<and> b \<noteq> [] \<longrightarrow> score_matrix env a b (Some emb) config = Inr scores)"
proof -
  let ?go = "gap_open config" and ?ge = "gap_extend config"
  consider "a = []" "b = []" | n where "length a = Suc n" "b = []" | n where "a = []" "length b = Suc n"
    | "a \<noteq> []" "b \<noteq> []" by (cases a; cases b) auto
  then show ?thesis
  proof cases
    case 1
    then show ?thesis using assms(1) by (auto simp: align_def best_alignment_def covers_left one_sided_def)
  next
    case (2 n)
    then have "score = ?go + real n * ?ge \<and> pairs = map (\<lambda>i. (Some i, None)) [0..<Suc n]"
      using assms(1) by (auto simp: align_def simp del: upt_Suc split: if_splits)
    then show ?thesis
      using 2 gap_run_score(1) [of _ ?go ?ge n] gap_run_one_sided(1) [of "Suc n"]
      by (auto simp: best_alignment_def covers_left simp del: upt_Suc)
  next
    case (3 n)
    then have "score = ?go + real n * ?ge \<and> pairs = map (\<lambda>j. (None, Some j)) [0..<Suc n]"
      using assms(1) by (auto simp: align_def simp del: upt_Suc split: if_splits)
    then show ?thesis
      using 3 gap_run_score(2) [of _ ?go ?ge n] gap_run_one_sided(2) [of "Suc n"]
      by (auto simp: best_alignment_def covers_right simp del: upt_Suc)
  next
    case 4
    have m: "score_matrix env a b (Some emb) config = Inr scores"
      using assms(1) 4 by (auto simp: align_def bind_res_eq_Inr)
    have s: "dims (length a) (length b) scores" "\<forall>i < length a. \<forall>j < length b. \<bar>scores ! i ! j\<bar> \<le> 1"
      using score_matrix_Inr [OF assms(2,4,5) 4 m] by simp_all
    have "sane (\<lambda>i j. scores ! i ! j) ?go ?ge (length a) (length b) 1"
      using assms(3,6) s(2) by (simp add: sane_def gaps_ok_def)
    then show ?thesis
      using gotoh_best [OF s(1)] m 4 assms(1) by (fastforce simp: align_def best_alignment_def)
  qed
qed

lemma align_total:
  assumes "config_ok config" "gaps_ok config" "list_all step_ok a" "list_all step_ok b" "list_all sized (a @ b)"
    and "real (length a + length b + 1) < 10 ^ 29"
  shows "\<exists>score pairs scores. align env a b (Some emb) config = Inr (score, pairs, scores)"
  using align_raises [OF _ assms(1-4,6)] assms(5) by (cases "align env a b (Some emb) config") auto

end

interpretation lexical: embedder lexical_embed
  by unfold_locales (simp, rule lexical_embed_width)

definition ex_around :: "int \<Rightarrow> step" where
  "ex_around n = \<lparr>step_name = ''read'', step_args = [(''around'', JInt n)], step_target = [], reasoning = [],
     changed_files = {}, batch_names = [], batch_targets = [], step_writes = {}, observation = []\<rparr>"

lemma oversized_raises:
  assumes "FLOAT_LIMIT \<le> n" "1 < n"
  shows "align env [ex_around 1] [ex_around n] (Some lexical_embed) DEFAULT_CONFIG = Inl OverflowError"
proof -
  have "rest_keys [(''around'', JInt 1)] [(''around'', JInt n)] = [''around'']" by (simp add: rest_keys_def)
  moreover have "number_similarity env (JInt 1) (JInt n) = Inl OverflowError"
    using assms by (simp add: number_similarity_def FLOAT_LIMIT_def)
  then have "value_similarity env ''around'' (JInt 1) (JInt n) = Inl OverflowError"
    using assms(2) by (simp add: value_similarity_def py_eq_def)
  ultimately have "argument_similarity env DEFAULT_CONFIG (ex_around 1) (ex_around n) = Inl OverflowError"
    by (simp add: argument_similarity_def rest_parts_def ex_around_def DEFAULT_CONFIG_def Let_def)
  then show ?thesis
    by (simp add: align_def score_matrix_def embed_reasoning_def step_similarity_def DEFAULT_CONFIG_def Let_def)
qed

text \<open>
  C32. The dependency-free alignment answers or names its one failure: for every configuration with convex
  weights and gap penalties of at most one, and runs of any practical length, \<open>align\<close> with the
  bag-of-words embedder either raises \<open>OverflowError\<close>, and then a step of one of the runs has an integer argument no
  float can hold, or returns an alignment that uses every step of both runs once and in order, has the returned
  score under the matrix of step similarities, and is beaten by no alignment without directly adjacent
  opposite gaps; empty runs included. The failure is real: two steps that read around lines
  \<open>1\<close> and \<open>2 ^ 1024\<close> cannot be aligned.
\<close>

theorem align_lexical_answers:
  assumes "config_ok config" "gaps_ok config" "list_all step_ok a" "list_all step_ok b"
    and "real (length a + length b + 1) < 10 ^ 29"
  shows "(case align env a b (Some lexical_embed) config of
       Inl e \<Rightarrow> e = OverflowError \<and> \<not> list_all sized (a @ b)
     | Inr (score, pairs, scores) \<Rightarrow>
         best_alignment scores (gap_open config) (gap_extend config) (length a) (length b) score pairs
         \<and> (a \<noteq> [] \<and> b \<noteq> [] \<longrightarrow> score_matrix env a b (Some lexical_embed) config = Inr scores))
    \<and> align env [ex_around 1] [ex_around (2 ^ 1024)] (Some lexical_embed) DEFAULT_CONFIG = Inl OverflowError"
proof
  show "case align env a b (Some lexical_embed) config of
       Inl e \<Rightarrow> e = OverflowError \<and> \<not> list_all sized (a @ b)
     | Inr (score, pairs, scores) \<Rightarrow>
         best_alignment scores (gap_open config) (gap_extend config) (length a) (length b) score pairs
         \<and> (a \<noteq> [] \<and> b \<noteq> [] \<longrightarrow> score_matrix env a b (Some lexical_embed) config = Inr scores)"
    using lexical.align_raises [OF _ assms] lexical.align_best [OF _ assms]
    by (auto split: sum.split simp del: list_all_append)
qed (rule oversized_raises, simp_all add: FLOAT_LIMIT_def)

lemma ex_run_ok: "list_all step_ok ex_run" "length ex_run = 3"
  by (simp_all add: ex_run_def ex_step_def step_ok_def)

lemma default_gaps: "gaps_ok DEFAULT_CONFIG"
  by (simp add: gaps_ok_def DEFAULT_CONFIG_def)

theorem align_lexical_answers_witness:
  "\<exists>total pairs scores. align ex_env ex_run (tl ex_run) (Some lexical_embed) DEFAULT_CONFIG
      = Inr (total, pairs, scores) \<and> covers 3 2 pairs"
proof -
  have ok: "list_all step_ok (tl ex_run)" "length (tl ex_run) = 2" "list_all sized (ex_run @ tl ex_run)"
    by (simp_all add: ex_run_def ex_step_def step_ok_def sized_def)
  from align_lexical_answers [OF configs_ok(1) default_gaps ex_run_ok(1) ok(1), of ex_env]
  show ?thesis using ok(2,3) ex_run_ok(2)
    by (auto simp: best_alignment_def split: sum.splits prod.splits)
qed

section \<open>A run aligned with itself\<close>

definition diagonal :: "nat \<Rightarrow> aligned" where
  "diagonal n = map (\<lambda>i. (Some i, Some i)) [0..<n]"

lemma diagonal_Suc [simp]: "diagonal (Suc n) = diagonal n @ [(Some n, Some n)]"
  by (simp add: diagonal_def)

lemma diagonal_0 [simp]: "diagonal 0 = []"
  by (simp add: diagonal_def)

lemma covers_diagonal: "covers n n (diagonal n)"
  by (induction n) (auto simp: covers_snoc)

lemma one_sided_diagonal: "one_sided (diagonal n)"
  by (induction n) (auto simp: one_sided_def [of "[]"])

lemma affine_score_diagonal:
  "(\<And>i. i < n \<Longrightarrow> sc i i = 1) \<Longrightarrow> affine_score sc go ge GM (diagonal n) = real n"
  by (induction n) auto

text \<open>
  A match scores at most one and a gap column below zero, so an alignment that scores the length of
  its shorter side has no gap.
\<close>

lemma affine_score_le_matches:
  assumes "go < 0" "ge < 0" "\<And>i j. i < n \<Longrightarrow> j < m \<Longrightarrow> sc i j \<le> 1"
  shows "i \<le> n \<Longrightarrow> j \<le> m \<Longrightarrow> covers i j cols \<Longrightarrow>
    affine_score sc go ge GM cols \<le> real (min i j)
    \<and> (affine_score sc go ge GM cols = real (min i j) \<longrightarrow> i = j \<longrightarrow> cols = diagonal i)"
proof (induction cols arbitrary: i j rule: rev_induct)
  case (snoc c cols)
  have gap: "column_score sc go ge p c < 0" if "kind c \<noteq> GM" for p
    using that assms(1,2) by (cases "(sc, go, ge, p, c)" rule: column_score.cases) auto
  from snoc.prems(3) show ?case unfolding covers_snoc
  proof (elim disjE exE conjE)
    fix a b assume c: "c = (Some a, Some b)" "i = Suc a" "j = Suc b" "covers a b cols"
    then show ?thesis
      using snoc.IH [of a b] snoc.prems(1,2) assms(3) [of a b] by auto
  next
    fix a assume c: "c = (Some a, None)" "i = Suc a" "covers a j cols"
    then show ?thesis
      using snoc.IH [of a j] snoc.prems(1,2) gap [of "last_kind cols"] by auto
  next
    fix b assume c: "c = (None, Some b)" "j = Suc b" "covers i b cols"
    then show ?thesis
      using snoc.IH [of i b] snoc.prems(1,2) gap [of "last_kind cols"] by auto
  qed
qed simp

lemma lexical_embed_same:
  "i < length texts \<Longrightarrow> j < length texts \<Longrightarrow> texts ! i = texts ! j \<Longrightarrow>
   lexical_embed texts ! i = lexical_embed texts ! j"
  by (simp add: lexical_embed_def Let_def)

lemma score_matrix_self:
  assumes "config_ok config" "list_all step_ok a" "list_all (has_token \<circ> reasoning) a"
    and "score_matrix env a a (Some lexical_embed) config = Inr scores" "i < length a"
    and "weight_reasoning config \<noteq> 0"
  shows "scores ! i ! i = 1"
proof -
  let ?texts = "map reasoning a @ map reasoning a"
  let ?c = "lexical_embed ?texts"
  let ?vecs = "Some (take (length a) ?c, drop (length a) ?c)"
  define f where "f i j = bind_res (step_similarity env config (a ! i) (a ! j) (pair_vectors ?vecs i j))
    (\<lambda>s. Inr (score_from_similarity s))" for i j
  have "embed_reasoning (Some lexical_embed) config a a = Inr ?vecs"
    using assms(6) by (simp add: embed_reasoning_def Let_def)
  then have "map_res (\<lambda>i. map_res (f i) [0..<length a]) [0..<length a] = Inr scores"
    using assms(4,5) unfolding score_matrix_def f_def [abs_def] by (auto split: if_splits)
  from map_res_eq_Inr_nth [OF this, of i] have "map_res (f i) [0..<length a] = Inr (scores ! i)"
    using assms(5) by simp
  from map_res_eq_Inr_nth [OF this, of i] have fi: "f i i = Inr (scores ! i ! i)" using assms(5) by simp
  have "?c ! (length a + i) = ?c ! i"
    using assms(5) by (intro lexical_embed_same) (simp_all add: nth_append)
  then have "pair_vectors ?vecs i i = Some (?c ! i, ?c ! i)"
    using assms(5) by (simp add: pair_vectors_def)
  moreover have nz: "\<not> (\<forall>x \<in> set (?c ! i). x = 0)"
    using assms(3,5) by (intro lexical_embed_nonzero) (simp_all add: nth_append list_all_length)
  have "step_ok (a ! i)" using assms(2,5) by (simp add: list_all_length)
  then have "step_similarity env config (a ! i) (a ! i) (Some (?c ! i, ?c ! i)) = Inr 1"
    by (simp only: step_similarity_self [OF assms(1)] if_not_P [OF nz])
  ultimately show ?thesis using fi by (simp add: f_def score_from_similarity_def)
qed

lemma align_self_diagonal:
  assumes "list_all step_ok a" "list_all (has_token \<circ> reasoning) a" "list_all sized a"
    and "real (length a + length a + 1) < 10 ^ 29"
  shows "\<exists>scores. align env a a (Some lexical_embed) DEFAULT_CONFIG
    = Inr (real (length a), diagonal (length a), scores)"
proof (cases "a = []")
  case False
  let ?n = "length a" and ?c = DEFAULT_CONFIG
  note ok = configs_ok(1) default_gaps assms(1) assms(1)
  obtain score pairs scores where al: "align env a a (Some lexical_embed) ?c = Inr (score, pairs, scores)"
    "best_alignment scores (gap_open ?c) (gap_extend ?c) ?n ?n score pairs"
    "score_matrix env a a (Some lexical_embed) ?c = Inr scores"
    using lexical.align_total [OF ok _ assms(4), of env] lexical.align_best [OF _ ok assms(4), of env] assms(3) False
    by (metis list_all_append)
  have le: "scores ! i ! j \<le> 1" if "i < ?n" "j < ?n" for i j
    using lexical.score_matrix_Inr [OF configs_ok(1) assms(1) assms(1) False False al(3)] that
    by (auto simp: abs_le_iff)
  have g: "gap_open ?c < 0" "gap_extend ?c < 0" by (simp_all add: DEFAULT_CONFIG_def)
  have "affine_score (\<lambda>i j. scores ! i ! j) (gap_open ?c) (gap_extend ?c) GM (diagonal ?n) = real ?n"
    using score_matrix_self [OF configs_ok(1) assms(1,2) al(3)]
    by (intro affine_score_diagonal) (simp add: DEFAULT_CONFIG_def)
  then have "real ?n \<le> score"
    using al(2) covers_diagonal one_sided_diagonal unfolding best_alignment_def by metis
  moreover have "covers ?n ?n pairs"
    "affine_score (\<lambda>i j. scores ! i ! j) (gap_open ?c) (gap_extend ?c) GM pairs = score"
    using al(2) by (simp_all add: best_alignment_def)
  ultimately have "score = real ?n \<and> pairs = diagonal ?n"
    using affine_score_le_matches [where sc = "\<lambda>i j. scores ! i ! j" and n = ?n and m = ?n
        and i = ?n and j = ?n and cols = pairs, OF g le] by fastforce
  then show ?thesis using al(1) by blast
qed (simp add: align_def)

section \<open>Where the failing run stops agreeing\<close>

definition counts :: "nat option \<Rightarrow> nat \<Rightarrow> bool" where
  "counts loop_start j \<longleftrightarrow> (case loop_start of None \<Rightarrow> True | Some l \<Rightarrow> j < l)"

text \<open>The failure-side steps of the columns that agree and count.\<close>

definition agreeing :: "nat option \<Rightarrow> step list \<Rightarrow> step list \<Rightarrow> aligned \<Rightarrow> nat set" where
  "agreeing l good bad cols =
     {j. \<exists>i. (Some i, Some j) \<in> set cols \<and> counts l j \<and> target_agree (good ! i) (bad ! j)}"

lemma last_agree_loop_snoc:
  "last_agree_loop l good bad k la (cols @ [c]) =
     bind_res (last_agree_loop l good bad k la cols)
       (\<lambda>la'. last_agree_loop l good bad (k + int (length cols)) la' [c])"
  by (induction l good bad k la cols rule: last_agree_loop.induct) (auto simp: algebra_simps)

lemma agreeing_snoc:
  "agreeing l good bad (cols @ [c]) = agreeing l good bad cols \<union>
     (case c of (Some i, Some j) \<Rightarrow>
        if counts l j \<and> target_agree (good ! i) (bad ! j) then {j} else {} | _ \<Rightarrow> {})"
  by (auto simp: agreeing_def split: option.splits prod.splits)

lemma covers_bounds: "covers n m cols \<Longrightarrow> (Some i, Some j) \<in> set cols \<Longrightarrow> i < n \<and> j < m"
  by (induction cols arbitrary: n m rule: rev_induct) (fastforce simp: covers_snoc)+

lemma first_bad_snoc:
  "first_bad (cols @ [c]) = (case first_bad cols of Some d \<Rightarrow> Some d | None \<Rightarrow> map_option Suc (snd c))"
  by (induction cols rule: first_bad.induct) (cases c; cases "snd c", auto split: option.splits)+

lemma first_bad_covers: "covers n m cols \<Longrightarrow> first_bad cols = (if m = 0 then None else Some 1)"
  by (induction cols arbitrary: n m rule: rev_induct) (auto simp: covers_snoc first_bad_snoc)

lemma agreeing_bound: "covers n m cols \<Longrightarrow> agreeing l good bad cols \<subseteq> {..<m}"
  using covers_bounds by (fastforce simp: agreeing_def)

lemma agreeing_finite: "covers n m cols \<Longrightarrow> finite (agreeing l good bad cols)"
  by (rule finite_subset [OF agreeing_bound]) simp_all

text \<open>The number of failure-side steps up to and including the last agreeing one.\<close>

definition agreed_upto :: "nat set \<Rightarrow> nat" where
  "agreed_upto A = (if A = {} then 0 else Max A + 1)"

lemma agreed_upto_le: "covers n m cols \<Longrightarrow> agreed_upto (agreeing l good bad cols) \<le> m"
  using agreeing_bound [of n m cols l good bad] agreeing_finite [of n m cols l good bad]
  by (auto simp: agreed_upto_def Suc_le_eq)

lemma agreed_upto_insert:
  assumes "covers n b cols" shows "agreed_upto (insert b (agreeing l good bad cols)) = Suc b"
proof -
  have "Max (insert b (agreeing l good bad cols)) = b"
    using agreeing_bound [OF assms, of l good bad] agreeing_finite [OF assms, of l good bad]
    by (intro Max_eqI) auto
  then show ?thesis by (simp add: agreed_upto_def)
qed

text \<open>
  After the columns of a prefix, the loop holds the last agreeing column, and the first failure-side
  step after it is the one after the greatest agreeing step.
\<close>

definition loop_state :: "nat option \<Rightarrow> step list \<Rightarrow> step list \<Rightarrow> nat \<Rightarrow> aligned \<Rightarrow> int \<Rightarrow> bool" where
  "loop_state l good bad j cols la \<longleftrightarrow>
     last_agree_loop l good bad 0 (-1) cols = Inr la \<and> -1 \<le> la \<and> la < int (length cols)
     \<and> (la < 0 \<longleftrightarrow> agreeing l good bad cols = {})
     \<and> first_bad (drop (nat (la + 1)) cols) =
         (let d = agreed_upto (agreeing l good bad cols) in if d < j then Some (d + 1) else None)"

lemma loop_state_skip:
  assumes "loop_state l good bad b cols la" "agreeing l good bad (cols @ [c]) = agreeing l good bad cols"
    and "last_agree_loop l good bad (int (length cols)) la [c] = Inr la"
    and "snd c = None \<and> j = b \<or> snd c = Some b \<and> j = Suc b"
    and "agreed_upto (agreeing l good bad cols) \<le> b"
  shows "loop_state l good bad j (cols @ [c]) la"
proof -
  have "nat (la + 1) \<le> length cols" using assms(1) by (auto simp: loop_state_def)
  then have "drop (nat (la + 1)) (cols @ [c]) = drop (nat (la + 1)) cols @ [c]" by simp
  then show ?thesis
    using assms by (auto simp: loop_state_def last_agree_loop_snoc first_bad_snoc Let_def)
qed

lemma divergence_loop:
  "i \<le> length good \<Longrightarrow> j \<le> length bad \<Longrightarrow> covers i j cols \<Longrightarrow> \<exists>la. loop_state l good bad j cols la"
proof (induction cols arbitrary: i j rule: rev_induct)
  case Nil
  then show ?case by (simp add: agreeing_def loop_state_def agreed_upto_def)
next
  case (snoc c cols)
  from snoc.prems(3) show ?case unfolding covers_snoc
  proof (elim disjE exE conjE)
    fix a b assume c: "c = (Some a, Some b)" "i = Suc a" "j = Suc b" "covers a b cols"
    obtain la where la: "loop_state l good bad b cols la" using snoc.IH [of a b] snoc.prems c by auto
    show ?thesis
    proof (cases "counts l b \<and> target_agree (good ! a) (bad ! b)")
      case True
      then have "loop_state l good bad j (cols @ [c]) (int (length cols))"
        using la c snoc.prems agreed_upto_insert [OF c(4), of l good bad]
        by (auto simp: loop_state_def last_agree_loop_snoc agreeing_snoc counts_def Let_def nat_add_distrib
            split: option.splits)
      then show ?thesis ..
    next
      case False
      then have "loop_state l good bad j (cols @ [c]) la"
        using c snoc.prems agreed_upto_le [OF c(4), of l good bad]
        by (intro loop_state_skip [OF la]) (auto simp: agreeing_snoc counts_def split: option.splits)
      then show ?thesis ..
    qed
  next
    fix a assume c: "c = (Some a, None)" "i = Suc a" "covers a j cols"
    obtain la where la: "loop_state l good bad j cols la" using snoc.IH [of a j] snoc.prems c by auto
    then have "loop_state l good bad j (cols @ [c]) la"
      using c agreed_upto_le [OF c(3), of l good bad] by (intro loop_state_skip) (auto simp: agreeing_snoc)
    then show ?thesis ..
  next
    fix b assume c: "c = (None, Some b)" "j = Suc b" "covers i b cols"
    obtain la where la: "loop_state l good bad b cols la" using snoc.IH [of i b] snoc.prems c by auto
    then have "loop_state l good bad j (cols @ [c]) la"
      using c agreed_upto_le [OF c(3), of l good bad] by (intro loop_state_skip) (auto simp: agreeing_snoc)
    then show ?thesis ..
  qed
qed

lemma divergence_step_closed:
  assumes "covers (length good) (length bad) cols" "bad \<noteq> []"
  defines "A \<equiv> agreeing (trailing_identical_loop_start bad) good bad cols"
  shows "divergence_step cols good bad =
    Inr (if A = {} then Some 1 else if Max A + 1 = length bad then None else Some (Max A + 2))"
proof -
  let ?l = "trailing_identical_loop_start bad"
  obtain la where la: "loop_state ?l good bad (length bad) cols la"
    using divergence_loop [OF order_refl order_refl assms(1)] by blast
  have "A \<noteq> {} \<Longrightarrow> Max A + 1 \<le> length bad"
    using agreed_upto_le [OF assms(1), of ?l good bad] by (simp add: agreed_upto_def A_def)
  then show ?thesis
    using la assms(2)
    by (cases "A = {}") (auto simp: divergence_step_def loop_state_def agreed_upto_def Let_def A_def [symmetric])
qed

text \<open>
  The reported divergence is the failing run's first step after its last agreement: for an
  alignment that covers both runs, columns agreeing in names and targets count unless their failing
  step lies in a trailing loop of identical steps; the answer is step 1 when none counts, nothing when
  the last counted one is the failing run's last step, and the step after it otherwise.
\<close>

theorem divergence_step_spec:
  assumes "covers (length good) (length bad) cols" "bad \<noteq> []"
  shows "let A = agreeing (trailing_identical_loop_start bad) good bad cols in
    divergence_step cols good bad =
      Inr (if A = {} then Some 1 else if Max A + 1 = length bad then None else Some (Max A + 2))"
  unfolding Let_def by (rule divergence_step_closed [OF assms])

lemma agreeing_diagonal:
  "length a = n \<Longrightarrow> agreeing l a a (diagonal n) = {j. j < n \<and> counts l j}"
  by (auto simp: agreeing_def diagonal_def target_agree_def image_iff)

lemma trailing_loop_bound:
  "trailing_identical_loop_start a = Some s \<Longrightarrow> s + 1 < length a"
proof -
  have "loop_start_from a x k \<le> k" for x k by (induction k) auto
  from this [of "last a" "length a - 1"] show "trailing_identical_loop_start a = Some s \<Longrightarrow> s + 1 < length a"
    by (auto simp: trailing_identical_loop_start_def Let_def split: if_splits)
qed

lemma Max_lessThan: "0 < n \<Longrightarrow> Max {j. j < n} = n - (1 :: nat)"
  by (intro Max_eqI) auto

lemma divergence_diagonal:
  assumes "a \<noteq> []"
  shows "divergence_step (diagonal (length a)) a a
    = Inr (map_option Suc (trailing_identical_loop_start a))"
proof (cases "trailing_identical_loop_start a")
  case None
  then have "agreeing None a a (diagonal (length a)) = {j. j < length a}"
    by (simp add: agreeing_diagonal counts_def)
  then show ?thesis
    using divergence_step_closed [OF covers_diagonal assms] None assms Max_lessThan [of "length a"]
    by (auto simp: Suc_le_eq)
next
  case (Some s)
  then have "agreeing (Some s) a a (diagonal (length a)) = {j. j < s}"
    using trailing_loop_bound [OF Some] by (auto simp: agreeing_diagonal counts_def)
  then show ?thesis
    using divergence_step_closed [OF covers_diagonal assms] Some trailing_loop_bound [OF Some]
      Max_lessThan [of s] by (cases s) auto
qed

lemma traces_loop_finite:
  "finite ch \<Longrightarrow> finite (snd (traces_loop env ms g ch ps))
    \<and> (\<forall>t \<in> set (fst (traces_loop env ms g ch ps)). finite (changed_files (tr_step t)))"
proof (induction ps arbitrary: ch)
  case (Cons p ps)
  have f: "changed_files (build_step env ts r fs w) = fs" for ts r fs w
    by (simp add: build_step_def split: list.split)
  show ?case
    using Cons.prems
    by (simp add: Let_def case_prod_beta f Cons.IH) (rule Cons.IH [THEN conjunct2], simp)
qed simp

lemma extract_steps_ok: "list_all step_ok (extract_steps env es sub)"
  using traces_loop_finite [of "{}"]
  by (auto simp: extract_steps_def extract_traces_def step_ok_def list_all_iff Let_def case_prod_beta
      submit_trace_def)

text \<open>
  C39. A run compared with itself: when every step's reasoning is blank or has a token and no argument is an
  integer too large for a float, the alignment is the diagonal with score one per step, and a divergence is
  reported exactly when the run ends in two or more identical steps, at the start of that loop.
\<close>

theorem diff_runs_self:
  assumes "extract_steps env es sub \<noteq> []" "list_all (has_token \<circ> reasoning) (extract_steps env es sub)"
    and "real (2 * length (extract_steps env es sub) + 1) < 10 ^ 29" "list_all sized (extract_steps env es sub)"
  shows "\<exists>r. diff_runs env es es (Some lexical_embed) sub sub model revision = Inr r
    \<and> dr_score r = real (length (extract_steps env es sub))
    \<and> dr_alignment r = diagonal (length (extract_steps env es sub))
    \<and> dr_divergence r = map_option Suc (trailing_identical_loop_start (extract_steps env es sub))"
proof -
  obtain scores where "align env (extract_steps env es sub) (extract_steps env es sub) (Some lexical_embed)
      DEFAULT_CONFIG = Inr (real (length (extract_steps env es sub)),
        diagonal (length (extract_steps env es sub)), scores)"
    using align_self_diagonal [OF extract_steps_ok assms(2,4), of env] assms(3) unfolding mult_2 by blast
  then show ?thesis
    using divergence_diagonal [OF assms(1)] by (simp add: diff_runs_def Let_def)
qed

lemma ex_self_steps:
  "\<exists>s. extract_steps ex_env [ex_stored 1 (ToolCall (ex_tool ''t1'' 0))] False = [s] \<and> reasoning s = [] \<and> sized s"
  by (simp add: sized_def extract_steps_def extract_traces_def group_events_def empty_grouping_def list_at_def Let_def
      ex_stored_def ex_tool_def build_step_def step_reasoning_def model_calls_by_id_def map_filter_def)

theorem diff_runs_self_witness:
  "\<exists>r. diff_runs ex_env [ex_stored 1 (ToolCall (ex_tool ''t1'' 0))] [ex_stored 1 (ToolCall (ex_tool ''t1'' 0))]
       (Some lexical_embed) False False None None = Inr r \<and> dr_score r = 1 \<and> dr_divergence r = None"
proof -
  obtain s where s: "extract_steps ex_env [ex_stored 1 (ToolCall (ex_tool ''t1'' 0))] False = [s]"
    "reasoning s = []" "sized s" using ex_self_steps by blast
  have "has_token []" by (rule has_token_blank) (simp add: strip_def)
  then show ?thesis
    using diff_runs_self [of ex_env "[ex_stored 1 (ToolCall (ex_tool ''t1'' 0))]" False None None] s
    by (simp add: trailing_identical_loop_start_def) blast
qed

theorem divergence_step_spec_witness:
  "divergence_step (diagonal 3) ex_run ex_run = Inr None"
proof -
  have c: "covers (length ex_run) (length ex_run) (diagonal 3)" using covers_diagonal [of 3] ex_run_ok by simp
  have l: "trailing_identical_loop_start ex_run = None"
    by (simp add: trailing_identical_loop_start_def ex_run_def ex_step_def same_action_def)
  have m: "Max {j. j < (3 :: nat)} = 2" "{j. j < (3 :: nat)} \<noteq> {}"
    using Max_lessThan [of 3] by (auto intro: exI [of _ "0 :: nat"])
  have agr: "agreeing None ex_run ex_run (diagonal 3) = {j. j < 3}"
    using agreeing_diagonal [of ex_run 3 None] ex_run_ok(2) by (simp add: counts_def)
  have ne: "ex_run \<noteq> []" by (simp add: ex_run_def)
  show ?thesis
    using divergence_step_spec [OF c ne] unfolding l Let_def agr
    by (simp only: if_not_P [OF m(2)] m(1) ex_run_ok(2)) simp
qed

section \<open>Baselines\<close>

definition agreed_prefix :: "step list \<Rightarrow> step list \<Rightarrow> nat" where
  "agreed_prefix good bad = length (takeWhile (\<lambda>(g, b). target_agree g b) (zip good bad))"

lemma first_difference_loop_closed:
  "first_difference_loop i good bad =
     (if agreed_prefix good bad < min (length good) (length bad)
      then Some (i + agreed_prefix good bad + 1) else None)"
  by (induction i good bad rule: first_difference_loop.induct) (auto simp: agreed_prefix_def)

lemma agreed_loop_closed:
  "agreed_loop i i good bad = i + agreed_prefix good bad"
  by (induction good arbitrary: i bad; case_tac bad) (auto simp: agreed_prefix_def)

text \<open>
  The two positional baselines read the longest prefix on which the runs agree step by step: one
  reports its last step (1 when it is empty), the other the failing run's next step, or that run's end
  when there is none.
\<close>

theorem baselines_agreed_prefix:
  "last_common_prefix good bad = max 1 (agreed_prefix good bad)
   \<and> first_target_difference good bad =
       (if agreed_prefix good bad < length bad then agreed_prefix good bad + 1
        else if length good = length bad then length bad else max (length bad) 1)"
proof -
  have "agreed_prefix good bad \<le> min (length good) (length bad)"
    unfolding agreed_prefix_def using length_takeWhile_le [of _ "zip good bad"] by auto
  then show ?thesis
    using agreed_loop_closed [of 0 good bad] first_difference_loop_closed [of 0 good bad]
    by (auto simp: last_common_prefix_def first_target_difference_def Let_def)
qed

end
