(* ===== verification/Matching.thy ===== *)
theory Matching
  imports Events
begin

text \<open>
  Configuration (\<open>src/tracewake/config.py\<close>) and the matcher that answers a replayed request with a
  recorded call (\<open>src/tracewake/matching.py\<close>): the matcher's flags and its report as a record that
  every call returns updated. The lemmas describe one match, give the invariant between flags and
  counts, and show that replaying the recorded requests in order hands back the recorded calls.
\<close>

section \<open>Configuration\<close>

definition MATCHERS :: "string list" where
  "MATCHERS = [''model'', ''messages_hash'', ''system_prompt'', ''tool_names'', ''ordinal'']"

definition DEFAULT_MATCH_ON :: "string list" where
  "DEFAULT_MATCH_ON = [''model'', ''messages_hash'']"

definition DEFAULT_FILTER_HEADERS :: "string list" where
  "DEFAULT_FILTER_HEADERS =
     [''authorization'', ''proxy-authorization'', ''x-api-key'', ''api-key'', ''cookie'', ''set-cookie'']"

definition DEFAULT_FILTER_ENV :: "string list" where
  "DEFAULT_FILTER_ENV =
     [''*_API_KEY'', ''*_SECRET'', ''*_SECRET_KEY'', ''*_TOKEN'', ''*_PASSWORD'', ''*_PASSWD'',
      ''*_CREDENTIALS'']"

record config =
  match_on :: "string list"
  redact :: bool
  filter_headers :: "string list"
  filter_env :: "string list"
  filter_values :: "string list"
  filter_paths :: bool
  before_record :: "(any_event \<Rightarrow> any_event option) option"
  stale_after_days :: "real option"
  require_hash_seed :: bool
  patch_environment :: bool

text \<open>\<open>__post_init__\<close>: the checks on every new configuration.\<close>

definition post_init :: "config \<Rightarrow> config res" where
  "post_init c =
     (if match_on c = [] then Inl ValueError
      else if filter (\<lambda>m. m \<notin> set MATCHERS) (match_on c) \<noteq> [] then Inl ValueError
      else Inr c)"

definition default_config :: config where
  "default_config =
     \<lparr>match_on = DEFAULT_MATCH_ON, redact = True, filter_headers = DEFAULT_FILTER_HEADERS,
      filter_env = DEFAULT_FILTER_ENV, filter_values = [], filter_paths = True, before_record = None,
      stale_after_days = Some 30, require_hash_seed = True, patch_environment = True\<rparr>"

definition proves_request_identity :: "config \<Rightarrow> bool" where
  "proves_request_identity c \<longleftrightarrow> ''messages_hash'' \<in> set (match_on c)"

text \<open>A keyword override, by the option it names; an unknown name is kept as such.\<close>

datatype config_option =
    OMatchOn "string list" | ORedact bool | OFilterHeaders "string list" | OFilterEnv "string list"
  | OFilterValues "string list" | OFilterPaths bool
  | OBeforeRecord "(any_event \<Rightarrow> any_event option) option"
  | OStaleAfterDays "real option" | ORequireHashSeed bool | OPatchEnvironment bool
  | OUnknown string

fun apply_option :: "config_option \<Rightarrow> config \<Rightarrow> config" where
  "apply_option (OMatchOn x) c = c\<lparr>match_on := x\<rparr>"
| "apply_option (ORedact x) c = c\<lparr>redact := x\<rparr>"
| "apply_option (OFilterHeaders x) c = c\<lparr>filter_headers := x\<rparr>"
| "apply_option (OFilterEnv x) c = c\<lparr>filter_env := x\<rparr>"
| "apply_option (OFilterValues x) c = c\<lparr>filter_values := x\<rparr>"
| "apply_option (OFilterPaths x) c = c\<lparr>filter_paths := x\<rparr>"
| "apply_option (OBeforeRecord x) c = c\<lparr>before_record := x\<rparr>"
| "apply_option (OStaleAfterDays x) c = c\<lparr>stale_after_days := x\<rparr>"
| "apply_option (ORequireHashSeed x) c = c\<lparr>require_hash_seed := x\<rparr>"
| "apply_option (OPatchEnvironment x) c = c\<lparr>patch_environment := x\<rparr>"
| "apply_option (OUnknown x) c = c"

fun is_unknown :: "config_option \<Rightarrow> bool" where
  "is_unknown (OUnknown x) = True"
| "is_unknown _ = False"

text \<open>\<open>dataclasses.replace\<close>: a name that is not a field is a \<open>TypeError\<close>, then the checks run.\<close>

definition replace_config :: "config \<Rightarrow> config_option list \<Rightarrow> config res" where
  "replace_config c overrides =
     (if list_ex is_unknown overrides then Inl TypeError else post_init (fold apply_option overrides c))"

text \<open>\<open>configure\<close> updates the process default, which is returned with the result.\<close>

definition configure :: "config \<Rightarrow> config_option list \<Rightarrow> config res \<times> config" where
  "configure dflt overrides =
     (if list_ex is_unknown overrides then (Inl TypeError, dflt)
      else case replace_config dflt overrides of
             Inl e \<Rightarrow> (Inl e, dflt)
           | Inr c \<Rightarrow> (Inr c, c))"

definition resolve_config :: "config \<Rightarrow> config option \<Rightarrow> config_option list \<Rightarrow> config res" where
  "resolve_config dflt config supplied =
     (let base = (case config of Some c \<Rightarrow> c | None \<Rightarrow> dflt)
      in if supplied \<noteq> [] then replace_config base supplied else Inr base)"

section \<open>Requests and the report\<close>

record request =
  rq_model_id :: string
  rq_messages_hash :: string
  rq_system_hash :: string
  rq_tool_names :: "string list option"

record replay_report =
  recorded_calls :: int
  matched :: int
  degraded :: int
  missed :: int
  recorded_new :: int
  tool_calls_replayed :: int
  misses :: "string list"
  can_record :: bool
  blocks_dropped :: int

definition new_report :: "bool \<Rightarrow> replay_report" where
  "new_report can =
     \<lparr>recorded_calls = 0, matched = 0, degraded = 0, missed = 0, recorded_new = 0,
      tool_calls_replayed = 0, misses = [], can_record = can, blocks_dropped = 0\<rparr>"

definition unconsumed :: "replay_report \<Rightarrow> int" where
  "unconsumed r = recorded_calls r - matched r - degraded r"

definition summary :: "replay_report \<Rightarrow> string" where
  "summary r =
     join_str '', ''
       ([int_str (matched r) @ '' matched'', int_str (degraded r) @ '' degraded'',
         int_str (missed r) @ '' missed'']
        @ (if recorded_new r \<noteq> 0 then [int_str (recorded_new r) @ '' newly recorded''] else [])
        @ (if unconsumed r \<noteq> 0
           then [int_str (unconsumed r) @ '' recorded call'' @ (if unconsumed r = 1 then [] else ''s'')
                 @ '' unused''] else [])
        @ (if blocks_dropped r \<noteq> 0
           then [int_str (blocks_dropped r) @ '' ''
                 @ (if blocks_dropped r = 1 then ''block'' else ''blocks'') @ '' dropped''] else []))"

definition system_hash :: "py_env \<Rightarrow> message list \<Rightarrow> string" where
  "system_hash env ms =
     sha256_hex env (concat (map msg_content (filter (\<lambda>m. role m = RSystem) ms)))"

definition build_request ::
  "py_env \<Rightarrow> string \<Rightarrow> message list \<Rightarrow> string list option \<Rightarrow> request" where
  "build_request env model_id ms tools =
     \<lparr>rq_model_id = model_id, rq_messages_hash = hash_messages env ms,
      rq_system_hash = system_hash env ms, rq_tool_names = tools\<rparr>"

text \<open>The predicates, by the name a configuration lists; an unknown name is a \<open>KeyError\<close>.\<close>

definition PREDICATES :: "py_env \<Rightarrow> string \<Rightarrow> (model_call_event \<Rightarrow> request \<Rightarrow> bool) option" where
  "PREDICATES env name =
     (if name = ''model'' then Some (\<lambda>c r. mc_model_id c = rq_model_id r)
      else if name = ''messages_hash'' then Some (\<lambda>c r. messages_hash c = rq_messages_hash r)
      else if name = ''system_prompt'' then
        Some (\<lambda>c r. system_hash env (mc_messages c) = rq_system_hash r)
      else if name = ''tool_names'' then Some (\<lambda>c r. mc_tools c = rq_tool_names r)
      else if name = ''ordinal'' then Some (\<lambda>c r. True)
      else None)"

section \<open>The matcher\<close>

record call_matcher =
  m_calls :: "model_call_event list"
  consumed :: "bool list"
  m_predicates :: "(model_call_event \<Rightarrow> request \<Rightarrow> bool) list"
  proves_identity :: bool
  m_match_on :: "string list"
  m_report :: replay_report

definition new_matcher ::
  "py_env \<Rightarrow> model_call_event list \<Rightarrow> config \<Rightarrow> replay_report \<Rightarrow> call_matcher res" where
  "new_matcher env calls config report =
     bind_res (map_res (\<lambda>n. case PREDICATES env n of Some p \<Rightarrow> Inr p | None \<Rightarrow> Inl KeyError) (match_on config))
       (\<lambda>ps. Inr \<lparr>m_calls = calls, consumed = replicate (length calls) False, m_predicates = ps,
                  proves_identity = proves_request_identity config, m_match_on = match_on config,
                  m_report = report\<lparr>recorded_calls := int (length calls)\<rparr>\<rparr>)"

definition accepts :: "call_matcher \<Rightarrow> request \<Rightarrow> model_call_event \<Rightarrow> bool" where
  "accepts m rq c \<longleftrightarrow> list_all (\<lambda>p. p c rq) (m_predicates m)"

text \<open>The loop of \<open>match\<close>: the first index that is not consumed and is accepted.\<close>

fun scan_calls :: "call_matcher \<Rightarrow> request \<Rightarrow> nat \<Rightarrow> model_call_event list \<Rightarrow> nat option" where
  "scan_calls m rq index [] = None"
| "scan_calls m rq index (c # cs) =
     (if consumed m ! index then scan_calls m rq (index + 1) cs
      else if accepts m rq c then Some index
      else scan_calls m rq (index + 1) cs)"

text \<open>\<open>repr\<close> of a text, for the two messages that quote the model.\<close>

definition describe_request :: "py_env \<Rightarrow> request \<Rightarrow> string" where
  "describe_request env rq =
     ''model='' @ crepr env (JStr (rq_model_id rq)) @ '' messages_hash='' @ take 12 (rq_messages_hash rq)"

definition match_call :: "py_env \<Rightarrow> call_matcher \<Rightarrow> request \<Rightarrow> model_call_event option \<times> call_matcher" where
  "match_call env m rq =
     (case scan_calls m rq 0 (m_calls m) of
        Some index \<Rightarrow>
          (Some (m_calls m ! index),
           m\<lparr>consumed := (consumed m)[index := True],
             m_report := (if proves_identity m
                          then (m_report m)\<lparr>matched := matched (m_report m) + 1\<rparr>
                          else (m_report m)\<lparr>degraded := degraded (m_report m) + 1\<rparr>)\<rparr>)
      | None \<Rightarrow>
          (None,
           m\<lparr>m_report := (m_report m)\<lparr>missed := missed (m_report m) + 1,
               misses := misses (m_report m) @ [describe_request env rq]\<rparr>\<rparr>))"

definition remaining_calls :: "call_matcher \<Rightarrow> nat" where
  "remaining_calls m = length (filter (\<lambda>c. \<not> c) (consumed m))"

definition describe_miss :: "py_env \<Rightarrow> call_matcher \<Rightarrow> request \<Rightarrow> string \<Rightarrow> string" where
  "describe_miss env m rq run_id =
     ''no unconsumed model call in run '' @ run_id @ '' matching '' @ join_str '' + '' (m_match_on m)
     @ '' for '' @ describe_request env rq @ '' ('' @ nat_str (remaining_calls m) @ '' of ''
     @ nat_str (length (m_calls m)) @ '' recorded calls still unconsumed). The replayed agent ''
     @ ''built a request the recorded run never made.''"

fun match_all :: "py_env \<Rightarrow> call_matcher \<Rightarrow> request list \<Rightarrow> model_call_event option list \<times> call_matcher" where
  "match_all env m [] = ([], m)"
| "match_all env m (rq # rqs) =
     (let (r, m1) = match_call env m rq; (rs, m2) = match_all env m1 rqs in (r # rs, m2))"

section \<open>One match\<close>

lemma scan_calls_Some:
  "scan_calls m rq i cs = Some k \<Longrightarrow> i \<le> k \<and> k < i + length cs \<and> \<not> consumed m ! k \<and> accepts m rq (cs ! (k - i))
    \<and> (\<forall>j. i \<le> j \<and> j < k \<longrightarrow> consumed m ! j \<or> \<not> accepts m rq (cs ! (j - i)))"
proof (induction m rq i cs rule: scan_calls.induct)
  case (2 m rq i c cs)
  show ?case
  proof (cases "\<not> consumed m ! i \<and> accepts m rq c")
    case False
    then have s: "scan_calls m rq (i + 1) cs = Some k" using "2.prems" by (auto split: if_splits)
    then have "i + 1 \<le> k \<and> k < i + 1 + length cs \<and> \<not> consumed m ! k \<and> accepts m rq (cs ! (k - (i + 1)))
      \<and> (\<forall>j. i + 1 \<le> j \<and> j < k \<longrightarrow> consumed m ! j \<or> \<not> accepts m rq (cs ! (j - (i + 1))))"
      using "2.IH" False by (cases "consumed m ! i") auto
    then show ?thesis using False by (auto simp: nth_Cons' Suc_le_eq)
  qed (use "2.prems" in auto)
qed simp

lemma scan_calls_None:
  "scan_calls m rq i cs = None \<Longrightarrow> j < length cs \<Longrightarrow> consumed m ! (i + j) \<or> \<not> accepts m rq (cs ! j)"
proof (induction m rq i cs arbitrary: j rule: scan_calls.induct)
  case (2 m rq i c cs)
  then show ?case by (cases j) (auto split: if_splits)
qed simp

definition matcher_ok :: "call_matcher \<Rightarrow> bool" where
  "matcher_ok m \<longleftrightarrow> length (consumed m) = length (m_calls m)
     \<and> recorded_calls (m_report m) = int (length (m_calls m))
     \<and> matched (m_report m) + degraded (m_report m) = int (length (filter (\<lambda>b. b) (consumed m)))"

lemma count_True_update:
  "k < length bs \<Longrightarrow> \<not> bs ! k \<Longrightarrow>
   length (filter (\<lambda>b. b) (bs[k := True])) = length (filter (\<lambda>b. b) bs) + 1"
proof (induction bs arbitrary: k)
  case (Cons b bs)
  then show ?case by (cases k) auto
qed simp

lemma match_call_cases:
  assumes "length (consumed m) = length (m_calls m)"
  obtains (hit) k where "match_call env m rq = (Some (m_calls m ! k),
      m\<lparr>consumed := (consumed m)[k := True],
        m_report := (if proves_identity m
                     then (m_report m)\<lparr>matched := matched (m_report m) + 1\<rparr>
                     else (m_report m)\<lparr>degraded := degraded (m_report m) + 1\<rparr>)\<rparr>)"
      "k < length (m_calls m)" "\<not> consumed m ! k" "accepts m rq (m_calls m ! k)"
      "\<forall>j < k. consumed m ! j \<or> \<not> accepts m rq (m_calls m ! j)"
  | (miss) "match_call env m rq = (None,
      m\<lparr>m_report := (m_report m)\<lparr>missed := missed (m_report m) + 1,
          misses := misses (m_report m) @ [describe_request env rq]\<rparr>\<rparr>)"
      "\<forall>j < length (m_calls m). consumed m ! j \<or> \<not> accepts m rq (m_calls m ! j)"
proof (cases "scan_calls m rq 0 (m_calls m)")
  case None
  then show thesis
    using miss scan_calls_None [OF None] by (simp add: match_call_def)
next
  case (Some k)
  then show thesis
    using hit [of k] scan_calls_Some [OF Some] by (simp add: match_call_def)
qed

lemma match_call_ok:
  assumes "matcher_ok m"
  shows "matcher_ok (snd (match_call env m rq))
    \<and> m_calls (snd (match_call env m rq)) = m_calls m
    \<and> missed (m_report (snd (match_call env m rq))) - missed (m_report m)
        = (if fst (match_call env m rq) = None then 1 else 0)
    \<and> unconsumed (m_report m) - unconsumed (m_report (snd (match_call env m rq)))
        = (if fst (match_call env m rq) = None then 0 else 1)"
proof -
  have "length (consumed m) = length (m_calls m)" using assms by (simp add: matcher_ok_def)
  then show ?thesis
    by (cases rule: match_call_cases [of m env rq])
      (use assms in \<open>auto simp: matcher_ok_def unconsumed_def count_True_update\<close>)
qed

text \<open>
  C10. A request is answered by the first recorded call, in recorded order, that is not yet consumed and
  satisfies every configured matcher; that call alone becomes consumed and one matched (or, without
  the messages hash among the matchers, degraded) call is counted. When there is none, nothing is
  consumed and one miss is counted.
\<close>

theorem match_call_spec:
  assumes "matcher_ok m"
  shows "(case match_call env m rq of
      (Some c, m') \<Rightarrow> \<exists>k < length (m_calls m). c = m_calls m ! k \<and> \<not> consumed m ! k \<and> accepts m rq c
        \<and> (\<forall>j < k. consumed m ! j \<or> \<not> accepts m rq (m_calls m ! j))
        \<and> consumed m' = (consumed m)[k := True]
        \<and> matched (m_report m') = matched (m_report m) + (if proves_identity m then 1 else 0)
        \<and> degraded (m_report m') = degraded (m_report m) + (if proves_identity m then 0 else 1)
    | (None, m') \<Rightarrow> (\<forall>j < length (m_calls m). consumed m ! j \<or> \<not> accepts m rq (m_calls m ! j))
        \<and> consumed m' = consumed m \<and> missed (m_report m') = missed (m_report m) + 1)"
proof -
  have "length (consumed m) = length (m_calls m)" using assms by (simp add: matcher_ok_def)
  then show ?thesis by (cases rule: match_call_cases [of m env rq]) auto
qed

section \<open>A sequence of matches\<close>

lemma match_all_ok:
  assumes "matcher_ok m"
  shows "matcher_ok (snd (match_all env m rqs))
    \<and> m_calls (snd (match_all env m rqs)) = m_calls m
    \<and> missed (m_report (snd (match_all env m rqs))) - missed (m_report m)
        = int (length (filter (\<lambda>r. r = None) (fst (match_all env m rqs))))
    \<and> unconsumed (m_report m) - unconsumed (m_report (snd (match_all env m rqs)))
        = int (length (filter (\<lambda>r. r \<noteq> None) (fst (match_all env m rqs))))"
  using assms
proof (induction rqs arbitrary: m)
  case (Cons rq rqs)
  note a = match_call_ok [OF Cons.prems, of env rq]
  note b = Cons.IH [of "snd (match_call env m rq)"]
  show ?case using a b by (auto simp: Let_def case_prod_beta split: if_splits)
qed simp

lemma new_matcher_ok:
  "new_matcher env calls config (new_report can) = Inr m \<Longrightarrow>
   matcher_ok m \<and> m_calls m = calls \<and> missed (m_report m) = 0
   \<and> unconsumed (m_report m) = int (length calls)"
  by (auto simp: new_matcher_def bind_res_eq_Inr matcher_ok_def new_report_def unconsumed_def)

text \<open>
  The replay report adds up: after any sequence of requests to a new matcher, the calls reported
  unconsumed are exactly the recorded calls minus the requests answered, never below zero, and
  misses are exactly the requests not answered; no recorded call is handed out twice.
\<close>

theorem replay_report_adds_up:
  assumes "new_matcher env calls config (new_report can) = Inr m"
  shows "let (rs, m') = match_all env m rqs in
    unconsumed (m_report m') = int (length calls) - int (length (filter (\<lambda>r. r \<noteq> None) rs))
    \<and> 0 \<le> unconsumed (m_report m')
    \<and> missed (m_report m') = int (length (filter (\<lambda>r. r = None) rs))
    \<and> unconsumed (m_report m') = int (remaining_calls m')"
proof -
  note n = new_matcher_ok [OF assms]
  note r = match_all_ok [OF n [THEN conjunct1], of env rqs]
  let ?m = "snd (match_all env m rqs)"
  have "length (filter (\<lambda>b. b) (consumed ?m)) + remaining_calls ?m = length (consumed ?m)"
    unfolding remaining_calls_def by (rule sum_length_filter_compl)
  then have "unconsumed (m_report ?m) = int (remaining_calls ?m)"
    using r by (simp add: matcher_ok_def unconsumed_def)
  then show ?thesis using n r by (auto simp: case_prod_beta)
qed

text \<open>The request a replay makes where the recorded run made this call.\<close>

definition request_of :: "py_env \<Rightarrow> model_call_event \<Rightarrow> request" where
  "request_of env c = build_request env (mc_model_id c) (mc_messages c) (mc_tools c)"

definition hashed :: "py_env \<Rightarrow> model_call_event \<Rightarrow> bool" where
  "hashed env c \<longleftrightarrow> messages_hash c = hash_messages env (mc_messages c)"

lemma PREDICATES_request_of: "hashed env c \<Longrightarrow> PREDICATES env n = Some p \<Longrightarrow> p c (request_of env c)"
  by (auto simp: PREDICATES_def request_of_def build_request_def hashed_def split: if_splits)

lemma map_res_predicates:
  "map_res (\<lambda>n. case PREDICATES env n of Some p \<Rightarrow> Inr p | None \<Rightarrow> Inl KeyError) ns = Inr ps \<Longrightarrow>
   p \<in> set ps \<Longrightarrow> \<exists>n. PREDICATES env n = Some p"
  by (induction ns arbitrary: ps) (fastforce simp: bind_res_eq_Inr split: option.splits)+

lemma accepts_own_request:
  assumes "new_matcher env calls config report = Inr m" "hashed env c" "m_predicates m' = m_predicates m"
  shows "accepts m' (request_of env c) c"
proof -
  have "\<exists>n. PREDICATES env n = Some p" if "p \<in> set (m_predicates m)" for p
    using assms(1) that map_res_predicates by (auto simp: new_matcher_def bind_res_eq_Inr)
  then show ?thesis
    using PREDICATES_request_of [OF assms(2)] assms(3) by (fastforce simp: accepts_def list_all_iff)
qed

lemma match_in_order:
  assumes "length (consumed m) = length (m_calls m)" "k < length (m_calls m)"
    and "\<forall>j < length (m_calls m). consumed m ! j \<longleftrightarrow> j < k" "accepts m rq (m_calls m ! k)"
  shows "fst (match_call env m rq) = Some (m_calls m ! k)"
    "consumed (snd (match_call env m rq)) = (consumed m)[k := True]"
    "missed (m_report (snd (match_call env m rq))) = missed (m_report m)"
    "m_predicates (snd (match_call env m rq)) = m_predicates m"
    "m_calls (snd (match_call env m rq)) = m_calls m"
proof -
  have "fst (match_call env m rq) = Some (m_calls m ! k)
    \<and> consumed (snd (match_call env m rq)) = (consumed m)[k := True]
    \<and> missed (m_report (snd (match_call env m rq))) = missed (m_report m)
    \<and> m_predicates (snd (match_call env m rq)) = m_predicates m
    \<and> m_calls (snd (match_call env m rq)) = m_calls m"
    using assms(1)
  proof (cases rule: match_call_cases [of m env rq])
    case (hit k')
    have "\<not> k' < k" using hit(2,3) assms(3) by simp
    moreover have "\<not> k < k'" using hit(5) assms(2-4) less_irrefl by blast
    ultimately have "k' = k" by simp
    then show ?thesis using hit(1) by simp
  next
    case miss
    then show ?thesis using assms(2-4) by auto
  qed
  then show "fst (match_call env m rq) = Some (m_calls m ! k)"
    "consumed (snd (match_call env m rq)) = (consumed m)[k := True]"
    "missed (m_report (snd (match_call env m rq))) = missed (m_report m)"
    "m_predicates (snd (match_call env m rq)) = m_predicates m"
    "m_calls (snd (match_call env m rq)) = m_calls m" by auto
qed

lemma match_all_in_order:
  assumes "new_matcher env calls config report = Inr m0" "list_all (hashed env) calls"
  shows "m_calls m = calls \<Longrightarrow> length (consumed m) = length calls \<Longrightarrow> m_predicates m = m_predicates m0 \<Longrightarrow>
    k \<le> length calls \<Longrightarrow> \<forall>j < length calls. consumed m ! j \<longleftrightarrow> j < k \<Longrightarrow>
    fst (match_all env m (map (request_of env) (drop k calls))) = map Some (drop k calls)
    \<and> missed (m_report (snd (match_all env m (map (request_of env) (drop k calls))))) = missed (m_report m)"
proof (induction "length calls - k" arbitrary: k m)
  case (Suc n)
  then have k: "k < length calls" by simp
  then have "accepts m (request_of env (calls ! k)) (m_calls m ! k)"
    using accepts_own_request [OF assms(1)] assms(2) Suc.prems(1,3) by (simp add: list_all_length)
  note o = match_in_order [of m k "request_of env (calls ! k)" env, unfolded Suc.prems(1),
      OF Suc.prems(2) k Suc.prems(5) this [unfolded Suc.prems(1)]]
  let ?m = "snd (match_call env m (request_of env (calls ! k)))"
  have "fst (match_all env ?m (map (request_of env) (drop (Suc k) calls))) = map Some (drop (Suc k) calls)
    \<and> missed (m_report (snd (match_all env ?m (map (request_of env) (drop (Suc k) calls))))) = missed (m_report ?m)"
    using Suc k o by (intro Suc.hyps(1)) (auto simp: nth_list_update)
  then show ?case
    using o k by (simp add: Cons_nth_drop_Suc [symmetric] Let_def case_prod_beta del: Cons_nth_drop_Suc)
qed simp

text \<open>
  C6. Replaying what was recorded finds what was recorded: under any valid choice of matchers, the
  requests of the recorded calls made again in order are answered by exactly those calls, with no
  miss and nothing left unconsumed.
\<close>

theorem replay_recorded_requests:
  assumes "new_matcher env calls config (new_report can) = Inr m" "list_all (hashed env) calls"
  shows "let (rs, m') = match_all env m (map (request_of env) calls) in
    rs = map Some calls \<and> missed (m_report m') = 0 \<and> unconsumed (m_report m') = 0"
proof -
  note n = new_matcher_ok [OF assms(1)]
  have "consumed m = replicate (length calls) False"
    using assms(1) by (auto simp: new_matcher_def bind_res_eq_Inr)
  then have "fst (match_all env m (map (request_of env) calls)) = map Some calls
    \<and> missed (m_report (snd (match_all env m (map (request_of env) calls)))) = missed (m_report m)"
    using match_all_in_order [OF assms, of m 0] n by simp
  moreover note match_all_ok [OF n [THEN conjunct1], of env "map (request_of env) calls"]
  ultimately show ?thesis using n by (auto simp: case_prod_beta)
qed

definition ex_matcher :: call_matcher where
  "ex_matcher = \<lparr>m_calls = [ex_call], consumed = [False],
     m_predicates = [\<lambda>c r. mc_model_id c = rq_model_id r, \<lambda>c r. messages_hash c = rq_messages_hash r],
     proves_identity = True, m_match_on = DEFAULT_MATCH_ON,
     m_report = (new_report True)\<lparr>recorded_calls := 1\<rparr>\<rparr>"

lemma ex_new_matcher: "new_matcher ex_env [ex_call] default_config (new_report True) = Inr ex_matcher"
  by (simp add: new_matcher_def default_config_def DEFAULT_MATCH_ON_def PREDICATES_def ex_matcher_def
      proves_request_identity_def)

theorem match_call_spec_witness:
  "matcher_ok ex_matcher \<and>
   (case match_call ex_env ex_matcher \<lparr>rq_model_id = ''acme-1'', rq_messages_hash = ''h'',
       rq_system_hash = [], rq_tool_names = None\<rparr> of
      (Some c, m') \<Rightarrow> c = ex_call \<and> consumed m' = [True] \<and> matched (m_report m') = 1 | (None, m') \<Rightarrow> False)"
proof -
  let ?rq = "\<lparr>rq_model_id = ''acme-1'', rq_messages_hash = ''h'', rq_system_hash = [], rq_tool_names = None\<rparr>"
  have ok: "matcher_ok ex_matcher" by (simp add: matcher_ok_def ex_matcher_def new_report_def)
  have "accepts ex_matcher ?rq ex_call" by (simp add: accepts_def ex_matcher_def ex_call_def)
  with ok match_call_spec [OF ok, where env = ex_env and rq = ?rq] show ?thesis
    by (auto simp: ex_matcher_def new_report_def split: prod.splits option.splits)
qed

theorem replay_report_adds_up_witness:
  "new_matcher ex_env [ex_call] default_config (new_report True) = Inr ex_matcher
   \<and> 0 \<le> unconsumed (m_report (snd (match_all ex_env ex_matcher [request_of ex_env ex_call, request_of ex_env ex_call])))"
  using ex_new_matcher
    replay_report_adds_up [OF ex_new_matcher, of "[request_of ex_env ex_call, request_of ex_env ex_call]"]
  by (auto simp: case_prod_beta)

theorem replay_recorded_requests_witness:
  "\<exists>c m. hashed ex_env c \<and> new_matcher ex_env [c] default_config (new_report True) = Inr m
    \<and> fst (match_all ex_env m (map (request_of ex_env) [c])) = [Some c]"
proof -
  define c where "c = ex_call\<lparr>messages_hash := hash_messages ex_env [ex_message]\<rparr>"
  have h: "hashed ex_env c" by (simp add: hashed_def c_def ex_call_def)
  obtain m where m: "new_matcher ex_env [c] default_config (new_report True) = Inr m"
    by (simp add: new_matcher_def default_config_def DEFAULT_MATCH_ON_def PREDICATES_def)
  show ?thesis using replay_recorded_requests [OF m] h m by (auto simp: case_prod_beta)
qed

end
