(* ===== verification/Redaction.thy ===== *)
theory Redaction
  imports Matching "HOL-Library.Sublist"
begin

text \<open>
  The redactor (\<open>src/tracewake/redaction.py\<close>): what it collects from the configuration and the
  environment, shell-style patterns (\<open>fnmatch.fnmatchcase\<close>), the scrubbing of texts, JSON values,
  messages, arguments, blobs and events, and the restoring of the home path. The lemmas show when a
  scrubbed text holds no secret and when scrubbing is idempotent, with a counterexample for the rest.

  Validation of a scrubbed event by pydantic is the argument \<open>validate\<close> of \<open>redact_event\<close>.
\<close>

section \<open>Patterns\<close>

text \<open>
  \<open>fnmatch.translate\<close>: a pattern as a list of items. A bracket without its closing bracket is a
  literal; a set is a negation flag with its chunks, split where a hyphen makes a range.
\<close>

datatype glob_item = Star | AnyChar | OneOf bool "string list list" | Literal string | Never

text \<open>The text of a set and the rest of the pattern, given the pattern after the opening bracket.\<close>

fun until_close :: "string list \<Rightarrow> (string list \<times> string list) option" where
  "until_close [] = None"
| "until_close (c # cs) =
     (if c = '']'' then Some ([], cs)
      else map_option (\<lambda>(s, r). (c # s, r)) (until_close cs))"

definition set_text :: "string list \<Rightarrow> (string list \<times> string list) option" where
  "set_text cs =
     (let bang = (case cs of c # _ \<Rightarrow> c = ''!'' | [] \<Rightarrow> False);
          rest = (if bang then tl cs else cs);
          close = (case rest of c # _ \<Rightarrow> c = '']'' | [] \<Rightarrow> False);
          body = (if close then tl rest else rest)
      in map_option (\<lambda>(s, r). ((if bang then [''!''] else []) @ (if close then ['']''] else []) @ s, r))
           (until_close body))"

text \<open>
  The chunks of a set: the text is cut at each hyphen that is neither first, nor last, nor directly
  after the end of another range. The argument \<open>skip\<close> counts the characters that cannot be a cut.
\<close>

fun chunks_of :: "nat \<Rightarrow> string list \<Rightarrow> string list \<Rightarrow> string list list" where
  "chunks_of skip acc [] = [acc]"
| "chunks_of skip acc (c # cs) =
     (if skip = 0 \<and> c = ''-'' then acc # chunks_of 2 [] cs
      else chunks_of (skip - 1) (acc @ [c]) cs)"

text \<open>A cut at the end leaves an empty last chunk: its hyphen is a member.\<close>

definition close_chunks :: "string list list \<Rightarrow> string list list" where
  "close_chunks ch =
     (if length ch > 1 \<and> last ch = [] then butlast (butlast ch) @ [last (butlast ch) @ [''-'']] else ch)"

text \<open>The order of two characters, that of their UTF-8 bytes.\<close>

definition char_le :: "string \<Rightarrow> string \<Rightarrow> bool" where
  "char_le a b \<longleftrightarrow> a \<le> b"

text \<open>Ranges whose ends are the wrong way round are removed, from the last to the first.\<close>

fun drop_empty_ranges :: "string list list \<Rightarrow> string list list" where
  "drop_empty_ranges [] = []"
| "drop_empty_ranges (a # rest) =
     (case drop_empty_ranges rest of
        [] \<Rightarrow> [a]
      | b # bs \<Rightarrow>
          if a \<noteq> [] \<and> b \<noteq> [] \<and> \<not> char_le (last a) (hd b) then (butlast a @ tl b) # bs else a # b # bs)"

fun in_chunks :: "string list list \<Rightarrow> string \<Rightarrow> bool" where
  "in_chunks [] c = False"
| "in_chunks [a] c = (c \<in> set a)"
| "in_chunks (a # b # bs) c =
     (c \<in> set a \<or> (a \<noteq> [] \<and> b \<noteq> [] \<and> char_le (last a) c \<and> char_le c (hd b)) \<or> in_chunks (b # bs) c)"

definition set_item :: "string list \<Rightarrow> glob_item" where
  "set_item s =
     (let negated = (case s of c # _ \<Rightarrow> c = ''!'' | [] \<Rightarrow> False);
          chunks = (if ''-'' \<in> set s
                    then drop_empty_ranges (close_chunks (chunks_of (if negated then 2 else 1) [] s))
                    else [s])
      in case chunks of
           [[]] \<Rightarrow> Never
         | [[c]] \<Rightarrow> if c = ''!'' then AnyChar else OneOf False chunks
         | (c # cs) # rest \<Rightarrow> if c = ''!'' then OneOf True (cs # rest) else OneOf False chunks
         | _ \<Rightarrow> OneOf False chunks)"

function translate :: "string list \<Rightarrow> glob_item list" where
  "translate pat =
     (case pat of
        [] \<Rightarrow> []
      | c # cs \<Rightarrow>
          if c = ''*'' then Star # translate cs
          else if c = ''?'' then AnyChar # translate cs
          else if c = ''['' then
            (case set_text cs of
               None \<Rightarrow> Literal ''['' # translate cs
             | Some (s, r) \<Rightarrow> if length r < length pat then set_item s # translate r else [])
          else Literal c # translate cs)"
  by pat_completeness auto
termination
  by (relation "measure length") auto

declare translate.simps [simp del]

fun item_matches :: "glob_item \<Rightarrow> string \<Rightarrow> bool" where
  "item_matches AnyChar c = True"
| "item_matches (OneOf negated chunks) c = (in_chunks chunks c \<noteq> negated)"
| "item_matches (Literal d) c = (c = d)"
| "item_matches _ c = False"

fun glob :: "glob_item list \<Rightarrow> string list \<Rightarrow> bool" where
  "glob [] cs = (cs = [])"
| "glob (Star # ps) [] = glob ps []"
| "glob (Star # ps) (c # cs) = (glob ps (c # cs) \<or> glob (Star # ps) cs)"
| "glob (p # ps) [] = False"
| "glob (p # ps) (c # cs) = (item_matches p c \<and> glob ps cs)"

definition fnmatchcase :: "string \<Rightarrow> string \<Rightarrow> bool" where
  "fnmatchcase name pat = glob (translate (utf8_chars pat)) (utf8_chars name)"

section \<open>The redactor\<close>

definition REDACTED :: string where
  "REDACTED = ''[REDACTED]''"

definition HOME_PLACEHOLDER :: string where
  "HOME_PLACEHOLDER = ''<HOME>''"

definition MIN_SECRET_LENGTH :: nat where
  "MIN_SECRET_LENGTH = 8"

record redactor =
  enabled :: bool
  r_before_record :: "(any_event \<Rightarrow> any_event option) option"
  header_globs :: "string list"
  env_globs :: "string list"
  r_values :: "string list"
  r_paths :: "(string \<times> string) list"

text \<open>The part of the machine the redactor reads: \<open>os.environ\<close> and the home directory.\<close>

record machine =
  environ :: "(string \<times> string) list"
  home :: string

definition secret_env_name :: "string list \<Rightarrow> string option \<Rightarrow> bool" where
  "secret_env_name globs name =
     (case name of None \<Rightarrow> False | Some n \<Rightarrow> \<exists>g \<in> set globs. fnmatchcase (upper_str n) g)"

definition collect_values :: "config \<Rightarrow> string list \<Rightarrow> machine \<Rightarrow> string list" where
  "collect_values config globs mach =
     (let found =
        filter (\<lambda>v. str_len v \<ge> MIN_SECRET_LENGTH) (filter_values config)
        @ map snd (filter (\<lambda>(n, v). secret_env_name globs (Some n) \<and> str_len v \<ge> MIN_SECRET_LENGTH)
                     (environ mach))
      in rev (sort_key str_len (rev (remdups found))))"

definition collect_paths :: "machine \<Rightarrow> (string \<times> string) list" where
  "collect_paths mach =
     (if home mach = [] \<or> home mach = ''/'' then [] else [(home mach, HOME_PLACEHOLDER)])"

definition new_redactor :: "config \<Rightarrow> machine \<Rightarrow> redactor" where
  "new_redactor config mach =
     (let globs = map upper_str (filter_env config)
      in \<lparr>enabled = redact config, r_before_record = before_record config,
          header_globs = map lower_str (filter_headers config), env_globs = globs,
          r_values = collect_values config globs mach,
          r_paths = (if filter_paths config then collect_paths mach else [])\<rparr>)"

definition is_secret_env :: "redactor \<Rightarrow> string option \<Rightarrow> bool" where
  "is_secret_env r name = secret_env_name (env_globs r) name"

definition is_filtered_key :: "redactor \<Rightarrow> string \<Rightarrow> bool" where
  "is_filtered_key r key \<longleftrightarrow> (\<exists>g \<in> set (header_globs r). fnmatchcase (lower_str key) g)"

text \<open>\<open>if old in value: value = value.replace(old, new)\<close>, for each pair in turn.\<close>

fun replace_each :: "(string \<times> string) list \<Rightarrow> string \<Rightarrow> string" where
  "replace_each [] value = value"
| "replace_each ((old, new) # rest) value =
     replace_each rest (if in_str old value then replace_str old new value else value)"

definition redact_text :: "redactor \<Rightarrow> string \<Rightarrow> string" where
  "redact_text r value =
     (if \<not> enabled r then value
      else replace_each (r_paths r) (replace_each (map (\<lambda>s. (s, REDACTED)) (r_values r)) value))"

definition restore_path :: "redactor \<Rightarrow> json \<Rightarrow> json" where
  "restore_path r value =
     (if \<not> enabled r then value
      else case value of
             JStr s \<Rightarrow> JStr (replace_each (map (\<lambda>(raw, placeholder). (placeholder, raw)) (r_paths r)) s)
           | _ \<Rightarrow> value)"

definition redact_blob :: "redactor \<Rightarrow> string \<Rightarrow> string" where
  "redact_blob r data =
     (if \<not> enabled r then data
      else case decode_utf8 data of Inl _ \<Rightarrow> data | Inr s \<Rightarrow> redact_text r s)"

text \<open>\<open>_walk\<close> on a value whose key, if any, is not filtered; a filtered key drops its value.\<close>

primrec walk :: "redactor \<Rightarrow> json \<Rightarrow> json" where
  "walk r JNull = JNull"
| "walk r (JBool b) = JBool b"
| "walk r (JInt n) = JInt n"
| "walk r (JFloat x) = JFloat x"
| "walk r (JStr s) = JStr (redact_text r s)"
| "walk r (JArr vs) = JArr (map (walk r) vs)"
| "walk r (JObj kvs) =
     JObj (map (\<lambda>(k, w). (k, if is_filtered_key r k then JStr REDACTED else w))
            (map (map_prod id (walk r)) kvs))"

fun str_role :: "string \<Rightarrow> role option" where
  "str_role s =
     (if s = ''system'' then Some RSystem else if s = ''user'' then Some RUser
      else if s = ''assistant'' then Some RAssistant else if s = ''tool'' then Some RTool else None)"

text \<open>\<open>Message.model_validate\<close> of a dumped message.\<close>

definition opt_str_field :: "jobject \<Rightarrow> string \<Rightarrow> string option res" where
  "opt_str_field kvs k =
     (case map_of kvs k of
        None \<Rightarrow> Inr None | Some JNull \<Rightarrow> Inr None | Some (JStr s) \<Rightarrow> Inr (Some s)
      | _ \<Rightarrow> Inl ValidationError)"

definition validate_message :: "json \<Rightarrow> message res" where
  "validate_message v =
     (case v of
        JObj kvs \<Rightarrow>
          (case (map_of kvs ''role'', map_of kvs ''content'') of
             (Some (JStr r), Some (JStr c)) \<Rightarrow>
               (case str_role r of
                  None \<Rightarrow> Inl ValidationError
                | Some rl \<Rightarrow>
                    bind_res (opt_str_field kvs ''tool_call_id'') (\<lambda>t.
                    bind_res (opt_str_field kvs ''provenance'') (\<lambda>p.
                      Inr \<lparr>role = rl, msg_content = c, msg_tool_call_id = t, provenance = p\<rparr>)))
           | _ \<Rightarrow> Inl ValidationError)
      | _ \<Rightarrow> Inl ValidationError)"

definition redact_messages :: "redactor \<Rightarrow> message list \<Rightarrow> message list res" where
  "redact_messages r ms =
     (if \<not> enabled r then Inr ms
      else map_res (\<lambda>m. validate_message (walk r (dump_message m))) ms)"

definition redact_args :: "redactor \<Rightarrow> jobject \<Rightarrow> jobject" where
  "redact_args r args =
     (if \<not> enabled r then args else case walk r (JObj args) of JObj kvs \<Rightarrow> kvs | _ \<Rightarrow> args)"

definition dump_meta :: "event_meta \<Rightarrow> json" where
  "dump_meta m =
     JObj [(''recorded_at'', JFloat (recorded_at m)), (''duration_ms'', jopt JFloat (duration_ms m)),
           (''chunk_offsets_ms'', jopt (\<lambda>xs. JArr (map JFloat xs)) (chunk_offsets_ms m))]"

text \<open>An environment event of a secret variable loses its value before the walk.\<close>

definition hide_secret_env :: "redactor \<Rightarrow> any_event \<Rightarrow> any_event" where
  "hide_secret_env r e =
     (case e of
        Environment v \<Rightarrow>
          if ee_source v = SEnv \<and> is_secret_env r (ee_key v)
          then Environment (v\<lparr>ee_value := JStr REDACTED\<rparr>) else e
      | _ \<Rightarrow> e)"

definition redact_data :: "redactor \<Rightarrow> any_event \<Rightarrow> jobject" where
  "redact_data r e =
     (case walk r (dump_event (hide_secret_env r e)) of JObj kvs \<Rightarrow> kvs | _ \<Rightarrow> [])
     @ [(''meta'', dump_meta (meta_of e))]"

definition redact_event :: "(jobject \<Rightarrow> any_event res) \<Rightarrow> redactor \<Rightarrow> any_event \<Rightarrow> any_event option res" where
  "redact_event validate r e =
     bind_res (if enabled r then validate (redact_data r e) else Inr e) (\<lambda>e'.
       Inr (case r_before_record r of Some f \<Rightarrow> f e' | None \<Rightarrow> Some e'))"

section \<open>Replacement\<close>

lemma starts_with_prefix: "starts_with p s \<longleftrightarrow> prefix p s"
  by (induction p s rule: starts_with.induct) auto

lemma in_str_sublist: "in_str t s \<longleftrightarrow> sublist t s"
  by (induction t s rule: in_str.induct) (auto simp: starts_with_prefix sublist_Cons_right)

text \<open>A text that avoids a character cannot span it.\<close>

lemma in_str_split:
  assumes "t \<noteq> []" "b \<notin> set t"
  shows "in_str t (x @ b # y) \<longleftrightarrow> in_str t x \<or> in_str t y"
proof -
  have "sublist t x" if "t = t1 @ t2" "suffix t1 x" "prefix t2 (b # y)" for t1 t2
    using that assms(2) by (cases t2) (auto intro: suffix_imp_sublist)
  moreover have "\<not> prefix t (b # y)" using assms by (cases t) auto
  ultimately show ?thesis
    unfolding in_str_sublist sublist_append sublist_Cons_right by blast
qed

text \<open>
  The placeholders begin and end with a character no ordinary secret has, so an occurrence in the
  result of a replacement was there before.
\<close>

lemma in_str_suffix: "in_str t u \<Longrightarrow> in_str t (u @ v)" "in_str t (drop n v) \<Longrightarrow> in_str t (u @ v)"
proof -
  show "in_str t u \<Longrightarrow> in_str t (u @ v)" unfolding in_str_sublist by (simp add: sublist_append)
  assume "in_str t (drop n v)"
  then obtain p s where "drop n v = p @ t @ s" by (auto simp: in_str_sublist sublist_def)
  then have "u @ v = (u @ take n v @ p) @ t @ s" by (metis append_assoc append_take_drop_id)
  then show "in_str t (u @ v)" unfolding in_str_sublist sublist_def by blast
qed

lemma in_replace_other:
  assumes "t \<noteq> []" "a \<notin> set t" "b \<notin> set t" "\<not> in_str t mid"
  shows "in_str t (u @ replace_str old (a # mid @ [b]) v) \<Longrightarrow> in_str t (u @ v)"
proof (induction "length v" arbitrary: u v rule: less_induct)
  case less
  show ?case
  proof (cases v)
    case Nil
    then show ?thesis using less.prems by simp
  next
    case (Cons c cs)
    show ?thesis
    proof (cases "old \<noteq> [] \<and> starts_with old v")
      case True
      let ?r = "replace_str old (a # mid @ [b]) (drop (length old) v)"
      have "in_str t (u @ a # mid @ b # ?r)" using less.prems True Cons by simp
      then have "in_str t u \<or> in_str t ([] @ ?r)"
        using assms by (simp add: in_str_split)
      moreover have "in_str t ([] @ ?r) \<Longrightarrow> in_str t ([] @ drop (length old) v)"
        using True Cons by (intro less.hyps [of "drop (length old) v" "[]"]) auto
      ultimately have "in_str t u \<or> in_str t (drop (length old) v)" by auto
      then show ?thesis using in_str_suffix [of t] by blast
    next
      case False
      then have "in_str t ((u @ [c]) @ replace_str old (a # mid @ [b]) cs)"
        using less.prems Cons by auto
      then have "in_str t ((u @ [c]) @ cs)" using Cons by (intro less.hyps [of cs "u @ [c]"]) simp_all
      then show ?thesis using Cons by simp
    qed
  qed
qed

definition starts_at :: "string \<Rightarrow> string \<Rightarrow> nat \<Rightarrow> bool" where
  "starts_at t s i \<longleftrightarrow> starts_with t (drop i s)"

lemma in_str_starts_at: "in_str t s \<longleftrightarrow> (\<exists>i \<le> length s. starts_at t s i)"
proof (induction t s rule: in_str.induct)
  case (2 t c cs)
  have "(\<exists>i \<le> length (c # cs). starts_at t (c # cs) i) \<longleftrightarrow>
      starts_at t (c # cs) 0 \<or> (\<exists>i \<le> length cs. starts_at t cs i)"
    unfolding starts_at_def by (metis drop0 drop_Suc_Cons le0 length_Cons not0_implies_Suc not_less_eq_eq)
  then show ?case using 2 by (simp add: starts_at_def)
qed (auto simp: starts_at_def starts_with_prefix)

lemma not_in_replace_self:
  assumes "old \<noteq> []" "a \<notin> set old" "b \<notin> set old" "\<not> in_str old mid"
  shows "\<forall>i < length u. \<not> starts_at old (u @ v) i \<Longrightarrow>
    \<not> in_str old (u @ replace_str old (a # mid @ [b]) v)"
proof (induction "length v" arbitrary: u v rule: less_induct)
  case less
  have none: "\<not> in_str old u"
  proof
    assume "in_str old u"
    then obtain i where i: "i \<le> length u" "starts_at old u i" by (auto simp: in_str_starts_at)
    then have "i < length u" using assms(1) by (cases "i = length u") (auto simp: starts_at_def starts_with_prefix)
    moreover have "starts_at old (u @ v) i" using i by (auto simp: starts_at_def starts_with_prefix)
    ultimately show False using less.prems by blast
  qed
  show ?case
  proof (cases v)
    case Nil
    then show ?thesis using none by simp
  next
    case (Cons c cs)
    show ?thesis
    proof (cases "starts_with old v")
      case True
      let ?r = "replace_str old (a # mid @ [b]) (drop (length old) v)"
      have "\<not> in_str old ([] @ ?r)" using assms(1) Cons by (intro less.hyps) (auto simp: neq_Nil_conv)
      then show ?thesis using none assms True Cons by (simp add: in_str_split)
    next
      case False
      have "\<not> in_str old ((u @ [c]) @ replace_str old (a # mid @ [b]) cs)"
      proof (rule less.hyps)
        show "\<forall>i < length (u @ [c]). \<not> starts_at old ((u @ [c]) @ cs) i"
          using less.prems False Cons by (auto simp: less_Suc_eq starts_at_def)
      qed (simp add: Cons)
      then show ?thesis using False Cons by simp
    qed
  qed
qed

section \<open>Scrubbed texts\<close>

text \<open>
  A value the placeholders cannot interfere with: it is not empty, has none of their brackets and does
  not occur inside them.
\<close>

definition plain :: "string \<Rightarrow> bool" where
  "plain t \<longleftrightarrow> t \<noteq> [] \<and> set t \<inter> set ''[]<>'' = {} \<and> \<not> in_str t ''REDACTED'' \<and> \<not> in_str t ''HOME''"

definition plain_redactor :: "redactor \<Rightarrow> bool" where
  "plain_redactor r \<longleftrightarrow> (\<forall>s \<in> set (r_values r). plain s)
     \<and> (\<forall>(raw, ph) \<in> set (r_paths r). plain raw \<and> ph = HOME_PLACEHOLDER)"

definition plain_pairs :: "(string \<times> string) list \<Rightarrow> bool" where
  "plain_pairs ps \<longleftrightarrow> (\<forall>(old, new) \<in> set ps. plain old \<and> new \<in> {REDACTED, HOME_PLACEHOLDER})"

lemma placeholder_shape:
  assumes "new \<in> {REDACTED, HOME_PLACEHOLDER}" "plain t"
  obtains a mid b where "new = a # mid @ [b]" "a \<notin> set t" "b \<notin> set t" "\<not> in_str t mid"
proof -
  have "REDACTED = CHR ''['' # ''REDACTED'' @ [CHR '']'']" "HOME_PLACEHOLDER = CHR ''<'' # ''HOME'' @ [CHR ''>'']"
    by (simp_all add: REDACTED_def HOME_PLACEHOLDER_def)
  then show thesis using assms that unfolding plain_def by (auto; blast)
qed

lemma replace_each_keeps_out:
  "plain t \<Longrightarrow> plain_pairs ps \<Longrightarrow> in_str t (replace_each ps v) \<Longrightarrow> in_str t v"
proof (induction ps v rule: replace_each.induct)
  case (2 old new ps v)
  then obtain a mid b where n: "new = a # mid @ [b]" "a \<notin> set t" "b \<notin> set t" "\<not> in_str t mid"
    using placeholder_shape [of new t] by (auto simp: plain_pairs_def)
  have "in_str t (if in_str old v then replace_str old new v else v)"
    using 2 by (simp add: plain_pairs_def)
  then show ?case
    using in_replace_other [of t a b mid "[]" old v] n 2(2) by (auto simp: plain_def split: if_splits)
qed simp

lemma replace_each_removes:
  "plain_pairs ps \<Longrightarrow> (old, new) \<in> set ps \<Longrightarrow> \<not> in_str old (replace_each ps v)"
proof (induction ps v rule: replace_each.induct)
  case (2 old' new' ps v)
  let ?v = "if in_str old' v then replace_str old' new' v else v"
  show ?case
  proof (cases "(old, new) = (old', new')")
    case True
    then have p: "plain old" "new \<in> {REDACTED, HOME_PLACEHOLDER}" using 2(2) by (auto simp: plain_pairs_def)
    then obtain a mid b where n: "new = a # mid @ [b]" "a \<notin> set old" "b \<notin> set old" "\<not> in_str old mid"
      using placeholder_shape [of new old] by blast
    then have "\<not> in_str old ?v"
      using not_in_replace_self [of old a b mid "[]" v] p True by (auto simp: plain_def)
    then show ?thesis
      using replace_each_keeps_out [OF p(1), of ps ?v] 2(2) by (auto simp: plain_pairs_def)
  next
    case False
    then show ?thesis using 2 by (auto simp: plain_pairs_def)
  qed
qed simp

lemma replace_each_id: "\<forall>(old, new) \<in> set ps. \<not> in_str old v \<Longrightarrow> replace_each ps v = v"
  by (induction ps v rule: replace_each.induct) auto

lemma plain_redactor_pairs:
  assumes "plain_redactor r"
  shows "plain_pairs (map (\<lambda>s. (s, REDACTED)) (r_values r) @ r_paths r)"
  using assms by (auto simp: plain_redactor_def plain_pairs_def)

lemma replace_each_append: "replace_each (ps @ qs) v = replace_each qs (replace_each ps v)"
  by (induction ps v rule: replace_each.induct) auto

lemma redact_text_alt:
  "redact_text r v = (if enabled r
     then replace_each (map (\<lambda>s. (s, REDACTED)) (r_values r) @ r_paths r) v else v)"
  by (simp add: redact_text_def replace_each_append)

lemma redact_text_idem:
  assumes "plain_redactor r" shows "redact_text r (redact_text r v) = redact_text r v"
  using replace_each_removes [OF plain_redactor_pairs [OF assms]]
  by (auto simp: redact_text_alt intro!: replace_each_id)

text \<open>
  C9. Nothing secret reaches the disk: for secrets and a home path that have none of the placeholders'
  brackets and do not occur inside a placeholder, a scrubbed text contains no collected secret value
  and no home path, whatever the text.
\<close>

theorem redact_text_scrubs:
  assumes "plain_redactor r" "enabled r"
  shows "(\<forall>s \<in> set (r_values r). \<not> in_str s (redact_text r v))
    \<and> (\<forall>(raw, ph) \<in> set (r_paths r). \<not> in_str raw (redact_text r v))"
  using replace_each_removes [OF plain_redactor_pairs [OF assms(1)]] assms(2)
  by (fastforce simp: redact_text_alt)

definition ex_redactor :: redactor where
  "ex_redactor = \<lparr>enabled = True, r_before_record = None, header_globs = [], env_globs = [],
     r_values = [''sk-12345678''], r_paths = [(''/home/me'', HOME_PLACEHOLDER)]\<rparr>"

lemma ex_plain: "plain_redactor ex_redactor"
  by (simp add: plain_redactor_def ex_redactor_def plain_def)

theorem redact_text_scrubs_witness:
  "redact_text ex_redactor ''key sk-12345678 in /home/me'' = ''key [REDACTED] in <HOME>''
   \<and> \<not> in_str ''sk-12345678'' (redact_text ex_redactor ''key sk-12345678 in /home/me'')"
  using redact_text_scrubs [OF ex_plain, of "''key sk-12345678 in /home/me''"]
  by (simp add: ex_redactor_def redact_text_def REDACTED_def HOME_PLACEHOLDER_def)

section \<open>Idempotence\<close>

lemma walk_idem:
  assumes "plain_redactor r" shows "walk r (walk r v) = walk r v"
proof (induction v rule: json_obj_induct)
  case (Obj kvs)
  then show ?case by (auto simp: comp_def)
qed (auto simp: redact_text_idem [OF assms])

lemma str_role_role_str: "str_role s = Some rl \<Longrightarrow> s = role_str rl"
  by (auto split: if_splits)

lemma walk_dump_message:
  "\<exists>a b c d. walk r (dump_message m) = JObj [(''role'', JStr a), (''content'', JStr b),
     (''tool_call_id'', jopt JStr c), (''provenance'', jopt JStr d)]"
proof -
  have "\<exists>y. (if f then JStr REDACTED else walk r (jopt JStr x)) = jopt JStr y" for f x
    by (cases x) (auto simp: jopt_def split: option.split intro: exI [of _ "Some _"] exI [of _ None])
  moreover have "\<exists>y. (if f then JStr REDACTED else walk r (JStr x)) = JStr y" for f x by simp
  ultimately show ?thesis by (simp add: dump_message_def)
qed

lemma validate_message_dump:
  assumes "validate_message (JObj [(''role'', JStr a), (''content'', JStr b),
     (''tool_call_id'', jopt JStr c), (''provenance'', jopt JStr d)]) = Inr m"
  shows "dump_message m = JObj [(''role'', JStr a), (''content'', JStr b),
     (''tool_call_id'', jopt JStr c), (''provenance'', jopt JStr d)]"
proof -
  have "opt_str_field [(''role'', JStr a), (''content'', JStr b),
     (''tool_call_id'', jopt JStr c), (''provenance'', jopt JStr d)] k = Inr x"
    if "k = ''tool_call_id'' \<and> x = c \<or> k = ''provenance'' \<and> x = d" for k x
    using that by (auto simp: opt_str_field_def jopt_def split: option.split)
  then show ?thesis
    using assms by (auto simp: validate_message_def dump_message_def simp del: str_role.simps
        dest!: str_role_role_str split: option.splits)
qed

lemma redact_message_dump:
  assumes "validate_message (walk r (dump_message m)) = Inr m'"
  shows "dump_message m' = walk r (dump_message m)"
  using walk_dump_message [of r m] validate_message_dump assms by force

lemma redact_messages_idem:
  assumes "plain_redactor r" "redact_messages r ms = Inr ms'"
  shows "redact_messages r ms' = Inr ms'"
proof (cases "enabled r")
  case True
  let ?f = "\<lambda>m. validate_message (walk r (dump_message m))"
  have m: "map_res ?f ms = Inr ms'" using assms(2) True by (simp add: redact_messages_def)
  have "?f m' = Inr m'" if "m' \<in> set ms'" for m'
  proof -
    from that obtain i where "i < length ms'" "m' = ms' ! i" by (auto simp: in_set_conv_nth)
    then have "?f (ms ! i) = Inr m'"
      using map_res_eq_Inr_nth [OF m, of i] map_res_eq_Inr_length [OF m] by simp
    then show ?thesis using redact_message_dump walk_idem [OF assms(1)] by metis
  qed
  then have "map_res ?f ms' = Inr (map (\<lambda>m. m) ms')" by (intro map_res_Inr)
  then show ?thesis using True by (simp add: redact_messages_def)
qed (use assms(2) in \<open>simp add: redact_messages_def\<close>)

text \<open>
  Scrubbing is safe on both sides of a replay: for such secrets it is idempotent on texts and JSON
  values, and messages scrubbed once are left unchanged by scrubbing them again, so the hash taken
  when recording is the hash a replay takes of the same messages or of their stored form.
\<close>

theorem redaction_idempotent:
  assumes "plain_redactor r"
  shows "(\<forall>t. redact_text r (redact_text r t) = redact_text r t)
    \<and> (\<forall>v. walk r (walk r v) = walk r v)
    \<and> (\<forall>ms ms'. redact_messages r ms = Inr ms' \<longrightarrow> redact_messages r ms' = Inr ms')"
  using redact_text_idem [OF assms] walk_idem [OF assms] redact_messages_idem [OF assms] by blast

theorem redaction_idempotent_witness:
  "redact_text ex_redactor (redact_text ex_redactor ''sk-12345678'') = redact_text ex_redactor ''sk-12345678''"
  using redaction_idempotent [OF ex_plain] by blast

text \<open>
  Without that condition a secret that is a placeholder's own text, long
  enough to be collected, survives scrubbing, and every pass wraps it once more.
\<close>

theorem redaction_not_idempotent:
  "\<exists>r. enabled r \<and> str_len (hd (r_values r)) \<ge> MIN_SECRET_LENGTH
     \<and> in_str (hd (r_values r)) (redact_text r ''REDACTED'')
     \<and> redact_text r (redact_text r ''REDACTED'') \<noteq> redact_text r ''REDACTED''"
proof -
  let ?r = "ex_redactor\<lparr>r_values := [''REDACTED'']\<rparr>"
  have "redact_text ?r ''REDACTED'' = ''[REDACTED]''" "redact_text ?r ''[REDACTED]'' = ''[[REDACTED]]''"
    by (simp_all add: ex_redactor_def redact_text_def REDACTED_def)
  moreover have "in_str ''REDACTED'' ''[REDACTED]''" by code_simp
  moreover have "str_len ''REDACTED'' = 8" by (simp add: str_len_def is_cont_def byte_val_def)
  ultimately show ?thesis
    by (intro exI [of _ ?r]) (simp add: ex_redactor_def MIN_SECRET_LENGTH_def)
qed

end
