(* ===== verification/Store.thy ===== *)
theory Store
  imports Events
begin

text \<open>
  The store (\<open>src/tracewake/store.py\<close>): the blob directory as a map from digests to bytes, the two
  SQLite tables as lists of rows in insertion order with their key constraints, and the operations of
  \<open>BlobStore\<close> and \<open>Store\<close>. Two locales state what the rest of the system relies on, a content store
  and an append-only log per run, and are interpreted on these definitions.

  A statement runs in a transaction, so an operation that raises leaves the tables as they were. The
  columns \<open>models_json\<close> and \<open>command_json\<close> hold the lists they encode. Reading an event back
  (\<open>json.loads\<close> and pydantic's validation) is the field \<open>load_event\<close> of \<open>event_codec\<close>, and
  \<open>model_dump_json\<close> of the metadata is its field \<open>meta_text\<close>.
\<close>

section \<open>State\<close>

record event_codec =
  meta_text :: "event_meta \<Rightarrow> string"
  load_event :: "string \<Rightarrow> string \<Rightarrow> any_event res"

record event_row =
  er_run_id :: string
  er_seq :: int
  er_type :: string
  er_call_id :: "string option"
  er_parent_call_id :: "string option"
  er_tool_call_id :: "string option"
  er_batch_index :: "int option"
  er_model_id :: "string option"
  er_messages_hash :: "string option"
  er_canonical_json :: string
  er_meta_json :: string

record store =
  blobs :: "string \<rightharpoonup> string"
  run_rows :: "run_header list"
  event_rows :: "event_row list"

definition empty_store :: store where
  "empty_store = \<lparr>blobs = Map.empty, run_rows = [], event_rows = []\<rparr>"

section \<open>Blobs\<close>

text \<open>\<open>_path\<close>: a digest that is not 64 lowercase hexadecimal digits is refused.\<close>

definition blob_path :: "string \<Rightarrow> string res" where
  "blob_path d =
     (if is_digest d then Inr (take 2 d @ ''/'' @ take 2 (drop 2 d) @ ''/'' @ d) else Inl ValueError)"

definition put_blob :: "py_env \<Rightarrow> store \<Rightarrow> string \<Rightarrow> blob_ref res \<times> store" where
  "put_blob env s data =
     (let d = sha256_hex env data
      in case blob_path d of
           Inl e \<Rightarrow> (Inl e, s)
         | Inr _ \<Rightarrow>
             (Inr \<lparr>digest = d, blob_size = int (length data)\<rparr>,
              if blobs s d = None then s\<lparr>blobs := (blobs s)(d \<mapsto> data)\<rparr> else s))"

definition get_blob :: "py_env \<Rightarrow> store \<Rightarrow> string \<Rightarrow> string res" where
  "get_blob env s d =
     bind_res (blob_path d) (\<lambda>_.
       case blobs s d of
         None \<Rightarrow> Inl KeyError
       | Some data \<Rightarrow> if sha256_hex env data \<noteq> d then Inl ValueError else Inr data)"

definition has_blob :: "store \<Rightarrow> string \<Rightarrow> bool res" where
  "has_blob s d = bind_res (blob_path d) (\<lambda>_. Inr (blobs s d \<noteq> None))"

section \<open>Runs\<close>

definition run_row :: "store \<Rightarrow> string \<Rightarrow> run_header option" where
  "run_row s rid = List.find (\<lambda>h. hdr_run_id h = rid) (run_rows s)"

definition create_run :: "store \<Rightarrow> run_header \<Rightarrow> unit res \<times> store" where
  "create_run s h =
     (if run_row s (hdr_run_id h) \<noteq> None then (Inl IntegrityError, s)
      else (Inr (), s\<lparr>run_rows := run_rows s @ [h]\<rparr>))"

definition drop_run :: "store \<Rightarrow> string \<Rightarrow> store" where
  "drop_run s rid =
     s\<lparr>event_rows := filter (\<lambda>e. er_run_id e \<noteq> rid) (event_rows s),
       run_rows := filter (\<lambda>h. hdr_run_id h \<noteq> rid) (run_rows s)\<rparr>"

definition finish_run ::
  "store \<Rightarrow> string \<Rightarrow> run_status \<Rightarrow> real \<Rightarrow> model_identity list option \<Rightarrow> store" where
  "finish_run s rid st finished models =
     s\<lparr>run_rows := map (\<lambda>h. if hdr_run_id h = rid
          then (case models of
                  Some ms \<Rightarrow> h\<lparr>hdr_status := st, finished_at := Some finished, hdr_models := ms\<rparr>
                | None \<Rightarrow> h\<lparr>hdr_status := st, finished_at := Some finished\<rparr>)
          else h) (run_rows s)\<rparr>"

text \<open>\<open>_header\<close>: a row of another schema version is refused.\<close>

definition read_header :: "run_header \<Rightarrow> run_header res" where
  "read_header row = (if schema_version row \<noteq> EVENT_SCHEMA_VERSION then Inl ValueError else Inr row)"

definition get_run :: "store \<Rightarrow> string \<Rightarrow> run_header res" where
  "get_run s rid = (case run_row s rid of None \<Rightarrow> Inl KeyError | Some row \<Rightarrow> read_header row)"

text \<open>\<open>ORDER BY started_at DESC, run_id DESC LIMIT 1\<close>.\<close>

definition newest :: "run_header list \<Rightarrow> run_header option" where
  "newest rows =
     (case rev (sort_key (\<lambda>h. (started_at h, hdr_run_id h)) rows) of [] \<Rightarrow> None | h # _ \<Rightarrow> Some h)"

definition latest_named :: "store \<Rightarrow> string \<Rightarrow> run_header option res" where
  "latest_named s name =
     (case newest (filter (\<lambda>h. hdr_name h = name) (run_rows s)) of
        None \<Rightarrow> Inr None
      | Some row \<Rightarrow> bind_res (read_header row) (\<lambda>h. Inr (Some h)))"

text \<open>\<open>substr(run_id, 1, n) = prefix\<close>, counting characters.\<close>

definition id_prefix :: "string \<Rightarrow> string \<Rightarrow> bool" where
  "id_prefix x rid \<longleftrightarrow> concat (take (str_len x) (utf8_chars rid)) = x"

definition find_run :: "store \<Rightarrow> string \<Rightarrow> run_header option res" where
  "find_run s x =
     (case run_row s x of
        Some row \<Rightarrow> bind_res (read_header row) (\<lambda>h. Inr (Some h))
      | None \<Rightarrow>
          bind_res (latest_named s x) (\<lambda>named.
            case named of
              Some h \<Rightarrow> Inr (Some h)
            | None \<Rightarrow>
                (case filter (\<lambda>h. id_prefix x (hdr_run_id h)) (run_rows s) of
                   [] \<Rightarrow> Inr None
                 | [row] \<Rightarrow> bind_res (read_header row) (\<lambda>h. Inr (Some h))
                 | _ \<Rightarrow> Inl KeyError)))"

definition resolve :: "store \<Rightarrow> string \<Rightarrow> run_header res" where
  "resolve s x = bind_res (find_run s x) (\<lambda>r. case r of Some h \<Rightarrow> Inr h | None \<Rightarrow> Inl KeyError)"

text \<open>The order among equal start times is not specified by the queries.\<close>

definition list_runs :: "store \<Rightarrow> string option \<Rightarrow> run_header list res" where
  "list_runs s task =
     (case task of
        None \<Rightarrow> map_res read_header (rev (sort_key started_at (run_rows s)))
      | Some t \<Rightarrow> map_res read_header (sort_key started_at (filter (\<lambda>h. task_id h = Some t) (run_rows s))))"

definition tasks :: "store \<Rightarrow> string list" where
  "tasks s = sort (remdups (List.map_filter task_id (run_rows s)))"

section \<open>Events\<close>

definition rows_of :: "store \<Rightarrow> string \<Rightarrow> event_row list" where
  "rows_of s rid = filter (\<lambda>e. er_run_id e = rid) (event_rows s)"

definition event_row_of :: "py_env \<Rightarrow> event_codec \<Rightarrow> string \<Rightarrow> int \<Rightarrow> any_event \<Rightarrow> event_row" where
  "event_row_of env codec rid n e =
     \<lparr>er_run_id = rid, er_seq = n, er_type = event_type e,
      er_call_id = (case e of ModelCall m \<Rightarrow> Some (call_id m) | _ \<Rightarrow> None),
      er_parent_call_id = parent_call_id e, er_tool_call_id = tool_call_id e,
      er_batch_index = (case e of ToolCall t \<Rightarrow> Some (tc_batch_index t) | _ \<Rightarrow> None),
      er_model_id = (case e of ModelCall m \<Rightarrow> Some (mc_model_id m) | _ \<Rightarrow> None),
      er_messages_hash = (case e of ModelCall m \<Rightarrow> Some (messages_hash m) | _ \<Rightarrow> None),
      er_canonical_json = canonical_bytes env e, er_meta_json = meta_text codec (meta_of e)\<rparr>"

text \<open>The foreign key on \<open>runs\<close> and the primary key \<open>(run_id, seq)\<close>.\<close>

definition insert_event ::
  "py_env \<Rightarrow> event_codec \<Rightarrow> store \<Rightarrow> string \<Rightarrow> int \<Rightarrow> any_event \<Rightarrow> unit res \<times> store" where
  "insert_event env codec s rid n e =
     (if run_row s rid = None then (Inl IntegrityError, s)
      else if \<exists>r \<in> set (rows_of s rid). er_seq r = n then (Inl IntegrityError, s)
      else (Inr (), s\<lparr>event_rows := event_rows s @ [event_row_of env codec rid n e]\<rparr>))"

definition insert_import_event ::
  "py_env \<Rightarrow> event_codec \<Rightarrow> store \<Rightarrow> stored_event \<Rightarrow> unit res \<times> store" where
  "insert_import_event env codec s st = insert_event env codec s (se_run_id st) (seq st) (event st)"

text \<open>\<open>COALESCE(MAX(seq), -1) + 1\<close>.\<close>

definition next_seq :: "store \<Rightarrow> string \<Rightarrow> int" where
  "next_seq s rid =
     (if rows_of s rid = [] then 0 else Max (er_seq ` set (rows_of s rid)) + 1)"

definition append_event ::
  "py_env \<Rightarrow> event_codec \<Rightarrow> store \<Rightarrow> string \<Rightarrow> any_event \<Rightarrow> int res \<times> store" where
  "append_event env codec s rid e =
     (let n = next_seq s rid
      in case insert_event env codec s rid n e of
           (Inl x, s') \<Rightarrow> (Inl x, s')
         | (Inr _, s') \<Rightarrow> (Inr n, s'))"

definition load_row :: "event_codec \<Rightarrow> string \<Rightarrow> event_row \<Rightarrow> stored_event res" where
  "load_row codec rid row =
     bind_res (load_event codec (er_canonical_json row) (er_meta_json row)) (\<lambda>e.
       Inr \<lparr>se_run_id = rid, seq = er_seq row, event = e\<rparr>)"

definition events :: "event_codec \<Rightarrow> store \<Rightarrow> string \<Rightarrow> stored_event list res" where
  "events codec s rid = map_res (load_row codec rid) (sort_key er_seq (rows_of s rid))"

definition blob_is_referenced :: "store \<Rightarrow> string \<Rightarrow> bool" where
  "blob_is_referenced s d \<longleftrightarrow> (\<exists>r \<in> set (event_rows s). in_str d (er_canonical_json r))"

section \<open>Content store\<close>

text \<open>
  What clients rely on of blobs: a put blob is read back, reads never return other bytes than the
  digest names, and no put disturbs another blob.
\<close>

locale content_store =
  fixes key :: "'d \<Rightarrow> 'k" and put :: "'s \<Rightarrow> 'd \<Rightarrow> 's" and get :: "'s \<Rightarrow> 'k \<Rightarrow> 'd option"
    and ok :: "'s \<Rightarrow> bool"
  assumes get_put: "ok s \<Longrightarrow> get (put s x) (key x) \<noteq> None"
    and put_keeps: "ok s \<Longrightarrow> get s k = Some y \<Longrightarrow> get (put s x) k = Some y"
    and put_adds: "get (put s x) k = Some y \<Longrightarrow> y = x \<or> get s k = Some y"
    and get_key: "get s k = Some y \<Longrightarrow> key y = k"
    and ok_put: "ok s \<Longrightarrow> ok (put s x)"
begin

lemma ok_puts: "ok s \<Longrightarrow> ok (foldl put s xs)"
  by (induction xs rule: rev_induct) (simp_all add: ok_put)

lemma get_after_puts: "ok s \<Longrightarrow> x \<in> set xs \<Longrightarrow> get (foldl put s xs) (key x) \<noteq> None"
proof (induction xs rule: rev_induct)
  case (snoc z xs)
  note o = ok_puts [OF snoc.prems(1), of xs]
  show ?case
  proof (cases "x \<in> set xs")
    case True
    then show ?thesis using snoc.IH [OF snoc.prems(1)] put_keeps [OF o] by auto
  qed (use snoc.prems(2) get_put [OF o] in auto)
qed simp

lemma only_puts: "get (foldl put s xs) k = Some y \<Longrightarrow> y \<in> set xs \<or> get s k = Some y"
  by (induction xs rule: rev_induct) (auto dest: put_adds)

lemma get_exact:
  assumes "ok s" "x \<in> set xs" "get s (key x) = None" "\<And>y. y \<in> set xs \<Longrightarrow> key y = key x \<Longrightarrow> y = x"
  shows "get (foldl put s xs) (key x) = Some x"
proof -
  obtain y where y: "get (foldl put s xs) (key x) = Some y" using get_after_puts [OF assms(1,2)] by blast
  then show ?thesis using only_puts [OF y] get_key [OF y] assms(3,4) by auto
qed

end

definition store_blob :: "py_env \<Rightarrow> store \<Rightarrow> string \<Rightarrow> store" where
  "store_blob env s data = snd (put_blob env s data)"

definition read_blob :: "py_env \<Rightarrow> store \<Rightarrow> string \<Rightarrow> string option" where
  "read_blob env s d = (case get_blob env s d of Inr x \<Rightarrow> Some x | Inl _ \<Rightarrow> None)"

text \<open>SHA-256 hex digests have their documented form, and every stored blob is under its digest.\<close>

definition digests_ok :: "py_env \<Rightarrow> bool" where
  "digests_ok env \<longleftrightarrow> (\<forall>d. is_digest (sha256 env d))"

definition blobs_ok :: "py_env \<Rightarrow> store \<Rightarrow> bool" where
  "blobs_ok env s \<longleftrightarrow> digests_ok env \<and> (\<forall>k d. blobs s k = Some d \<longrightarrow> sha256 env d = k)"

lemma read_blob_eq:
  "read_blob env s d = Some x \<longleftrightarrow> is_digest d \<and> blobs s d = Some x \<and> sha256 env x = d"
  by (auto simp: read_blob_def get_blob_def blob_path_def sha256_hex_def bind_res_def
      split: option.splits sum.splits if_splits)

interpretation blob: content_store "sha256_hex env" "store_blob env" "read_blob env" "blobs_ok env" for env
proof
  fix s x k y
  show "blobs_ok env s \<Longrightarrow> read_blob env (store_blob env s x) (sha256_hex env x) \<noteq> None"
    by (cases "blobs s (sha256 env x)")
      (auto simp: read_blob_def get_blob_def store_blob_def put_blob_def blobs_ok_def digests_ok_def
        blob_path_def sha256_hex_def Let_def)
  show "blobs_ok env s \<Longrightarrow> read_blob env s k = Some y \<Longrightarrow> read_blob env (store_blob env s x) k = Some y"
    by (auto simp: read_blob_eq store_blob_def put_blob_def Let_def split: sum.splits)
  show "read_blob env (store_blob env s x) k = Some y \<Longrightarrow> y = x \<or> read_blob env s k = Some y"
    by (auto simp: read_blob_eq store_blob_def put_blob_def Let_def split: sum.splits if_splits)
  show "read_blob env s k = Some y \<Longrightarrow> sha256_hex env y = k"
    by (simp add: read_blob_eq sha256_hex_def)
  show "blobs_ok env s \<Longrightarrow> blobs_ok env (store_blob env s x)"
    by (auto simp: blobs_ok_def store_blob_def put_blob_def Let_def sha256_hex_def split: sum.splits)
qed

text \<open>
  Blobs are content-addressed: whatever blobs are put into an empty store in whatever order,
  repetitions included, each is read back under its digest exactly as put, provided digests have
  their documented form and no two of the blobs collide under SHA-256.
\<close>

theorem put_get_blob:
  assumes "digests_ok env" "\<And>x y. x \<in> set xs \<Longrightarrow> y \<in> set xs \<Longrightarrow> sha256 env x = sha256 env y \<Longrightarrow> x = y"
    and "x \<in> set xs"
  shows "get_blob env (foldl (\<lambda>s d. snd (put_blob env s d)) empty_store xs) (sha256 env x) = Inr x"
proof -
  have "blobs_ok env empty_store" using assms(1) by (simp add: blobs_ok_def empty_store_def)
  moreover have "read_blob env empty_store (sha256_hex env x) = None"
    by (cases "read_blob env empty_store (sha256_hex env x)") (auto simp: read_blob_eq empty_store_def)
  ultimately have "read_blob env (foldl (store_blob env) empty_store xs) (sha256_hex env x) = Some x"
    using assms by (intro blob.get_exact) (auto simp: sha256_hex_def)
  then show ?thesis
    by (auto simp: read_blob_def sha256_hex_def store_blob_def [abs_def] split: sum.splits)
qed

definition const_env :: py_env where
  "const_env = \<lparr>sha256 = (\<lambda>_. replicate 64 (CHR ''0'')), frepr = (\<lambda>_. ''0.0''), crepr = (\<lambda>_. []), udigit = Map.empty\<rparr>"

theorem put_get_blob_witness:
  "get_blob const_env (foldl (\<lambda>s d. snd (put_blob const_env s d)) empty_store [''abc'', ''abc''])
     (sha256 const_env ''abc'') = Inr ''abc''"
proof (rule put_get_blob)
  show "digests_ok const_env"
    by (simp add: digests_ok_def const_env_def is_digest_def hex_char_def list_all_length)
qed (auto simp: const_env_def)

section \<open>An append-only log per run\<close>

text \<open>
  What recording relies on: an append extends its run's log by one entry, numbered by the log's
  length, and no other run's log changes.
\<close>

locale append_log =
  fixes log :: "'s \<Rightarrow> 'r \<Rightarrow> 'e list" and open_run :: "'s \<Rightarrow> 'r \<Rightarrow> bool" and app :: "'s \<Rightarrow> 'r \<Rightarrow> 'x \<Rightarrow> 's"
    and entry :: "nat \<Rightarrow> 'x \<Rightarrow> 'e"
  assumes log_app: "open_run s r \<Longrightarrow> log (app s r x) r = log s r @ [entry (length (log s r)) x]"
    and log_other: "open_run s r \<Longrightarrow> r' \<noteq> r \<Longrightarrow> log (app s r x) r' = log s r'"
    and open_app: "open_run s r \<Longrightarrow> open_run s r' \<Longrightarrow> open_run (app s r x) r'"
begin

definition app_all :: "'s \<Rightarrow> ('r \<times> 'x) list \<Rightarrow> 's" where
  "app_all s steps = foldl (\<lambda>t (r, x). app t r x) s steps"

lemma app_all_snoc: "app_all s (steps @ [(r, x)]) = app (app_all s steps) r x"
  by (simp add: app_all_def)

lemma open_app_all:
  "\<forall>(r, x) \<in> set steps. open_run s r \<Longrightarrow> open_run s r' \<Longrightarrow> open_run (app_all s steps) r'"
proof (induction steps arbitrary: r' rule: rev_induct)
  case (snoc p steps)
  obtain r x where p: "p = (r, x)" by force
  then show ?case using snoc by (auto simp: app_all_snoc intro!: open_app)
qed (simp add: app_all_def)

text \<open>Interleaved appends: each run's log sees its own appends, in their order.\<close>

lemma log_app_all:
  assumes "\<forall>(r, x) \<in> set steps. open_run s r"
  shows "log (app_all s steps) r = log s r @
    map (\<lambda>(i, x). entry (length (log s r) + i) x) (enumerate 0 (map snd (filter (\<lambda>p. fst p = r) steps)))"
  using assms
proof (induction steps rule: rev_induct)
  case (snoc p steps)
  obtain r' x where p: "p = (r', x)" by force
  have o: "open_run (app_all s steps) r'" using snoc.prems p by (intro open_app_all) auto
  show ?case
    using snoc p log_app [OF o, of x] log_other [OF o, of r x]
    by (cases "r' = r") (auto simp: app_all_snoc enumerate_append_eq)
qed (simp add: app_all_def)

end

text \<open>The rows of a run carry the numbers 0, 1, 2, ... in insertion order.\<close>

definition numbered :: "store \<Rightarrow> string \<Rightarrow> bool" where
  "numbered s rid \<longleftrightarrow> map er_seq (rows_of s rid) = map int [0..<length (rows_of s rid)]"

definition recording :: "store \<Rightarrow> string \<Rightarrow> bool" where
  "recording s rid \<longleftrightarrow> run_row s rid \<noteq> None \<and> numbered s rid"

definition append_to :: "py_env \<Rightarrow> event_codec \<Rightarrow> store \<Rightarrow> string \<Rightarrow> any_event \<Rightarrow> store" where
  "append_to env codec s rid e = snd (append_event env codec s rid e)"

definition log_entry :: "py_env \<Rightarrow> event_codec \<Rightarrow> nat \<Rightarrow> any_event \<Rightarrow> int \<times> string \<times> string" where
  "log_entry env codec n e = (int n, canonical_bytes env e, meta_text codec (meta_of e))"

definition log_of :: "store \<Rightarrow> string \<Rightarrow> (int \<times> string \<times> string) list" where
  "log_of s rid = map (\<lambda>r. (er_seq r, er_canonical_json r, er_meta_json r)) (rows_of s rid)"

lemma next_seq_numbered:
  assumes "numbered s rid" shows "next_seq s rid = int (length (rows_of s rid))"
proof (cases "rows_of s rid = []")
  case False
  let ?n = "length (rows_of s rid)"
  have "er_seq ` set (rows_of s rid) = int ` {0..<?n}"
    using arg_cong [OF assms [unfolded numbered_def], of set] by simp
  moreover have "Max (int ` {0..<?n}) = int (?n - 1)"
    using False by (intro Max_eqI) auto
  ultimately show ?thesis using False by (simp add: next_seq_def Suc_leI of_nat_diff)
qed (simp add: next_seq_def)

lemma append_event_rows:
  assumes "recording s rid"
  shows "append_event env codec s rid e = (Inr (int (length (rows_of s rid))),
    s\<lparr>event_rows := event_rows s @ [event_row_of env codec rid (int (length (rows_of s rid))) e]\<rparr>)"
proof -
  let ?n = "int (length (rows_of s rid))"
  have "er_seq ` set (rows_of s rid) = int ` {0..<length (rows_of s rid)}"
    using arg_cong [of _ _ set, OF assms [unfolded recording_def numbered_def, THEN conjunct2]] by simp
  then have "\<not> (\<exists>r \<in> set (rows_of s rid). er_seq r = ?n)" by force
  then show ?thesis
    using assms next_seq_numbered [of s rid] by (auto simp: append_event_def insert_event_def recording_def Let_def)
qed

lemma event_row_of_simps [simp]:
  "er_run_id (event_row_of env codec rid n e) = rid" "er_seq (event_row_of env codec rid n e) = n"
  "er_canonical_json (event_row_of env codec rid n e) = canonical_bytes env e"
  "er_meta_json (event_row_of env codec rid n e) = meta_text codec (meta_of e)"
  by (simp_all add: event_row_of_def)

lemma rows_of_append:
  "rows_of (s\<lparr>event_rows := event_rows s @ [event_row_of env codec rid n e]\<rparr>) rid' =
     rows_of s rid' @ (if rid' = rid then [event_row_of env codec rid n e] else [])"
  by (simp add: rows_of_def)

interpretation runlog: append_log log_of recording "append_to env codec" "log_entry env codec" for env codec
proof
  fix s r r' e
  assume r: "recording s r"
  show "log_of (append_to env codec s r e) r = log_of s r @ [log_entry env codec (length (log_of s r)) e]"
    by (simp add: append_to_def append_event_rows [OF r] log_of_def rows_of_append log_entry_def)
  show "r' \<noteq> r \<Longrightarrow> log_of (append_to env codec s r e) r' = log_of s r'"
    by (simp add: append_to_def append_event_rows [OF r] log_of_def rows_of_append)
  show "recording s r' \<Longrightarrow> recording (append_to env codec s r e) r'"
    using r by (auto simp: append_to_def append_event_rows [OF r] recording_def numbered_def rows_of_append
        run_row_def)
qed

text \<open>Reading an event's text back gives the event: what \<open>json.loads\<close> and validation do to it.\<close>

definition loads_back :: "py_env \<Rightarrow> event_codec \<Rightarrow> any_event \<Rightarrow> bool" where
  "loads_back env codec e \<longleftrightarrow> load_event codec (canonical_bytes env e) (meta_text codec (meta_of e)) = Inr e"

lemma events_of_log:
  assumes "numbered s rid" "log_of s rid = map (\<lambda>(i, e). log_entry env codec i e) (enumerate 0 es)"
    and "list_all (loads_back env codec) es"
  shows "events codec s rid
    = Inr (map (\<lambda>(i, e). \<lparr>se_run_id = rid, seq = int i, event = e\<rparr>) (enumerate 0 es))"
proof -
  let ?rows = "rows_of s rid"
  have "sorted (map er_seq ?rows)"
    using assms(1) by (simp add: numbered_def sorted_map sorted_wrt_map sorted_wrt_iff_nth_less)
  then have sorted: "sort_key er_seq ?rows = ?rows" by (rule sort_key_id_if_sorted)
  have len: "length ?rows = length es" using arg_cong [OF assms(2), of length] by (simp add: log_of_def)
  have row: "load_row codec rid (?rows ! i) = Inr \<lparr>se_run_id = rid, seq = int i, event = es ! i\<rparr>"
    if "i < length es" for i
  proof -
    have "log_of s rid ! i = log_entry env codec i (es ! i)"
      using that by (simp add: assms(2) nth_enumerate_eq)
    moreover have "loads_back env codec (es ! i)" using assms(3) that by (simp add: list_all_length)
    ultimately show ?thesis
      using that len by (auto simp: log_of_def log_entry_def load_row_def loads_back_def)
  qed
  show ?thesis
    unfolding events_def sorted
    by (rule map_res_nthI) (simp_all add: len row nth_enumerate_eq)
qed

text \<open>
  C30. Recordings do not disturb one another: from runs that exist and hold no events, any interleaving
  of appends to several runs leaves each run with exactly its own events, in the order appended and
  numbered from 0, provided the events' texts read back.
\<close>

theorem interleaved_appends:
  assumes "event_rows s = []" "\<forall>(r, e) \<in> set steps. run_row s r \<noteq> None \<and> loads_back env codec e"
    and "run_row s rid \<noteq> None"
  shows "events codec (foldl (\<lambda>t (r, e). snd (append_event env codec t r e)) s steps) rid
    = Inr (map (\<lambda>(i, e). \<lparr>se_run_id = rid, seq = int i, event = e\<rparr>)
        (enumerate 0 (map snd (filter (\<lambda>p. fst p = rid) steps))))"
proof -
  let ?t = "runlog.app_all env codec s steps"
  let ?es = "map snd (filter (\<lambda>p. fst p = rid) steps)"
  have empty: "rows_of s r = []" for r using assms(1) by (simp add: rows_of_def)
  have o: "\<forall>(r, e) \<in> set steps. recording s r"
    using assms(2) empty by (auto simp: recording_def numbered_def)
  have "recording s rid" using assms(3) empty by (simp add: recording_def numbered_def)
  then have "recording ?t rid" by (rule runlog.open_app_all [OF o])
  then have "numbered ?t rid" by (simp add: recording_def)
  moreover have "log_of ?t rid = map (\<lambda>(i, e). log_entry env codec i e) (enumerate 0 ?es)"
    using runlog.log_app_all [OF o, of env codec rid] empty by (simp add: log_of_def)
  moreover have "list_all (loads_back env codec) ?es" using assms(2) by (auto simp: list_all_iff)
  ultimately have "events codec ?t rid
      = Inr (map (\<lambda>(i, e). \<lparr>se_run_id = rid, seq = int i, event = e\<rparr>) (enumerate 0 ?es))"
    by (rule events_of_log)
  then show ?thesis unfolding runlog.app_all_def append_to_def .
qed

definition ex_header :: "string \<Rightarrow> real \<Rightarrow> run_header" where
  "ex_header rid t = \<lparr>hdr_run_id = rid, hdr_name = ''fix'', started_at = t, finished_at = None,
     hdr_status = Running, schema_version = EVENT_SCHEMA_VERSION, hdr_models = [], command = None,
     redacted = True, task_id = None\<rparr>"

definition ex_codec :: event_codec where
  "ex_codec = \<lparr>meta_text = (\<lambda>_. []), load_event = (\<lambda>_ _. Inr (ModelCall ex_call))\<rparr>"

theorem interleaved_appends_witness:
  "let s = empty_store\<lparr>run_rows := [ex_header ''a'' 1, ex_header ''b'' 2]\<rparr>; e = ModelCall ex_call in
    events ex_codec (foldl (\<lambda>t (r, e). snd (append_event ex_env ex_codec t r e)) s [(''a'', e), (''b'', e), (''a'', e)]) ''a''
    = Inr [\<lparr>se_run_id = ''a'', seq = 0, event = e\<rparr>, \<lparr>se_run_id = ''a'', seq = 1, event = e\<rparr>]"
proof -
  let ?s = "empty_store\<lparr>run_rows := [ex_header ''a'' 1, ex_header ''b'' 2]\<rparr>"
  let ?steps = "[(''a'', ModelCall ex_call), (''b'', ModelCall ex_call), (''a'', ModelCall ex_call)]"
  have "event_rows ?s = []" "run_row ?s ''a'' \<noteq> None"
    "\<forall>(r, e) \<in> set ?steps. run_row ?s r \<noteq> None \<and> loads_back ex_env ex_codec e"
    by (simp_all add: empty_store_def run_row_def ex_header_def loads_back_def ex_codec_def)
  from interleaved_appends [OF this(1,3,2)] show ?thesis
    unfolding Let_def by simp
qed

section \<open>Key constraints\<close>

definition store_ok :: "store \<Rightarrow> bool" where
  "store_ok s \<longleftrightarrow> distinct (map hdr_run_id (run_rows s))
     \<and> distinct (map (\<lambda>e. (er_run_id e, er_seq e)) (event_rows s))
     \<and> (\<forall>e \<in> set (event_rows s). er_run_id e \<in> hdr_run_id ` set (run_rows s))"

text \<open>One committed statement, with whatever arguments.\<close>

inductive store_step :: "py_env \<Rightarrow> event_codec \<Rightarrow> store \<Rightarrow> store \<Rightarrow> bool" for env codec where
  create: "store_step env codec s (snd (create_run s h))"
| drop: "store_step env codec s (drop_run s rid)"
| finish: "store_step env codec s (finish_run s rid st t models)"
| append: "store_step env codec s (snd (append_event env codec s rid e))"
| import_: "store_step env codec s (snd (insert_import_event env codec s stored))"
| put: "store_step env codec s (snd (put_blob env s data))"

inductive_cases store_stepE: "store_step env codec s s'"

lemma run_row_None: "run_row s rid = None \<longleftrightarrow> rid \<notin> hdr_run_id ` set (run_rows s)"
  by (auto simp: run_row_def find_None_iff)

lemma rows_need_run: "store_ok st \<Longrightarrow> run_row st rid = None \<Longrightarrow> rows_of st rid = []"
  by (auto simp: store_ok_def rows_of_def run_row_None filter_empty_conv)

lemma insert_event_ok: "store_ok s \<Longrightarrow> store_ok (snd (insert_event env codec s rid n e))"
  by (auto simp: insert_event_def store_ok_def run_row_None rows_of_def)

lemma append_event_ok: "store_ok s \<Longrightarrow> store_ok (snd (append_event env codec s rid e))"
  using insert_event_ok [of s env codec rid "next_seq s rid" e]
  by (auto simp: append_event_def Let_def split: prod.splits sum.splits)

lemma finish_run_ids: "map hdr_run_id (run_rows (finish_run s rid st t models)) = map hdr_run_id (run_rows s)"
  by (simp add: finish_run_def split: option.split)

lemma store_step_ok:
  assumes "store_step env codec s s'" "store_ok s" shows "store_ok s'"
  using assms(1)
proof cases
  case (create h)
  then show ?thesis using assms(2) by (auto simp: create_run_def store_ok_def run_row_None)
next
  case (drop rid)
  then show ?thesis
    using assms(2) by (auto simp: drop_run_def store_ok_def distinct_map_filter image_iff)
next
  case (finish rid st t models)
  have "event_rows s' = event_rows s" using finish by (simp add: finish_run_def)
  moreover have "hdr_run_id ` set (run_rows s') = hdr_run_id ` set (run_rows s)"
    using arg_cong [OF finish_run_ids [of s rid st t models], of set] finish by simp
  ultimately show ?thesis using assms(2) finish_run_ids [of s rid st t models] finish by (simp add: store_ok_def)
next
  case (append rid e)
  then show ?thesis using append_event_ok [OF assms(2)] by simp
next
  case (import_ stored)
  then show ?thesis using insert_event_ok [OF assms(2)] by (simp add: insert_import_event_def)
next
  case (put data)
  then show ?thesis using assms(2) by (auto simp: put_blob_def store_ok_def Let_def split: sum.split)
qed

text \<open>
  C33. The database stays consistent: in every store reached from an empty one by any sequence of
  statements, run ids are unique, no run has two events of one number, and every event belongs to a
  run; an append to an existing run then always succeeds, with a number above every earlier one.
\<close>

theorem store_reachable_ok:
  assumes "(store_step env codec)\<^sup>*\<^sup>* empty_store s"
  shows "store_ok s
    \<and> (\<forall>rid e. run_row s rid \<noteq> None \<longrightarrow>
         (\<exists>n. fst (append_event env codec s rid e) = Inr n \<and> (\<forall>r \<in> set (rows_of s rid). er_seq r < n)))"
proof -
  have "store_ok empty_store" by (simp add: store_ok_def empty_store_def)
  with assms have "store_ok s" by (induction rule: rtranclp_induct) (auto intro: store_step_ok)
  moreover have n: "er_seq r < next_seq s rid" if "r \<in> set (rows_of s rid)" for r rid
    using that Max_ge [of "er_seq ` set (rows_of s rid)" "er_seq r"] by (auto simp: next_seq_def)
  then have "fst (append_event env codec s rid e) = Inr (next_seq s rid)" if "run_row s rid \<noteq> None" for rid e
    using that by (fastforce simp: append_event_def insert_event_def Let_def)
  ultimately show ?thesis using n by blast
qed

theorem store_reachable_ok_witness:
  "(store_step const_env ex_codec)\<^sup>*\<^sup>* empty_store (snd (create_run empty_store (ex_header ''a'' 1)))
   \<and> store_ok (snd (create_run empty_store (ex_header ''a'' 1)))"
proof -
  have "(store_step const_env ex_codec)\<^sup>*\<^sup>* empty_store (snd (create_run empty_store (ex_header ''a'' 1)))"
    by (intro r_into_rtranclp store_step.create)
  then show ?thesis using store_reachable_ok by blast
qed

section \<open>Lookup\<close>

lemma newest_None: "newest rows = None \<longleftrightarrow> rows = []"
proof -
  have "rev (sort_key f rows) = [] \<longleftrightarrow> rows = []" for f :: "run_header \<Rightarrow> real \<times> string"
    by (metis Nil_is_rev_conv set_empty set_sort)
  then show ?thesis by (auto simp: newest_def split: list.splits)
qed

lemma newest_Some:
  assumes "newest rows = Some h"
  shows "h \<in> set rows \<and> (\<forall>g \<in> set rows. (started_at g, hdr_run_id g) \<le> (started_at h, hdr_run_id h))"
proof -
  let ?k = "\<lambda>h. (started_at h, hdr_run_id h)"
  obtain t where t: "rev (sort_key ?k rows) = h # t"
    using assms by (auto simp: newest_def split: list.splits)
  then have r: "sort_key ?k rows = rev t @ [h]" by (metis rev.simps(2) rev_rev_ident)
  moreover have "sorted (map ?k (sort_key ?k rows))" by simp
  ultimately have "\<forall>g \<in> set t. ?k g \<le> ?k h" by (auto simp: sorted_append)
  moreover have "set rows = insert h (set t)" using arg_cong [OF r, of set] by simp
  ultimately show ?thesis by auto
qed

definition current_rows :: "store \<Rightarrow> bool" where
  "current_rows s \<longleftrightarrow> (\<forall>h \<in> set (run_rows s). schema_version h = EVENT_SCHEMA_VERSION)"

lemma read_header_current: "current_rows s \<Longrightarrow> h \<in> set (run_rows s) \<Longrightarrow> read_header h = Inr h"
  by (simp add: current_rows_def read_header_def)

definition by_name :: "store \<Rightarrow> string \<Rightarrow> run_header list" where
  "by_name s x = filter (\<lambda>h. hdr_name h = x) (run_rows s)"

definition by_prefix :: "store \<Rightarrow> string \<Rightarrow> run_header list" where
  "by_prefix s x = filter (\<lambda>h. id_prefix x (hdr_run_id h)) (run_rows s)"

lemma run_row_Some: "run_row s rid = Some h \<Longrightarrow> h \<in> set (run_rows s) \<and> hdr_run_id h = rid"
  by (auto simp: run_row_def find_Some_iff)

text \<open>
  A reference names at most one run: in a store of the current schema, what \<open>find\<close> returns has the
  reference as its id; or, no run having it as id, has it as its name and is the newest such run; or,
  no run having it as id or name, is the only run whose id begins with it. Several such runs are an
  error, none is no result.
\<close>

theorem find_run_spec:
  assumes "current_rows s"
  shows "(case find_run s x of
      Inr (Some h) \<Rightarrow> h \<in> set (run_rows s) \<and>
        (hdr_run_id h = x
         \<or> (run_row s x = None \<and> hdr_name h = x
            \<and> (\<forall>g \<in> set (by_name s x). (started_at g, hdr_run_id g) \<le> (started_at h, hdr_run_id h)))
         \<or> (run_row s x = None \<and> by_name s x = [] \<and> by_prefix s x = [h]))
    | Inr None \<Rightarrow> run_row s x = None \<and> by_name s x = [] \<and> by_prefix s x = []
    | Inl e \<Rightarrow> e = KeyError \<and> run_row s x = None \<and> by_name s x = [] \<and> length (by_prefix s x) > 1)"
proof (cases "run_row s x")
  case (Some h)
  then show ?thesis
    using run_row_Some [OF Some] read_header_current [OF assms(1)] by (auto simp: find_run_def)
next
  case None
  show ?thesis
  proof (cases "newest (by_name s x)")
    case (Some h)
    note h = newest_Some [OF Some]
    then have "read_header h = Inr h" "hdr_name h = x" "h \<in> set (run_rows s)"
      using read_header_current [OF assms(1)] by (auto simp: by_name_def)
    then show ?thesis
      using None Some h by (simp add: find_run_def latest_named_def flip: by_name_def)
  next
    case no: None
    then have b: "by_name s x = []" by (simp add: newest_None)
    have r: "read_header h = Inr h \<and> h \<in> set (run_rows s)" if "h \<in> set (by_prefix s x)" for h
      using that read_header_current [OF assms(1)] by (auto simp: by_prefix_def)
    show ?thesis
      using None no b r
      by (auto simp: find_run_def latest_named_def by_name_def [symmetric] by_prefix_def [symmetric]
          split: list.splits)
  qed
qed

theorem find_run_spec_witness:
  "\<exists>h. find_run (empty_store\<lparr>run_rows := [ex_header ''a'' 1, ex_header ''b'' 2]\<rparr>) ''fix'' = Inr (Some h)
     \<and> hdr_run_id h = ''b''"
proof -
  let ?s = "empty_store\<lparr>run_rows := [ex_header ''a'' 1, ex_header ''b'' 2]\<rparr>"
  have c: "current_rows ?s" by (simp add: current_rows_def empty_store_def ex_header_def)
  have "run_row ?s ''fix'' = None" by (simp add: run_row_def empty_store_def ex_header_def)
  with find_run_spec [OF c, of "''fix''"] show ?thesis
    by (auto simp: empty_store_def ex_header_def by_name_def split: sum.splits option.splits)
qed

end
