(* ===== verification/Tokens.thy ===== *)
theory Tokens
  imports Events
begin

text \<open>
  Token attribution (\<open>src/tracewake/pprof.py\<close>): the largest-remainder split of a call's input tokens
  over its messages, the shares of a run, their merging by stack, and the measured totals. The lemmas
  show that the split obeys the quota rule and that attribution neither loses nor invents a token.
\<close>

section \<open>Definitions\<close>

definition RESPONSE_LEAF :: string where
  "RESPONSE_LEAF = ''response''"

definition UNTAGGED :: string where
  "UNTAGGED = ''untagged''"

fun bump :: "int list \<Rightarrow> nat list \<Rightarrow> int list" where
  "bump xs [] = xs"
| "bump xs (i # is) = bump (xs[i := xs ! i + 1]) is"

definition proportional :: "int \<Rightarrow> int list \<Rightarrow> int list res" where
  "proportional tot weights =
     (if tot < 0 then Inl ValueError
      else if weights = [] then Inr []
      else if list_ex (\<lambda>w. w < 0) weights then Inl ValueError
      else
        let mass = sum_list weights
        in if mass = 0 then Inr ((replicate (length weights) 0)[0 := tot])
           else
             let floors = map (\<lambda>w. (tot * w) div mass) weights;
                 remainders = map (\<lambda>w. (tot * w) mod mass) weights;
                 leftover = tot - sum_list floors;
                 order = sort_key (\<lambda>i. (- (remainders ! i), i)) [0..<length weights]
             in Inr (bump floors (take (nat leftover) order)))"

record token_share =
  ts_run_id :: string
  ts_run_name :: string
  ts_task_id :: "string option"
  ts_model_id :: string
  ts_turn :: nat
  ts_leaf :: string
  ts_input :: int
  ts_output :: int

definition share_tokens :: "token_share \<Rightarrow> int" where
  "share_tokens s = ts_input s + ts_output s"

text \<open>The key a share is merged under: everything but its counts.\<close>

type_synonym share_key = "string \<times> string \<times> string option \<times> string \<times> nat \<times> string"

definition key_of :: "token_share \<Rightarrow> share_key" where
  "key_of s = (ts_run_id s, ts_run_name s, ts_task_id s, ts_model_id s, ts_turn s, ts_leaf s)"

definition share_of :: "share_key \<Rightarrow> int \<Rightarrow> int \<Rightarrow> token_share" where
  "share_of k inp out =
     (case k of (rid, nm, task, model, turn, leaf) \<Rightarrow>
        \<lparr>ts_run_id = rid, ts_run_name = nm, ts_task_id = task, ts_model_id = model, ts_turn = turn,
         ts_leaf = leaf, ts_input = inp, ts_output = out\<rparr>)"

text \<open>The loop of \<open>_merge_shares\<close> over its dictionary and the order of its keys.\<close>

type_synonym buckets = "(share_key \<rightharpoonup> int \<times> int) \<times> share_key list"

definition add_share :: "buckets \<Rightarrow> token_share \<Rightarrow> buckets" where
  "add_share b s =
     (case b of (bucket, order) \<Rightarrow>
        let k = key_of s;
            (inp, out) = (case bucket k of None \<Rightarrow> (0, 0) | Some c \<Rightarrow> c)
        in (bucket(k \<mapsto> (inp + ts_input s, out + ts_output s)),
            if bucket k = None then order @ [k] else order))"

definition merge_shares :: "token_share list \<Rightarrow> token_share list" where
  "merge_shares shares =
     (case foldl add_share (Map.empty, []) shares of (bucket, order) \<Rightarrow>
        map (\<lambda>k. share_of k (fst (the (bucket k))) (snd (the (bucket k))))
          (filter (\<lambda>k. fst (the (bucket k)) \<noteq> 0 \<or> snd (the (bucket k)) \<noteq> 0) order))"

text \<open>The shares of one model call, the body of the loop of \<open>attribute_tokens\<close>.\<close>

definition call_shares :: "run_header \<Rightarrow> nat \<Rightarrow> model_call_event \<Rightarrow> token_share list res" where
  "call_shares header turn e =
     (let use = resp_usage (mc_response e);
          weights = (if mc_messages e = [] then [0] else map (\<lambda>m. int (str_len (msg_content m))) (mc_messages e));
          leaves = (if mc_messages e = [] then [UNTAGGED]
                    else map (\<lambda>m. or_str (provenance m) UNTAGGED) (mc_messages e));
          mk = (\<lambda>leaf inp out. share_of (hdr_run_id header, hdr_name header, task_id header, mc_model_id e,
                                 turn, leaf) inp out)
      in bind_res (proportional (input_tokens use) weights) (\<lambda>parts.
           Inr (map (\<lambda>(leaf, inp). mk leaf inp 0) (filter (\<lambda>(leaf, inp). inp \<noteq> 0) (zip leaves parts))
                @ (if output_tokens use \<noteq> 0 then [mk RESPONSE_LEAF 0 (output_tokens use)] else []))))"

fun shares_loop :: "run_header \<Rightarrow> nat \<Rightarrow> any_event list \<Rightarrow> token_share list res" where
  "shares_loop header turn [] = Inr []"
| "shares_loop header turn (ModelCall e # es) =
     bind_res (call_shares header turn e) (\<lambda>shares.
       bind_res (shares_loop header (turn + 1) es) (\<lambda>rest. Inr (shares @ rest)))"
| "shares_loop header turn (_ # es) = shares_loop header turn es"

definition attribute_tokens :: "run_header \<Rightarrow> stored_event list \<Rightarrow> token_share list res" where
  "attribute_tokens header es =
     bind_res (shares_loop header 0 (map event es)) (\<lambda>shares. Inr (merge_shares shares))"

fun call_usages :: "any_event list \<Rightarrow> usage list" where
  "call_usages [] = []"
| "call_usages (ModelCall e # es) = resp_usage (mc_response e) # call_usages es"
| "call_usages (_ # es) = call_usages es"

text \<open>The two running sums of \<open>usage_totals\<close>.\<close>

definition usage_totals :: "stored_event list \<Rightarrow> int \<times> int" where
  "usage_totals es =
     foldl (\<lambda>(inp, out) u. (inp + input_tokens u, out + output_tokens u)) (0, 0) (call_usages (map event es))"

section \<open>The split\<close>

lemma length_bump [simp]: "length (bump xs is) = length xs"
  by (induction xs "is" rule: bump.induct) auto

lemma nth_bump:
  "distinct is \<Longrightarrow> set is \<subseteq> {..<length xs} \<Longrightarrow> j < length xs \<Longrightarrow>
   bump xs is ! j = xs ! j + (if j \<in> set is then 1 else 0)"
  by (induction xs "is" rule: bump.induct) (auto simp: nth_list_update)

lemma sum_bump:
  "set is \<subseteq> {..<length xs} \<Longrightarrow> sum_list (bump xs is) = sum_list xs + int (length is)"
  by (induction xs "is" rule: bump.induct) (auto simp: sum_list_update_int)

lemma sum_list_div_mod:
  "0 < (m :: int) \<Longrightarrow> sum_list (map (\<lambda>x. x div m) xs) * m + sum_list (map (\<lambda>x. x mod m) xs) = sum_list xs"
  by (induction xs) (auto simp: algebra_simps div_mult_mod_eq)

lemma sum_list_less:
  "xs \<noteq> [] \<Longrightarrow> \<forall>x \<in> set xs. x < (m :: int) \<Longrightarrow> sum_list xs < int (length xs) * m"
proof (induction xs)
  case (Cons x xs)
  then show ?case by (cases "xs = []") (auto simp: algebra_simps)
qed simp

lemma sum_list_mod_range:
  "0 < (m :: int) \<Longrightarrow> 0 \<le> sum_list (map (\<lambda>x. x mod m) xs)"
  by (induction xs) auto

lemma sum_list_map_zero: "\<forall>x \<in> set xs. f x = (0 :: int) \<Longrightarrow> sum_list (map f xs) = 0"
  by (induction xs) auto

lemma sum_list_map_upper: "\<forall>x \<in> set xs. f x \<le> (m :: int) \<Longrightarrow> sum_list (map f xs) \<le> int (length xs) * m"
  by (induction xs) (auto simp: algebra_simps)

lemma sum_prefix_positive:
  assumes "sorted (map (\<lambda>i. - (r i :: int)) is)" "\<forall>i \<in> set is. 0 \<le> r i \<and> r i < m"
    and "sum_list (map r is) = int k * m" "j \<in> set (take k is)"
  shows "0 < r j"
proof (rule ccontr)
  assume "\<not> 0 < r j"
  then have rj: "r j = 0" using bspec [OF assms(2) in_set_takeD [OF assms(4)]] by simp
  obtain p where p: "p < k" "p < length is" "is ! p = j" using assms(4) by (auto simp: in_set_conv_nth)
  have zero: "r (is ! q) = 0" if "p \<le> q" "q < length is" for q
  proof -
    have "- r (is ! p) \<le> - r (is ! q)" using sorted_nth_mono [OF assms(1), of p q] that by simp
    then show ?thesis using rj p(3) assms(2) nth_mem [OF that(2)] by fastforce
  qed
  have "sum_list (map r is) = sum_list (map r (take p is)) + sum_list (map r (drop p is))"
    by (metis append_take_drop_id map_append sum_list_append)
  moreover have "\<forall>x \<in> set (drop p is). r x = 0" using zero by (auto simp: in_set_conv_nth)
  then have "sum_list (map r (drop p is)) = 0" by (rule sum_list_map_zero)
  ultimately have sum: "sum_list (map r (take p is)) = int k * m" using assms(3) by simp
  have pos: "0 < m" using bspec [OF assms(2) nth_mem [OF p(2)]] by simp
  have "\<forall>x \<in> set (take p is). r x \<le> m" using assms(2) by (auto dest!: in_set_takeD intro: less_imp_le)
  then have "sum_list (map r (take p is)) \<le> int p * m"
    using sum_list_map_upper [of "take p is" r m] p by simp
  moreover have "int p * m < int k * m" using p(1) pos by simp
  ultimately show False using sum by simp
qed

lemma sum_list_scale: "sum_list (map (\<lambda>w. c * w) ws) = c * sum_list (ws :: int list)"
  by (induction ws) (auto simp: algebra_simps)

lemma sum_list_nth: "sum_list (map (\<lambda>i. f (xs ! i)) [0..<length xs]) = sum_list (map f xs)"
proof -
  have "map f (map ((!) xs) [0..<length xs]) = map f xs" by (simp only: map_nth)
  then show ?thesis by (simp only: map_map comp_def)
qed

lemma sum_list_map_mset: "mset xs = mset ys \<Longrightarrow> sum_list (map f xs) = (sum_list (map f ys) :: int)"
  by (simp flip: sum_mset_sum_list)

lemma sorted_take_le:
  assumes "sorted (map f xs)" "x \<in> set (take k xs)" "y \<in> set xs" "y \<notin> set (take k xs)"
  shows "f x \<le> f y"
proof -
  have "y \<in> set (drop k xs)" using assms(3,4) by (metis Un_iff append_take_drop_id set_append)
  moreover have "sorted (map f (take k xs) @ map f (drop k xs))"
    using assms(1) by (simp flip: map_append)
  ultimately show ?thesis using assms(2) by (auto simp: sorted_append)
qed

lemma proportional_split:
  assumes "0 \<le> tot" "list_all (\<lambda>w. 0 \<le> w) weights" "0 < sum_list weights"
  defines "mass \<equiv> sum_list weights"
  shows "\<exists>parts. proportional tot weights = Inr parts \<and> length parts = length weights \<and> sum_list parts = tot
    \<and> (\<forall>i < length weights. parts ! i = tot * weights ! i div mass
         \<or> (parts ! i = tot * weights ! i div mass + 1 \<and> 0 < tot * weights ! i mod mass))
    \<and> (\<forall>i < length weights. \<forall>j < length weights.
         parts ! i = tot * weights ! i div mass + 1 \<longrightarrow> parts ! j = tot * weights ! j div mass \<longrightarrow>
         (- (tot * weights ! i mod mass), i) \<le> (- (tot * weights ! j mod mass), j))"
proof -
  let ?n = "length weights"
  let ?q = "map (\<lambda>w. (tot * w) div mass) weights" and ?r = "map (\<lambda>w. (tot * w) mod mass) weights"
  let ?left = "tot - sum_list ?q"
  let ?order = "sort_key (\<lambda>i. (- (?r ! i), i)) [0..<?n]"
  let ?parts = "bump ?q (take (nat ?left) ?order)"
  have ne: "weights \<noteq> []" and m: "0 < mass" using assms(3) by (auto simp: mass_def)
  have "sum_list ?q * mass + sum_list ?r = sum_list (map (\<lambda>w. tot * w) weights)"
    using sum_list_div_mod [OF m, of "map (\<lambda>w. tot * w) weights"] by (simp add: comp_def)
  then have "sum_list ?q * mass + sum_list ?r = tot * mass" by (simp only: sum_list_scale mass_def)
  then have eq: "sum_list ?r = ?left * mass" by (simp add: left_diff_distrib)
  have "0 \<le> sum_list ?r" using sum_list_mod_range [OF m, of "map (\<lambda>w. tot * w) weights"] by (simp add: comp_def)
  then have l0: "0 \<le> ?left" using eq m by (simp add: zero_le_mult_iff)
  have "sum_list ?r < int ?n * mass" using sum_list_less [of ?r mass] ne m by simp
  then have l1: "?left < int ?n" using eq m by simp
  have o: "distinct ?order" "set ?order = {..<?n}" "length ?order = ?n" by auto
  have "set (take (nat ?left) ?order) \<subseteq> {..<length ?q}" using o(2) set_take_subset by fastforce
  note b = nth_bump [OF distinct_take [OF o(1)] this] sum_bump [OF this]
  have "sorted (map (\<lambda>i. (- (?r ! i), i)) ?order)" by simp
  then have "sorted (map (\<lambda>i. - (?r ! i)) ?order)"
    by (auto simp: sorted_map elim: sorted_wrt_mono_rel [rotated])
  moreover have "\<forall>i \<in> set ?order. 0 \<le> ?r ! i \<and> ?r ! i < mass" using m by simp
  moreover have "mset ?order = mset [0..<?n]" by simp
  then have "sum_list (map (\<lambda>i. ?r ! i) ?order) = sum_list (map (\<lambda>i. ?r ! i) [0..<?n])"
    by (rule sum_list_map_mset)
  then have "sum_list (map (\<lambda>i. ?r ! i) ?order) = int (nat ?left) * mass"
    using sum_list_nth [of "\<lambda>x. x" ?r] eq l0 by simp
  ultimately have pos: "0 < ?r ! j" if "j \<in> set (take (nat ?left) ?order)" for j
    using sum_prefix_positive [of "\<lambda>i. ?r ! i" ?order mass "nat ?left" j] that by blast
  have part: "?parts ! i = tot * weights ! i div mass
      \<or> (?parts ! i = tot * weights ! i div mass + 1 \<and> 0 < tot * weights ! i mod mass)" if "i < ?n" for i
    using b(1) [of i] pos [of i] that by auto
  have larger: "(- (tot * weights ! i mod mass), i) \<le> (- (tot * weights ! j mod mass), j)"
    if "i < ?n" "j < ?n" "?parts ! i = tot * weights ! i div mass + 1" "?parts ! j = tot * weights ! j div mass"
    for i j
  proof -
    have "i \<in> set (take (nat ?left) ?order)" "j \<notin> set (take (nat ?left) ?order)"
      using b(1) [of i] b(1) [of j] that by (auto split: if_splits)
    moreover have "sorted (map (\<lambda>i. (- (?r ! i), i)) ?order)" by simp
    ultimately have "(- (?r ! i), i) \<le> (- (?r ! j), j)"
      using sorted_take_le [of "\<lambda>i. (- (?r ! i), i)" ?order i "nat ?left" j] o(2) that(2) by blast
    then show ?thesis using that(1,2) by simp
  qed
  have "proportional tot weights = Inr ?parts"
    using assms(1,2) ne m by (simp add: proportional_def Let_def list_ex_iff list_all_iff not_less flip: mass_def)
  moreover have "length (take (nat ?left) ?order) = nat ?left" using l1 o(3) by simp
  then have "sum_list ?parts = tot" using b(2) l0 by simp
  ultimately show ?thesis using part larger by (intro exI [of _ ?parts]) simp
qed

lemma proportional_massless:
  assumes "0 \<le> tot" "list_all (\<lambda>w. 0 \<le> w) weights" "weights \<noteq> []" "sum_list weights = 0"
  shows "proportional tot weights = Inr ((replicate (length weights) 0)[0 := tot])"
  using assms by (simp add: proportional_def list_ex_iff list_all_iff not_less Let_def)

lemma proportional_error:
  "proportional tot weights = Inl e \<longleftrightarrow> e = ValueError \<and> (tot < 0 \<or> (\<exists>w \<in> set weights. w < 0))"
  by (auto simp: proportional_def list_ex_iff Let_def)

lemma proportional_sum:
  assumes "0 \<le> tot" "list_all (\<lambda>w. 0 \<le> w) weights" "weights \<noteq> []"
  obtains parts where "proportional tot weights = Inr parts" "length parts = length weights"
    "sum_list parts = tot" "\<forall>p \<in> set parts. 0 \<le> p"
proof (cases "sum_list weights = 0")
  case True
  have "\<forall>p \<in> set ((replicate (length weights) 0)[0 := tot]). 0 \<le> p"
    using assms(1) set_update_subset_insert by fastforce
  then show ?thesis using that [OF proportional_massless [OF assms True]] assms(3)
    by (simp add: sum_list_update_int sum_list_replicate)
next
  case False
  then have m: "0 < sum_list weights"
    using assms(2) sum_list_nonneg [of weights] by (auto simp: list_all_iff)
  from proportional_split [OF assms(1,2) m] obtain parts where p: "proportional tot weights = Inr parts"
    "length parts = length weights" "sum_list parts = tot"
    "\<forall>i < length weights. parts ! i = tot * weights ! i div sum_list weights
         \<or> (parts ! i = tot * weights ! i div sum_list weights + 1 \<and> 0 < tot * weights ! i mod sum_list weights)"
    by blast
  have "0 \<le> parts ! i" if i: "i < length weights" for i
  proof -
    have "0 \<le> tot * weights ! i div sum_list weights"
      using assms(1,2) m nth_mem [OF i] by (intro pos_imp_zdiv_nonneg_iff [THEN iffD2]) (auto simp: list_all_iff)
    then show ?thesis using p(4) i by fastforce
  qed
  then show ?thesis using that [OF p(1-3)] p(2) by (metis in_set_conv_nth)
qed

section \<open>Merging\<close>

definition key_sum :: "(token_share \<Rightarrow> int) \<Rightarrow> token_share list \<Rightarrow> share_key \<Rightarrow> int" where
  "key_sum f shares k = (\<Sum>s \<leftarrow> filter (\<lambda>s. key_of s = k) shares. f s)"

lemma key_sum_simps [simp]:
  "key_sum f [] k = 0"
  "key_sum f (shares @ [s]) k = key_sum f shares k + (if key_of s = k then f s else 0)"
  by (simp_all add: key_sum_def)

lemma key_sum_absent [simp]: "k \<notin> key_of ` set shares \<Longrightarrow> key_sum f shares k = 0"
  by (induction shares rule: rev_induct) auto

definition buckets_ok :: "buckets \<Rightarrow> token_share list \<Rightarrow> bool" where
  "buckets_ok b shares \<longleftrightarrow>
     distinct (snd b) \<and> set (snd b) = key_of ` set shares
     \<and> fst b = (\<lambda>k. if k \<in> key_of ` set shares
                    then Some (key_sum ts_input shares k, key_sum ts_output shares k) else None)"

lemma add_share_ok:
  assumes "buckets_ok b shares"
  shows "buckets_ok (add_share b s) (shares @ [s])"
proof -
  let ?K = "key_of ` set shares" and ?k = "key_of s"
  let ?F = "\<lambda>k. if k \<in> ?K then Some (key_sum ts_input shares k, key_sum ts_output shares k) else None"
  obtain order where b: "b = (?F, order)" "distinct order" "set order = ?K"
    using assms by (cases b) (auto simp: buckets_ok_def)
  have "fst (add_share b s) = ?F(?k \<mapsto> (key_sum ts_input (shares @ [s]) ?k, key_sum ts_output (shares @ [s]) ?k))"
    by (simp add: b(1) add_share_def Let_def del: image_eqI)
  also have "\<dots> = (\<lambda>k. if k \<in> insert ?k ?K
      then Some (key_sum ts_input (shares @ [s]) k, key_sum ts_output (shares @ [s]) k) else None)"
    by (rule ext) simp
  finally have "fst (add_share b s) = \<dots>" .
  moreover have "snd (add_share b s) = (if ?k \<in> ?K then order else order @ [?k])"
    by (simp add: b(1) add_share_def Let_def del: image_eqI)
  ultimately show ?thesis using b(2,3) by (simp add: buckets_ok_def insert_absorb)
qed

lemma merge_loop_ok: "buckets_ok (foldl add_share (Map.empty, []) shares) shares"
proof (induction shares rule: rev_induct)
  case Nil
  show ?case by (simp add: buckets_ok_def)
next
  case (snoc s shares)
  then show ?case by (simp add: add_share_ok)
qed

lemma sum_key_sum:
  assumes "distinct order" "key_of ` set shares \<subseteq> set order"
  shows "(\<Sum>k \<leftarrow> order. key_sum f shares k) = (\<Sum>s \<leftarrow> shares. f s)"
  using assms(2)
proof (induction shares rule: rev_induct)
  case (snoc s shares)
  have "(\<Sum>k \<leftarrow> order. if key_of s = k then f s else 0) = f s"
    using snoc.prems sum_list_distinct_conv_sum_set [OF assms(1), of "\<lambda>k. if key_of s = k then f s else 0"]
    by simp
  then show ?case using snoc by (simp add: sum_list_addf)
qed (simp add: sum_list_map_zero)

lemma sum_list_drop_zeros:
  "\<forall>x \<in> set xs. \<not> P x \<longrightarrow> f x = (0 :: int) \<Longrightarrow> sum_list (map f (filter P xs)) = sum_list (map f xs)"
  by (induction xs) auto

lemma share_of_simps [simp]:
  "key_of (share_of k i n) = k" "ts_input (share_of k i n) = i" "ts_output (share_of k i n) = n"
  by (cases k; simp add: share_of_def key_of_def)+

lemma merge_shares_alt:
  obtains order where "distinct order" "set order = key_of ` set shares"
    "merge_shares shares = map (\<lambda>k. share_of k (key_sum ts_input shares k) (key_sum ts_output shares k))
       (filter (\<lambda>k. key_sum ts_input shares k \<noteq> 0 \<or> key_sum ts_output shares k \<noteq> 0) order)"
proof -
  obtain bucket order where b: "foldl add_share (Map.empty, []) shares = (bucket, order)" by force
  have ok: "distinct order" "set order = key_of ` set shares" "\<forall>k \<in> set order.
      bucket k = Some (key_sum ts_input shares k, key_sum ts_output shares k)"
    using merge_loop_ok [of shares] by (simp_all add: b buckets_ok_def)
  show ?thesis
    by (rule that [OF ok(1,2)], unfold merge_shares_def b prod.case)
       (intro map_cong filter_cong refl; use ok(3) in simp)
qed

lemma merge_shares_spec:
  "distinct (map key_of (merge_shares shares))"
  "(\<Sum>s \<leftarrow> merge_shares shares. ts_input s) = (\<Sum>s \<leftarrow> shares. ts_input s)"
  "(\<Sum>s \<leftarrow> merge_shares shares. ts_output s) = (\<Sum>s \<leftarrow> shares. ts_output s)"
  "s \<in> set (merge_shares shares) \<Longrightarrow> key_of s \<in> key_of ` set shares
     \<and> ts_input s = key_sum ts_input shares (key_of s) \<and> ts_output s = key_sum ts_output shares (key_of s)
     \<and> (ts_input s \<noteq> 0 \<or> ts_output s \<noteq> 0)"
proof -
  obtain order where o: "distinct order" "set order = key_of ` set shares"
    "merge_shares shares = map (\<lambda>k. share_of k (key_sum ts_input shares k) (key_sum ts_output shares k))
       (filter (\<lambda>k. key_sum ts_input shares k \<noteq> 0 \<or> key_sum ts_output shares k \<noteq> 0) order)"
    by (rule merge_shares_alt)
  show "distinct (map key_of (merge_shares shares))" using o(1) by (simp add: o(3) comp_def)
  show "(\<Sum>s \<leftarrow> merge_shares shares. ts_input s) = (\<Sum>s \<leftarrow> shares. ts_input s)"
    using sum_key_sum [OF o(1), of shares ts_input] o(2) by (simp add: o(3) comp_def sum_list_drop_zeros)
  show "(\<Sum>s \<leftarrow> merge_shares shares. ts_output s) = (\<Sum>s \<leftarrow> shares. ts_output s)"
    using sum_key_sum [OF o(1), of shares ts_output] o(2) by (simp add: o(3) comp_def sum_list_drop_zeros)
  show "s \<in> set (merge_shares shares) \<Longrightarrow> key_of s \<in> key_of ` set shares
     \<and> ts_input s = key_sum ts_input shares (key_of s) \<and> ts_output s = key_sum ts_output shares (key_of s)
     \<and> (ts_input s \<noteq> 0 \<or> ts_output s \<noteq> 0)"
    using o(2) by (auto simp: o(3))
qed

section \<open>Attribution\<close>

definition usage_ok :: "any_event \<Rightarrow> bool" where
  "usage_ok e = (case e of ModelCall c \<Rightarrow> 0 \<le> input_tokens (resp_usage (mc_response c))
                    \<and> 0 \<le> output_tokens (resp_usage (mc_response c))
                 | _ \<Rightarrow> True)"

lemma sum_zip_filter:
  "length ls = length ps \<Longrightarrow>
   sum_list (map snd (filter (\<lambda>(l, p). p \<noteq> 0) (zip ls ps))) = sum_list (ps :: int list)"
  by (induction ls ps rule: list_induct2) auto

lemma call_shares_ok:
  assumes "0 \<le> input_tokens (resp_usage (mc_response e))" "0 \<le> output_tokens (resp_usage (mc_response e))"
  obtains shares where "call_shares header turn e = Inr shares"
    "(\<Sum>s \<leftarrow> shares. ts_input s) = input_tokens (resp_usage (mc_response e))"
    "(\<Sum>s \<leftarrow> shares. ts_output s) = output_tokens (resp_usage (mc_response e))"
    "\<forall>s \<in> set shares. 0 \<le> ts_input s \<and> 0 \<le> ts_output s"
proof -
  define weights where "weights = (if mc_messages e = [] then [0]
    else map (\<lambda>m. int (str_len (msg_content m))) (mc_messages e))"
  define leaves where "leaves = (if mc_messages e = [] then [UNTAGGED]
    else map (\<lambda>m. or_str (provenance m) UNTAGGED) (mc_messages e))"
  have w: "list_all (\<lambda>w. 0 \<le> w) weights" "weights \<noteq> []" "length leaves = length weights"
    by (auto simp: weights_def leaves_def list_all_iff)
  obtain parts where p: "proportional (input_tokens (resp_usage (mc_response e))) weights = Inr parts"
    "length parts = length weights" "sum_list parts = input_tokens (resp_usage (mc_response e))"
    "\<forall>p \<in> set parts. 0 \<le> p"
    using proportional_sum [OF assms(1) w(1,2)] .
  let ?mk = "\<lambda>leaf inp out. share_of (hdr_run_id header, hdr_name header, task_id header, mc_model_id e,
                                 turn, leaf) inp out"
  let ?in = "map (\<lambda>(leaf, inp). ?mk leaf inp 0) (filter (\<lambda>(leaf, inp). inp \<noteq> 0) (zip leaves parts))"
  let ?out = "if output_tokens (resp_usage (mc_response e)) \<noteq> 0
     then [?mk RESPONSE_LEAF 0 (output_tokens (resp_usage (mc_response e)))] else []"
  have "call_shares header turn e = Inr (?in @ ?out)"
    using p(1) by (simp add: call_shares_def Let_def flip: weights_def leaves_def)
  moreover have "(\<Sum>s \<leftarrow> ?in. ts_input s) = sum_list parts"
    using sum_zip_filter [of leaves parts] w(3) p(2) by (simp add: comp_def case_prod_beta)
  moreover have "(\<Sum>s \<leftarrow> ?in. ts_output s) = 0" by (simp add: comp_def case_prod_beta sum_list_map_zero)
  moreover have "\<forall>s \<in> set ?in. 0 \<le> ts_input s \<and> 0 \<le> ts_output s"
    using p(4) by (auto dest!: set_zip_rightD)
  moreover have "(\<Sum>s \<leftarrow> ?out. ts_input s) = 0"
    "(\<Sum>s \<leftarrow> ?out. ts_output s) = output_tokens (resp_usage (mc_response e))"
    "\<forall>s \<in> set ?out. 0 \<le> ts_input s \<and> 0 \<le> ts_output s" using assms(2) by simp_all
  ultimately show ?thesis using that [of "?in @ ?out"] p(3)
    by (simp only: map_append sum_list_append set_append ball_Un)
qed

lemma shares_loop_ok:
  "list_all usage_ok es \<Longrightarrow> \<exists>shares. shares_loop header turn es = Inr shares
     \<and> (\<Sum>s \<leftarrow> shares. ts_input s) = (\<Sum>u \<leftarrow> call_usages es. input_tokens u)
     \<and> (\<Sum>s \<leftarrow> shares. ts_output s) = (\<Sum>u \<leftarrow> call_usages es. output_tokens u)
     \<and> (\<forall>s \<in> set shares. 0 \<le> ts_input s \<and> 0 \<le> ts_output s)"
proof (induction header turn es rule: shares_loop.induct)
  case (2 header turn e es)
  then obtain rest where r: "shares_loop header (turn + 1) es = Inr rest"
    "(\<Sum>s \<leftarrow> rest. ts_input s) = (\<Sum>u \<leftarrow> call_usages es. input_tokens u)"
    "(\<Sum>s \<leftarrow> rest. ts_output s) = (\<Sum>u \<leftarrow> call_usages es. output_tokens u)"
    "\<forall>s \<in> set rest. 0 \<le> ts_input s \<and> 0 \<le> ts_output s"
    by auto
  have "0 \<le> input_tokens (resp_usage (mc_response e))" "0 \<le> output_tokens (resp_usage (mc_response e))"
    using 2(2) by (auto simp: usage_ok_def)
  from call_shares_ok [OF this, of header turn]
  obtain shares where "call_shares header turn e = Inr shares"
    "(\<Sum>s \<leftarrow> shares. ts_input s) = input_tokens (resp_usage (mc_response e))"
    "(\<Sum>s \<leftarrow> shares. ts_output s) = output_tokens (resp_usage (mc_response e))"
    "\<forall>s \<in> set shares. 0 \<le> ts_input s \<and> 0 \<le> ts_output s"
    by blast
  with r show ?case by auto
qed (auto simp: usage_ok_def)

lemma usage_totals_sums:
  "usage_totals es = (\<Sum>u \<leftarrow> call_usages (map event es). input_tokens u,
                      \<Sum>u \<leftarrow> call_usages (map event es). output_tokens u)"
proof -
  have "foldl (\<lambda>(inp, out) u. (inp + input_tokens u, out + output_tokens u)) (i, n) us
      = (i + (\<Sum>u \<leftarrow> us. input_tokens u), n + (\<Sum>u \<leftarrow> us. output_tokens u))" for i n and us :: "usage list"
    by (induction us arbitrary: i n) auto
  then show ?thesis by (simp add: usage_totals_def)
qed

lemma key_sum_nonneg: "\<forall>s \<in> set shares. 0 \<le> f s \<Longrightarrow> 0 \<le> key_sum f shares k"
  unfolding key_sum_def by (rule sum_list_nonneg) auto

lemma attribute_tokens_ok:
  assumes "list_all usage_ok (map event es)"
  obtains shares where "attribute_tokens header es = Inr shares"
    "(\<Sum>s \<leftarrow> shares. ts_input s, \<Sum>s \<leftarrow> shares. ts_output s) = usage_totals es"
    "distinct (map key_of shares)"
    "\<forall>s \<in> set shares. 0 \<le> ts_input s \<and> 0 \<le> ts_output s \<and> 0 < share_tokens s"
proof -
  obtain raw where r: "shares_loop header 0 (map event es) = Inr raw"
    "(\<Sum>s \<leftarrow> raw. ts_input s) = (\<Sum>u \<leftarrow> call_usages (map event es). input_tokens u)"
    "(\<Sum>s \<leftarrow> raw. ts_output s) = (\<Sum>u \<leftarrow> call_usages (map event es). output_tokens u)"
    "\<forall>s \<in> set raw. 0 \<le> ts_input s \<and> 0 \<le> ts_output s"
    using shares_loop_ok [OF assms] by blast
  have "0 \<le> ts_input s \<and> 0 \<le> ts_output s \<and> 0 < share_tokens s" if "s \<in> set (merge_shares raw)" for s
  proof -
    have "0 \<le> ts_input s" "0 \<le> ts_output s"
      using merge_shares_spec(4) [OF that] r(4) by (auto simp: key_sum_nonneg)
    then show ?thesis using merge_shares_spec(4) [OF that] by (auto simp: share_tokens_def)
  qed
  then show ?thesis
    using that [of "merge_shares raw"] r merge_shares_spec(1-3) [where shares = raw]
    by (simp add: attribute_tokens_def usage_totals_sums)
qed

section \<open>Properties\<close>

text \<open>
  The largest-remainder split, on every input. It raises, and then \<open>ValueError\<close>, exactly when the total or one of the weights is
  negative. Otherwise, for weights not all zero, the total is split
  into parts that sum to it exactly; each part is the floor of its exact share or one more, one
  more only where the share is not whole; and the extra units go to the largest remainders, ties to the
  earlier index. Weights that are all zero park the whole total on the first slot, and without weights there are no parts.
\<close>

theorem proportional_spec:
  "(proportional tot weights = Inl e \<longleftrightarrow> e = ValueError \<and> (tot < 0 \<or> (\<exists>w \<in> set weights. w < 0)))
   \<and> (0 \<le> tot \<longrightarrow> list_all (\<lambda>w. 0 \<le> w) weights \<longrightarrow> 0 < sum_list weights \<longrightarrow>
      (\<exists>parts. proportional tot weights = Inr parts \<and> length parts = length weights \<and> sum_list parts = tot
       \<and> (\<forall>i < length weights. parts ! i = tot * weights ! i div sum_list weights
            \<or> (parts ! i = tot * weights ! i div sum_list weights + 1 \<and> 0 < tot * weights ! i mod sum_list weights))
       \<and> (\<forall>i < length weights. \<forall>j < length weights.
            parts ! i = tot * weights ! i div sum_list weights + 1 \<longrightarrow>
            parts ! j = tot * weights ! j div sum_list weights \<longrightarrow>
            (- (tot * weights ! i mod sum_list weights), i) \<le> (- (tot * weights ! j mod sum_list weights), j))))
   \<and> (0 \<le> tot \<longrightarrow> proportional tot (replicate (Suc n) 0) = Inr (tot # replicate n 0) \<and> proportional tot [] = Inr [])"
proof -
  have "0 \<le> tot \<longrightarrow> proportional tot (replicate (Suc n) 0) = Inr (tot # replicate n 0) \<and> proportional tot [] = Inr []"
    using proportional_massless [of tot "replicate (Suc n) 0"] by (auto simp: proportional_def sum_list_replicate list_all_iff)
  then show ?thesis using proportional_error proportional_split by blast
qed

theorem proportional_spec_witness:
  "proportional 3 [2, 5, -1] = Inl ValueError \<and> proportional 3 [0, 0] = Inr [3, 0]
   \<and> (\<exists>parts. proportional 10 [1, 2, 4] = Inr parts \<and> sum_list parts = 10)"
proof (intro conjI)
  show "proportional 3 [2, 5, -1] = Inl ValueError"
    using proportional_spec [of 3 "[2, 5, -1]" ValueError, THEN conjunct1] by simp
  show "proportional 3 [0, 0] = Inr [3, 0]" using proportional_spec [of 3 "[]" ValueError 1] by simp
  have "0 \<le> (10 :: int)" "list_all (\<lambda>w. 0 \<le> w) [1, 2, 4 :: int]" "0 < sum_list [1, 2, 4 :: int]" by simp_all
  from proportional_spec [THEN conjunct2, THEN conjunct1, rule_format, OF this]
  show "\<exists>parts. proportional 10 [1, 2, 4] = Inr parts \<and> sum_list parts = 10" by blast
qed

text \<open>
  C34. Attribution conserves tokens: for a run whose recorded usages are non-negative, the shares of
  \<open>attribute_tokens\<close> sum to exactly the measured input and output totals of the run, whatever the
  messages' lengths and provenance; no two shares have the same stack key and none is empty.
\<close>

theorem attribution_conserves:
  "list_all usage_ok (map event es) \<Longrightarrow>
   \<exists>shares. attribute_tokens header es = Inr shares
     \<and> (\<Sum>s \<leftarrow> shares. ts_input s, \<Sum>s \<leftarrow> shares. ts_output s) = usage_totals es
     \<and> distinct (map key_of shares)
     \<and> (\<forall>s \<in> set shares. 0 \<le> ts_input s \<and> 0 \<le> ts_output s \<and> 0 < share_tokens s)"
  by (rule attribute_tokens_ok [of es header]) auto

definition ex_run_header :: run_header where
  "ex_run_header = \<lparr>hdr_run_id = ''r'', hdr_name = ''fix'', started_at = 0, finished_at = Some 1,
     hdr_status = Running, schema_version = 1, hdr_models = [], command = None, redacted = False,
     task_id = None\<rparr>"

theorem attribution_conserves_witness:
  "list_all usage_ok (map event ex_log) \<and> call_usages (map event ex_log) \<noteq> []
   \<and> (\<exists>shares. attribute_tokens ex_run_header ex_log = Inr shares
     \<and> (\<Sum>s \<leftarrow> shares. ts_input s, \<Sum>s \<leftarrow> shares. ts_output s) = usage_totals ex_log)"
proof -
  have "list_all usage_ok (map event ex_log)" "call_usages (map event ex_log) \<noteq> []"
    by (simp_all add: ex_log_def ex_defs usage_ok_def)
  then show ?thesis using attribution_conserves [of ex_log ex_run_header] by auto
qed

end
