(* ===== verification/Protobuf.thy ===== *)
theory Protobuf
  imports Prelude
begin

text \<open>
  The protobuf wire format (\<open>src/tracewake/pprof.py\<close>): the varint writer and reader, the field
  encoders, and the loop every decoder of that file runs over the fields of a message. The lemmas show
  that the reader inverts the writer up to the reader's limit of 77 bits, that the decoding loop ends,
  and that decoding a written message is folding the decoder's step over the fields written.

  \<open>bytes\<close> are strings (see \<open>Prelude\<close>); integers are Python's unbounded ones.
\<close>

unbundle bit_operations_syntax

section \<open>Writing\<close>

text \<open>The loop of \<open>_varint\<close>; it is entered with a non-negative number.\<close>

function varint_bytes :: "int \<Rightarrow> string" where
  "varint_bytes n =
     (if n > 127 then char_of ((n AND 127) OR 128) # varint_bytes (drop_bit 7 n)
      else [char_of (n AND 127)])"
  by pat_completeness auto
termination
  by (relation "measure nat") (auto simp: drop_bit_eq_div nat_less_eq_zless)

declare varint_bytes.simps [simp del]

definition varint :: "int \<Rightarrow> string res" where
  "varint n = (if n < 0 then Inl ValueError else Inr (varint_bytes n))"

definition pb_tag :: "int \<Rightarrow> int \<Rightarrow> string res" where
  "pb_tag field wire = varint (push_bit 3 field OR wire)"

definition encode_varint_field :: "int \<Rightarrow> int \<Rightarrow> string res" where
  "encode_varint_field field val =
     (if val = 0 then Inr []
      else bind_res (pb_tag field 0) (\<lambda>t. bind_res (varint val) (\<lambda>v. Inr (t @ v))))"

definition encode_bytes_field :: "int \<Rightarrow> string \<Rightarrow> string res" where
  "encode_bytes_field field raw =
     bind_res (pb_tag field 2) (\<lambda>t. bind_res (varint (int (length raw))) (\<lambda>l. Inr (t @ l @ raw)))"

definition encode_string_field :: "int \<Rightarrow> string \<Rightarrow> string res" where
  "encode_string_field field text = encode_bytes_field field text"

definition encode_message_field :: "int \<Rightarrow> string \<Rightarrow> string res" where
  "encode_message_field field body = encode_bytes_field field body"

section \<open>Reading\<close>

text \<open>The loop of \<open>_read_varint\<close> from index \<open>i\<close> with its two accumulators.\<close>

function read_varint_loop :: "string \<Rightarrow> nat \<Rightarrow> nat \<Rightarrow> int \<Rightarrow> (int \<times> nat) res" where
  "read_varint_loop buf i shift val =
     (if i \<ge> length buf then Inl ValueError
      else
        let byte = int (byte_val (buf ! i));
            val' = val OR push_bit shift (byte AND 127)
        in if byte AND 128 = 0 then Inr (val', i + 1)
           else if shift + 7 > 70 then Inl ValueError
           else read_varint_loop buf (i + 1) (shift + 7) val')"
  by pat_completeness auto
termination
  by (relation "measure (\<lambda>(buf, i, shift, val). length buf - i)") auto

declare read_varint_loop.simps [simp del]

definition read_varint :: "string \<Rightarrow> nat \<Rightarrow> (int \<times> nat) res" where
  "read_varint buf i = read_varint_loop buf i 0 0"

text \<open>
  One turn of a decoder's \<open>while\<close>: the key, then the payload its wire type announces. A slice past the
  end of the buffer is short, as in Python, and the index still moves by the announced length. Every
  decoder of the file reads its fields this way and refuses the other wire types; the ones that take
  varints only refuse a length-delimited field in their step, also with \<open>ValueError\<close>.
\<close>

datatype field_data = VarintF int | BytesF string

type_synonym pb_field = "int \<times> field_data"

definition read_field :: "string \<Rightarrow> nat \<Rightarrow> (pb_field \<times> nat) res" where
  "read_field buf i =
     bind_res (read_varint buf i) (\<lambda>(key, i).
       let field = drop_bit 3 key; wire = key AND 7
       in if wire = 0 then bind_res (read_varint buf i) (\<lambda>(v, i). Inr ((field, VarintF v), i))
          else if wire \<noteq> 2 then Inl ValueError
          else bind_res (read_varint buf i) (\<lambda>(len, i).
                 Inr ((field, BytesF (take (nat len) (drop i buf))), i + nat len)))"

lemma bind_res_cong [fundef_cong]:
  "r = r' \<Longrightarrow> (\<And>x. r' = Inr x \<Longrightarrow> f x = g x) \<Longrightarrow> bind_res r f = bind_res r' g"
  by (cases r') auto

lemma read_varint_loop_advances: "read_varint_loop buf i shift val = Inr (v, j) \<Longrightarrow> i < j"
proof (induction buf i shift val rule: read_varint_loop.induct)
  case (1 buf i shift val)
  then show ?case
    by (subst (asm) (2) read_varint_loop.simps) (fastforce simp: Let_def split: if_splits)
qed

lemma read_varint_advances: "read_varint buf i = Inr (v, j) \<Longrightarrow> i < j"
  unfolding read_varint_def by (rule read_varint_loop_advances)

lemma read_field_advances: "read_field buf i = Inr (f, j) \<Longrightarrow> i < j"
  by (fastforce simp: read_field_def bind_res_eq_Inr Let_def dest!: read_varint_advances split: if_splits prod.splits)

function decode_loop :: "(pb_field \<Rightarrow> 's \<Rightarrow> 's res) \<Rightarrow> string \<Rightarrow> nat \<Rightarrow> 's \<Rightarrow> 's res" where
  "decode_loop step buf i s =
     (if i < length buf then
        bind_res (read_field buf i) (\<lambda>r. bind_res (step (fst r) s) (\<lambda>s'. decode_loop step buf (snd r) s'))
      else Inr s)"
  by pat_completeness auto
termination
proof (relation "measure (\<lambda>(step, buf, i, s). length buf - i)", goal_cases)
  case (2 step buf i s r s')
  then show ?case using read_field_advances [of buf i "fst r" "snd r"] by simp
qed simp

declare decode_loop.simps [simp del]

section \<open>Bit arithmetic\<close>

named_theorems bit_facts \<open>the bit operations of the wire format as arithmetic\<close>

lemma and_127 [bit_facts]: "n AND 127 = n mod (128 :: int)"
proof -
  have "n AND mask 7 = n mod 2 ^ 7" by (simp only: take_bit_eq_mask [symmetric] take_bit_eq_mod)
  then show ?thesis by (simp add: mask_eq_exp_minus_1)
qed

lemma and_7 [bit_facts]: "n AND 7 = n mod (8 :: int)"
proof -
  have "n AND mask 3 = n mod 2 ^ 3" by (simp only: take_bit_eq_mask [symmetric] take_bit_eq_mod)
  then show ?thesis by (simp add: mask_eq_exp_minus_1)
qed

lemma or_high:
  assumes "0 \<le> x" "x < (2 ^ k :: int)"
  shows "x OR push_bit k y = x + y * 2 ^ k"
proof -
  have "\<not> bit x n" if "k \<le> n" for n
  proof -
    have "(2 :: int) ^ k \<le> 2 ^ n" using that by simp
    then have "x < 2 ^ n" using assms(2) by (rule less_le_trans [rotated])
    then have "x div 2 ^ n = 0" using assms(1) by (intro div_pos_pos_trivial)
    then show ?thesis by (simp add: bit_iff_odd)
  qed
  then have "x AND push_bit k y = 0" by (intro bit_eqI) (auto simp: bit_and_iff bit_push_bit_iff)
  then show ?thesis by (simp add: disjunctive_add_eq_or [symmetric] push_bit_eq_mult)
qed

lemma or_128 [bit_facts]: "0 \<le> x \<Longrightarrow> x < 128 \<Longrightarrow> x OR 128 = x + (128 :: int)"
  using or_high [of x 7 1] by (simp add: push_bit_eq_mult)

lemma tag_sum [bit_facts]: "0 \<le> w \<Longrightarrow> w < 8 \<Longrightarrow> push_bit 3 f OR w = f * 8 + (w :: int)"
  using or_high [of w 3 f] by (simp add: or.commute)

lemma and_128 [bit_facts]: "0 \<le> n \<Longrightarrow> n < 256 \<Longrightarrow> n AND 128 = 0 \<longleftrightarrow> n < (128 :: int)"
proof -
  assume n: "0 \<le> n" "n < 256"
  have "n AND 2 ^ 7 = 0 \<longleftrightarrow> \<not> bit n 7" by (rule and_exp_eq_0_iff_not_bit)
  also have "\<dots> \<longleftrightarrow> even (n div 128)" by (simp add: bit_iff_odd)
  finally show ?thesis using n by (cases "n < 128") (auto simp: div_pos_geq)
qed

lemma byte_val_char_of_int [simp]: "0 \<le> n \<Longrightarrow> n < 256 \<Longrightarrow> byte_val (char_of n) = nat n" for n :: int
  by (cases n) auto

section \<open>The reader inverts the writer\<close>

lemma varint_bytes_not_Nil [simp]: "varint_bytes n \<noteq> []"
  by (subst varint_bytes.simps) simp

lemma drop_Cons_nth:
  "drop i xs = y # ys \<Longrightarrow> i < length xs \<and> xs ! i = y \<and> drop (i + 1) xs = ys"
  by (metis Cons_nth_drop_Suc Suc_eq_plus1 drop_all leI list.distinct(1) list.inject)

lemma shift_7: "(2 :: int) ^ (k + 7) = 128 * 2 ^ k"
  by (simp add: power_add)

lemma shift_split: "d * 128 + m = n \<Longrightarrow> m * 2 ^ k + d * 2 ^ (k + 7) = n * (2 ^ k :: int)"
  by (auto simp: shift_7 algebra_simps)

lemma read_varint_loop_varint:
  assumes "drop i buf = varint_bytes n @ rest" "0 \<le> n" "n < 2 ^ (77 - shift)" "7 dvd shift" "shift \<le> 70"
    and "0 \<le> val" "val < 2 ^ shift"
  shows "read_varint_loop buf i shift val = Inr (val + n * 2 ^ shift, i + length (varint_bytes n))"
  using assms
proof (induction n arbitrary: i shift val rule: varint_bytes.induct)
  case (1 n)
  show ?case
  proof (cases "127 < n")
    case False
    have b: "varint_bytes n = [char_of n]" using False 1(3) by (subst varint_bytes.simps) (simp add: bit_facts)
    have d: "i < length buf" "buf ! i = char_of n" using 1(2) drop_Cons_nth [of i buf] b by auto
    then show ?thesis using False 1(3,7,8)
      by (subst read_varint_loop.simps) (simp add: b bit_facts Let_def or_high)
  next
    case True
    let ?c = "char_of (n mod 128 + 128) :: char"
    have b: "varint_bytes n = ?c # varint_bytes (n div 128)"
      using True by (subst varint_bytes.simps) (simp add: bit_facts drop_bit_eq_div)
    have d: "i < length buf" "buf ! i = ?c" "drop (i + 1) buf = varint_bytes (n div 128) @ rest"
      using 1(2) drop_Cons_nth [of i buf] b by auto
    have "(2 :: int) ^ 7 < 2 ^ (77 - shift)" using True 1(4) by simp
    then have "7 < 77 - shift" by (rule power_less_imp_less_exp [rotated]) simp
    then have s: "shift + 7 \<le> 70" using 1(5,6) by presburger
    then have p: "(2 :: int) ^ (77 - shift) = 2 ^ (77 - (shift + 7)) * 128"
      using power_add [of "2 :: int" "70 - shift" 7] by simp
    have v: "byte_val ?c = nat (n mod 128 + 128)" by simp
    have "read_varint_loop buf (i + 1) (shift + 7) (val + n mod 128 * 2 ^ shift)
        = Inr (val + n mod 128 * 2 ^ shift + n div 128 * 2 ^ (shift + 7), i + 1 + length (varint_bytes (n div 128)))"
    proof (rule 1(1) [OF True, unfolded drop_bit_eq_div, simplified, simplified])
      show "drop (i + 1) buf = varint_bytes (n div 128) @ rest" by (rule d(3))
      have "n mod 128 * 2 ^ shift \<le> 127 * 2 ^ shift" by (intro mult_right_mono) auto
      then show "val + n mod 128 * 2 ^ shift < 2 ^ (shift + 7)" using 1(8)
        unfolding shift_7 by linarith
    qed (use 1 s p in auto)
    moreover have "val + n mod 128 * 2 ^ shift + n div 128 * 2 ^ (shift + 7) = val + n * 2 ^ shift"
      using shift_split [of "n div 128" "n mod 128" n shift] by simp
    moreover have "int (byte_val ?c) AND 127 = n mod 128" "int (byte_val ?c) AND 128 \<noteq> 0"
      by (simp_all add: bit_facts)
    ultimately show ?thesis using d(1,2) s 1(7,8)
      by (subst read_varint_loop.simps) (simp add: b Let_def or_high del: push_bit_and)
  qed
qed

lemma read_varint_varint:
  assumes "drop i buf = varint_bytes n @ rest" "0 \<le> n" "n < 2 ^ 77"
  shows "read_varint buf i = Inr (n, i + length (varint_bytes n))"
  using read_varint_loop_varint [of i buf n rest 0 0] assms by (simp add: read_varint_def)

section \<open>Messages as lists of fields\<close>

text \<open>The bytes of a field, and the fields the reader can represent.\<close>

fun field_bytes :: "pb_field \<Rightarrow> string" where
  "field_bytes (f, VarintF v) = varint_bytes (f * 8) @ varint_bytes v"
| "field_bytes (f, BytesF b) = varint_bytes (f * 8 + 2) @ varint_bytes (int (length b)) @ b"

definition message_bytes :: "pb_field list \<Rightarrow> string" where
  "message_bytes fs = concat (map field_bytes fs)"

fun field_ok :: "pb_field \<Rightarrow> bool" where
  "field_ok (f, VarintF v) \<longleftrightarrow> 0 \<le> f \<and> f < 2 ^ 70 \<and> 0 \<le> v \<and> v < 2 ^ 77"
| "field_ok (f, BytesF b) \<longleftrightarrow> 0 \<le> f \<and> f < 2 ^ 70 \<and> int (length b) < 2 ^ 77"

lemma message_bytes_simps [simp]:
  "message_bytes [] = []" "message_bytes (f # fs) = field_bytes f @ message_bytes fs"
  "message_bytes (fs @ gs) = message_bytes fs @ message_bytes gs"
  by (simp_all add: message_bytes_def)

lemma field_bytes_not_Nil [simp]: "field_bytes f \<noteq> []"
  by (cases f rule: field_bytes.cases) auto

lemma drop_append_length: "drop i xs = ys @ zs \<Longrightarrow> drop (i + length ys) xs = zs"
  by (metis add.commute append_eq_conv_conj drop_drop)

text \<open>A proto3 field is left out at its default.\<close>

definition nonzero :: "int \<Rightarrow> int \<Rightarrow> pb_field list" where
  "nonzero f v = (if v = 0 then [] else [(f, VarintF v)])"

lemma encode_varint_field_nonneg:
  "0 \<le> f \<Longrightarrow> 0 \<le> v \<Longrightarrow> encode_varint_field f v = Inr (message_bytes (nonzero f v))"
  using tag_sum [of 0 f] by (simp add: encode_varint_field_def pb_tag_def varint_def nonzero_def)

lemma encode_bytes_field_nonneg:
  "0 \<le> f \<Longrightarrow> encode_bytes_field f b = Inr (message_bytes [(f, BytesF b)])"
  by (simp add: encode_bytes_field_def pb_tag_def varint_def tag_sum)

lemmas encode_fields = encode_varint_field_nonneg encode_bytes_field_nonneg encode_message_field_def
  encode_string_field_def

lemma read_field_bytes:
  assumes d: "drop i buf = field_bytes fd @ rest" and ok: "field_ok fd"
  shows "read_field buf i = Inr (fd, i + length (field_bytes fd))"
proof (cases fd rule: field_bytes.cases)
  case (1 f v)
  then have k: "drop i buf = varint_bytes (f * 8) @ varint_bytes v @ rest" "0 \<le> f * 8" "f * 8 < 2 ^ 77"
    using d ok by auto
  have "drop (i + length (varint_bytes (f * 8))) buf = varint_bytes v @ rest"
    by (rule drop_append_length [OF k(1)])
  then have "read_varint buf (i + length (varint_bytes (f * 8)))
      = Inr (v, i + length (varint_bytes (f * 8)) + length (varint_bytes v))"
    using read_varint_varint ok 1 by auto
  then show ?thesis
    using read_varint_varint [OF k] 1 by (simp add: read_field_def bit_facts drop_bit_eq_div Let_def)
next
  case (2 f b)
  let ?key = "f * 8 + 2"
  have k: "drop i buf = varint_bytes ?key @ (varint_bytes (int (length b)) @ b @ rest)" "0 \<le> ?key" "?key < 2 ^ 77"
    using d ok 2 by auto
  let ?i = "i + length (varint_bytes ?key)"
  have l: "drop ?i buf = varint_bytes (int (length b)) @ b @ rest" by (rule drop_append_length [OF k(1)])
  then have b: "drop (?i + length (varint_bytes (int (length b)))) buf = b @ rest" by (rule drop_append_length)
  have "read_varint buf ?i = Inr (int (length b), ?i + length (varint_bytes (int (length b))))"
    using read_varint_varint [OF l] ok 2 by auto
  moreover have "?key mod 8 = 2" "?key div 8 = f" by presburger+
  ultimately show ?thesis
    using read_varint_varint [OF k] 2 b by (simp add: read_field_def bit_facts drop_bit_eq_div Let_def)
qed

lemma decode_loop_fields:
  assumes "drop i buf = message_bytes fs" "list_all field_ok fs"
  shows "decode_loop step buf i s = fold_res step fs s"
  using assms
proof (induction fs arbitrary: i s)
  case Nil
  then show ?case by (subst decode_loop.simps) simp
next
  case (Cons f fs)
  have r: "read_field buf i = Inr (f, i + length (field_bytes f))"
    by (rule read_field_bytes) (use Cons.prems in auto)
  have d: "drop (i + length (field_bytes f)) buf = message_bytes fs"
    by (rule drop_append_length) (use Cons.prems in simp)
  have "i < length buf" using Cons.prems(1) by (cases "i < length buf") auto
  moreover have "decode_loop step buf (i + length (field_bytes f)) = fold_res step fs"
    using Cons.IH [OF d] Cons.prems(2) by (intro ext) simp
  ultimately show ?case
    by (subst decode_loop.simps) (simp add: r)
qed

lemma decode_message: "list_all field_ok fs \<Longrightarrow> decode_loop step (message_bytes fs) 0 s = fold_res step fs s"
  by (rule decode_loop_fields) simp_all

lemma fold_res_append: "fold_res f (xs @ ys) s = bind_res (fold_res f xs s) (fold_res f ys)"
  by (induction xs arbitrary: s) (auto simp: bind_res_def split: sum.splits)

section \<open>Properties\<close>

text \<open>
  Varints round trip up to the reader's limit: a non-negative number below \<open>2 ^ 77\<close> written anywhere in a
  buffer is read back with the index after it; a negative number is refused by the writer.
\<close>

theorem varint_roundtrip:
  "n < 2 ^ 77 \<Longrightarrow>
   (case varint n of
      Inl e \<Rightarrow> n < 0 \<and> e = ValueError
    | Inr bs \<Rightarrow> 0 \<le> n \<and> read_varint (pre @ bs @ rest) (length pre) = Inr (n, length pre + length bs))"
  using read_varint_varint [of "length pre" "pre @ varint_bytes n @ rest" n rest] by (simp add: varint_def)

theorem varint_roundtrip_witness:
  "(300 :: int) < 2 ^ 77 \<and> varint 300 = Inr [char_of (172 :: int), char_of (2 :: int)]
   \<and> read_varint (''x'' @ varint_bytes 300 @ ''y'') 1 = Inr (300, 3)"
proof -
  have v: "varint_bytes 300 = [char_of (172 :: int), char_of (2 :: int)]"
    by (simp add: varint_bytes.simps bit_facts drop_bit_eq_div)
  show ?thesis using varint_roundtrip [of 300 "''x''" "''y''"] by (simp add: varint_def v)
qed

end
