(* ===== verification/Profile.thy ===== *)
theory Profile
  imports Tokens Protobuf
begin

text \<open>
  The pprof profile of a run (\<open>src/tracewake/pprof.py\<close>): the interning profile builder, its
  serialisation, the decoders, and \<open>build_token_profile\<close>. The locale \<open>interner\<close> is the contract the
  builder's three tables share. The lemmas show that decoding what was built gives back the run's
  shares, stack by stack, and with them exactly the measured token totals.

  Not modelled: the gzip wrapper and the text table \<open>format_top\<close>.
\<close>

section \<open>The builder\<close>

text \<open>
  \<open>_Profile\<close>, its dictionaries in insertion order. The object lives inside \<open>build_token_profile\<close>, so an
  operation that raises loses it and a result carries the new state.
\<close>

record profile =
  p_strings :: "string list"
  string_index :: "(string \<times> nat) list"
  p_functions :: "string list"
  p_locations :: "string list"
  p_samples :: "string list"
  function_ids :: "(string \<times> nat) list"
  location_ids :: "(nat \<times> nat) list"

definition new_profile :: profile where
  "new_profile = \<lparr>p_strings = [[]], string_index = [([], 0)], p_functions = [], p_locations = [],
     p_samples = [], function_ids = [], location_ids = []\<rparr>"

definition intern_string :: "profile \<Rightarrow> string \<Rightarrow> (nat \<times> profile) res" where
  "intern_string p text =
     (case map_of (string_index p) text of
        Some found \<Rightarrow> Inr (found, p)
      | None \<Rightarrow>
          let index = length (p_strings p)
          in Inr (index, p\<lparr>p_strings := p_strings p @ [text],
                          string_index := AList.update text index (string_index p)\<rparr>))"

definition intern_function :: "profile \<Rightarrow> string \<Rightarrow> (nat \<times> profile) res" where
  "intern_function p name =
     (case map_of (function_ids p) name of
        Some found \<Rightarrow> Inr (found, p)
      | None \<Rightarrow>
          let fid = length (p_functions p) + 1
          in bind_res (intern_string p name) (\<lambda>(name_i, p).
             bind_res (encode_varint_field 1 (int fid)) (\<lambda>b1.
             bind_res (encode_varint_field 2 (int name_i)) (\<lambda>b2.
             bind_res (encode_varint_field 3 (int name_i)) (\<lambda>b3.
               Inr (fid, p\<lparr>p_functions := p_functions p @ [b1 @ b2 @ b3],
                          function_ids := AList.update name fid (function_ids p)\<rparr>))))))"

definition location_for :: "profile \<Rightarrow> nat \<Rightarrow> (nat \<times> profile) res" where
  "location_for p function_id =
     (case map_of (location_ids p) function_id of
        Some found \<Rightarrow> Inr (found, p)
      | None \<Rightarrow>
          let lid = length (p_locations p) + 1
          in bind_res (encode_varint_field 1 (int function_id)) (\<lambda>line.
             bind_res (encode_varint_field 1 (int lid)) (\<lambda>b1.
             bind_res (encode_message_field 4 line) (\<lambda>b4.
               Inr (lid, p\<lparr>p_locations := p_locations p @ [b1 @ b4],
                          location_ids := AList.update function_id lid (location_ids p)\<rparr>)))))"

text \<open>A comprehension that threads the builder: the results in order and the last state.\<close>

fun map_state :: "('s \<Rightarrow> 'a \<Rightarrow> ('b \<times> 's) res) \<Rightarrow> 's \<Rightarrow> 'a list \<Rightarrow> ('b list \<times> 's) res" where
  "map_state f s [] = Inr ([], s)"
| "map_state f s (x # xs) =
     bind_res (f s x) (\<lambda>(y, s). bind_res (map_state f s xs) (\<lambda>(ys, s). Inr (y # ys, s)))"

definition location_of_name :: "profile \<Rightarrow> string \<Rightarrow> (nat \<times> profile) res" where
  "location_of_name p name = bind_res (intern_function p name) (\<lambda>(fid, p). location_for p fid)"

definition sample_value :: "int \<Rightarrow> string res" where
  "sample_value v =
     (if v < 0 then Inl ValueError
      else bind_res (pb_tag 2 0) (\<lambda>t. bind_res (varint v) (\<lambda>b. Inr (t @ b))))"

definition add_sample :: "profile \<Rightarrow> string list \<Rightarrow> int list \<Rightarrow> profile res" where
  "add_sample p stack_names vals =
     bind_res (map_state location_of_name p (rev stack_names)) (\<lambda>(ids, p).
     bind_res (map_res (\<lambda>i. encode_varint_field 1 (int i)) ids) (\<lambda>body.
     bind_res (map_res sample_value vals) (\<lambda>vs.
       Inr (p\<lparr>p_samples := p_samples p @ [concat body @ concat vs]\<rparr>))))"

definition type_message :: "profile \<Rightarrow> string \<times> string \<Rightarrow> (string \<times> profile) res" where
  "type_message p tu =
     bind_res (intern_string p (fst tu)) (\<lambda>(t, p).
     bind_res (encode_varint_field 1 (int t)) (\<lambda>b1.
     bind_res (intern_string p (snd tu)) (\<lambda>(u, p).
     bind_res (encode_varint_field 2 (int u)) (\<lambda>b2. Inr (b1 @ b2, p)))))"

definition serialize ::
  "profile \<Rightarrow> (string \<times> string) list \<Rightarrow> int \<Rightarrow> int \<Rightarrow> string list \<Rightarrow> string res" where
  "serialize p sample_types time_nanos duration_nanos cs =
     bind_res (map_state type_message p sample_types) (\<lambda>(type_msgs, p).
     bind_res (map_state intern_string p cs) (\<lambda>(comment_ids, p).
     bind_res (map_res (encode_message_field 1) type_msgs) (\<lambda>b1.
     bind_res (map_res (encode_message_field 2) (p_samples p)) (\<lambda>b2.
     bind_res (map_res (encode_message_field 4) (p_locations p)) (\<lambda>b4.
     bind_res (map_res (encode_message_field 5) (p_functions p)) (\<lambda>b5.
     bind_res (map_res (encode_string_field 6) (p_strings p)) (\<lambda>b6.
     bind_res (if time_nanos \<noteq> 0 then encode_varint_field 9 time_nanos else Inr []) (\<lambda>b9.
     bind_res (if duration_nanos \<noteq> 0 then encode_varint_field 10 duration_nanos else Inr []) (\<lambda>b10.
     bind_res (map_res (\<lambda>c. encode_varint_field 13 (int c)) comment_ids) (\<lambda>b13.
       Inr (concat b1 @ concat b2 @ concat b4 @ concat b5 @ concat b6 @ b9 @ b10 @ concat b13)))))))))))"

text \<open>The first twelve characters of a run id.\<close>

definition stack_of :: "token_share \<Rightarrow> string list" where
  "stack_of s =
     [''run:'' @ or_str (ts_task_id s) (or_str (Some (ts_run_name s)) (take_chars 12 (ts_run_id s))),
      ''model:'' @ ts_model_id s,
      ''turn:'' @ nat_str (ts_turn s + 1),
      ts_leaf s]"

definition started_nanos :: "run_header \<Rightarrow> int" where
  "started_nanos h = trunc (started_at h * 1000000000)"

definition duration_nanos_of :: "run_header \<Rightarrow> int" where
  "duration_nanos_of h =
     (case finished_at h of None \<Rightarrow> 0
      | Some t \<Rightarrow> max 0 (trunc ((t - started_at h) * 1000000000)))"

definition profile_comments :: "run_header \<Rightarrow> string list" where
  "profile_comments h =
     [''tracewake token profile'',
      ''input tokens split across context blocks by character share (proportional, not measured per block)'',
      ''run '' @ hdr_run_id h]"

definition add_shares :: "token_share list \<Rightarrow> profile \<Rightarrow> profile res" where
  "add_shares = fold_res (\<lambda>s p. add_sample p (stack_of s) [ts_input s, ts_output s])"

definition sample_types_of_profile :: "(string \<times> string) list" where
  "sample_types_of_profile = [(''input_tokens'', ''count''), (''output_tokens'', ''count'')]"

definition build_token_profile :: "run_header \<Rightarrow> stored_event list \<Rightarrow> string res" where
  "build_token_profile header es =
     bind_res (attribute_tokens header es) (\<lambda>shares.
     bind_res (add_shares shares new_profile) (\<lambda>p.
       serialize p sample_types_of_profile (started_nanos header) (duration_nanos_of header)
         (profile_comments header)))"

section \<open>The decoders\<close>

fun value_type_step :: "pb_field \<Rightarrow> int \<times> int \<Rightarrow> (int \<times> int) res" where
  "value_type_step (f, VarintF v) (t, u) = Inr (if f = 1 then (v, u) else if f = 2 then (t, v) else (t, u))"
| "value_type_step (f, BytesF b) tu = Inl ValueError"

definition decode_value_type :: "string \<Rightarrow> (int \<times> int) res" where
  "decode_value_type chunk = decode_loop value_type_step chunk 0 (0, 0)"

record sample =
  sample_locations :: "int list"
  sample_values :: "int list"

fun sample_step :: "pb_field \<Rightarrow> sample \<Rightarrow> sample res" where
  "sample_step (f, VarintF v) s =
     Inr (if f = 1 then s\<lparr>sample_locations := sample_locations s @ [v]\<rparr>
          else if f = 2 then s\<lparr>sample_values := sample_values s @ [v]\<rparr> else s)"
| "sample_step (f, BytesF b) s = Inr s"

definition decode_sample :: "string \<Rightarrow> sample res" where
  "decode_sample chunk = decode_loop sample_step chunk 0 \<lparr>sample_locations = [], sample_values = []\<rparr>"

fun line_step :: "pb_field \<Rightarrow> int \<Rightarrow> int res" where
  "line_step (f, VarintF v) fid = Inr (if f = 1 then v else fid)"
| "line_step (f, BytesF b) fid = Inl ValueError"

definition decode_line_function :: "string \<Rightarrow> int res" where
  "decode_line_function chunk = decode_loop line_step chunk 0 0"

fun location_step :: "pb_field \<Rightarrow> int \<times> int \<Rightarrow> (int \<times> int) res" where
  "location_step (f, VarintF v) (lid, fid) = Inr (if f = 1 then v else lid, fid)"
| "location_step (f, BytesF b) (lid, fid) =
     (if f = 4 then bind_res (decode_line_function b) (\<lambda>fid. Inr (lid, fid)) else Inr (lid, fid))"

definition decode_location :: "string \<Rightarrow> (int \<times> int) res" where
  "decode_location chunk = decode_loop location_step chunk 0 (0, 0)"

fun function_step :: "pb_field \<Rightarrow> int \<times> int \<Rightarrow> (int \<times> int) res" where
  "function_step (f, VarintF v) (fid, nm) = Inr (if f = 1 then (v, nm) else if f = 2 then (fid, v) else (fid, nm))"
| "function_step (f, BytesF b) s = Inl ValueError"

definition decode_function :: "string \<Rightarrow> (int \<times> int) res" where
  "decode_function chunk = decode_loop function_step chunk 0 (0, 0)"

text \<open>The accumulators of \<open>decode_profile\<close>.\<close>

record raw_profile =
  raw_types :: "(int \<times> int) list"
  raw_samples :: "sample list"
  raw_locations :: "(int \<times> int) list"
  raw_functions :: "(int \<times> int) list"
  raw_strings :: "string list"
  raw_comments :: "int list"
  raw_time :: int
  raw_duration :: int

fun profile_step :: "pb_field \<Rightarrow> raw_profile \<Rightarrow> raw_profile res" where
  "profile_step (f, VarintF v) r =
     Inr (if f = 9 then r\<lparr>raw_time := v\<rparr>
          else if f = 10 then r\<lparr>raw_duration := v\<rparr>
          else if f = 13 then r\<lparr>raw_comments := raw_comments r @ [v]\<rparr>
          else r)"
| "profile_step (f, BytesF b) r =
     (if f = 1 then bind_res (decode_value_type b) (\<lambda>t. Inr (r\<lparr>raw_types := raw_types r @ [t]\<rparr>))
      else if f = 2 then bind_res (decode_sample b) (\<lambda>s. Inr (r\<lparr>raw_samples := raw_samples r @ [s]\<rparr>))
      else if f = 4 then bind_res (decode_location b) (\<lambda>(lid, fid).
             Inr (r\<lparr>raw_locations := AList.update lid fid (raw_locations r)\<rparr>))
      else if f = 5 then bind_res (decode_function b) (\<lambda>(fid, nm).
             Inr (r\<lparr>raw_functions := AList.update fid nm (raw_functions r)\<rparr>))
      else if f = 6 then bind_res (decode_utf8 b) (\<lambda>s. Inr (r\<lparr>raw_strings := raw_strings r @ [s]\<rparr>))
      else Inr r)"

definition empty_raw :: raw_profile where
  "empty_raw = \<lparr>raw_types = [], raw_samples = [], raw_locations = [], raw_functions = [], raw_strings = [],
     raw_comments = [], raw_time = 0, raw_duration = 0\<rparr>"

text \<open>The dictionary \<open>decode_profile\<close> returns.\<close>

record decoded_profile =
  d_sample_types :: "(string \<times> string) list"
  d_samples :: "sample list"
  d_locations :: "(int \<times> int) list"
  d_functions :: "(int \<times> string) list"
  d_strings :: "string list"
  d_comments :: "string list"
  d_time_nanos :: int
  d_duration_nanos :: int

text \<open>\<open>strings[i]\<close>; an index read from the wire is never negative.\<close>

definition string_at :: "string list \<Rightarrow> int \<Rightarrow> string res" where
  "string_at ss i = (if nat i < length ss then Inr (ss ! nat i) else Inl IndexError)"

definition decode_profile :: "string \<Rightarrow> decoded_profile res" where
  "decode_profile raw =
     bind_res (decode_loop profile_step raw 0 empty_raw) (\<lambda>r.
       if raw_strings r = [] \<or> raw_strings r ! 0 \<noteq> [] then Inl ValueError
       else
         let str = string_at (raw_strings r)
         in bind_res (map_res (\<lambda>(t, u). bind_res (str t) (\<lambda>t. bind_res (str u) (\<lambda>u. Inr (t, u)))) (raw_types r)) (\<lambda>types.
            bind_res (map_res (\<lambda>(fid, n). bind_res (str n) (\<lambda>n. Inr (fid, n))) (raw_functions r)) (\<lambda>funs.
            bind_res (map_res str (raw_comments r)) (\<lambda>cs.
              Inr \<lparr>d_sample_types = types, d_samples = raw_samples r, d_locations = raw_locations r,
                   d_functions = funs, d_strings = raw_strings r, d_comments = cs,
                   d_time_nanos = raw_time r, d_duration_nanos = raw_duration r\<rparr>))))"

definition sample_totals :: "decoded_profile \<Rightarrow> (int \<times> int) res" where
  "sample_totals d =
     fold_res (\<lambda>s (inp, out).
        if length (sample_values s) \<noteq> 2 then Inl ValueError
        else Inr (inp + sample_values s ! 0, out + sample_values s ! 1)) (d_samples d) (0, 0)"

section \<open>Interning\<close>

text \<open>
  An operation that gives keys their numbers (or their encoding) in a growing state: what it has once
  answered stays true. The law the users of the tables need: a list of keys is numbered in one pass.
\<close>

locale tabled =
  fixes rel :: "'s \<Rightarrow> 'k \<Rightarrow> 'i \<Rightarrow> bool" and number :: "'s \<Rightarrow> 'k \<Rightarrow> ('i \<times> 's) res"
    and ok :: "'s \<Rightarrow> bool" and ext :: "'s \<Rightarrow> 's \<Rightarrow> bool" and valid :: "'k \<Rightarrow> bool"
  assumes ext_refl: "ext s s"
    and ext_trans: "ext s t \<Longrightarrow> ext t u \<Longrightarrow> ext s u"
    and rel_ext: "ext s t \<Longrightarrow> rel s k i \<Longrightarrow> rel t k i"
    and number_ok: "ok s \<Longrightarrow> valid k \<Longrightarrow> \<exists>i t. number s k = Inr (i, t) \<and> ok t \<and> ext s t \<and> rel t k i"
begin

lemma number_all:
  "ok s \<Longrightarrow> list_all valid ks \<Longrightarrow> \<exists>is t. map_state number s ks = Inr (is, t) \<and> ok t \<and> ext s t \<and> list_all2 (rel t) ks is"
proof (induction ks arbitrary: s)
  case Nil
  then show ?case by (simp add: ext_refl)
next
  case (Cons k ks)
  obtain i t where t: "number s k = Inr (i, t)" "ok t" "ext s t" "rel t k i"
    using number_ok [OF Cons.prems(1), of k] Cons.prems(2) by auto
  obtain "is" u where u: "map_state number t ks = Inr (is, u)" "ok u" "ext t u" "list_all2 (rel u) ks is"
    using Cons.IH [OF t(2)] Cons.prems(2) by auto
  have "list_all2 (rel u) (k # ks) (i # is)" using u(4) rel_ext [OF u(3) t(4)] by simp
  then show ?case using t(1) u(1,2) ext_trans [OF t(3) u(3)] by auto
qed

end

text \<open>
  A get-or-append table with a dictionary from keys to consecutive numbers, as each of the builder's
  three tables is. \<open>pre\<close> says for which keys a new entry may be made.
\<close>

definition consecutive :: "nat \<Rightarrow> ('k \<times> nat) list \<Rightarrow> bool" where
  "consecutive n d \<longleftrightarrow> map snd d = [n..<n + length d] \<and> distinct (map fst d)"

locale interner =
  fixes dict :: "'s \<Rightarrow> ('k \<times> nat) list" and number :: "'s \<Rightarrow> 'k \<Rightarrow> (nat \<times> 's) res"
    and ok :: "'s \<Rightarrow> bool" and ext :: "'s \<Rightarrow> 's \<Rightarrow> bool" and pre :: "'s \<Rightarrow> 'k \<Rightarrow> bool" and first :: nat
  assumes refl: "ext s s"
    and trans: "ext s t \<Longrightarrow> ext t u \<Longrightarrow> ext s u"
    and dict_ext: "ext s t \<Longrightarrow> set (dict s) \<subseteq> set (dict t)"
    and dict_ok: "ok s \<Longrightarrow> consecutive first (dict s)"
    and hit: "map_of (dict s) k = Some i \<Longrightarrow> number s k = Inr (i, s)"
    and miss: "ok s \<Longrightarrow> pre s k \<Longrightarrow> map_of (dict s) k = None \<Longrightarrow>
      \<exists>t. number s k = Inr (first + length (dict s), t) \<and> ok t \<and> ext s t
        \<and> dict t = dict s @ [(k, first + length (dict s))]"
begin

lemma number_entry:
  assumes "ok s" "pre s k"
  shows "\<exists>i t. number s k = Inr (i, t) \<and> ok t \<and> ext s t \<and> (k, i) \<in> set (dict t)"
proof (cases "map_of (dict s) k")
  case None
  then show ?thesis using miss [OF assms] by fastforce
next
  case (Some i)
  then show ?thesis using hit assms(1) refl by (blast dest: map_of_SomeD)
qed

lemma number_again: "number s k = Inr (i, t) \<Longrightarrow> ok s \<Longrightarrow> pre s k \<Longrightarrow> number t k = Inr (i, t)"
proof -
  assume n: "number s k = Inr (i, t)" and o: "ok s" "pre s k"
  show "number t k = Inr (i, t)"
  proof (cases "map_of (dict s) k")
    case None
    then have "map_of (dict t) k = Some i" using miss [OF o None] n by (auto simp: map_add_def)
    then show ?thesis by (rule hit)
  next
    case (Some j)
    then show ?thesis using hit [OF Some] n by simp
  qed
qed

end

locale total_interner = interner dict number ok ext pre first
  for dict :: "'s \<Rightarrow> ('k \<times> nat) list" and number ok ext pre first +
  fixes valid :: "'k \<Rightarrow> bool"
  assumes always: "valid k \<Longrightarrow> pre s k"

sublocale total_interner \<subseteq> tabled "\<lambda>s k i. (k, i) \<in> set (dict s)" number ok ext valid
  using refl trans dict_ext number_entry always by unfold_locales blast+

section \<open>The builder's invariant\<close>

definition function_fields :: "nat \<Rightarrow> nat \<Rightarrow> pb_field list" where
  "function_fields fid n = nonzero 1 (int fid) @ nonzero 2 (int n) @ nonzero 3 (int n)"

definition location_fields :: "nat \<Rightarrow> nat \<Rightarrow> pb_field list" where
  "location_fields lid fid = nonzero 1 (int lid) @ [(4, BytesF (message_bytes (nonzero 1 (int fid))))]"

definition strings_ok :: "profile \<Rightarrow> bool" where
  "strings_ok p \<longleftrightarrow> consecutive 0 (string_index p) \<and> map fst (string_index p) = p_strings p
     \<and> (\<exists>ss. p_strings p = [] # ss) \<and> list_all utf8_valid (p_strings p)"

definition functions_ok :: "profile \<Rightarrow> bool" where
  "functions_ok p \<longleftrightarrow> consecutive 1 (function_ids p)
     \<and> list_all2 (\<lambda>(name, fid) body. \<exists>n. (name, n) \<in> set (string_index p) \<and> body = message_bytes (function_fields fid n))
         (function_ids p) (p_functions p)"

definition locations_ok :: "profile \<Rightarrow> bool" where
  "locations_ok p \<longleftrightarrow> consecutive 1 (location_ids p)
     \<and> p_locations p = map (\<lambda>(fid, lid). message_bytes (location_fields lid fid)) (location_ids p)
     \<and> fst ` set (location_ids p) \<subseteq> snd ` set (function_ids p)"

definition profile_ok :: "profile \<Rightarrow> bool" where
  "profile_ok p \<longleftrightarrow> strings_ok p \<and> functions_ok p \<and> locations_ok p"

definition grows :: "profile \<Rightarrow> profile \<Rightarrow> bool" where
  "grows p q \<longleftrightarrow> set (string_index p) \<subseteq> set (string_index q) \<and> set (function_ids p) \<subseteq> set (function_ids q)
     \<and> set (location_ids p) \<subseteq> set (location_ids q) \<and> p_samples q = p_samples p"

lemmas profile_ok_defs = profile_ok_def strings_ok_def functions_ok_def locations_ok_def

lemma grows_refl [simp]: "grows p p" and grows_trans: "grows p q \<Longrightarrow> grows q r \<Longrightarrow> grows p r"
  by (auto simp: grows_def)

lemma update_new: "map_of d k = None \<Longrightarrow> AList.update k v d = d @ [(k, v)]"
  by (induction d) (auto split: if_splits)

lemma consecutive_snoc:
  "consecutive n d \<Longrightarrow> map_of d k = None \<Longrightarrow> consecutive n (d @ [(k, n + length d)])"
  by (auto simp: consecutive_def map_of_eq_None_iff)

lemma consecutive_unique: "consecutive n d \<Longrightarrow> (k, i) \<in> set d \<Longrightarrow> (l, i) \<in> set d \<Longrightarrow> k = l"
proof -
  assume c: "consecutive n d" and m: "(k, i) \<in> set d" "(l, i) \<in> set d"
  have "distinct (map snd d)" using c by (simp add: consecutive_def)
  then show "k = l" using m inj_onD [of snd "set d" "(k, i)" "(l, i)"] by (simp add: distinct_map)
qed

lemma consecutive_range: "consecutive n d \<Longrightarrow> (k, i) \<in> set d \<Longrightarrow> n \<le> i \<and> i < n + length d"
proof -
  assume c: "consecutive n d" and m: "(k, i) \<in> set d"
  have "i \<in> set (map snd d)" using m by force
  moreover have "set (map snd d) = {n..<n + length d}" using c by (simp only: consecutive_def set_upt)
  ultimately show ?thesis by simp
qed

lemma functions_ok_grows:
  "functions_ok p \<Longrightarrow> set (string_index p) \<subseteq> set (string_index q) \<Longrightarrow> function_ids q = function_ids p \<Longrightarrow>
   p_functions q = p_functions p \<Longrightarrow> functions_ok q"
  unfolding functions_ok_def by (auto elim!: list_all2_mono)

lemma intern_string_new:
  assumes "profile_ok p" "utf8_valid text" "map_of (string_index p) text = None"
  shows "\<exists>q. intern_string p text = Inr (0 + length (string_index p), q) \<and> profile_ok q \<and> grows p q
     \<and> string_index q = string_index p @ [(text, 0 + length (string_index p))]
     \<and> function_ids q = function_ids p \<and> p_functions q = p_functions p"
proof -
  have l: "length (p_strings p) = length (string_index p)"
    using assms(1) by (auto simp: profile_ok_defs dest!: arg_cong [of _ _ length])
  let ?q = "p\<lparr>p_strings := p_strings p @ [text], string_index := string_index p @ [(text, length (string_index p))]\<rparr>"
  have "strings_ok ?q"
    using assms consecutive_snoc [of 0 "string_index p" "text"] by (auto simp: profile_ok_defs)
  moreover have "functions_ok ?q" using assms(1) by (auto simp: profile_ok_def intro: functions_ok_grows [of p])
  moreover have "locations_ok ?q" using assms(1) by (auto simp: profile_ok_def locations_ok_def)
  ultimately show ?thesis using assms(3)
    by (intro exI [of _ ?q]) (simp add: intern_string_def update_new l profile_ok_def grows_def Let_def subset_insertI)
qed

interpretation strings: total_interner string_index intern_string profile_ok grows "\<lambda>p text. utf8_valid text" 0 utf8_valid
proof
  show "\<And>s t u. grows s t \<Longrightarrow> grows t u \<Longrightarrow> grows s u" by (rule grows_trans)
  show "\<And>s k. profile_ok s \<Longrightarrow> utf8_valid k \<Longrightarrow> map_of (string_index s) k = None \<Longrightarrow>
      \<exists>t. intern_string s k = Inr (0 + length (string_index s), t) \<and> profile_ok t \<and> grows s t
        \<and> string_index t = string_index s @ [(k, 0 + length (string_index s))]"
    using intern_string_new by blast
qed (auto simp: grows_def profile_ok_def strings_ok_def intern_string_def)

lemma intern_string_frame:
  "intern_string p name = Inr (i, q) \<Longrightarrow> function_ids q = function_ids p \<and> p_functions q = p_functions p
     \<and> location_ids q = location_ids p \<and> p_locations q = p_locations p"
  by (auto simp: intern_string_def Let_def split: option.splits)

lemma intern_function_new:
  assumes "profile_ok p" "utf8_valid name" "map_of (function_ids p) name = None"
  shows "\<exists>q. intern_function p name = Inr (1 + length (function_ids p), q) \<and> profile_ok q \<and> grows p q
     \<and> function_ids q = function_ids p @ [(name, 1 + length (function_ids p))]"
proof -
  obtain i r where r: "intern_string p name = Inr (i, r)" "profile_ok r" "grows p r" "(name, i) \<in> set (string_index r)"
    using strings.number_ok [OF assms(1,2)] by blast
  note f = intern_string_frame [OF r(1)]
  have l: "length (p_functions p) = length (function_ids p)"
    using assms(1) by (auto simp: profile_ok_defs dest: list_all2_lengthD)
  let ?fid = "1 + length (function_ids p)"
  let ?body = "message_bytes (function_fields ?fid i)"
  let ?q = "r\<lparr>p_functions := p_functions r @ [?body], function_ids := function_ids r @ [(name, ?fid)]\<rparr>"
  have "functions_ok ?q"
    using r(2,4) f assms(3) consecutive_snoc [of 1 "function_ids p" name]
    by (auto simp: profile_ok_def functions_ok_def intro!: list_all2_appendI)
  moreover have "strings_ok ?q" "locations_ok ?q" using r(2) by (auto simp: profile_ok_def strings_ok_def locations_ok_def)
  moreover have "grows p ?q" using r(3) f by (auto simp: grows_def)
  moreover have "intern_function p name = Inr (?fid, ?q)"
    using assms(3) r(1) f l
    by (simp add: intern_function_def Let_def encode_fields function_fields_def update_new)
  ultimately show ?thesis using f by (intro exI [of _ ?q]) (simp add: profile_ok_def)
qed

interpretation funs: total_interner function_ids intern_function profile_ok grows "\<lambda>p name. utf8_valid name" 1 utf8_valid
proof
  show "\<And>s t u. grows s t \<Longrightarrow> grows t u \<Longrightarrow> grows s u" by (rule grows_trans)
  show "\<And>s k. profile_ok s \<Longrightarrow> utf8_valid k \<Longrightarrow> map_of (function_ids s) k = None \<Longrightarrow>
      \<exists>t. intern_function s k = Inr (1 + length (function_ids s), t) \<and> profile_ok t \<and> grows s t
        \<and> function_ids t = function_ids s @ [(k, 1 + length (function_ids s))]"
    by (rule intern_function_new)
qed (auto simp: grows_def profile_ok_def functions_ok_def intern_function_def)

lemma location_for_new:
  assumes "profile_ok p" "fid \<in> snd ` set (function_ids p)" "map_of (location_ids p) fid = None"
  shows "\<exists>q. location_for p fid = Inr (1 + length (location_ids p), q) \<and> profile_ok q \<and> grows p q
     \<and> location_ids q = location_ids p @ [(fid, 1 + length (location_ids p))]"
proof -
  let ?lid = "1 + length (location_ids p)"
  let ?q = "p\<lparr>p_locations := p_locations p @ [message_bytes (location_fields ?lid fid)],
    location_ids := location_ids p @ [(fid, ?lid)]\<rparr>"
  have "length (p_locations p) = length (location_ids p)" using assms(1) by (simp add: profile_ok_defs)
  then have "location_for p fid = Inr (?lid, ?q)"
    using assms(3) by (simp add: location_for_def Let_def encode_fields location_fields_def update_new)
  moreover have "locations_ok ?q"
    using assms consecutive_snoc [of 1 "location_ids p" fid] by (auto simp: profile_ok_def locations_ok_def)
  moreover have "strings_ok ?q" "functions_ok ?q" using assms(1) by (auto simp: profile_ok_def strings_ok_def functions_ok_def)
  moreover have "grows p ?q" by (auto simp: grows_def)
  ultimately show ?thesis by (intro exI [of _ ?q]) (simp add: profile_ok_def)
qed

interpretation locations: interner location_ids location_for profile_ok grows
  "\<lambda>p fid. fid \<in> snd ` set (function_ids p)" 1
proof
  show "\<And>s t u. grows s t \<Longrightarrow> grows t u \<Longrightarrow> grows s u" by (rule grows_trans)
  show "\<And>s k. profile_ok s \<Longrightarrow> k \<in> snd ` set (function_ids s) \<Longrightarrow> map_of (location_ids s) k = None \<Longrightarrow>
      \<exists>t. location_for s k = Inr (1 + length (location_ids s), t) \<and> profile_ok t \<and> grows s t
        \<and> location_ids t = location_ids s @ [(k, 1 + length (location_ids s))]"
    by (rule location_for_new)
qed (auto simp: grows_def profile_ok_def locations_ok_def location_for_def)

text \<open>A location stands for a name through its function.\<close>

definition stands_for :: "profile \<Rightarrow> string \<Rightarrow> nat \<Rightarrow> bool" where
  "stands_for p name lid \<longleftrightarrow> (\<exists>fid. (name, fid) \<in> set (function_ids p) \<and> (fid, lid) \<in> set (location_ids p))"

lemma stands_for_grows: "grows p q \<Longrightarrow> stands_for p name lid \<Longrightarrow> stands_for q name lid"
  unfolding grows_def stands_for_def by blast

lemma location_of_name_ok:
  assumes "profile_ok p" "utf8_valid name"
  shows "\<exists>lid q. location_of_name p name = Inr (lid, q) \<and> profile_ok q \<and> grows p q \<and> stands_for q name lid"
proof -
  obtain fid r where r: "intern_function p name = Inr (fid, r)" "profile_ok r" "grows p r"
    "(name, fid) \<in> set (function_ids r)"
    using funs.number_ok [OF assms] by blast
  have "fid \<in> snd ` set (function_ids r)" using r(4) by force
  from locations.number_entry [OF r(2) this] obtain lid q where
    "location_for r fid = Inr (lid, q)" "profile_ok q" "grows r q" "(fid, lid) \<in> set (location_ids q)" by blast
  moreover from this have "stands_for q name lid" using r(4) by (auto simp: stands_for_def grows_def)
  ultimately show ?thesis using r(1) grows_trans [OF r(3)] by (simp add: location_of_name_def)
qed

interpretation frames: tabled stands_for location_of_name profile_ok grows utf8_valid
  by unfold_locales (rule grows_refl, erule (1) grows_trans, erule (1) stands_for_grows, erule (1) location_of_name_ok)

section \<open>Samples\<close>

definition sample_fields :: "nat list \<Rightarrow> int list \<Rightarrow> pb_field list" where
  "sample_fields ids vals = concat (map (\<lambda>i. nonzero 1 (int i)) ids) @ map (\<lambda>v. (2, VarintF v)) vals"

text \<open>The samples of a builder stand for the stacks and values that were added.\<close>

definition holds_sample :: "profile \<Rightarrow> string list \<times> int list \<Rightarrow> string \<Rightarrow> bool" where
  "holds_sample p sv body \<longleftrightarrow> (\<exists>ids. list_all2 (stands_for p) (rev (fst sv)) ids
     \<and> body = message_bytes (sample_fields ids (snd sv)))"

definition holds_samples :: "profile \<Rightarrow> (string list \<times> int list) list \<Rightarrow> bool" where
  "holds_samples p svs \<longleftrightarrow> list_all2 (holds_sample p) svs (p_samples p)"

lemma holds_sample_grows: "grows p q \<Longrightarrow> holds_sample p sv body \<Longrightarrow> holds_sample q sv body"
  unfolding holds_sample_def by (blast intro: list_all2_mono stands_for_grows)

lemma message_bytes_concat: "message_bytes (concat fss) = concat (map message_bytes fss)"
  by (induction fss) auto

lemma add_sample_ok:
  assumes "profile_ok p" "holds_samples p svs" "\<forall>v \<in> set vals. 0 \<le> v" "list_all utf8_valid names"
  shows "\<exists>q. add_sample p names vals = Inr q \<and> profile_ok q \<and> holds_samples q (svs @ [(names, vals)])"
proof -
  obtain ids r where r: "map_state location_of_name p (rev names) = Inr (ids, r)" "profile_ok r" "grows p r"
    "list_all2 (stands_for r) (rev names) ids"
    using frames.number_all [OF assms(1), of "rev names"] assms(4) by auto
  have "map_res (\<lambda>i. encode_varint_field 1 (int i)) ids = Inr (map (\<lambda>i. message_bytes (nonzero 1 (int i))) ids)"
    by (rule map_res_Inr) (simp add: encode_fields)
  moreover have "map_res sample_value vals = Inr (map (\<lambda>v. message_bytes [(2, VarintF v)]) vals)"
    by (rule map_res_Inr) (use assms(3) in \<open>auto simp: sample_value_def pb_tag_def varint_def push_bit_eq_mult\<close>)
  moreover have "message_bytes (sample_fields ids vals)
      = concat (map (\<lambda>i. message_bytes (nonzero 1 (int i))) ids) @ concat (map (\<lambda>v. message_bytes [(2, VarintF v)]) vals)"
    by (simp add: sample_fields_def message_bytes_concat comp_def) (simp add: message_bytes_def comp_def)
  ultimately have a: "add_sample p names vals
      = Inr (r\<lparr>p_samples := p_samples r @ [message_bytes (sample_fields ids vals)]\<rparr>)"
    using r(1) by (simp add: add_sample_def)
  let ?q = "r\<lparr>p_samples := p_samples r @ [message_bytes (sample_fields ids vals)]\<rparr>"
  have same: "stands_for ?q = stands_for r" by (intro ext) (simp add: stands_for_def)
  then have hs: "holds_sample ?q = holds_sample r" by (intro ext) (simp add: holds_sample_def)
  have "list_all2 (holds_sample r) svs (p_samples r)"
    using assms(2) r(3) by (auto simp: holds_samples_def grows_def intro: list_all2_mono holds_sample_grows [OF r(3)])
  moreover have "holds_sample r (names, vals) (message_bytes (sample_fields ids vals))"
    using r(4) by (auto simp: holds_sample_def)
  ultimately have "holds_samples ?q (svs @ [(names, vals)])"
    by (auto simp: holds_samples_def hs intro: list_all2_appendI)
  moreover have "profile_ok ?q"
    using r(2) by (auto simp: profile_ok_def strings_ok_def functions_ok_def locations_ok_def)
  ultimately show ?thesis using a by blast
qed

lemma new_profile_ok: "profile_ok new_profile" "holds_samples new_profile []"
  by (simp_all add: profile_ok_defs new_profile_def consecutive_def holds_samples_def utf8_valid_def)

definition share_sample :: "token_share \<Rightarrow> string list \<times> int list" where
  "share_sample s = (stack_of s, [ts_input s, ts_output s])"

lemma add_shares_ok:
  "profile_ok p \<Longrightarrow> holds_samples p svs \<Longrightarrow> \<forall>s \<in> set shares. 0 \<le> ts_input s \<and> 0 \<le> ts_output s \<and> list_all utf8_valid (stack_of s) \<Longrightarrow>
   \<exists>q. add_shares shares p = Inr q \<and> profile_ok q \<and> holds_samples q (svs @ map share_sample shares)"
proof (induction shares arbitrary: p svs)
  case Nil
  then show ?case by (simp add: add_shares_def)
next
  case (Cons s shares)
  obtain r where r: "add_sample p (stack_of s) [ts_input s, ts_output s] = Inr r" "profile_ok r"
    "holds_samples r (svs @ [share_sample s])"
    using add_sample_ok [OF Cons.prems(1,2), of "[ts_input s, ts_output s]" "stack_of s"] Cons.prems(3)
    by (auto simp: share_sample_def)
  then show ?case using Cons.IH [OF r(2,3)] Cons.prems(3) by (simp add: add_shares_def)
qed

section \<open>Serialisation\<close>

definition type_rel :: "profile \<Rightarrow> string \<times> string \<Rightarrow> string \<Rightarrow> bool" where
  "type_rel p tu b \<longleftrightarrow> (\<exists>i j. (fst tu, i) \<in> set (string_index p) \<and> (snd tu, j) \<in> set (string_index p)
     \<and> b = message_bytes (nonzero 1 (int i) @ nonzero 2 (int j)))"

lemma type_message_ok:
  assumes "profile_ok p" "utf8_valid (fst tu) \<and> utf8_valid (snd tu)"
  shows "\<exists>b q. type_message p tu = Inr (b, q) \<and> profile_ok q \<and> grows p q \<and> type_rel q tu b"
proof -
  obtain i r where r: "intern_string p (fst tu) = Inr (i, r)" "profile_ok r" "grows p r"
    "(fst tu, i) \<in> set (string_index r)"
    using strings.number_ok [OF assms(1)] assms(2) by blast
  obtain j q where q: "intern_string r (snd tu) = Inr (j, q)" "profile_ok q" "grows r q"
    "(snd tu, j) \<in> set (string_index q)"
    using strings.number_ok [OF r(2)] assms(2) by blast
  have "(fst tu, i) \<in> set (string_index q)" using r(4) q(3) by (auto simp: grows_def)
  then show ?thesis using r(1) q grows_trans [OF r(3) q(3)]
    by (auto simp: type_message_def encode_fields type_rel_def)
qed

lemma type_rel_grows: "grows p q \<Longrightarrow> type_rel p tu b \<Longrightarrow> type_rel q tu b"
  unfolding grows_def type_rel_def by blast

interpretation types: tabled type_rel type_message profile_ok grows "\<lambda>tu. utf8_valid (fst tu) \<and> utf8_valid (snd tu)"
  by unfold_locales (rule grows_refl, erule (1) grows_trans, erule (1) type_rel_grows, erule (1) type_message_ok)

definition profile_fields :: "profile \<Rightarrow> string list \<Rightarrow> int \<Rightarrow> int \<Rightarrow> nat list \<Rightarrow> pb_field list" where
  "profile_fields q tmsgs t d cids =
     map (\<lambda>b. (1, BytesF b)) tmsgs @ map (\<lambda>b. (2, BytesF b)) (p_samples q)
     @ map (\<lambda>b. (4, BytesF b)) (p_locations q) @ map (\<lambda>b. (5, BytesF b)) (p_functions q)
     @ map (\<lambda>b. (6, BytesF b)) (p_strings q) @ nonzero 9 t @ nonzero 10 d
     @ concat (map (\<lambda>c. nonzero 13 (int c)) cids)"

lemma map_res_messages:
  "0 \<le> f \<Longrightarrow> \<exists>bs. map_res (encode_message_field f) xs = Inr bs \<and> concat bs = message_bytes (map (\<lambda>b. (f, BytesF b)) xs)"
  "0 \<le> f \<Longrightarrow> \<exists>bs. map_res (encode_string_field f) xs = Inr bs \<and> concat bs = message_bytes (map (\<lambda>b. (f, BytesF b)) xs)"
  by (induction xs) (auto simp: encode_fields)

lemma map_res_ids:
  "0 \<le> f \<Longrightarrow> \<exists>bs. map_res (\<lambda>c. encode_varint_field f (int c)) cs = Inr bs
     \<and> concat bs = message_bytes (concat (map (\<lambda>c. nonzero f (int c)) cs))"
  by (induction cs) (auto simp: encode_fields)

lemma serialize_ok:
  assumes "profile_ok p" "0 \<le> t" "0 \<le> d"
    and "list_all (\<lambda>tu. utf8_valid (fst tu) \<and> utf8_valid (snd tu)) types" "list_all utf8_valid cs"
  shows "\<exists>q tmsgs cids. serialize p types t d cs = Inr (message_bytes (profile_fields q tmsgs t d cids))
     \<and> profile_ok q \<and> grows p q \<and> list_all2 (type_rel q) types tmsgs
     \<and> list_all2 (\<lambda>c i. (c, i) \<in> set (string_index q)) cs cids"
proof -
  obtain tmsgs r where r: "map_state type_message p types = Inr (tmsgs, r)" "profile_ok r" "grows p r"
    "list_all2 (type_rel r) types tmsgs" using types.number_all [OF assms(1,4)] by blast
  obtain cids q where q: "map_state intern_string r cs = Inr (cids, q)" "profile_ok q" "grows r q"
    "list_all2 (\<lambda>c i. (c, i) \<in> set (string_index q)) cs cids" using strings.number_all [OF r(2) assms(5)] by blast
  have t: "list_all2 (type_rel q) types tmsgs" using r(4) by (rule list_all2_mono) (rule type_rel_grows [OF q(3)])
  obtain b1 b2 b4 b5 b6 b13 where b:
    "map_res (encode_message_field 1) tmsgs = Inr b1" "concat b1 = message_bytes (map (\<lambda>b. (1, BytesF b)) tmsgs)"
    "map_res (encode_message_field 2) (p_samples q) = Inr b2"
    "concat b2 = message_bytes (map (\<lambda>b. (2, BytesF b)) (p_samples q))"
    "map_res (encode_message_field 4) (p_locations q) = Inr b4"
    "concat b4 = message_bytes (map (\<lambda>b. (4, BytesF b)) (p_locations q))"
    "map_res (encode_message_field 5) (p_functions q) = Inr b5"
    "concat b5 = message_bytes (map (\<lambda>b. (5, BytesF b)) (p_functions q))"
    "map_res (encode_string_field 6) (p_strings q) = Inr b6"
    "concat b6 = message_bytes (map (\<lambda>b. (6, BytesF b)) (p_strings q))"
    "map_res (\<lambda>c. encode_varint_field 13 (int c)) cids = Inr b13"
    "concat b13 = message_bytes (concat (map (\<lambda>c. nonzero 13 (int c)) cids))"
    using map_res_messages(1) [of 1 tmsgs] map_res_messages(1) [of 2 "p_samples q"]
      map_res_messages(1) [of 4 "p_locations q"] map_res_messages(1) [of 5 "p_functions q"]
      map_res_messages(2) [of 6 "p_strings q"] map_res_ids [of 13 cids]
    by auto
  have n: "(if x \<noteq> 0 then encode_varint_field f x else Inr []) = Inr (message_bytes (nonzero f x))"
    if "0 \<le> f" "0 \<le> x" for f x using that by (auto simp: encode_fields nonzero_def)
  have "serialize p types t d cs = Inr (message_bytes (profile_fields q tmsgs t d cids))"
    unfolding serialize_def using r(1) q(1) b(1,3,5,7,9,11) n [of 9 t] n [of 10 d] assms(2,3)
    by (simp add: profile_fields_def b(2,4,6,8,10,12))
  then show ?thesis using q(2,4) t grows_trans [OF r(3) q(3)] by blast
qed

section \<open>Decoding what was written\<close>

text \<open>The reader takes numbers and lengths below \<open>2 ^ 77\<close>.\<close>

abbreviation small :: "int \<Rightarrow> bool" where
  "small v \<equiv> 0 \<le> v \<and> v < 2 ^ 77"

lemma nonzero_ok [simp]: "0 \<le> f \<Longrightarrow> f < 2 ^ 70 \<Longrightarrow> small v \<Longrightarrow> list_all field_ok (nonzero f v)"
  by (simp add: nonzero_def)

lemma decode_value_type_written:
  "small i \<Longrightarrow> small j \<Longrightarrow> decode_value_type (message_bytes (nonzero 1 i @ nonzero 2 j)) = Inr (i, j)"
  unfolding decode_value_type_def by (subst decode_message) (auto simp: nonzero_def)

lemma decode_line_written: "small fid \<Longrightarrow> decode_line_function (message_bytes (nonzero 1 fid)) = Inr fid"
  unfolding decode_line_function_def by (subst decode_message) (auto simp: nonzero_def)

lemma decode_function_written:
  "small (int fid) \<Longrightarrow> small (int n) \<Longrightarrow> decode_function (message_bytes (function_fields fid n)) = Inr (int fid, int n)"
  unfolding decode_function_def function_fields_def by (subst decode_message) (auto simp: nonzero_def)

lemma decode_location_written:
  "small (int lid) \<Longrightarrow> small (int fid) \<Longrightarrow> int (length (message_bytes (nonzero 1 (int fid)))) < 2 ^ 77 \<Longrightarrow>
   decode_location (message_bytes (location_fields lid fid)) = Inr (int lid, int fid)"
  unfolding decode_location_def location_fields_def
  by (subst decode_message) (auto simp: fold_res_append decode_line_written nonzero_def [of 1 "int lid"])

lemma fold_sample_ids:
  "\<forall>i \<in> set ids. 0 < i \<Longrightarrow>
   fold_res sample_step (concat (map (\<lambda>i. nonzero 1 (int i)) ids)) s
     = Inr (s\<lparr>sample_locations := sample_locations s @ map int ids\<rparr>)"
  by (induction ids arbitrary: s) (auto simp: fold_res_append nonzero_def)

lemma fold_sample_values:
  "fold_res sample_step (map (\<lambda>v. (2, VarintF v)) vals) s
     = Inr (s\<lparr>sample_values := sample_values s @ vals\<rparr>)"
  by (induction vals arbitrary: s) auto

lemma decode_sample_written:
  assumes "\<forall>i \<in> set ids. 0 < i \<and> small (int i)" "\<forall>v \<in> set vals. small v"
  shows "decode_sample (message_bytes (sample_fields ids vals))
     = Inr \<lparr>sample_locations = map int ids, sample_values = vals\<rparr>"
proof -
  have "list_all field_ok (sample_fields ids vals)"
    using assms by (auto simp: sample_fields_def list_all_iff nonzero_def)
  then show ?thesis unfolding decode_sample_def using assms(1)
    by (subst decode_message) (simp_all add: sample_fields_def fold_res_append fold_sample_ids fold_sample_values)
qed

text \<open>One lemma for each block of the serialised profile.\<close>

lemma fold_types:
  "map_res decode_value_type bs = Inr ts \<Longrightarrow>
   fold_res profile_step (map (\<lambda>b. (1, BytesF b)) bs) r = Inr (r\<lparr>raw_types := raw_types r @ ts\<rparr>)"
  by (induction bs arbitrary: r ts) (auto simp: bind_res_eq_Inr)

lemma fold_samples:
  "map_res decode_sample bs = Inr ts \<Longrightarrow>
   fold_res profile_step (map (\<lambda>b. (2, BytesF b)) bs) r = Inr (r\<lparr>raw_samples := raw_samples r @ ts\<rparr>)"
  by (induction bs arbitrary: r ts) (auto simp: bind_res_eq_Inr)

lemma fold_strings:
  "list_all utf8_valid bs \<Longrightarrow>
   fold_res profile_step (map (\<lambda>b. (6, BytesF b)) bs) r = Inr (r\<lparr>raw_strings := raw_strings r @ bs\<rparr>)"
  by (induction bs arbitrary: r) (auto simp: decode_utf8_def)

lemma update_absent: "k \<notin> fst ` set xs \<Longrightarrow> AList.update k v xs = xs @ [(k, v)]"
  by (rule update_new) (simp add: map_of_eq_None_iff)

lemma fold_locations:
  "map_res decode_location bs = Inr ls \<Longrightarrow> distinct (map fst (raw_locations r @ ls)) \<Longrightarrow>
   fold_res profile_step (map (\<lambda>b. (4, BytesF b)) bs) r = Inr (r\<lparr>raw_locations := raw_locations r @ ls\<rparr>)"
proof (induction bs arbitrary: r ls)
  case (Cons b bs)
  then obtain l ls' where l: "decode_location b = Inr l" "map_res decode_location bs = Inr ls'" "ls = l # ls'"
    by (auto simp: bind_res_eq_Inr)
  have "AList.update (fst l) (snd l) (raw_locations r) = raw_locations r @ [l]"
    using Cons.prems(2) l(3) by (simp add: update_absent)
  then show ?case using Cons.IH [OF l(2), of "r\<lparr>raw_locations := raw_locations r @ [l]\<rparr>"] Cons.prems(2) l
    by (simp add: case_prod_beta)
qed simp

lemma fold_functions:
  "map_res decode_function bs = Inr ls \<Longrightarrow> distinct (map fst (raw_functions r @ ls)) \<Longrightarrow>
   fold_res profile_step (map (\<lambda>b. (5, BytesF b)) bs) r = Inr (r\<lparr>raw_functions := raw_functions r @ ls\<rparr>)"
proof (induction bs arbitrary: r ls)
  case (Cons b bs)
  then obtain l ls' where l: "decode_function b = Inr l" "map_res decode_function bs = Inr ls'" "ls = l # ls'"
    by (auto simp: bind_res_eq_Inr)
  have "AList.update (fst l) (snd l) (raw_functions r) = raw_functions r @ [l]"
    using Cons.prems(2) l(3) by (simp add: update_absent)
  then show ?case using Cons.IH [OF l(2), of "r\<lparr>raw_functions := raw_functions r @ [l]\<rparr>"] Cons.prems(2) l
    by (simp add: case_prod_beta)
qed simp

lemma fold_comments:
  "\<forall>c \<in> set cids. 0 < c \<Longrightarrow>
   fold_res profile_step (concat (map (\<lambda>c. nonzero 13 (int c)) cids)) r
     = Inr (r\<lparr>raw_comments := raw_comments r @ map int cids\<rparr>)"
  by (induction cids arbitrary: r) (auto simp: fold_res_append nonzero_def)

lemma fold_times:
  "fold_res profile_step (nonzero 9 t) r = Inr (if t = 0 then r else r\<lparr>raw_time := t\<rparr>)"
  "fold_res profile_step (nonzero 10 t) r = Inr (if t = 0 then r else r\<lparr>raw_duration := t\<rparr>)"
  by (simp_all add: nonzero_def)

section \<open>Sizes\<close>

lemma length_message: "length fs \<le> length (message_bytes fs)"
proof (induction fs)
  case (Cons f fs)
  then show ?case using field_bytes_not_Nil [of f] by (cases "field_bytes f") auto
qed simp

lemma length_chunk: "(f, BytesF b) \<in> set fs \<Longrightarrow> length b \<le> length (message_bytes fs)"
  by (induction fs) auto

lemma string_entry:
  "strings_ok p \<Longrightarrow> (s, i) \<in> set (string_index p) \<Longrightarrow> i < length (p_strings p) \<and> p_strings p ! i = s"
proof -
  assume o: "strings_ok p" and m: "(s, i) \<in> set (string_index p)"
  obtain j where j: "j < length (string_index p)" "string_index p ! j = (s, i)" using m by (auto simp: in_set_conv_nth)
  have "map snd (string_index p) ! j = [0..<length (string_index p)] ! j"
    using o by (simp add: strings_ok_def consecutive_def)
  then have "i = j" using j by simp
  moreover have "map fst (string_index p) = p_strings p" using o by (simp add: strings_ok_def)
  ultimately show ?thesis using j by (metis fst_conv length_map nth_map)
qed

text \<open>What a reader of the profile sees at a location: the name of its function.\<close>

definition frame :: "decoded_profile \<Rightarrow> int \<Rightarrow> string option" where
  "frame d l = Option.bind (map_of (d_locations d) l) (map_of (d_functions d))"

lemma map_res_list_all2:
  "list_all2 (\<lambda>x b. f b = Inr (g x)) xs bs \<Longrightarrow> map_res f bs = Inr (map g xs)"
  by (induction xs bs rule: list_all2_induct) auto

lemma length_tables:
  "length (p_strings q) \<le> length (profile_fields q tmsgs t d cids)"
  "length (p_functions q) \<le> length (profile_fields q tmsgs t d cids)"
  "length (p_locations q) \<le> length (profile_fields q tmsgs t d cids)"
  by (simp_all add: profile_fields_def)

lemma chunks_in_fields:
  "b \<in> set tmsgs \<Longrightarrow> (1, BytesF b) \<in> set (profile_fields q tmsgs t d cids)"
  "b \<in> set (p_samples q) \<Longrightarrow> (2, BytesF b) \<in> set (profile_fields q tmsgs t d cids)"
  "b \<in> set (p_locations q) \<Longrightarrow> (4, BytesF b) \<in> set (profile_fields q tmsgs t d cids)"
  "b \<in> set (p_functions q) \<Longrightarrow> (5, BytesF b) \<in> set (profile_fields q tmsgs t d cids)"
  "b \<in> set (p_strings q) \<Longrightarrow> (6, BytesF b) \<in> set (profile_fields q tmsgs t d cids)"
  by (auto simp: profile_fields_def)

text \<open>A builder whose serialised form the reader can represent: ids and lengths stay below \<open>2 ^ 77\<close>.\<close>

definition fits :: "profile \<Rightarrow> bool" where
  "fits q \<longleftrightarrow> (\<forall>(s, i) \<in> set (string_index q). small (int i)) \<and> (\<forall>(n, i) \<in> set (function_ids q). small (int i))
     \<and> (\<forall>(f, l) \<in> set (location_ids q). small (int l) \<and> small (int f)
          \<and> int (length (message_bytes (nonzero 1 (int f)))) < 2 ^ 77)"

lemma fitsI:
  assumes "profile_ok q" "int (length (message_bytes (profile_fields q tmsgs t d cids))) < 2 ^ 77"
  shows "fits q"
proof -
  let ?fs = "profile_fields q tmsgs t d cids"
  have le: "int n < 2 ^ 77" if "n \<le> length ?fs" for n using that length_message [of ?fs] assms(2) by linarith
  have o: "strings_ok q" "functions_ok q" "locations_ok q" using assms(1) by (auto simp: profile_ok_def)
  have lf: "length (p_functions q) = length (function_ids q)" "length (p_locations q) = length (location_ids q)"
    using o(2,3) by (auto simp: functions_ok_def locations_ok_def dest: list_all2_lengthD)
  have s: "small (int i)" if "(s, i) \<in> set (string_index q)" for s i
    using string_entry [OF o(1) that] length_tables(1) [of q tmsgs t d cids] le [of i] by simp
  have f: "small (int i)" if "(n, i) \<in> set (function_ids q)" for n i
    using consecutive_range [of 1 "function_ids q" n i] that o(2) lf length_tables(2) [of q tmsgs t d cids] le [of i]
    by (simp add: functions_ok_def)
  have l: "small (int l) \<and> small (int fid) \<and> int (length (message_bytes (nonzero 1 (int fid)))) < 2 ^ 77"
    if m: "(fid, l) \<in> set (location_ids q)" for fid l
  proof -
    have "small (int l)"
      using consecutive_range [of 1 "location_ids q" fid l] m o(3) lf length_tables(3) [of q tmsgs t d cids] le [of l]
      by (simp add: locations_ok_def)
    moreover have "fid \<in> snd ` set (function_ids q)" using m o(3) by (force simp: locations_ok_def)
    then have "small (int fid)" using f by auto
    moreover have "message_bytes (location_fields l fid) \<in> set (p_locations q)"
      using m o(3) by (force simp: locations_ok_def)
    then have "length (message_bytes (location_fields l fid)) \<le> length (message_bytes ?fs)"
      by (rule length_chunk [OF chunks_in_fields(3)])
    moreover have "length (message_bytes (nonzero 1 (int fid))) \<le> length (message_bytes (location_fields l fid))"
      by (rule length_chunk [of 4]) (simp add: location_fields_def)
    ultimately show ?thesis using assms(2) by linarith
  qed
  show ?thesis unfolding fits_def using s f l by blast
qed

lemma profile_fields_ok:
  assumes "profile_ok q" "int (length (message_bytes (profile_fields q tmsgs t d cids))) < 2 ^ 77"
    and "small t" "small d" "\<forall>c \<in> set cids. small (int c)"
  shows "list_all field_ok (profile_fields q tmsgs t d cids)"
proof -
  let ?fs = "profile_fields q tmsgs t d cids"
  have c: "int (length b) < 2 ^ 77" if "(f, BytesF b) \<in> set ?fs" for f b
    using length_chunk [OF that] assms(2) by linarith
  have "field_ok (f, dta)" if m: "(f, dta) \<in> set ?fs" for f dta
  proof (cases dta)
    case (BytesF b)
    then have "f \<in> {1, 2, 4, 5, 6}" using m by (auto simp: profile_fields_def nonzero_def split: if_splits)
    then show ?thesis using BytesF c m by auto
  next
    case (VarintF v)
    then show ?thesis using m assms(3-5) by (auto simp: profile_fields_def nonzero_def split: if_splits)
  qed
  then show ?thesis by (auto simp: list_all_iff)
qed

section \<open>The decoded profile\<close>

lemma map_res_map: "map_res f (map g xs) = map_res (\<lambda>x. f (g x)) xs"
  by (induction xs) auto

definition sid :: "profile \<Rightarrow> string \<Rightarrow> nat" where
  "sid q s = the (map_of (string_index q) s)"

definition lid :: "profile \<Rightarrow> string \<Rightarrow> nat" where
  "lid q n = the (map_of (location_ids q) (the (map_of (function_ids q) n)))"

lemma entry_lookup: "consecutive k d \<Longrightarrow> (x, i) \<in> set d \<Longrightarrow> map_of d x = Some i"
  by (simp add: consecutive_def)

lemma sid_entry: "profile_ok q \<Longrightarrow> (s, i) \<in> set (string_index q) \<Longrightarrow> i = sid q s"
  using entry_lookup [of 0 "string_index q" s i] by (simp add: profile_ok_defs sid_def)

lemma lid_stands_for:
  assumes "profile_ok q" "stands_for q n l"
  shows "l = lid q n \<and> 0 < l"
proof -
  obtain f where f: "(n, f) \<in> set (function_ids q)" "(f, l) \<in> set (location_ids q)" using assms(2) by (auto simp: stands_for_def)
  have c: "consecutive 1 (function_ids q)" "consecutive 1 (location_ids q)" using assms(1) by (auto simp: profile_ok_defs)
  show ?thesis using entry_lookup [OF c(1) f(1)] entry_lookup [OF c(2) f(2)] consecutive_range [OF c(2) f(2)]
    by (simp add: lid_def)
qed

definition raw_of ::
  "profile \<Rightarrow> (string \<times> string) list \<Rightarrow> (string list \<times> int list) list \<Rightarrow> string list \<Rightarrow> int \<Rightarrow> int \<Rightarrow> raw_profile" where
  "raw_of q types svs cs t d =
     \<lparr>raw_types = map (\<lambda>(a, b). (int (sid q a), int (sid q b))) types,
      raw_samples = map (\<lambda>(ns, vs). \<lparr>sample_locations = map (int \<circ> lid q) (rev ns), sample_values = vs\<rparr>) svs,
      raw_locations = map (\<lambda>(f, l). (int l, int f)) (location_ids q),
      raw_functions = map (\<lambda>(n, f). (int f, int (sid q n))) (function_ids q),
      raw_strings = p_strings q, raw_comments = map (int \<circ> sid q) cs, raw_time = t, raw_duration = d\<rparr>"

lemma decode_types_written:
  assumes "profile_ok q" "fits q" "list_all2 (type_rel q) types tmsgs"
  shows "map_res decode_value_type tmsgs = Inr (map (\<lambda>(a, b). (int (sid q a), int (sid q b))) types)"
proof (rule map_res_list_all2, rule list_all2_mono [OF assms(3)])
  fix tu b assume "type_rel q tu b"
  then obtain i j where e: "(fst tu, i) \<in> set (string_index q)" "(snd tu, j) \<in> set (string_index q)"
    "b = message_bytes (nonzero 1 (int i) @ nonzero 2 (int j))" by (auto simp: type_rel_def)
  then have "small (int i)" "small (int j)" using assms(2) by (auto simp: fits_def)
  then show "decode_value_type b = Inr (case tu of (a, b) \<Rightarrow> (int (sid q a), int (sid q b)))"
    using decode_value_type_written e(3) sid_entry [OF assms(1) e(1)] sid_entry [OF assms(1) e(2)]
    by (simp add: case_prod_beta)
qed

lemma decode_functions_written:
  assumes "profile_ok q" "fits q"
  shows "map_res decode_function (p_functions q) = Inr (map (\<lambda>(n, f). (int f, int (sid q n))) (function_ids q))"
proof (rule map_res_list_all2)
  have l: "list_all2 (\<lambda>x body. \<exists>n. (fst x, n) \<in> set (string_index q) \<and> body = message_bytes (function_fields (snd x) n))
      (function_ids q) (p_functions q)" using assms(1) by (simp add: profile_ok_defs case_prod_beta')
  show "list_all2 (\<lambda>x b. decode_function b = Inr (case x of (n, f) \<Rightarrow> (int f, int (sid q n)))) (function_ids q) (p_functions q)"
  proof (rule list.rel_mono_strong [OF l])
    fix x b assume x: "x \<in> set (function_ids q)"
      and "\<exists>n. (fst x, n) \<in> set (string_index q) \<and> b = message_bytes (function_fields (snd x) n)"
    then obtain n where n: "(fst x, n) \<in> set (string_index q)" "b = message_bytes (function_fields (snd x) n)"
      by blast
    have "small (int n)" "small (int (snd x))" using n(1) x assms(2) by (auto simp: fits_def case_prod_beta)
    then show "decode_function b = Inr (case x of (n, f) \<Rightarrow> (int f, int (sid q n)))"
      using decode_function_written n(2) sid_entry [OF assms(1) n(1)] by (simp add: case_prod_beta)
  qed
qed

lemma decode_locations_written:
  assumes "profile_ok q" "fits q"
  shows "map_res decode_location (p_locations q) = Inr (map (\<lambda>(f, l). (int l, int f)) (location_ids q))"
proof -
  have "p_locations q = map (\<lambda>(fid, lid). message_bytes (location_fields lid fid)) (location_ids q)"
    using assms(1) by (simp add: profile_ok_defs)
  moreover have "list_all2 (\<lambda>x b. decode_location b = Inr (case x of (f, l) \<Rightarrow> (int l, int f))) (location_ids q)
      (map (\<lambda>(fid, lid). message_bytes (location_fields lid fid)) (location_ids q))"
    unfolding list_all2_map2
    by (rule list.rel_refl_strong) (use assms(2) in \<open>auto simp: fits_def intro!: decode_location_written\<close>)
  ultimately show ?thesis using map_res_list_all2 by metis
qed

lemma decode_samples_written:
  assumes "profile_ok q" "fits q" "holds_samples q svs" "\<forall>(ns, vs) \<in> set svs. \<forall>v \<in> set vs. small v"
  shows "map_res decode_sample (p_samples q)
    = Inr (map (\<lambda>(ns, vs). \<lparr>sample_locations = map (int \<circ> lid q) (rev ns), sample_values = vs\<rparr>) svs)"
proof (rule map_res_list_all2, rule list.rel_mono_strong [OF assms(3) [unfolded holds_samples_def]])
  fix sv b assume m: "sv \<in> set svs" and "holds_sample q sv b"
  then obtain ids where ids: "list_all2 (stands_for q) (rev (fst sv)) ids" "b = message_bytes (sample_fields ids (snd sv))"
    by (auto simp: holds_sample_def)
  have "list_all2 (\<lambda>n l. l = lid q n) (rev (fst sv)) ids"
    using ids(1) by (rule list_all2_mono) (use lid_stands_for [OF assms(1)] in blast)
  then have e: "ids = map (lid q) (rev (fst sv))" by (induction rule: list_all2_induct) auto
  have "0 < i \<and> small (int i)" if im: "i \<in> set ids" for i
  proof -
    obtain j where "j < length ids" "ids ! j = i" using im by (auto simp: in_set_conv_nth)
    then obtain n where n: "stands_for q n i" using list_all2_nthD2 [OF ids(1)] by blast
    then have "small (int i)" using assms(2) by (auto simp: fits_def stands_for_def)
    then show ?thesis using lid_stands_for [OF assms(1) n] by simp
  qed
  moreover have "\<forall>v \<in> set (snd sv). small v" using assms(4) m by (auto simp: case_prod_beta)
  ultimately have "decode_sample b = Inr \<lparr>sample_locations = map int ids, sample_values = snd sv\<rparr>"
    unfolding ids(2) by (intro decode_sample_written) auto
  then show "decode_sample b = Inr (case sv of (ns, vs) \<Rightarrow> \<lparr>sample_locations = map (int \<circ> lid q) (rev ns), sample_values = vs\<rparr>)"
    by (simp add: case_prod_beta e)
qed

lemma numbers_distinct: "consecutive k d \<Longrightarrow> distinct (map (\<lambda>x. int (snd x)) d)"
proof -
  assume "consecutive k d"
  then have "distinct (map snd d)" by (simp add: consecutive_def)
  then show ?thesis by (auto simp: distinct_map inj_on_def)
qed

lemma decode_raw:
  assumes q: "profile_ok q" and s: "holds_samples q svs" "\<forall>(ns, vs) \<in> set svs. \<forall>v \<in> set vs. small v"
    and t: "list_all2 (type_rel q) types tmsgs"
    and c: "list_all2 (\<lambda>c i. (c, i) \<in> set (string_index q)) cs cids" "[] \<notin> set cs"
    and n: "small tm" "small d" "int (length (message_bytes (profile_fields q tmsgs tm d cids))) < 2 ^ 77"
  shows "decode_loop profile_step (message_bytes (profile_fields q tmsgs tm d cids)) 0 empty_raw
    = Inr (raw_of q types svs cs tm d)"
proof -
  have fits: "fits q" by (rule fitsI [OF q n(3)])
  have "list_all2 (\<lambda>c i. i = sid q c \<and> small (int i) \<and> 0 < i) cs cids"
  proof (rule list.rel_mono_strong [OF c(1)])
    fix x i assume x: "x \<in> set cs" "(x, i) \<in> set (string_index q)"
    have "p_strings q ! i = x" "p_strings q ! 0 = []"
      using string_entry [OF _ x(2)] q by (auto simp: profile_ok_defs)
    then have "0 < i" using x(1) c(2) by (cases i) auto
    then show "i = sid q x \<and> small (int i) \<and> 0 < i"
      using sid_entry [OF q x(2)] x(2) fits by (auto simp: fits_def)
  qed
  then have cids: "cids = map (sid q) cs" "\<forall>i \<in> set cids. small (int i) \<and> 0 < i"
    by (induction rule: list_all2_induct) auto
  have ok: "list_all field_ok (profile_fields q tmsgs tm d cids)"
    by (rule profile_fields_ok [OF q n(3,1,2)]) (use cids(2) in blast)
  have d: "distinct (map fst (map (\<lambda>(f, l). (int l, int f)) (location_ids q)))"
    "distinct (map fst (map (\<lambda>(n, f). (int f, int (sid q n))) (function_ids q)))"
    using numbers_distinct [of 1 "location_ids q"] numbers_distinct [of 1 "function_ids q"] q
    by (simp_all add: profile_ok_defs comp_def case_prod_beta)
  have u: "list_all utf8_valid (p_strings q)" using q by (simp add: profile_ok_defs)
  have "fold_res profile_step (profile_fields q tmsgs tm d cids) empty_raw = Inr (raw_of q types svs cs tm d)"
    unfolding profile_fields_def fold_res_append bind_res_Inr
      fold_types [OF decode_types_written [OF q fits t]] fold_samples [OF decode_samples_written [OF q fits s]]
      fold_locations [OF decode_locations_written [OF q fits], unfolded empty_raw_def, simplified]
    using fold_locations [OF decode_locations_written [OF q fits]] fold_functions [OF decode_functions_written [OF q fits]]
      fold_strings [OF u] fold_comments [of cids] cids d
    by (simp add: empty_raw_def raw_of_def fold_times)
  then show ?thesis by (simp only: decode_message [OF ok])
qed

text \<open>What a decoded profile shows of a builder: the types, comments, times and every stack with its values.\<close>

definition shows_samples :: "decoded_profile \<Rightarrow> (string list \<times> int list) list \<Rightarrow> bool" where
  "shows_samples d svs \<longleftrightarrow> list_all2 (\<lambda>(ns, vs) smp.
     map (frame d) (sample_locations smp) = map Some (rev ns) \<and> sample_values smp = vs) svs (d_samples d)"

lemma map_of_swap:
  "distinct (map g xs) \<Longrightarrow> x \<in> set xs \<Longrightarrow> map_of (map (\<lambda>x. (g x, h x)) xs) (g x) = Some (h x)"
  by (induction xs) (auto, metis imageI)

lemma frame_lid:
  assumes "profile_ok q" "stands_for q n l"
    and "d_locations dd = map (\<lambda>(f, l). (int l, int f)) (location_ids q)"
    and "d_functions dd = map (\<lambda>(n, f). (int f, n)) (function_ids q)"
  shows "frame dd (int (lid q n)) = Some n"
proof -
  obtain f where f: "(n, f) \<in> set (function_ids q)" "(f, l) \<in> set (location_ids q)"
    using assms(2) by (auto simp: stands_for_def)
  have d: "distinct (map (\<lambda>x. int (snd x)) (function_ids q))" "distinct (map (\<lambda>x. int (snd x)) (location_ids q))"
    using numbers_distinct assms(1) by (auto simp: profile_ok_defs)
  have "map_of (d_locations dd) (int l) = Some (int f)"
    using map_of_swap [OF d(2) f(2), of "\<lambda>x. int (fst x)"] by (simp add: assms(3) case_prod_beta')
  moreover have "map_of (d_functions dd) (int f) = Some n"
    using map_of_swap [OF d(1) f(1), of fst] by (simp add: assms(4) case_prod_beta')
  moreover have "l = lid q n" using lid_stands_for [OF assms(1,2)] by blast
  ultimately show ?thesis by (simp add: frame_def)
qed

lemma string_at_sid:
  "profile_ok q \<Longrightarrow> (s, i) \<in> set (string_index q) \<Longrightarrow> string_at (p_strings q) (int (sid q s)) = Inr s"
  using string_entry [of q s i] sid_entry [of q s i] by (auto simp: string_at_def profile_ok_def)

lemma decode_written:
  assumes q: "profile_ok q" and s: "holds_samples q svs" "\<forall>(ns, vs) \<in> set svs. \<forall>v \<in> set vs. small v"
    and t: "list_all2 (type_rel q) types tmsgs"
    and c: "list_all2 (\<lambda>c i. (c, i) \<in> set (string_index q)) cs cids" "[] \<notin> set cs"
    and n: "small tm" "small d" "int (length (message_bytes (profile_fields q tmsgs tm d cids))) < 2 ^ 77"
  shows "\<exists>dd. decode_profile (message_bytes (profile_fields q tmsgs tm d cids)) = Inr dd
    \<and> d_sample_types dd = types \<and> d_comments dd = cs \<and> d_time_nanos dd = tm \<and> d_duration_nanos dd = d
    \<and> shows_samples dd svs"
proof -
  let ?r = "raw_of q types svs cs tm d"
  let ?str = "string_at (p_strings q)"
  have "map_res (\<lambda>(t, u). bind_res (?str t) (\<lambda>t. bind_res (?str u) (\<lambda>u. Inr (t, u)))) (raw_types ?r) = Inr types"
  proof -
    have "(case (int (sid q (fst tu)), int (sid q (snd tu))) of (t, u) \<Rightarrow>
        bind_res (?str t) (\<lambda>t. bind_res (?str u) (\<lambda>u. Inr (t, u)))) = Inr tu" if "tu \<in> set types" for tu
    proof -
      obtain b where "type_rel q tu b" using t \<open>tu \<in> set types\<close> by (metis in_set_conv_nth list_all2_nthD)
      then show ?thesis by (auto simp: type_rel_def string_at_sid [OF q])
    qed
    then have "map_res (\<lambda>tu. case (int (sid q (fst tu)), int (sid q (snd tu))) of (t, u) \<Rightarrow>
        bind_res (?str t) (\<lambda>t. bind_res (?str u) (\<lambda>u. Inr (t, u)))) types = Inr (map (\<lambda>tu. tu) types)"
      by (rule map_res_Inr)
    then show ?thesis by (simp add: raw_of_def map_res_map case_prod_beta comp_def)
  qed
  moreover have "map_res (\<lambda>(fid, n). bind_res (?str n) (\<lambda>n. Inr (fid, n))) (raw_functions ?r)
      = Inr (map (\<lambda>(n, f). (int f, n)) (function_ids q))"
  proof -
    have "bind_res (?str (int (sid q (fst x)))) (\<lambda>n. Inr (int (snd x), n)) = Inr (int (snd x), fst x)"
      if "x \<in> set (function_ids q)" for x
    proof -
      have "\<exists>n. (fst x, n) \<in> set (string_index q)" using q \<open>x \<in> set (function_ids q)\<close>
        by (fastforce simp: profile_ok_defs in_set_conv_nth list_all2_conv_all_nth)
      then show ?thesis using string_at_sid [OF q] by auto
    qed
    then have "map_res (\<lambda>x. bind_res (?str (int (sid q (fst x)))) (\<lambda>n. Inr (int (snd x), n))) (function_ids q)
        = Inr (map (\<lambda>x. (int (snd x), fst x)) (function_ids q))" by (rule map_res_Inr)
    then show ?thesis by (simp add: raw_of_def map_res_map case_prod_beta comp_def)
  qed
  moreover have "map_res ?str (raw_comments ?r) = Inr cs"
  proof -
    have "?str (int (sid q x)) = Inr x" if "x \<in> set cs" for x
      using c(1) \<open>x \<in> set cs\<close> string_at_sid [OF q] by (metis in_set_conv_nth list_all2_nthD)
    then have "map_res (\<lambda>x. ?str (int (sid q x))) cs = Inr (map (\<lambda>x. x) cs)" by (rule map_res_Inr)
    then show ?thesis by (simp add: raw_of_def map_res_map comp_def)
  qed
  moreover have "raw_strings ?r = p_strings q" "\<exists>ss. p_strings q = [] # ss"
    using q by (auto simp: raw_of_def profile_ok_defs)
  ultimately obtain dd where dd: "decode_profile (message_bytes (profile_fields q tmsgs tm d cids)) = Inr dd"
    "d_sample_types dd = types" "d_comments dd = cs" "d_time_nanos dd = tm" "d_duration_nanos dd = d"
    "d_samples dd = raw_samples ?r" "d_locations dd = raw_locations ?r"
    "d_functions dd = map (\<lambda>(n, f). (int f, n)) (function_ids q)"
    unfolding decode_profile_def decode_raw [OF assms] by (auto simp: Let_def raw_of_def)
  have "map (frame dd) (map (int \<circ> lid q) (rev ns)) = map Some (rev ns)" if m: "(ns, vs) \<in> set svs" for ns vs
  proof -
    have "\<exists>l. stands_for q n l" if nm: "n \<in> set ns" for n
    proof -
      obtain b where "holds_sample q (ns, vs) b" using s(1) m by (metis holds_samples_def in_set_conv_nth list_all2_nthD)
      then obtain ids where "list_all2 (stands_for q) (rev ns) ids" by (auto simp: holds_sample_def)
      then show ?thesis using nm by (metis in_set_conv_nth list_all2_nthD set_rev)
    qed
    then have "frame dd (int (lid q n)) = Some n" if "n \<in> set ns" for n
      using frame_lid [OF q] dd(7,8) that by (fastforce simp: raw_of_def)
    then show ?thesis by simp
  qed
  then have "shows_samples dd svs"
    unfolding shows_samples_def dd(6) raw_of_def by (auto simp: list_all2_map2 intro!: list.rel_refl_strong)
  then show ?thesis using dd by blast
qed

section \<open>The profile of a run\<close>

lemma fold_totals:
  "list_all2 (\<lambda>s smp. sample_values smp = [ts_input s, ts_output s]) shares smps \<Longrightarrow>
   fold_res (\<lambda>s (inp, out). if length (sample_values s) \<noteq> 2 then Inl ValueError
       else Inr (inp + sample_values s ! 0, out + sample_values s ! 1)) smps (i, n)
     = Inr (i + (\<Sum>s \<leftarrow> shares. ts_input s), n + (\<Sum>s \<leftarrow> shares. ts_output s))"
  by (induction shares smps arbitrary: i n rule: list_all2_induct) (auto simp: algebra_simps)

lemma shows_samples_totals:
  assumes "shows_samples d (map share_sample shares)"
  shows "sample_totals d = Inr (\<Sum>s \<leftarrow> shares. ts_input s, \<Sum>s \<leftarrow> shares. ts_output s)"
proof -
  have "list_all2 (\<lambda>s smp. sample_values smp = [ts_input s, ts_output s]) shares (d_samples d)"
    using assms unfolding shows_samples_def list_all2_map1
    by (rule list_all2_mono) (auto simp: share_sample_def)
  from fold_totals [OF this, of 0 0] show ?thesis by (simp add: sample_totals_def)
qed

lemma utf8_ok_ascii: "list_all (\<lambda>c. byte_val c < 128) s \<Longrightarrow> utf8_valid s"
  unfolding utf8_valid_def by (induction s) auto

lemma sum_list_member_le: "\<forall>x \<in> set xs. 0 \<le> f x \<Longrightarrow> x \<in> set xs \<Longrightarrow> f x \<le> (\<Sum>x \<leftarrow> xs. f x :: int)"
  by (metis (no_types, lifting) image_iff list.set_map member_le_sum_list)

text \<open>Names that Python can encode: its \<open>str\<close> values are texts, so their bytes are valid UTF-8.\<close>

definition texts_ok :: "run_header \<Rightarrow> token_share list \<Rightarrow> bool" where
  "texts_ok header shares \<longleftrightarrow> list_all (\<lambda>s. list_all utf8_valid (stack_of s)) shares
     \<and> list_all utf8_valid (profile_comments header)"

lemma profile_texts_ok:
  "list_all (\<lambda>tu. utf8_valid (fst tu) \<and> utf8_valid (snd tu)) sample_types_of_profile"
  by (simp add: sample_types_of_profile_def) (intro conjI utf8_ok_ascii; simp add: byte_val_def)

lemma build_token_profile_ok:
  assumes u: "list_all usage_ok (map event es)" and a: "attribute_tokens header es = Inr shares"
    and w: "texts_ok header shares" and t: "0 \<le> started_nanos header"
  obtains q tmsgs cids where
    "build_token_profile header es
       = Inr (message_bytes (profile_fields q tmsgs (started_nanos header) (duration_nanos_of header) cids))"
    "profile_ok q" "holds_samples q (map share_sample shares)"
    "list_all2 (type_rel q) sample_types_of_profile tmsgs"
    "list_all2 (\<lambda>c i. (c, i) \<in> set (string_index q)) (profile_comments header) cids"
proof -
  have nn: "\<forall>s \<in> set shares. 0 \<le> ts_input s \<and> 0 \<le> ts_output s"
    using attribute_tokens_ok [OF u, of header] a by (metis sum.inject(2))
  then have "\<forall>s \<in> set shares. 0 \<le> ts_input s \<and> 0 \<le> ts_output s \<and> list_all utf8_valid (stack_of s)"
    using w by (simp add: texts_ok_def list_all_iff)
  from add_shares_ok [OF new_profile_ok this] obtain p where p: "add_shares shares new_profile = Inr p"
    "profile_ok p" "holds_samples p (map share_sample shares)" by auto
  have "0 \<le> duration_nanos_of header" by (simp add: duration_nanos_of_def split: option.splits)
  from serialize_ok [OF p(2) t this profile_texts_ok, of "profile_comments header"] w
  obtain q tmsgs cids where q: "serialize p sample_types_of_profile (started_nanos header) (duration_nanos_of header)
      (profile_comments header) = Inr (message_bytes (profile_fields q tmsgs (started_nanos header) (duration_nanos_of header) cids))"
    "profile_ok q" "grows p q" "list_all2 (type_rel q) sample_types_of_profile tmsgs"
    "list_all2 (\<lambda>c i. (c, i) \<in> set (string_index q)) (profile_comments header) cids"
    by (auto simp: texts_ok_def)
  have "holds_samples q (map share_sample shares)"
    using p(3) q(3) unfolding holds_samples_def
    by (auto simp: grows_def [of p q] intro: list_all2_mono holds_sample_grows [OF q(3)])
  then show ?thesis using that q a p(1) by (simp add: build_token_profile_def)
qed

text \<open>
  C35. A run's token profile says what was measured: for a run with non-negative usages, start time and
  encodable names, the profile is built; and when its numbers and size are within what the format's
  reader takes, decoding it gives one sample per share, with the share's stack from leaf to root and
  its input and output tokens, and the totals of the samples are exactly the measured totals.
\<close>

theorem token_profile_roundtrip:
  assumes "list_all usage_ok (map event es)" "attribute_tokens header es = Inr shares"
    and "texts_ok header shares" "0 \<le> started_nanos header"
  shows "\<exists>raw. build_token_profile header es = Inr raw \<and>
    (int (length raw) < 2 ^ 77 \<and> started_nanos header < 2 ^ 77 \<and> duration_nanos_of header < 2 ^ 77
      \<and> fst (usage_totals es) < 2 ^ 77 \<and> snd (usage_totals es) < 2 ^ 77 \<longrightarrow>
     (\<exists>d. decode_profile raw = Inr d \<and> sample_totals d = Inr (usage_totals es)
        \<and> shows_samples d (map (\<lambda>s. (stack_of s, [ts_input s, ts_output s])) shares)
        \<and> d_sample_types d = sample_types_of_profile \<and> d_comments d = profile_comments header
        \<and> d_time_nanos d = started_nanos header \<and> d_duration_nanos d = duration_nanos_of header))"
proof -
  let ?t = "started_nanos header" and ?d = "duration_nanos_of header"
  obtain q tmsgs cids where q: "build_token_profile header es = Inr (message_bytes (profile_fields q tmsgs ?t ?d cids))"
    "profile_ok q" "holds_samples q (map share_sample shares)" "list_all2 (type_rel q) sample_types_of_profile tmsgs"
    "list_all2 (\<lambda>c i. (c, i) \<in> set (string_index q)) (profile_comments header) cids"
    using build_token_profile_ok [OF assms] .
  have sh: "(\<Sum>s \<leftarrow> shares. ts_input s, \<Sum>s \<leftarrow> shares. ts_output s) = usage_totals es"
    "\<forall>s \<in> set shares. 0 \<le> ts_input s \<and> 0 \<le> ts_output s"
    using attribute_tokens_ok [OF assms(1), of header] assms(2) by (metis sum.inject(2))+
  have d0: "0 \<le> ?d" by (simp add: duration_nanos_of_def split: option.splits)
  have "\<exists>d. decode_profile (message_bytes (profile_fields q tmsgs ?t ?d cids)) = Inr d
      \<and> d_sample_types d = sample_types_of_profile \<and> d_comments d = profile_comments header
      \<and> d_time_nanos d = ?t \<and> d_duration_nanos d = ?d \<and> shows_samples d (map share_sample shares)"
    if b: "int (length (message_bytes (profile_fields q tmsgs ?t ?d cids))) < 2 ^ 77" "?t < 2 ^ 77" "?d < 2 ^ 77"
      "fst (usage_totals es) < 2 ^ 77" "snd (usage_totals es) < 2 ^ 77"
  proof (rule decode_written [OF q(2,3) _ q(4,5)])
    have "(\<Sum>s \<leftarrow> shares. ts_input s) < 2 ^ 77" "(\<Sum>s \<leftarrow> shares. ts_output s) < 2 ^ 77"
      using b(4,5) by (simp_all flip: sh(1))
    then have "small (ts_input s) \<and> small (ts_output s)" if "s \<in> set shares" for s
      using sum_list_member_le [of shares ts_input s] sum_list_member_le [of shares ts_output s] sh(2) that by fastforce
    then show "\<forall>(ns, vs) \<in> set (map share_sample shares). \<forall>v \<in> set vs. small v" by (auto simp: share_sample_def)
    show "[] \<notin> set (profile_comments header)" by (simp add: profile_comments_def)
  qed (use b assms(4) d0 in auto)
  then show ?thesis using q(1) shows_samples_totals sh(1) by (auto simp: share_sample_def [abs_def])
qed

definition ex_shares :: "token_share list" where
  "ex_shares = [share_of (''r'', ''fix'', None, ''acme-1'', 0, ''untagged'') 3 0,
     share_of (''r'', ''fix'', None, ''acme-1'', 0, ''response'') 0 2]"

lemma ex_nanos: "started_nanos ex_run_header = 0" "duration_nanos_of ex_run_header = 1000000000"
  by (simp_all add: started_nanos_def duration_nanos_of_def ex_run_header_def trunc_def)

lemma ex_shares_attributed: "attribute_tokens ex_run_header ex_log = Inr ex_shares"
  by code_simp

lemma ex_texts_ok: "texts_ok ex_run_header ex_shares"
  by code_simp

lemma ex_profile_short:
  "(case bind_res (add_shares ex_shares new_profile) (\<lambda>p.
      serialize p sample_types_of_profile 0 1000000000 (profile_comments ex_run_header)) of
    Inr raw \<Rightarrow> length raw < 1000 | Inl _ \<Rightarrow> False)"
  by code_simp

theorem token_profile_roundtrip_witness:
  "list_all usage_ok (map event ex_log) \<and> attribute_tokens ex_run_header ex_log = Inr ex_shares
   \<and> (\<exists>raw d. build_token_profile ex_run_header ex_log = Inr raw \<and> int (length raw) < 2 ^ 77
        \<and> decode_profile raw = Inr d \<and> sample_totals d = Inr (3, 2))"
proof -
  have u: "list_all usage_ok (map event ex_log)" by (simp add: ex_log_def ex_defs usage_ok_def)
  have t: "usage_totals ex_log = (3, 2)" by (simp add: usage_totals_def ex_log_def ex_defs)
  obtain raw where raw: "build_token_profile ex_run_header ex_log = Inr raw" "length raw < 1000"
    using ex_profile_short
    by (auto simp: build_token_profile_def ex_shares_attributed ex_nanos split: sum.splits)
  show ?thesis
    using token_profile_roundtrip [OF u ex_shares_attributed ex_texts_ok] u raw
    by (auto simp: ex_nanos ex_shares_attributed t)
qed

end
