(* ===== verification/Session.thy ===== *)
theory Session
  imports Redaction Store
begin

text \<open>
  A recording or replaying agent run (\<open>src/tracewake/session.py\<close>): the session's state, model calls plain
  and streamed, tool calls, environment values, the outcome, and interventions. The filesystem interface
  is in \<open>Files\<close>.

  What a session calls outside the program is an argument: the backends, the tool dispatcher (which may
  itself use the session, so it takes and returns it), the producers of environment values, the clock
  readings and the fresh ids. An operation that can raise returns its result beside the session it leaves
  behind. The report is one object shared with the matcher; it is kept in the session and handed to the
  matcher at every match. The replay lock has no counterpart: an operation is one step.
\<close>

section \<open>State\<close>

datatype record_mode = MOnce | MNone | MNewEpisodes | MAll

record intervention =
  iv_source_run_id :: string
  iv_drop_tags :: "string set"
  iv_from_turn :: int
  iv_blocks :: int

definition iv_label :: "intervention \<Rightarrow> string" where
  "iv_label iv =
     ''drop-'' @ join_str ''+'' (sorted_list_of_set (iv_drop_tags iv)) @ ''@'' @ int_str (iv_from_turn iv)"

definition iv_describe :: "intervention \<Rightarrow> string" where
  "iv_describe iv =
     (let suffix = (if iv_blocks iv \<noteq> 0
                    then '' ('' @ int_str (iv_blocks iv) @ '' ''
                         @ (if iv_blocks iv = 1 then ''block'' else ''blocks'') @ '')'' else [])
      in ''dropping '' @ join_str '', '' (sorted_list_of_set (iv_drop_tags iv)) @ '' from turn ''
         @ int_str (iv_from_turn iv) @ '' of run ''
         @ concat (take 12 (utf8_chars (iv_source_run_id iv))) @ suffix)"

text \<open>A recorded access to a file, in the list of its kind and path.\<close>

datatype fs_access = RAccess fs_read_event | WAccess fs_write_event

record session =
  s_run_id :: string
  s_name :: string
  s_mode :: record_mode
  s_config :: config
  s_header :: run_header
  s_intervention :: "intervention option"
  s_blocks_dropped :: int
  s_turn :: int
  s_store :: store
  s_redactor :: redactor
  current_call_id :: "string option"
  s_models :: "((string \<times> string \<times> string option) \<times> model_identity) list"
  can_replay :: bool
  s_can_record :: bool
  s_report :: replay_report
  s_tool_calls :: "(string \<times> string) \<rightharpoonup> tool_call_event"
  s_env :: "(env_source \<times> string option) \<rightharpoonup> json list"
  s_env_cursor :: "(env_source \<times> string option) \<rightharpoonup> nat"
  s_fs :: "(string \<times> string) \<rightharpoonup> fs_access list"
  s_fs_cursor :: "(string \<times> string) \<rightharpoonup> nat"
  s_outcome :: "outcome_event option"
  s_matcher :: "call_matcher option"

text \<open>What every session shares: hashing and \<open>repr\<close>, the stored form of events, and the schema.\<close>

record sys =
  s_py :: py_env
  s_codec :: event_codec
  s_validate :: "jobject \<Rightarrow> any_event res"

definition forked :: "session \<Rightarrow> bool" where
  "forked s \<longleftrightarrow> s_intervention s \<noteq> None"

section \<open>Operations that may raise\<close>

type_synonym 'a op = "session \<Rightarrow> 'a res \<times> session"

definition return_op :: "'a \<Rightarrow> 'a op" where
  "return_op x s = (Inr x, s)"

definition raise_op :: "exn \<Rightarrow> 'a op" where
  "raise_op e s = (Inl e, s)"

definition lift_op :: "'a res \<Rightarrow> 'a op" where
  "lift_op r s = (r, s)"

definition bind_op :: "'a op \<Rightarrow> ('a \<Rightarrow> 'b op) \<Rightarrow> 'b op" where
  "bind_op m f s = (case m s of (Inl e, t) \<Rightarrow> (Inl e, t) | (Inr x, t) \<Rightarrow> f x t)"

definition modify_op :: "(session \<Rightarrow> session) \<Rightarrow> unit op" where
  "modify_op f s = (Inr (), f s)"

section \<open>Building a session\<close>

definition can_record_in :: "record_mode \<Rightarrow> bool \<Rightarrow> bool" where
  "can_record_in mode replaying \<longleftrightarrow> mode = MAll \<or> mode = MNewEpisodes \<or> (mode = MOnce \<and> \<not> replaying)"

definition access_key :: "fs_access \<Rightarrow> string \<times> string" where
  "access_key a = (case a of RAccess e \<Rightarrow> (kind_str (fr_kind e), fr_path e) | WAccess e \<Rightarrow> (''write'', fw_path e))"

definition list_at_key :: "('k \<rightharpoonup> 'v list) \<Rightarrow> 'k \<Rightarrow> 'v list" where
  "list_at_key m k = (case m k of None \<Rightarrow> [] | Some vs \<Rightarrow> vs)"

definition push :: "'k \<Rightarrow> 'v \<Rightarrow> ('k \<rightharpoonup> 'v list) \<Rightarrow> ('k \<rightharpoonup> 'v list)" where
  "push k v m = m(k \<mapsto> list_at_key m k @ [v])"

text \<open>The body of the loop of \<open>_index\<close>, and the model calls it collects.\<close>

definition index_event :: "any_event \<Rightarrow> session \<Rightarrow> session" where
  "index_event ev s =
     (case ev of
        ToolCall e \<Rightarrow> s\<lparr>s_tool_calls := (s_tool_calls s)((tc_parent e, tc_tool e) \<mapsto> e)\<rparr>
      | Environment e \<Rightarrow> s\<lparr>s_env := push (ee_source e, ee_key e) (ee_value e) (s_env s)\<rparr>
      | FsRead e \<Rightarrow> s\<lparr>s_fs := push (access_key (RAccess e)) (RAccess e) (s_fs s)\<rparr>
      | FsWrite e \<Rightarrow> s\<lparr>s_fs := push (access_key (WAccess e)) (WAccess e) (s_fs s)\<rparr>
      | Outcome e \<Rightarrow> s\<lparr>s_outcome := Some e\<rparr>
      | _ \<Rightarrow> s)"

fun model_calls_of :: "any_event list \<Rightarrow> model_call_event list" where
  "model_calls_of [] = []"
| "model_calls_of (ModelCall e # es) = e # model_calls_of es"
| "model_calls_of (_ # es) = model_calls_of es"

definition index_log :: "sys \<Rightarrow> stored_event list \<Rightarrow> session \<Rightarrow> session res" where
  "index_log y es s =
     (let t = fold index_event (map event es) s
      in bind_res (new_matcher (s_py y) (model_calls_of (map event es)) (s_config t) (s_report t)) (\<lambda>m.
           Inr (t\<lparr>s_matcher := Some m, s_report := m_report m\<rparr>)))"

definition new_session ::
  "sys \<Rightarrow> machine \<Rightarrow> store \<Rightarrow> run_header \<Rightarrow> record_mode \<Rightarrow> config \<Rightarrow> stored_event list option
   \<Rightarrow> intervention option \<Rightarrow> session res" where
  "new_session y mach st header mode config replay_events iv =
     (let replaying = replay_events \<noteq> None;
          s = \<lparr>s_run_id = hdr_run_id header, s_name = hdr_name header, s_mode = mode, s_config = config,
               s_header = header, s_intervention = iv, s_blocks_dropped = 0, s_turn = 0, s_store = st,
               s_redactor = new_redactor config mach, current_call_id = None, s_models = [],
               can_replay = replaying, s_can_record = can_record_in mode replaying,
               s_report = new_report (can_record_in mode replaying), s_tool_calls = Map.empty,
               s_env = Map.empty, s_env_cursor = Map.empty, s_fs = Map.empty, s_fs_cursor = Map.empty,
               s_outcome = None, s_matcher = None\<rparr>
      in bind_res (case replay_events of None \<Rightarrow> Inr s | Some es \<Rightarrow> index_log y es s) (\<lambda>s.
           Inr (if forked s then s\<lparr>s_outcome := None\<rparr> else s)))"

section \<open>Writing\<close>

text \<open>\<open>tool_scope\<close>: the model call and the tool call on the stack.\<close>

type_synonym scope = "string option \<times> string option"

definition put_blob_op :: "sys \<Rightarrow> string \<Rightarrow> blob_ref op" where
  "put_blob_op y data s =
     (case put_blob (s_py y) (s_store s) (redact_blob (s_redactor s) data) of (r, st) \<Rightarrow> (r, s\<lparr>s_store := st\<rparr>))"

definition append_op :: "sys \<Rightarrow> any_event \<Rightarrow> int option op" where
  "append_op y e s =
     (if \<not> s_can_record s then (Inl (ReplayMiss MissReadOnly), s)
      else case redact_event (s_validate y) (s_redactor s) e of
             Inl x \<Rightarrow> (Inl x, s)
           | Inr None \<Rightarrow> (Inr None, s)
           | Inr (Some e') \<Rightarrow>
               (case append_event (s_py y) (s_codec y) (s_store s) (s_run_id s) e' of
                  (Inl x, st) \<Rightarrow> (Inl x, s\<lparr>s_store := st\<rparr>)
                | (Inr n, st) \<Rightarrow> (Inr (Some n), s\<lparr>s_store := st\<rparr>)))"

definition meta_at :: "real \<Rightarrow> real option \<Rightarrow> real list option \<Rightarrow> event_meta" where
  "meta_at t d offsets = \<lparr>recorded_at = t, duration_ms = d, chunk_offsets_ms = offsets\<rparr>"

section \<open>Environment values\<close>

definition pop_env :: "env_source \<Rightarrow> string option \<Rightarrow> session \<Rightarrow> json option \<times> session" where
  "pop_env source key s =
     (case s_env s (source, key) of
        None \<Rightarrow> (None, s)
      | Some vs \<Rightarrow>
          if vs = [] then (None, s)
          else
            let index = (case s_env_cursor s (source, key) of None \<Rightarrow> 0 | Some i \<Rightarrow> i)
            in if index < length vs
               then (Some (vs ! index), s\<lparr>s_env_cursor := (s_env_cursor s)((source, key) \<mapsto> index + 1)\<rparr>)
               else if source = SEnv then (Some (last vs), s)
               else (None, s))"

text \<open>Past the replayed values: produce a live one and record it, or miss.\<close>

definition env_live :: "sys \<Rightarrow> scope \<Rightarrow> real \<Rightarrow> env_source \<Rightarrow> string option \<Rightarrow> json res \<Rightarrow> json op" where
  "env_live y scope now source key produce s =
     (if \<not> s_can_record s then (Inl (ReplayMiss MissEnv), s)
      else
        bind_op (lift_op produce) (\<lambda>v.
        bind_op (append_op y (Environment \<lparr>ee_parent = current_call_id s, ee_tool = snd scope,
            ee_meta = meta_at now None None, ee_source = source, ee_key = key, ee_value = v\<rparr>)) (\<lambda>_.
          return_op v)) s)"

definition env_value :: "sys \<Rightarrow> scope \<Rightarrow> real \<Rightarrow> env_source \<Rightarrow> string option \<Rightarrow> json res \<Rightarrow> json op" where
  "env_value y scope now source key produce s =
     (if can_replay s \<and> \<not> forked s then
        (case pop_env source key s of
           (Some v, t) \<Rightarrow> (Inr (if source = SEnv then restore_path (s_redactor s) v else v), t)
         | (None, t) \<Rightarrow> env_live y scope now source key produce t)
      else env_live y scope now source key produce s)"

section \<open>Model calls\<close>

record model_obj =
  mo_provider :: string
  mo_model_id :: string
  mo_model_version :: "string option"
  create_fn :: "(string \<Rightarrow> message list \<Rightarrow> decode_params \<Rightarrow> model_response res) option"
  stream_fn :: "(string \<Rightarrow> message list \<Rightarrow> decode_params \<Rightarrow> stream_chunk list \<times> model_response option res) option"

definition saw_model :: "model_identity \<Rightarrow> session \<Rightarrow> session" where
  "saw_model i s =
     s\<lparr>s_models := AList.update (id_provider i, id_model_id i, id_model_version i) i (s_models s)\<rparr>"

definition models_of :: "session \<Rightarrow> model_identity list" where
  "models_of s = map snd (s_models s)"

definition model_init :: "model_obj \<Rightarrow> session \<Rightarrow> session" where
  "model_init mo s =
     saw_model \<lparr>id_provider = mo_provider mo, id_model_id = mo_model_id mo, id_model_version = mo_model_version mo\<rparr> s"

definition turn_messages :: "message list \<Rightarrow> session \<Rightarrow> message list \<times> session" where
  "turn_messages ms s =
     (let turn = s_turn s; s = s\<lparr>s_turn := turn + 1\<rparr>
      in case s_intervention s of
           None \<Rightarrow> (ms, s)
         | Some iv \<Rightarrow>
             if turn < iv_from_turn iv then (ms, s)
             else
               let kept = filter (\<lambda>m. provenance m \<notin> Some ` iv_drop_tags iv) ms;
                   n = s_blocks_dropped s + (int (length ms) - int (length kept))
               in (kept, s\<lparr>s_blocks_dropped := n, s_report := (s_report s)\<lparr>blocks_dropped := n\<rparr>\<rparr>))"

definition matched_call :: "sys \<Rightarrow> model_obj \<Rightarrow> message list \<Rightarrow> string list option \<Rightarrow> model_call_event option op" where
  "matched_call y mo ms tools s =
     (case s_matcher s of
        None \<Rightarrow> (Inr None, s)
      | Some m \<Rightarrow>
          (case redact_messages (s_redactor s) ms of
             Inl e \<Rightarrow> (Inl e, s)
           | Inr stored \<Rightarrow>
               let rq = build_request (s_py y) (mo_model_id mo) stored tools;
                   (hit, m') = match_call (s_py y) (m\<lparr>m_report := s_report s\<rparr>) rq;
                   t = s\<lparr>s_matcher := Some m', s_report := m_report m'\<rparr>
               in if hit = None \<and> \<not> s_can_record s then (Inl (ReplayMiss MissModelCall), t)
                  else (Inr hit, t)))"

text \<open>\<open>_append_model_call\<close>; \<open>cid\<close> is the id it is given or draws.\<close>

definition append_model_call ::
  "sys \<Rightarrow> real \<Rightarrow> string \<Rightarrow> model_obj \<Rightarrow> decode_params \<Rightarrow> string list option \<Rightarrow> message list \<Rightarrow> model_response
   \<Rightarrow> stream_chunk list option \<Rightarrow> real \<Rightarrow> real list option \<Rightarrow> string op" where
  "append_model_call y now cid mo params tools ms response chunks dur offsets s =
     bind_op (lift_op (redact_messages (s_redactor s) ms)) (\<lambda>stored.
     bind_op (lift_op (stream_reassembles (s_py y)
       \<lparr>mc_parent = current_call_id s, mc_tool = None, mc_meta = meta_at now (Some dur) offsets, call_id = cid,
        mc_provider = mo_provider mo, mc_model_id = mo_model_id mo, mc_model_version = mo_model_version mo,
        mc_params = params, mc_tools = tools, mc_messages = stored,
        messages_hash = hash_messages (s_py y) stored, mc_response = response, mc_stream = chunks\<rparr>)) (\<lambda>e.
     bind_op (append_op y (ModelCall e)) (\<lambda>_.
     bind_op (modify_op (\<lambda>s.
        let t = s\<lparr>current_call_id := Some cid\<rparr>
        in if can_replay t then t\<lparr>s_report := (s_report t)\<lparr>recorded_new := recorded_new (s_report t) + 1\<rparr>\<rparr> else t)) (\<lambda>_.
       return_op cid)))) s"

text \<open>\<open>create\<close>: the recorded response of a match, or a live call that is recorded.\<close>

definition create ::
  "sys \<Rightarrow> real \<Rightarrow> string \<Rightarrow> real \<Rightarrow> model_obj \<Rightarrow> message list \<Rightarrow> string list option \<Rightarrow> decode_params
   \<Rightarrow> (string \<times> model_response) op" where
  "create y now cid dur mo ms0 tools params s0 =
     (case turn_messages ms0 s0 of (ms, s) \<Rightarrow>
        bind_op (matched_call y mo ms tools) (\<lambda>hit.
          case hit of
            Some e \<Rightarrow>
              bind_op (modify_op (\<lambda>s. s\<lparr>current_call_id := Some (call_id e)\<rparr>)) (\<lambda>_.
                if mc_stream e \<noteq> None then raise_op (ReplayMiss MissRecordedStream)
                else return_op (call_id e, mc_response e))
          | None \<Rightarrow>
              (case create_fn mo of
                 None \<Rightarrow> raise_op (ReplayMiss MissBackend)
               | Some f \<Rightarrow>
                   bind_op (lift_op (f (mo_model_id mo) ms params)) (\<lambda>response.
                   bind_op (append_model_call y now cid mo params tools ms response None dur None) (\<lambda>cid.
                     return_op (cid, response))))) s)"

section \<open>Streams\<close>

text \<open>What \<open>finalize\<close> of a handle does: give the recorded response, or record the call.\<close>

datatype finalizer =
    Replayed model_response
  | Recording model_obj decode_params "string list option" "message list"

text \<open>
  A handle and the generator behind it: the chunks still to come, how the generator ends (by an
  exception, or by returning a response or nothing), and what it has returned so far.
\<close>

record stream_handle =
  h_call_id :: string
  h_rest :: "stream_chunk list"
  h_end :: "model_response option res"
  h_returned :: "model_response option"
  h_finalizer :: finalizer
  h_chunks :: "stream_chunk list"
  h_offsets :: "real list"
  h_response :: "model_response option"

definition new_handle :: "string \<Rightarrow> stream_chunk list \<Rightarrow> model_response option res \<Rightarrow> finalizer \<Rightarrow> stream_handle" where
  "new_handle cid chunks fin f =
     \<lparr>h_call_id = cid, h_rest = chunks, h_end = fin, h_returned = None, h_finalizer = f, h_chunks = [],
      h_offsets = [], h_response = None\<rparr>"

text \<open>The tool calls the delivered chunks announced, when the backend gave no response.\<close>

definition rescued_calls :: "py_env \<Rightarrow> stream_chunk list \<Rightarrow> tool_call_request list" where
  "rescued_calls env chunks =
     (let ds = filter (\<lambda>d. map_of d ''id'' \<noteq> None) (List.map_filter tool_call_delta chunks)
      in map (\<lambda>(i, d). \<lparr>req_id = py_str env (the (map_of d ''id'')),
                        req_name = (case map_of d ''name'' of None \<Rightarrow> [] | Some v \<Rightarrow> py_str env v),
                        req_args = (case map_of d ''args'' of Some (JObj kvs) \<Rightarrow> kvs | _ \<Rightarrow> []),
                        req_batch_index = int i\<rparr>) (enumerate 0 ds))"

definition rescued_response :: "py_env \<Rightarrow> stream_chunk list \<Rightarrow> model_response" where
  "rescued_response env chunks =
     \<lparr>resp_text = concat (map text_delta chunks), resp_tool_calls = rescued_calls env chunks,
      finish_reason = ''error'',
      resp_usage = \<lparr>input_tokens = 0, output_tokens = 0, cached_input_tokens = 0\<rparr>, logprobs = None\<rparr>"

definition finalize :: "sys \<Rightarrow> real \<Rightarrow> real \<Rightarrow> stream_handle \<Rightarrow> model_response op" where
  "finalize y now dur h =
     (case h_finalizer h of
        Replayed r \<Rightarrow> return_op r
      | Recording mo params tools ms \<Rightarrow>
          let response = (case h_returned h of Some r \<Rightarrow> r | None \<Rightarrow> rescued_response (s_py y) (h_chunks h))
          in bind_op (append_model_call y now (h_call_id h) mo params tools ms response (Some (h_chunks h)) dur
                        (Some (h_offsets h))) (\<lambda>_. return_op response))"

text \<open>
  \<open>__next__\<close>, with the reading of the clock for the chunk's offset. A generator that has raised is
  exhausted: asked again it stops.
\<close>

definition next_chunk ::
  "sys \<Rightarrow> real \<Rightarrow> real \<Rightarrow> real \<Rightarrow> stream_handle \<Rightarrow> session \<Rightarrow> stream_chunk res \<times> stream_handle \<times> session" where
  "next_chunk y now dur offset h s =
     (if h_response h \<noteq> None then (Inl StopIteration, h, s)
      else case h_rest h of
             c # cs \<Rightarrow> (Inr c, h\<lparr>h_rest := cs, h_chunks := h_chunks h @ [c], h_offsets := h_offsets h @ [offset]\<rparr>, s)
           | [] \<Rightarrow>
               let h' = (case h_end h of
                           Inr r \<Rightarrow> h\<lparr>h_returned := r\<rparr>
                         | Inl _ \<Rightarrow> h\<lparr>h_end := Inr None\<rparr>);
                   stop = (case h_end h of Inr _ \<Rightarrow> StopIteration | Inl e \<Rightarrow> e)
               in case finalize y now dur h' s of
                    (Inl e, t) \<Rightarrow> (Inl e, h', t)
                  | (Inr r, t) \<Rightarrow> (Inl stop, h'\<lparr>h_response := Some r\<rparr>, t))"

text \<open>The loop of \<open>drain\<close>; \<open>clock\<close> gives the offset of the n-th chunk.\<close>

function drain_loop ::
  "sys \<Rightarrow> real \<Rightarrow> real \<Rightarrow> (nat \<Rightarrow> real) \<Rightarrow> stream_handle \<Rightarrow> session \<Rightarrow> unit res \<times> stream_handle \<times> session" where
  "drain_loop y now dur clock h s =
     (case next_chunk y now dur (clock (length (h_chunks h))) h s of
        (Inr c, h', t) \<Rightarrow> drain_loop y now dur clock h' t
      | (Inl e, h', t) \<Rightarrow> (if e = StopIteration then Inr () else Inl e, h', t))"
  by pat_completeness auto
termination
  by (relation "measure (\<lambda>(y, now, dur, clock, h, s). length (h_rest h))")
     (auto simp: next_chunk_def Let_def split: list.splits if_splits sum.splits prod.splits)

declare drain_loop.simps [simp del]

definition handle_response :: "stream_handle \<Rightarrow> model_response res" where
  "handle_response h = (case h_response h of None \<Rightarrow> Inl RuntimeError | Some r \<Rightarrow> Inr r)"

definition drain ::
  "sys \<Rightarrow> real \<Rightarrow> real \<Rightarrow> (nat \<Rightarrow> real) \<Rightarrow> stream_handle \<Rightarrow> session \<Rightarrow> model_response res \<times> stream_handle \<times> session" where
  "drain y now dur clock h s =
     (case drain_loop y now dur clock h s of
        (Inl e, h', t) \<Rightarrow> (Inl e, h', t)
      | (Inr _, h', t) \<Rightarrow> (handle_response h', h', t))"

text \<open>\<open>__exit__\<close>, told whether an exception is under way; what it raises itself replaces that one.\<close>

definition exit_handle ::
  "sys \<Rightarrow> real \<Rightarrow> real \<Rightarrow> (nat \<Rightarrow> real) \<Rightarrow> bool \<Rightarrow> stream_handle \<Rightarrow> session \<Rightarrow> unit res \<times> stream_handle \<times> session" where
  "exit_handle y now dur clock failing h s =
     (if h_response h \<noteq> None then (Inr (), h, s)
      else if \<not> failing then
        (case drain y now dur clock h s of
           (Inl e, h', t) \<Rightarrow> (Inl e, h', t)
         | (Inr _, h', t) \<Rightarrow> (Inr (), h', t))
      else
        (case finalize y now dur h s of
           (Inl e, t) \<Rightarrow> (Inl e, h, t)
         | (Inr r, t) \<Rightarrow> (Inr (), h\<lparr>h_response := Some r\<rparr>, t)))"

definition stream ::
  "sys \<Rightarrow> string \<Rightarrow> model_obj \<Rightarrow> message list \<Rightarrow> string list option \<Rightarrow> decode_params \<Rightarrow> stream_handle op" where
  "stream y cid mo ms0 tools params s0 =
     (case turn_messages ms0 s0 of (ms, s) \<Rightarrow>
        bind_op (matched_call y mo ms tools) (\<lambda>hit.
          case hit of
            Some e \<Rightarrow>
              bind_op (modify_op (\<lambda>s. s\<lparr>current_call_id := Some (call_id e)\<rparr>)) (\<lambda>_.
                case mc_stream e of
                  None \<Rightarrow> raise_op (ReplayMiss MissRecordedPlain)
                | Some chunks \<Rightarrow>
                    return_op (new_handle (call_id e) chunks (Inr None) (Replayed (mc_response e))))
          | None \<Rightarrow>
              (case stream_fn mo of
                 None \<Rightarrow> raise_op (ReplayMiss MissBackend)
               | Some f \<Rightarrow>
                   case f (mo_model_id mo) ms params of (chunks, fin) \<Rightarrow>
                     return_op (new_handle cid chunks fin (Recording mo params tools ms)))) s)"

section \<open>Tools\<close>

type_synonym dispatch = "scope \<Rightarrow> string \<Rightarrow> jobject \<Rightarrow> tool_outcome op"

definition recorded_tool :: "session \<Rightarrow> string \<Rightarrow> tool_call_request \<Rightarrow> tool_call_event option" where
  "recorded_tool s parent rq = (if forked s then None else s_tool_calls s (parent, req_id rq))"

text \<open>The replayed half of \<open>_call\<close>.\<close>

definition replay_tool :: "sys \<Rightarrow> tool_call_event \<Rightarrow> tool_outcome op" where
  "replay_tool y e =
     bind_op (modify_op (\<lambda>s. s\<lparr>s_report := (s_report s)\<lparr>tool_calls_replayed := tool_calls_replayed (s_report s) + 1\<rparr>\<rparr>)) (\<lambda>_ s.
       (bind_res (get_blob (s_py y) (s_store s) (digest (tc_result e))) (\<lambda>data.
        bind_res (decode_utf8 data) (\<lambda>content.
          Inr \<lparr>out_content = content, out_status = tc_status e, out_error = tc_error e\<rparr>)), s))"

text \<open>The live half: dispatch inside the tool's scope, store the result, record the call.\<close>

definition call_live ::
  "sys \<Rightarrow> real \<Rightarrow> real \<Rightarrow> dispatch \<Rightarrow> string \<Rightarrow> tool_call_request \<Rightarrow> jobject \<Rightarrow> string \<Rightarrow> tool_outcome op" where
  "call_live y now dur f parent rq stored_args args_hash =
     bind_op (f (Some parent, Some (req_id rq)) (req_name rq) (req_args rq)) (\<lambda>outcome.
     bind_op (put_blob_op y (out_content outcome)) (\<lambda>result.
     bind_op (append_op y (ToolCall \<lparr>tc_parent = parent, tc_tool = req_id rq, tc_meta = meta_at now (Some dur) None,
         tc_batch_index = req_batch_index rq, tc_name = req_name rq, tc_args = stored_args,
         tc_args_hash = args_hash, tc_result = result, tc_status = out_status outcome,
         tc_error = out_error outcome\<rparr>)) (\<lambda>_.
       return_op outcome)))"

definition call_tool :: "sys \<Rightarrow> real \<Rightarrow> real \<Rightarrow> dispatch option \<Rightarrow> string \<Rightarrow> tool_call_request \<Rightarrow> tool_outcome op" where
  "call_tool y now dur dispatch_fn parent rq s =
     (let stored_args = redact_args (s_redactor s) (req_args rq);
          args_hash = hash_args (s_py y) stored_args;
          recorded = recorded_tool s parent rq
      in case recorded of
           Some e \<Rightarrow>
             if args_hash = tc_args_hash e then replay_tool y e s
             else if \<not> s_can_record s then (Inl (ReplayMiss MissToolArgs), s)
             else (case dispatch_fn of
                     None \<Rightarrow> (Inl (ReplayMiss MissDispatch), s)
                   | Some f \<Rightarrow> call_live y now dur f parent rq stored_args args_hash s)
         | None \<Rightarrow>
             if \<not> s_can_record s then (Inl (ReplayMiss MissTool), s)
             else (case dispatch_fn of
                     None \<Rightarrow> (Inl (ReplayMiss MissDispatch), s)
                   | Some f \<Rightarrow> call_live y now dur f parent rq stored_args args_hash s))"

section \<open>The outcome\<close>

definition zero_usage :: usage where
  "zero_usage = \<lparr>input_tokens = 0, output_tokens = 0, cached_input_tokens = 0\<rparr>"

definition record_outcome ::
  "sys \<Rightarrow> real \<Rightarrow> status \<Rightarrow> string option \<Rightarrow> usage option \<Rightarrow> bool option \<Rightarrow> bool option \<Rightarrow> string option
   \<Rightarrow> string option \<Rightarrow> unit op" where
  "record_outcome y now st err us cov sol patch test_summary s =
     bind_op (case patch of
                None \<Rightarrow> return_op None
              | Some p \<Rightarrow> bind_op (put_blob_op y p) (\<lambda>b. return_op (Some b))) (\<lambda>blob.
       let e = \<lparr>oc_parent = current_call_id s, oc_tool = None, oc_meta = meta_at now None None, oc_status = st,
                oc_error = err, oc_usage = (case us of None \<Rightarrow> zero_usage | Some u \<Rightarrow> u), oc_coverage = cov,
                oc_resolve = sol, oc_patch = blob, oc_test_summary = test_summary\<rparr>
       in bind_op (append_op y (Outcome e)) (\<lambda>_. modify_op (\<lambda>s. s\<lparr>s_outcome := Some e\<rparr>))) s"

definition outcome ::
  "sys \<Rightarrow> real \<Rightarrow> status \<Rightarrow> string option \<Rightarrow> usage option \<Rightarrow> bool option \<Rightarrow> bool option \<Rightarrow> string option
   \<Rightarrow> string option \<Rightarrow> unit op" where
  "outcome y now st err us cov sol patch test_summary s =
     (case s_outcome s of
        Some o' \<Rightarrow>
          if st \<noteq> oc_status o' then (Inl (ReplayMiss MissOutcomeStatus), s)
          else if \<not> s_can_record s then (Inr (), s)
          else record_outcome y now st err us cov sol patch test_summary s
      | None \<Rightarrow>
          if \<not> s_can_record s then (Inl (ReplayMiss MissNoOutcome), s)
          else record_outcome y now st err us cov sol patch test_summary s)"

section \<open>Replayed file accesses\<close>

definition replay_fs :: "string \<Rightarrow> string \<Rightarrow> fs_access option op" where
  "replay_fs kind path s =
     (if \<not> can_replay s \<or> forked s then (Inr None, s)
      else
        let entries = s_fs s (kind, path);
            index = (case s_fs_cursor s (kind, path) of None \<Rightarrow> 0 | Some i \<Rightarrow> i);
            n = (case entries of None \<Rightarrow> 0 | Some es \<Rightarrow> length es)
        in if index < n
           then (Inr (Some (the entries ! index)), s\<lparr>s_fs_cursor := (s_fs_cursor s)((kind, path) \<mapsto> index + 1)\<rparr>)
           else if \<not> s_can_record s
           then (Inl (ReplayMiss (if n = 0 then MissFsNever else MissFsExhausted)), s)
           else (Inr None, s))"

definition fs_key :: "session \<Rightarrow> string \<Rightarrow> string" where
  "fs_key s path = redact_text (s_redactor s) path"

text \<open>\<open>_scope_fields\<close>: the parent is the tool's model call, or the last one made.\<close>

definition scope_parent :: "scope \<Rightarrow> session \<Rightarrow> string option" where
  "scope_parent sc s = (if truthy (fst sc) then fst sc else current_call_id s)"

section \<open>Interventions\<close>

definition tagged :: "string set \<Rightarrow> message \<Rightarrow> bool" where
  "tagged tags m \<longleftrightarrow> provenance m \<in> Some ` tags"

definition plan_intervention ::
  "run_header \<Rightarrow> stored_event list \<Rightarrow> string set \<Rightarrow> int \<Rightarrow> intervention res" where
  "plan_intervention source es drop_tags from_turn =
     (if drop_tags = {} then Inl ValueError
      else if from_turn < 0 then Inl ValueError
      else
        let calls = model_calls_of (map event es)
        in if from_turn \<ge> int (length calls) then Inl ValueError
           else
             let hits = length (filter (tagged drop_tags) (concat (map mc_messages (drop (nat from_turn) calls))))
             in if hits = 0 then Inl ValueError
                else Inr \<lparr>iv_source_run_id = hdr_run_id source, iv_drop_tags = drop_tags,
                          iv_from_turn = from_turn, iv_blocks = int hits\<rparr>)"

section \<open>Staleness\<close>

definition SECONDS_PER_DAY :: real where
  "SECONDS_PER_DAY = 86400"

text \<open>\<open>days\<close> formats an age, Python's \<open>{:.0f}\<close>; \<open>crepr\<close> quotes the name.\<close>

definition warn_if_stale :: "py_env \<Rightarrow> (real \<Rightarrow> string) \<Rightarrow> real \<Rightarrow> run_header \<Rightarrow> config \<Rightarrow> string option" where
  "warn_if_stale env days now header config =
     (case stale_after_days config of
        None \<Rightarrow> None
      | Some limit \<Rightarrow>
          let age_days = (now - started_at header) / SECONDS_PER_DAY
          in if age_days < limit then None
             else
               let ms = join_str '', '' (map (\<lambda>m. id_provider m @ ''/'' @ id_model_id m) (hdr_models header))
               in Some (''cassette '' @ crepr env (JStr (hdr_name header)) @ '' was recorded '' @ days age_days
                        @ '' days ago against '' @ (if ms = [] then ''unknown'' else ms)
                        @ ''. Model weights change under a stable model id, so this may be replaying a model ''
                        @ ''that no longer behaves the way it did when recorded. Re-record to be sure.''))"

section \<open>Reading computations\<close>

named_theorems op_simps \<open>computation rules of operations\<close>

lemma return_op_simp [op_simps, simp]: "return_op x s = (Inr x, s)"
  by (simp add: return_op_def)

lemma raise_op_simp [op_simps, simp]: "raise_op e s = (Inl e, s)"
  by (simp add: raise_op_def)

lemma lift_op_simp [op_simps, simp]: "lift_op r s = (r, s)"
  by (simp add: lift_op_def)

lemma modify_op_simp [op_simps, simp]: "modify_op f s = (Inr (), f s)"
  by (simp add: modify_op_def)

lemma bind_op_simps [op_simps, simp]:
  "m s = (Inl e, t) \<Longrightarrow> bind_op m f s = (Inl e, t)"
  "m s = (Inr x, t) \<Longrightarrow> bind_op m f s = f x t"
  by (simp_all add: bind_op_def)

text \<open>
  A property of states that an operation keeps. The rules compose it along the operations' text, so that
  each operation's lemma is one line.
\<close>

definition keeps :: "(session \<Rightarrow> session \<Rightarrow> bool) \<Rightarrow> 'a op \<Rightarrow> bool" where
  "keeps R m \<longleftrightarrow> (\<forall>s. R s (snd (m s)))"

text \<open>The contract of a preorder on states, and what follows for every way of composing operations.\<close>

locale preorder_on_states =
  fixes R :: "session \<Rightarrow> session \<Rightarrow> bool"
  assumes refl: "R s s" and trans: "R s t \<Longrightarrow> R t u \<Longrightarrow> R s u"
begin

lemma keeps_return: "keeps R (return_op x)"
  by (simp add: keeps_def refl)

lemma keeps_raise: "keeps R (raise_op e)"
  by (simp add: keeps_def refl)

lemma keeps_lift: "keeps R (lift_op r)"
  by (simp add: keeps_def refl)

lemma keeps_modify: "(\<And>s. R s (f s)) \<Longrightarrow> keeps R (modify_op f)"
  by (simp add: keeps_def)

lemma keeps_bind: "keeps R m \<Longrightarrow> (\<And>x. keeps R (f x)) \<Longrightarrow> keeps R (bind_op m f)"
  unfolding keeps_def bind_op_def by (auto split: prod.split sum.split intro: trans) (metis snd_conv trans)+

lemma keeps_if: "keeps R m \<Longrightarrow> keeps R n \<Longrightarrow> keeps R (if b then m else n)"
  by simp

lemma keeps_option: "keeps R m \<Longrightarrow> (\<And>x. keeps R (f x)) \<Longrightarrow> keeps R (case v of None \<Rightarrow> m | Some x \<Rightarrow> f x)"
  by (cases v) auto

lemmas keeps_rules = keeps_return keeps_raise keeps_lift keeps_bind keeps_option keeps_if

end

end
