(* ===== verification/Files.thy ===== *)
theory Files
  imports Session
begin

text \<open>
  The filesystem as an agent's tools see it (\<open>src/tracewake/fs.py\<close>): rooted paths, and reads, listings,
  existence checks and writes that are served from the log on replay and recorded otherwise.

  The operating system is an argument: \<open>disk\<close> says what is on the disk and what writing does to it,
  \<open>realpath\<close> is \<open>Path.resolve\<close>. \<open>loads\<close> is \<open>json.loads\<close> on a stored listing.
\<close>

section \<open>The disk and paths\<close>

record 'd disk =
  file_at :: "'d \<Rightarrow> string \<Rightarrow> string option"
  exists_at :: "'d \<Rightarrow> string \<Rightarrow> bool"
  entries_at :: "'d \<Rightarrow> string \<Rightarrow> string list option"
  write_at :: "'d \<Rightarrow> string \<Rightarrow> string \<Rightarrow> 'd res"

text \<open>\<open>Fs\<close>: the base, already resolved, and the resolution of paths.\<close>

record fs =
  fs_root :: "string option"
  realpath :: "string \<Rightarrow> string"

definition rooted :: "(string \<Rightarrow> string) \<Rightarrow> string \<Rightarrow> fs" where
  "rooted rp base = \<lparr>fs_root = Some (rp base), realpath = rp\<rparr>"

definition is_absolute :: "string \<Rightarrow> bool" where
  "is_absolute p \<longleftrightarrow> starts_with ''/'' p"

text \<open>\<open>base / candidate\<close>, \<open>is_relative_to\<close> and \<open>relative_to\<close> on resolved paths.\<close>

definition join_path :: "string \<Rightarrow> string \<Rightarrow> string" where
  "join_path base p = (if base = ''/'' then base @ p else base @ ''/'' @ p)"

definition is_relative_to :: "string \<Rightarrow> string \<Rightarrow> bool" where
  "is_relative_to p base \<longleftrightarrow> p = base \<or> starts_with (join_path base []) p"

definition relative_to :: "string \<Rightarrow> string \<Rightarrow> string" where
  "relative_to p base = (if p = base then ''.'' else drop (length (join_path base [])) p)"

definition resolve_path :: "fs \<Rightarrow> string \<Rightarrow> string res" where
  "resolve_path f p =
     (case fs_root f of
        None \<Rightarrow> Inr p
      | Some base \<Rightarrow>
          let target = realpath f (if is_absolute p then p else join_path base p)
          in if is_relative_to target base then Inr target else Inl ValueError)"

definition locate :: "fs \<Rightarrow> session \<Rightarrow> string \<Rightarrow> (string \<times> string) res" where
  "locate f s p =
     bind_res (resolve_path f p) (\<lambda>target.
       case fs_root f of
         None \<Rightarrow> Inr (fs_key s p, target)
       | Some base \<Rightarrow> Inr (fs_key s (relative_to target base), target))"

section \<open>Reads\<close>

text \<open>\<open>_scope_fields\<close> in the two kinds of event.\<close>

definition read_event :: "scope \<Rightarrow> real \<Rightarrow> session \<Rightarrow> string \<Rightarrow> read_kind \<Rightarrow> bool \<Rightarrow> blob_ref option \<Rightarrow> any_event" where
  "read_event sc now s key kind ex content =
     FsRead \<lparr>fr_parent = scope_parent sc s, fr_tool = snd sc, fr_meta = meta_at now None None, fr_path = key,
             fr_kind = kind, fr_exists = ex, fr_content = content\<rparr>"

definition write_event :: "scope \<Rightarrow> real \<Rightarrow> session \<Rightarrow> string \<Rightarrow> blob_ref \<Rightarrow> any_event" where
  "write_event sc now s key content =
     FsWrite \<lparr>fw_parent = scope_parent sc s, fw_tool = snd sc, fw_meta = meta_at now None None, fw_path = key,
              fw_content = content\<rparr>"

text \<open>
  A recorded read or listing: the content's blob, or \<open>FileNotFoundError\<close> when there was none. An entry of
  another kind has no attribute \<open>exists\<close>; \<open>replay_fs\<close> never gives one.
\<close>

definition recorded_content :: "sys \<Rightarrow> fs_access \<Rightarrow> string op" where
  "recorded_content y a s =
     (case a of
        RAccess e \<Rightarrow>
          if \<not> fr_exists e then (Inl FileNotFoundError, s)
          else (case fr_content e of
                  None \<Rightarrow> (Inl FileNotFoundError, s)
                | Some b \<Rightarrow> (get_blob (s_py y) (s_store s) (digest b), s))
      | WAccess _ \<Rightarrow> (Inl (Raised ''AttributeError''), s))"

definition put_optional :: "sys \<Rightarrow> string option \<Rightarrow> blob_ref option op" where
  "put_optional y data =
     (case data of None \<Rightarrow> return_op None | Some d \<Rightarrow> bind_op (put_blob_op y d) (\<lambda>b. return_op (Some b)))"

text \<open>Recording what the disk holds, then giving it to the caller.\<close>

definition record_read :: "sys \<Rightarrow> scope \<Rightarrow> real \<Rightarrow> string \<Rightarrow> read_kind \<Rightarrow> string option \<Rightarrow> unit op" where
  "record_read y sc now key kind data =
     bind_op (put_optional y data) (\<lambda>content s.
     bind_op (append_op y (read_event sc now s key kind (data \<noteq> None) content)) (\<lambda>_.
       if data = None then raise_op FileNotFoundError else return_op ()) s)"

definition read_bytes :: "sys \<Rightarrow> 'd disk \<Rightarrow> fs \<Rightarrow> scope \<Rightarrow> real \<Rightarrow> 'd \<Rightarrow> string \<Rightarrow> string op" where
  "read_bytes y dk f sc now d path s =
     bind_op (lift_op (locate f s path)) (\<lambda>(key, target).
     bind_op (replay_fs ''content'' key) (\<lambda>recorded.
       case recorded of
         Some a \<Rightarrow> recorded_content y a
       | None \<Rightarrow>
           bind_op (record_read y sc now key KContent (file_at dk d target)) (\<lambda>_.
             return_op (the (file_at dk d target))))) s"

definition read_text :: "sys \<Rightarrow> 'd disk \<Rightarrow> fs \<Rightarrow> scope \<Rightarrow> real \<Rightarrow> 'd \<Rightarrow> string \<Rightarrow> string op" where
  "read_text y dk f sc now d path =
     bind_op (read_bytes y dk f sc now d path) (\<lambda>data. lift_op (decode_utf8 data))"

definition path_exists :: "sys \<Rightarrow> 'd disk \<Rightarrow> fs \<Rightarrow> scope \<Rightarrow> real \<Rightarrow> 'd \<Rightarrow> string \<Rightarrow> bool op" where
  "path_exists y dk f sc now d path s =
     bind_op (lift_op (locate f s path)) (\<lambda>(key, target).
     bind_op (replay_fs ''exists'' key) (\<lambda>recorded.
       case recorded of
         Some (RAccess e) \<Rightarrow> return_op (fr_exists e)
       | Some (WAccess _) \<Rightarrow> raise_op (Raised ''AttributeError'')
       | None \<Rightarrow> (\<lambda>s.
           bind_op (append_op y (read_event sc now s key KExists (exists_at dk d target) None)) (\<lambda>_.
             return_op (exists_at dk d target)) s))) s"

definition listing_text :: "py_env \<Rightarrow> string list \<Rightarrow> string" where
  "listing_text env names = canonical_json (frepr env) (jstrs names)"

definition listdir ::
  "sys \<Rightarrow> (string \<Rightarrow> string list res) \<Rightarrow> 'd disk \<Rightarrow> fs \<Rightarrow> scope \<Rightarrow> real \<Rightarrow> 'd \<Rightarrow> string \<Rightarrow> string list op" where
  "listdir y loads dk f sc now d path s =
     bind_op (lift_op (locate f s path)) (\<lambda>(key, target).
     bind_op (replay_fs ''listing'' key) (\<lambda>recorded.
       case recorded of
         Some a \<Rightarrow> bind_op (recorded_content y a) (\<lambda>blob. lift_op (bind_res (decode_utf8 blob) loads))
       | None \<Rightarrow>
           let names = map_option sort (entries_at dk d target)
           in bind_op (record_read y sc now key KListing (map_option (listing_text (s_py y)) names)) (\<lambda>_.
                return_op (the names)))) s"

section \<open>Writes\<close>

text \<open>
  \<open>write_bytes\<close> gives the disk it leaves. A replayed write is only compared. The digests are compared on
  the scrubbed content; a live write goes to the disk before it is recorded.
\<close>

definition check_write :: "sys \<Rightarrow> fs_access \<Rightarrow> string \<Rightarrow> unit op" where
  "check_write y a data s =
     (case a of
        WAccess e \<Rightarrow>
          if sha256_hex (s_py y) (redact_blob (s_redactor s) data) \<noteq> digest (fw_content e)
          then (Inl (ReplayMiss MissFsContent), s) else (Inr (), s)
      | RAccess _ \<Rightarrow> (Inl (Raised ''AttributeError''), s))"

definition record_write :: "sys \<Rightarrow> scope \<Rightarrow> real \<Rightarrow> string \<Rightarrow> string \<Rightarrow> unit op" where
  "record_write y sc now key data =
     bind_op (put_blob_op y data) (\<lambda>content s.
       bind_op (append_op y (write_event sc now s key content)) (\<lambda>_. return_op ()) s)"

definition write_bytes ::
  "sys \<Rightarrow> 'd disk \<Rightarrow> fs \<Rightarrow> scope \<Rightarrow> real \<Rightarrow> string \<Rightarrow> string \<Rightarrow> session \<times> 'd \<Rightarrow> unit res \<times> session \<times> 'd" where
  "write_bytes y dk f sc now path data sd =
     (case sd of (s, d) \<Rightarrow>
        (case bind_op (lift_op (locate f s path)) (\<lambda>(key, target).
                bind_op (replay_fs ''write'' key) (\<lambda>recorded. return_op (key, target, recorded))) s of
           (Inl e, t) \<Rightarrow> (Inl e, t, d)
         | (Inr (key, target, Some a), t) \<Rightarrow> (case check_write y a data t of (r, t) \<Rightarrow> (r, t, d))
         | (Inr (key, target, None), t) \<Rightarrow>
             (case write_at dk d target data of
                Inl e \<Rightarrow> (Inl e, t, d)
              | Inr d' \<Rightarrow> (case record_write y sc now key data t of (r, t) \<Rightarrow> (r, t, d')))))"

definition write_text ::
  "sys \<Rightarrow> 'd disk \<Rightarrow> fs \<Rightarrow> scope \<Rightarrow> real \<Rightarrow> string \<Rightarrow> string \<Rightarrow> session \<times> 'd \<Rightarrow> unit res \<times> session \<times> 'd" where
  "write_text y dk f sc now path data = write_bytes y dk f sc now path data"

end
