(* ===== verification/Replay.thy ===== *)
theory Replay
  imports Files
begin

text \<open>
  Whole runs: an agent that talks to a session (\<open>src/tracewake/session.py\<close>, \<open>src/tracewake/fs.py\<close>) step by
  step, and the world behind it. The lemmas show that a replay never looks at the world, and that an agent
  replayed on its own recording gets the answers it got when it was recorded.
\<close>

section \<open>Agents and worlds\<close>

text \<open>What an agent can ask; a stream is asked for and drained.\<close>

datatype agent_op =
    ReadEnv env_source "string option"
  | AskModel string string "string option" "message list" "string list option" decode_params
  | StreamModel string string "string option" "message list" "string list option" decode_params
  | CallTool string tool_call_request
  | ReadFile string
  | CheckPath string
  | WriteFile string string

datatype answer =
    AJson json | ACall string model_response | AStream string "stream_chunk list" model_response
  | ATool tool_outcome | ABytes string | ABool bool | AUnit

text \<open>
  Everything outside the program, at one step: the clocks, fresh ids, producers, backends and disk. A tool of this world is
  a function of its name and arguments: tools that read the clock or files through the session are those of
  \<^const>\<open>call_tool\<close>'s general dispatch, about which the theorems on every session operation speak.
\<close>

record 'd world =
  w_now :: real
  w_dur :: real
  w_clock :: "nat \<Rightarrow> real"
  w_id :: string
  w_produce :: "env_source \<Rightarrow> string option \<Rightarrow> json res"
  w_create :: "(string \<Rightarrow> message list \<Rightarrow> decode_params \<Rightarrow> model_response res) option"
  w_stream :: "(string \<Rightarrow> message list \<Rightarrow> decode_params \<Rightarrow> stream_chunk list \<times> model_response option res) option"
  w_dispatch :: "(string \<Rightarrow> jobject \<Rightarrow> tool_outcome res) option"
  w_disk :: "'d disk"

definition model_of :: "'d world \<Rightarrow> string \<Rightarrow> string \<Rightarrow> string option \<Rightarrow> model_obj" where
  "model_of w prov mid ver = \<lparr>mo_provider = prov, mo_model_id = mid, mo_model_version = ver,
     create_fn = w_create w, stream_fn = w_stream w\<rparr>"

definition dispatch_of :: "'d world \<Rightarrow> dispatch option" where
  "dispatch_of w = map_option (\<lambda>g sc name args. lift_op (g name args)) (w_dispatch w)"

text \<open>\<open>stream\<close> and \<open>drain\<close> together, with the chunks the agent saw.\<close>

definition stream_and_drain ::
  "sys \<Rightarrow> 'd world \<Rightarrow> model_obj \<Rightarrow> message list \<Rightarrow> string list option \<Rightarrow> decode_params \<Rightarrow> answer op" where
  "stream_and_drain y w mo ms tools params =
     bind_op (stream y (w_id w) mo ms tools params) (\<lambda>h s.
       case drain y (w_now w) (w_dur w) (w_clock w) h s of
         (Inl e, h', t) \<Rightarrow> (Inl e, t)
       | (Inr r, h', t) \<Rightarrow> (Inr (AStream (h_call_id h') (h_chunks h') r), t))"

definition with_disk :: "'d \<Rightarrow> 'a res \<times> session \<Rightarrow> 'a res \<times> session \<times> 'd" where
  "with_disk d rs = (fst rs, snd rs, d)"

definition map_op :: "('a \<Rightarrow> 'b) \<Rightarrow> 'a op \<Rightarrow> 'b op" where
  "map_op f m s = (case m s of (Inl e, t) \<Rightarrow> (Inl e, t) | (Inr x, t) \<Rightarrow> (Inr (f x), t))"

fun agent_step :: "sys \<Rightarrow> fs \<Rightarrow> scope \<Rightarrow> 'd world \<Rightarrow> agent_op \<Rightarrow> session \<times> 'd \<Rightarrow> answer res \<times> session \<times> 'd" where
  "agent_step y f sc w (ReadEnv src key) (s, d) =
     with_disk d (map_op AJson (env_value y sc (w_now w) src key (w_produce w src key)) s)"
| "agent_step y f sc w (AskModel prov mid ver ms tools params) (s, d) =
     with_disk d (map_op (\<lambda>(i, r). ACall i r)
       (create y (w_now w) (w_id w) (w_dur w) (model_of w prov mid ver) ms tools params) s)"
| "agent_step y f sc w (StreamModel prov mid ver ms tools params) (s, d) =
     with_disk d (stream_and_drain y w (model_of w prov mid ver) ms tools params s)"
| "agent_step y f sc w (CallTool parent rq) (s, d) =
     with_disk d (map_op ATool (call_tool y (w_now w) (w_dur w) (dispatch_of w) parent rq) s)"
| "agent_step y f sc w (ReadFile path) (s, d) =
     with_disk d (map_op ABytes (read_bytes y (w_disk w) f sc (w_now w) d path) s)"
| "agent_step y f sc w (CheckPath path) (s, d) =
     with_disk d (map_op ABool (path_exists y (w_disk w) f sc (w_now w) d path) s)"
| "agent_step y f sc w (WriteFile path data) (s, d) =
     (case write_bytes y (w_disk w) f sc (w_now w) path data (s, d) of
        (Inl e, t, d') \<Rightarrow> (Inl e, t, d') | (Inr _, t, d') \<Rightarrow> (Inr AUnit, t, d'))"

text \<open>
  An agent chooses its next request from the answers so far, or stops. Step \<open>n\<close> of a run sees the world
  \<open>W n\<close>.
\<close>

type_synonym history = "(agent_op \<times> answer res) list"
type_synonym agent = "history \<Rightarrow> agent_op option"

fun agent_run ::
  "sys \<Rightarrow> fs \<Rightarrow> scope \<Rightarrow> (nat \<Rightarrow> 'd world) \<Rightarrow> agent \<Rightarrow> nat \<Rightarrow> history \<Rightarrow> session \<times> 'd \<Rightarrow> history \<times> session \<times> 'd" where
  "agent_run y f sc W ag 0 hist sd = (hist, sd)"
| "agent_run y f sc W ag (Suc n) hist sd =
     (case ag hist of
        None \<Rightarrow> (hist, sd)
      | Some p \<Rightarrow>
          (case agent_step y f sc (W (length hist)) p sd of
             (a, sd') \<Rightarrow> agent_run y f sc W ag n (hist @ [(p, a)]) sd'))"

section \<open>A replay does not look at the world\<close>

text \<open>A session that can only replay, as \<open>new_session\<close> makes it from a log in mode \<open>none\<close> or \<open>once\<close>.\<close>

definition pure_replay :: "session \<Rightarrow> bool" where
  "pure_replay s \<longleftrightarrow> can_replay s \<and> \<not> s_can_record s \<and> \<not> forked s \<and> s_matcher s \<noteq> None"

definition untouched :: "session \<Rightarrow> session \<Rightarrow> bool" where
  "untouched s t \<longleftrightarrow> s_store t = s_store s \<and> s_redactor t = s_redactor s \<and> (pure_replay s \<longrightarrow> pure_replay t)"

lemma untouched_refl [simp]: "untouched s s"
  by (simp add: untouched_def)

lemma untouched_trans: "untouched s t \<Longrightarrow> untouched t u \<Longrightarrow> untouched s u"
  by (simp add: untouched_def)

interpretation store_unchanged: preorder_on_states untouched
  by unfold_locales (simp, erule (1) untouched_trans)

text \<open>What every replaying operation promises: the world does not matter, and the store stays.\<close>

definition sealed :: "('w \<Rightarrow> 'a op) \<Rightarrow> bool" where
  "sealed g \<longleftrightarrow> (\<forall>s w w'. pure_replay s \<longrightarrow> g w s = g w' s \<and> untouched s (snd (g w s)))"

lemma sealedI: "(\<And>s w. pure_replay s \<Longrightarrow> g w s = m s \<and> untouched s (snd (m s))) \<Longrightarrow> sealed g"
  unfolding sealed_def by metis

lemma sealedD: "sealed g \<Longrightarrow> pure_replay s \<Longrightarrow> g w s = g w' s \<and> untouched s (snd (g w s))"
  unfolding sealed_def by blast

lemma pop_env_untouched: "untouched s (snd (pop_env src key s))"
  by (auto simp: pop_env_def untouched_def pure_replay_def forked_def Let_def split: option.splits)

lemma env_value_sealed: "sealed (\<lambda>w :: 'd world. env_value y sc (w_now w) src key (w_produce w src key))"
proof (rule sealedI)
  fix s and w :: "'d world"
  assume s: "pure_replay s"
  let ?m = "\<lambda>s. case pop_env src key s of
      (Some v, t) \<Rightarrow> (Inr (if src = SEnv then restore_path (s_redactor s) v else v), t)
    | (None, t) \<Rightarrow> (Inl (ReplayMiss MissEnv), t)"
  have "pure_replay (snd (pop_env src key s))" using pop_env_untouched [of s src key] s by (simp add: untouched_def)
  then have l: "env_live y sc now src key produce (snd (pop_env src key s)) = (Inl (ReplayMiss MissEnv), snd (pop_env src key s))"
    for now produce by (simp add: env_live_def pure_replay_def)
  show "env_value y sc (w_now w) src key (w_produce w src key) s = ?m s \<and> untouched s (snd (?m s))"
    using s l pop_env_untouched [of s src key]
    by (auto simp: env_value_def pure_replay_def split: prod.splits option.splits)
qed

lemma turn_messages_untouched: "untouched s (snd (turn_messages ms s))"
  by (auto simp: turn_messages_def untouched_def pure_replay_def forked_def Let_def split: option.splits)

lemma matched_call_untouched: "untouched s (snd (matched_call y mo ms tools s))"
  by (auto simp: matched_call_def untouched_def pure_replay_def forked_def Let_def split: option.splits sum.splits prod.splits)

lemma matched_call_hit:
  "pure_replay s \<Longrightarrow> matched_call y mo ms tools s = (Inr hit, t) \<Longrightarrow> hit \<noteq> None"
  by (auto simp: matched_call_def pure_replay_def Let_def split: option.splits sum.splits prod.splits if_splits)

lemma matched_call_model: "mo_model_id mo = mo_model_id mo' \<Longrightarrow> matched_call y mo = matched_call y mo'"
  by (intro ext, unfold matched_call_def, erule ssubst, rule HOL.refl)

text \<open>The replayed half of \<open>create\<close> and of \<open>stream\<close>.\<close>

definition replay_create :: "sys \<Rightarrow> model_obj \<Rightarrow> message list \<Rightarrow> string list option \<Rightarrow> (string \<times> model_response) op" where
  "replay_create y mo ms0 tools s0 =
     (case turn_messages ms0 s0 of (ms, s) \<Rightarrow>
        bind_op (matched_call y mo ms tools) (\<lambda>hit.
          bind_op (modify_op (\<lambda>s. s\<lparr>current_call_id := Some (call_id (the hit))\<rparr>)) (\<lambda>_.
            if mc_stream (the hit) \<noteq> None then raise_op (ReplayMiss MissRecordedStream)
            else return_op (call_id (the hit), mc_response (the hit)))) s)"

lemma current_call_untouched [simp]: "untouched s (s\<lparr>current_call_id := c\<rparr>)"
  by (simp add: untouched_def pure_replay_def forked_def)

lemma create_replays:
  assumes "pure_replay s"
  shows "create y now cid dur mo ms tools params s = replay_create y mo ms tools s
    \<and> untouched s (snd (replay_create y mo ms tools s))"
proof -
  obtain ms' s1 where t: "turn_messages ms s = (ms', s1)" by force
  have u1: "untouched s s1" using turn_messages_untouched [of s ms] t by simp
  then have p: "pure_replay s1" using assms by (simp add: untouched_def)
  obtain r s2 where m: "matched_call y mo ms' tools s1 = (r, s2)" by force
  have u2: "untouched s s2" using matched_call_untouched [of s1 y mo ms' tools] m untouched_trans [OF u1] by simp
  show ?thesis
  proof (cases r)
    case (Inr hit)
    then obtain e where "hit = Some e" using matched_call_hit [OF p, of y mo ms' tools hit s2] m by blast
    then show ?thesis using t m Inr u2
      by (auto simp: create_def replay_create_def intro: untouched_trans)
  qed (use t m u2 in \<open>simp add: create_def replay_create_def\<close>)
qed

lemma replay_create_model: "mo_model_id mo = mo_model_id mo' \<Longrightarrow> replay_create y mo = replay_create y mo'"
  by (intro ext) (simp add: replay_create_def matched_call_model [of mo mo'])

text \<open>A handle over recorded chunks: draining it gives them all and the recorded response.\<close>

lemma drain_loop_replayed:
  "h_finalizer h = Replayed r \<Longrightarrow> h_end h = Inr None \<Longrightarrow> h_response h = None \<Longrightarrow>
   \<exists>h'. drain_loop y now dur clock h s = (Inr (), h', s) \<and> h_chunks h' = h_chunks h @ h_rest h
      \<and> h_call_id h' = h_call_id h \<and> h_response h' = Some r"
proof (induction "h_rest h" arbitrary: h)
  case Nil
  then show ?case by (subst drain_loop.simps) (simp add: next_chunk_def Let_def finalize_def)
next
  case (Cons c cs)
  let ?h = "h\<lparr>h_rest := cs, h_chunks := h_chunks h @ [c], h_offsets := h_offsets h @ [clock (length (h_chunks h))]\<rparr>"
  have "next_chunk y now dur (clock (length (h_chunks h))) h s = (Inr c, ?h, s)"
    using Cons.hyps(2) [symmetric] Cons.prems by (simp add: next_chunk_def)
  then have "drain_loop y now dur clock h s = drain_loop y now dur clock ?h s"
    by (subst drain_loop.simps) simp
  moreover obtain h' where "drain_loop y now dur clock ?h s = (Inr (), h', s)"
    "h_chunks h' = h_chunks ?h @ cs" "h_call_id h' = h_call_id h" "h_response h' = Some r"
    using Cons.hyps(1) [of ?h] Cons.prems by auto
  ultimately show ?case using Cons.hyps(2) [symmetric] by simp
qed

lemma drain_replayed:
  "h_finalizer h = Replayed r \<Longrightarrow> h_end h = Inr None \<Longrightarrow> h_response h = None \<Longrightarrow>
   \<exists>h'. drain y now dur clock h s = (Inr r, h', s) \<and> h_chunks h' = h_chunks h @ h_rest h \<and> h_call_id h' = h_call_id h"
  using drain_loop_replayed [of h r y now dur clock s] by (auto simp: drain_def handle_response_def)

definition replay_stream :: "sys \<Rightarrow> model_obj \<Rightarrow> message list \<Rightarrow> string list option \<Rightarrow> answer op" where
  "replay_stream y mo ms0 tools s0 =
     (case turn_messages ms0 s0 of (ms, s) \<Rightarrow>
        bind_op (matched_call y mo ms tools) (\<lambda>hit.
          bind_op (modify_op (\<lambda>s. s\<lparr>current_call_id := Some (call_id (the hit))\<rparr>)) (\<lambda>_.
            case mc_stream (the hit) of
              None \<Rightarrow> raise_op (ReplayMiss MissRecordedPlain)
            | Some chunks \<Rightarrow> return_op (AStream (call_id (the hit)) chunks (mc_response (the hit))))) s)"

lemma replay_stream_model: "mo_model_id mo = mo_model_id mo' \<Longrightarrow> replay_stream y mo = replay_stream y mo'"
  by (intro ext) (simp add: replay_stream_def matched_call_model [of mo mo'])

lemma stream_replays:
  assumes "pure_replay s"
  shows "stream_and_drain y w mo ms tools params s = replay_stream y mo ms tools s
    \<and> untouched s (snd (replay_stream y mo ms tools s))"
proof -
  obtain ms' s1 where t: "turn_messages ms s = (ms', s1)" by force
  have u1: "untouched s s1" using turn_messages_untouched [of s ms] t by simp
  then have p: "pure_replay s1" using assms by (simp add: untouched_def)
  obtain r s2 where m: "matched_call y mo ms' tools s1 = (r, s2)" by force
  have u2: "untouched s s2" using matched_call_untouched [of s1 y mo ms' tools] m untouched_trans [OF u1] by simp
  show ?thesis
  proof (cases r)
    case (Inr hit)
    then obtain e where e: "hit = Some e" using matched_call_hit [OF p, of y mo ms' tools hit s2] m by blast
    show ?thesis
    proof (cases "mc_stream e")
      case None
      then show ?thesis using t m Inr e u2
        by (auto simp: stream_and_drain_def bind_op_def [of "stream _ _ _ _ _ _"] stream_def replay_stream_def intro: untouched_trans)
    next
      case (Some chunks)
      let ?h = "new_handle (call_id e) chunks (Inr None) (Replayed (mc_response e))"
      let ?s = "s2\<lparr>current_call_id := Some (call_id e)\<rparr>"
      have "stream y (w_id w) mo ms tools params s = (Inr ?h, ?s)"
        using t m Inr e Some by (simp add: stream_def)
      moreover obtain h' where "drain y (w_now w) (w_dur w) (w_clock w) ?h ?s = (Inr (mc_response e), h', ?s)"
        "h_chunks h' = chunks" "h_call_id h' = call_id e"
        using drain_replayed [of ?h "mc_response e" y "w_now w" "w_dur w" "w_clock w" ?s]
        by (auto simp: new_handle_def)
      moreover have "untouched s ?s" using u2 by (rule untouched_trans) simp
      ultimately show ?thesis using t m Inr e Some by (simp add: stream_and_drain_def replay_stream_def)
    qed
  qed (use t m u2 in \<open>simp add: stream_and_drain_def bind_op_def [of "stream _ _ _ _ _ _"] stream_def replay_stream_def\<close>)
qed

text \<open>The replayed half of \<open>call\<close>.\<close>

definition replay_call_tool :: "sys \<Rightarrow> string \<Rightarrow> tool_call_request \<Rightarrow> tool_outcome op" where
  "replay_call_tool y parent rq s =
     (case s_tool_calls s (parent, req_id rq) of
        None \<Rightarrow> (Inl (ReplayMiss MissTool), s)
      | Some e \<Rightarrow>
          if hash_args (s_py y) (redact_args (s_redactor s) (req_args rq)) = tc_args_hash e then replay_tool y e s
          else (Inl (ReplayMiss MissToolArgs), s))"

lemma replay_tool_untouched: "untouched s (snd (replay_tool y e s))"
  by (simp add: replay_tool_def untouched_def pure_replay_def forked_def)

lemma call_tool_replays:
  assumes "pure_replay s"
  shows "call_tool y now dur dsp parent rq s = replay_call_tool y parent rq s
    \<and> untouched s (snd (replay_call_tool y parent rq s))"
  using assms replay_tool_untouched [of s y]
  by (auto simp: call_tool_def replay_call_tool_def recorded_tool_def pure_replay_def Let_def split: option.splits)

text \<open>The replayed halves of the file operations.\<close>

lemma replay_fs_untouched: "untouched s (snd (replay_fs kind key s))"
  by (auto simp: replay_fs_def untouched_def pure_replay_def forked_def Let_def)

lemma replay_fs_hit: "pure_replay s \<Longrightarrow> replay_fs kind key s = (Inr a, t) \<Longrightarrow> a \<noteq> None"
  by (auto simp: replay_fs_def pure_replay_def Let_def split: if_splits)

lemma recorded_content_untouched: "untouched s (snd (recorded_content y a s))"
  by (auto simp: recorded_content_def split: fs_access.splits option.splits)

definition replay_read :: "sys \<Rightarrow> fs \<Rightarrow> string \<Rightarrow> string op" where
  "replay_read y f path s =
     bind_op (lift_op (locate f s path)) (\<lambda>(key, target).
     bind_op (replay_fs ''content'' key) (\<lambda>a. recorded_content y (the a))) s"

lemma read_replays:
  assumes "pure_replay s"
  shows "read_bytes y dk f sc now d path s = replay_read y f path s \<and> untouched s (snd (replay_read y f path s))"
proof (cases "locate f s path")
  case (Inr kt)
  obtain key target where kt: "kt = (key, target)" by force
  obtain r t where r: "replay_fs ''content'' key s = (r, t)" by force
  have u: "untouched s t" using replay_fs_untouched [of s "''content''" key] r by simp
  show ?thesis
  proof (cases r)
    case (Inr a)
    then obtain b where "a = Some b" using replay_fs_hit [OF assms] r by blast
    then show ?thesis using \<open>locate f s path = Inr kt\<close> kt r Inr untouched_trans [OF u recorded_content_untouched]
      by (simp add: read_bytes_def replay_read_def)
  qed (use \<open>locate f s path = Inr kt\<close> kt r u in \<open>simp add: read_bytes_def replay_read_def\<close>)
qed (simp add: read_bytes_def replay_read_def)

definition replay_exists :: "fs \<Rightarrow> string \<Rightarrow> bool op" where
  "replay_exists f path s =
     bind_op (lift_op (locate f s path)) (\<lambda>(key, target).
     bind_op (replay_fs ''exists'' key) (\<lambda>a.
       case the a of RAccess e \<Rightarrow> return_op (fr_exists e) | WAccess _ \<Rightarrow> raise_op (Raised ''AttributeError''))) s"

lemma exists_replays:
  assumes "pure_replay s"
  shows "path_exists y dk f sc now d path s = replay_exists f path s \<and> untouched s (snd (replay_exists f path s))"
proof (cases "locate f s path")
  case (Inr kt)
  obtain key target where kt: "kt = (key, target)" by force
  obtain r t where r: "replay_fs ''exists'' key s = (r, t)" by force
  have u: "untouched s t" using replay_fs_untouched [of s "''exists''" key] r by simp
  show ?thesis
  proof (cases r)
    case (Inr a)
    then obtain b where "a = Some b" using replay_fs_hit [OF assms] r by blast
    then show ?thesis using \<open>locate f s path = Inr kt\<close> kt r Inr u
      by (cases b) (simp_all add: path_exists_def replay_exists_def)
  qed (use \<open>locate f s path = Inr kt\<close> kt r u in \<open>simp add: path_exists_def replay_exists_def\<close>)
qed (simp add: path_exists_def replay_exists_def)

definition replay_write :: "sys \<Rightarrow> fs \<Rightarrow> string \<Rightarrow> string \<Rightarrow> unit op" where
  "replay_write y f path data s =
     bind_op (lift_op (locate f s path)) (\<lambda>(key, target).
     bind_op (replay_fs ''write'' key) (\<lambda>a. check_write y (the a) data)) s"

lemma write_replays:
  assumes "pure_replay s"
  shows "write_bytes y dk f sc now path data (s, d) = with_disk d (replay_write y f path data s)
    \<and> untouched s (snd (replay_write y f path data s))"
proof (cases "locate f s path")
  case (Inr kt)
  obtain key target where kt: "kt = (key, target)" by force
  obtain r t where r: "replay_fs ''write'' key s = (r, t)" by force
  have u: "untouched s t" using replay_fs_untouched [of s "''write''" key] r by simp
  show ?thesis
  proof (cases r)
    case (Inr a)
    then obtain b where b: "a = Some b" using replay_fs_hit [OF assms] r by blast
    have "snd (check_write y b data t) = t" by (auto simp: check_write_def split: fs_access.splits)
    then show ?thesis using \<open>locate f s path = Inr kt\<close> kt r Inr u b
      by (simp add: write_bytes_def replay_write_def with_disk_def case_prod_beta)
  qed (use \<open>locate f s path = Inr kt\<close> kt r u in \<open>simp add: write_bytes_def replay_write_def with_disk_def\<close>)
qed (simp add: write_bytes_def replay_write_def with_disk_def)

text \<open>A step of a replay, with no world in it.\<close>

fun replay_step :: "sys \<Rightarrow> fs \<Rightarrow> agent_op \<Rightarrow> session \<Rightarrow> answer res \<times> session" where
  "replay_step y f (ReadEnv src key) s =
     (case pop_env src key s of
        (Some v, t) \<Rightarrow> (Inr (AJson (if src = SEnv then restore_path (s_redactor s) v else v)), t)
      | (None, t) \<Rightarrow> (Inl (ReplayMiss MissEnv), t))"
| "replay_step y f (AskModel prov mid ver ms tools params) s =
     map_op (\<lambda>(i, r). ACall i r)
       (replay_create y \<lparr>mo_provider = prov, mo_model_id = mid, mo_model_version = ver, create_fn = None, stream_fn = None\<rparr> ms tools) s"
| "replay_step y f (StreamModel prov mid ver ms tools params) s =
     replay_stream y \<lparr>mo_provider = prov, mo_model_id = mid, mo_model_version = ver, create_fn = None, stream_fn = None\<rparr> ms tools s"
| "replay_step y f (CallTool parent rq) s = map_op ATool (replay_call_tool y parent rq) s"
| "replay_step y f (ReadFile path) s = map_op ABytes (replay_read y f path) s"
| "replay_step y f (CheckPath path) s = map_op ABool (replay_exists f path) s"
| "replay_step y f (WriteFile path data) s = map_op (\<lambda>_. AUnit) (replay_write y f path data) s"

lemma snd_map_op [simp]: "snd (map_op g m s) = snd (m s)"
  by (auto simp: map_op_def split: prod.splits sum.splits)

lemma map_op_same: "m s = n s \<Longrightarrow> map_op g m s = map_op g n s"
  by (simp add: map_op_def)

lemma replay_env_step:
  assumes "pure_replay s"
  shows "map_op AJson (env_value y sc now src key produce) s = replay_step y f (ReadEnv src key) s
    \<and> untouched s (snd (replay_step y f (ReadEnv src key) s))"
proof -
  have "pure_replay (snd (pop_env src key s))" using pop_env_untouched [of s src key] assms by (simp add: untouched_def)
  then have "env_live y sc now src key produce (snd (pop_env src key s)) = (Inl (ReplayMiss MissEnv), snd (pop_env src key s))"
    by (simp add: env_live_def pure_replay_def)
  then show ?thesis using assms pop_env_untouched [of s src key]
    by (auto simp: env_value_def map_op_def pure_replay_def split: prod.splits option.splits)
qed

lemma agent_step_replays:
  assumes "pure_replay s"
  shows "agent_step y f sc w p (s, d) = with_disk d (replay_step y f p s) \<and> untouched s (snd (replay_step y f p s))"
proof (cases p)
  case (ReadEnv src key)
  then show ?thesis
    using replay_env_step [OF assms, of y sc "w_now w" src key "w_produce w src key" f] by simp
next
  case (AskModel prov mid ver ms tools params)
  let ?mo = "\<lparr>mo_provider = prov, mo_model_id = mid, mo_model_version = ver, create_fn = None, stream_fn = None\<rparr>"
  have "replay_create y (model_of w prov mid ver) = replay_create y ?mo"
    by (rule replay_create_model) (simp add: model_of_def)
  then show ?thesis using AskModel create_replays [OF assms, of y "w_now w" "w_id w" "w_dur w" "model_of w prov mid ver" ms tools params]
    by (simp cong: map_op_same)
next
  case (StreamModel prov mid ver ms tools params)
  let ?mo = "\<lparr>mo_provider = prov, mo_model_id = mid, mo_model_version = ver, create_fn = None, stream_fn = None\<rparr>"
  have "replay_stream y (model_of w prov mid ver) = replay_stream y ?mo"
    by (rule replay_stream_model) (simp add: model_of_def)
  then show ?thesis using StreamModel stream_replays [OF assms, of y w "model_of w prov mid ver" ms tools params] by simp
next
  case (CallTool parent rq)
  then show ?thesis using call_tool_replays [OF assms, of y "w_now w" "w_dur w" "dispatch_of w" parent rq]
    by (simp cong: map_op_same)
next
  case (ReadFile path)
  then show ?thesis using read_replays [OF assms, of y "w_disk w" f sc "w_now w" d path] by (simp cong: map_op_same)
next
  case (CheckPath path)
  then show ?thesis using exists_replays [OF assms, of y "w_disk w" f sc "w_now w" d path] by (simp cong: map_op_same)
next
  case (WriteFile path data)
  then show ?thesis using write_replays [OF assms, of y "w_disk w" f sc "w_now w" path data d]
    by (auto simp: map_op_def with_disk_def split: sum.splits prod.splits)
qed

fun replay_run :: "sys \<Rightarrow> fs \<Rightarrow> agent \<Rightarrow> nat \<Rightarrow> history \<Rightarrow> session \<Rightarrow> history \<times> session" where
  "replay_run y f ag 0 hist s = (hist, s)"
| "replay_run y f ag (Suc n) hist s =
     (case ag hist of
        None \<Rightarrow> (hist, s)
      | Some p \<Rightarrow> (case replay_step y f p s of (a, t) \<Rightarrow> replay_run y f ag n (hist @ [(p, a)]) t))"

lemma agent_run_replays:
  "pure_replay s \<Longrightarrow> agent_run y f sc W ag n hist (s, d)
     = (fst (replay_run y f ag n hist s), snd (replay_run y f ag n hist s), d)
   \<and> untouched s (snd (replay_run y f ag n hist s))"
proof (induction n arbitrary: hist s)
  case (Suc n)
  show ?case
  proof (cases "ag hist")
    case (Some p)
    obtain a t where t: "replay_step y f p s = (a, t)" by force
    have st: "agent_step y f sc (W (length hist)) p (s, d) = (a, t, d)" "untouched s t"
      using agent_step_replays [OF Suc.prems, of y f sc "W (length hist)" p d] t by (auto simp: with_disk_def)
    then have "pure_replay t" using Suc.prems by (simp add: untouched_def)
    from Suc.IH [OF this, of "hist @ [(p, a)]"] show ?thesis
      using Some t st untouched_trans [OF st(2)] by simp
  qed simp
qed simp

text \<open>
  C3. Replay is hermetic: for any agent, however it reacts to its answers, a session that can only replay
  gives the same answers and ends in the same state whatever the clocks, ids, backends, tool
  dispatchers, environment and disk are; it leaves its store and the disk exactly as they were. The worlds share the
  resolution of paths, which reads symbolic links also on a replay.
\<close>

theorem replay_hermetic:
  "pure_replay s \<Longrightarrow>
   (case agent_run y f sc W ag n [] (s, d) of
      (hist, t, d') \<Rightarrow> s_store t = s_store s \<and> d' = d \<and> agent_run y f sc W' ag n [] (s, e) = (hist, t, e))"
  using agent_run_replays [of s y f sc W ag n "[]" d] agent_run_replays [of s y f sc W' ag n "[]" e]
  by (simp add: untouched_def)

section \<open>What a recorded step leaves in the log\<close>

definition ref_of :: "sys \<Rightarrow> string \<Rightarrow> blob_ref" where
  "ref_of y data = \<lparr>digest = sha256_hex (s_py y) data, blob_size = int (length data)\<rparr>"

definition path_key :: "fs \<Rightarrow> session \<Rightarrow> string \<Rightarrow> string" where
  "path_key f s path = (case locate f s path of Inr (key, _) \<Rightarrow> key | Inl _ \<Rightarrow> [])"

definition call_event ::
  "sys \<Rightarrow> 'd world \<Rightarrow> session \<Rightarrow> string \<Rightarrow> string \<Rightarrow> string \<Rightarrow> string option \<Rightarrow> decode_params \<Rightarrow> string list option
   \<Rightarrow> message list \<Rightarrow> model_response \<Rightarrow> stream_chunk list option \<Rightarrow> real list option \<Rightarrow> model_call_event" where
  "call_event y w s i prov mid ver params tools ms r chunks offsets =
     \<lparr>mc_parent = current_call_id s, mc_tool = None, mc_meta = meta_at (w_now w) (Some (w_dur w)) offsets,
      call_id = i, mc_provider = prov, mc_model_id = mid, mc_model_version = ver, mc_params = params,
      mc_tools = tools, mc_messages = ms, messages_hash = hash_messages (s_py y) ms, mc_response = r,
      mc_stream = chunks\<rparr>"

text \<open>The event of a step, from the step and its answer.\<close>

fun op_event :: "sys \<Rightarrow> fs \<Rightarrow> scope \<Rightarrow> 'd world \<Rightarrow> session \<Rightarrow> agent_op \<Rightarrow> answer res \<Rightarrow> any_event list" where
  "op_event y f sc w s (ReadEnv src key) a = (case a of Inr (AJson v) \<Rightarrow>
     [Environment \<lparr>ee_parent = current_call_id s, ee_tool = snd sc, ee_meta = meta_at (w_now w) None None,
        ee_source = src, ee_key = key, ee_value = v\<rparr>] | _ \<Rightarrow> [])"
| "op_event y f sc w s (AskModel prov mid ver ms tools params) a = (case a of Inr (ACall i r) \<Rightarrow>
     [ModelCall (call_event y w s i prov mid ver params tools ms r None None)] | _ \<Rightarrow> [])"
| "op_event y f sc w s (StreamModel prov mid ver ms tools params) a = (case a of Inr (AStream i chunks r) \<Rightarrow>
     [ModelCall (call_event y w s i prov mid ver params tools ms r (Some chunks) (Some (map (w_clock w) [0..<length chunks])))]
     | _ \<Rightarrow> [])"
| "op_event y f sc w s (CallTool parent rq) a = (case a of Inr (ATool out) \<Rightarrow>
     [ToolCall \<lparr>tc_parent = parent, tc_tool = req_id rq, tc_meta = meta_at (w_now w) (Some (w_dur w)) None,
        tc_batch_index = req_batch_index rq, tc_name = req_name rq, tc_args = req_args rq,
        tc_args_hash = hash_args (s_py y) (req_args rq), tc_result = ref_of y (out_content out),
        tc_status = out_status out, tc_error = out_error out\<rparr>] | _ \<Rightarrow> [])"
| "op_event y f sc w s (ReadFile path) a = (case a of
       Inr (ABytes data) \<Rightarrow> [read_event sc (w_now w) s (path_key f s path) KContent True (Some (ref_of y data))]
     | Inl _ \<Rightarrow> [read_event sc (w_now w) s (path_key f s path) KContent False None]
     | _ \<Rightarrow> [])"
| "op_event y f sc w s (CheckPath path) a = (case a of Inr (ABool b) \<Rightarrow>
     [read_event sc (w_now w) s (path_key f s path) KExists b None] | _ \<Rightarrow> [])"
| "op_event y f sc w s (WriteFile path data) a = (case a of Inr AUnit \<Rightarrow>
     [write_event sc (w_now w) s (path_key f s path) (ref_of y data)] | _ \<Rightarrow> [])"

text \<open>Steps that made a recording: all but those in which the world itself failed.\<close>

definition accepted :: "agent_op \<Rightarrow> answer res \<Rightarrow> bool" where
  "accepted p a = (case a of
       Inr (ATool out) \<Rightarrow> utf8_valid (out_content out)
     | Inr _ \<Rightarrow> True
     | Inl e \<Rightarrow> (case p of ReadFile path \<Rightarrow> e = FileNotFoundError | _ \<Rightarrow> False))"

text \<open>The contents a step stores.\<close>

fun contents :: "agent_op \<Rightarrow> answer res \<Rightarrow> string list" where
  "contents (CallTool parent rq) a = (case a of Inr (ATool out) \<Rightarrow> [out_content out] | _ \<Rightarrow> [])"
| "contents (ReadFile path) a = (case a of Inr (ABytes data) \<Rightarrow> [data] | _ \<Rightarrow> [])"
| "contents (WriteFile path data) a = [data]"
| "contents _ a = []"

definition plain_session :: "session \<Rightarrow> bool" where
  "plain_session s \<longleftrightarrow> \<not> enabled (s_redactor s) \<and> r_before_record (s_redactor s) = None \<and> \<not> forked s"

text \<open>A session recording run \<open>rid\<close>, having logged \<open>es\<close>, with all contents from \<open>X\<close>.\<close>

definition rec_ok :: "sys \<Rightarrow> string \<Rightarrow> string set \<Rightarrow> any_event list \<Rightarrow> session \<Rightarrow> bool" where
  "rec_ok y rid X es s \<longleftrightarrow> plain_session s \<and> s_can_record s \<and> \<not> can_replay s \<and> s_matcher s = None
     \<and> s_tool_calls s = Map.empty \<and> s_run_id s = rid \<and> recording (s_store s) rid
     \<and> log_of (s_store s) rid = map (\<lambda>(i, e). log_entry (s_py y) (s_codec y) i e) (enumerate 0 es)
     \<and> digests_ok (s_py y) \<and> (\<forall>k d. blobs (s_store s) k = Some d \<longrightarrow> d \<in> X \<and> sha256 (s_py y) d = k)"

definition grown :: "session \<Rightarrow> session \<Rightarrow> bool" where
  "grown s t \<longleftrightarrow> (\<forall>k d. blobs (s_store s) k = Some d \<longrightarrow> blobs (s_store t) k = Some d)"

definition holds_all :: "sys \<Rightarrow> session \<Rightarrow> string list \<Rightarrow> bool" where
  "holds_all y s ds \<longleftrightarrow> (\<forall>d \<in> set ds. blobs (s_store s) (sha256 (s_py y) d) = Some d)"

lemma grown_refl [simp]: "grown s s" and grown_trans: "grown s t \<Longrightarrow> grown t u \<Longrightarrow> grown s u"
  by (auto simp: grown_def)

lemma holds_all_grown: "holds_all y s ds \<Longrightarrow> grown s t \<Longrightarrow> holds_all y t ds"
  by (auto simp: holds_all_def grown_def)

lemma blobs_append_to: "blobs (append_to env codec st rid e) = blobs st"
  by (simp add: append_to_def append_event_def insert_event_def Let_def)

lemma append_rec:
  assumes "rec_ok y rid X es s"
  shows "\<exists>n st. append_op y e s = (Inr (Some n), s\<lparr>s_store := st\<rparr>) \<and> rec_ok y rid X (es @ [e]) (s\<lparr>s_store := st\<rparr>)
    \<and> blobs st = blobs (s_store s)"
proof -
  let ?st = "append_to (s_py y) (s_codec y) (s_store s) rid e"
  have r: "recording (s_store s) rid" using assms by (simp add: rec_ok_def)
  have "redact_event (s_validate y) (s_redactor s) e = Inr (Some e)"
    using assms by (simp add: rec_ok_def plain_session_def redact_event_def)
  then have a: "append_op y e s = (Inr (Some (int (length (rows_of (s_store s) rid)))), s\<lparr>s_store := ?st\<rparr>)"
    using assms append_event_rows [OF r, of "s_py y" "s_codec y" e]
    by (simp add: append_op_def rec_ok_def append_to_def)
  have "length (log_of (s_store s) rid) = length es" using assms by (simp add: rec_ok_def)
  then have "log_of ?st rid = map (\<lambda>(i, e). log_entry (s_py y) (s_codec y) i e) (enumerate 0 (es @ [e]))"
    using runlog.log_app [OF r, of "s_py y" "s_codec y" e] assms by (simp add: rec_ok_def enumerate_append_eq)
  moreover have "recording ?st rid" by (rule runlog.open_app [OF r r])
  ultimately have "rec_ok y rid X (es @ [e]) (s\<lparr>s_store := ?st\<rparr>)"
    using assms by (simp add: rec_ok_def plain_session_def forked_def blobs_append_to)
  then show ?thesis using a blobs_append_to by blast
qed

lemma put_rec:
  assumes "rec_ok y rid X es s" "inj_on (sha256 (s_py y)) X" "data \<in> X"
  shows "\<exists>st. put_blob_op y data s = (Inr (ref_of y data), s\<lparr>s_store := st\<rparr>) \<and> rec_ok y rid X es (s\<lparr>s_store := st\<rparr>)
    \<and> grown s (s\<lparr>s_store := st\<rparr>) \<and> holds_all y (s\<lparr>s_store := st\<rparr>) [data]"
proof -
  let ?d = "sha256 (s_py y) data"
  let ?st = "if blobs (s_store s) ?d = None then (s_store s)\<lparr>blobs := (blobs (s_store s))(?d \<mapsto> data)\<rparr> else s_store s"
  have "redact_blob (s_redactor s) data = data" using assms(1) by (simp add: rec_ok_def plain_session_def redact_blob_def)
  moreover have "is_digest ?d" using assms(1) by (simp add: rec_ok_def digests_ok_def)
  ultimately have p: "put_blob_op y data s = (Inr (ref_of y data), s\<lparr>s_store := ?st\<rparr>)"
    by (simp add: put_blob_op_def put_blob_def blob_path_def sha256_hex_def ref_of_def Let_def)
  have same: "blobs (s_store s) ?d = Some x \<Longrightarrow> x = data" for x
    using assms by (auto simp: rec_ok_def inj_on_def)
  have "rec_ok y rid X es (s\<lparr>s_store := ?st\<rparr>)"
    using assms by (auto simp: rec_ok_def plain_session_def forked_def recording_def numbered_def run_row_def rows_of_def log_of_def)
  moreover have "grown s (s\<lparr>s_store := ?st\<rparr>)" by (auto simp: grown_def)
  moreover have "holds_all y (s\<lparr>s_store := ?st\<rparr>) [data]"
    using same by (cases "blobs (s_store s) ?d") (auto simp: holds_all_def)
  ultimately show ?thesis using p by blast
qed

lemma rec_ok_update [simp]:
  "rec_ok y rid X es (s\<lparr>current_call_id := c\<rparr>) = rec_ok y rid X es s"
  "rec_ok y rid X es (s\<lparr>s_turn := n\<rparr>) = rec_ok y rid X es s"
  "grown s (t\<lparr>current_call_id := c\<rparr>) = grown s t" "grown (s\<lparr>s_turn := n\<rparr>) t = grown s t"
  "holds_all y (s\<lparr>current_call_id := c\<rparr>) ds = holds_all y s ds"
  by (simp_all add: rec_ok_def plain_session_def forked_def grown_def holds_all_def)

section \<open>Recording steps\<close>

text \<open>What one recorded step does: its event is logged, its contents are stored, nothing stored is lost.\<close>

definition logged :: "sys \<Rightarrow> string \<Rightarrow> string set \<Rightarrow> any_event list \<Rightarrow> session \<Rightarrow> string list \<Rightarrow> any_event \<Rightarrow> session \<Rightarrow> bool" where
  "logged y rid X es s ds e t \<longleftrightarrow> rec_ok y rid X (es @ [e]) t \<and> grown s t \<and> holds_all y t ds"

lemma holds_all_Nil [simp]: "holds_all y s []"
  by (simp add: holds_all_def)

lemma append_logged:
  assumes "rec_ok y rid X es t" "grown s t" "holds_all y t ds"
  shows "\<exists>n u. append_op y e t = (Inr (Some n), u) \<and> logged y rid X es s ds e u \<and> current_call_id u = current_call_id t"
proof -
  obtain n st where a: "append_op y e t = (Inr (Some n), t\<lparr>s_store := st\<rparr>)" "rec_ok y rid X (es @ [e]) (t\<lparr>s_store := st\<rparr>)"
    "blobs st = blobs (s_store t)" using append_rec [OF assms(1)] by blast
  have "grown s (t\<lparr>s_store := st\<rparr>)" "holds_all y (t\<lparr>s_store := st\<rparr>) ds"
    using assms(2,3) a(3) by (simp_all add: grown_def holds_all_def)
  then show ?thesis using a(1,2) by (auto simp: logged_def)
qed

lemma record_env:
  assumes "rec_ok y rid X es s" "env_value y sc now src key produce s = (Inr v, t)"
  shows "logged y rid X es s [] (Environment \<lparr>ee_parent = current_call_id s, ee_tool = snd sc,
      ee_meta = meta_at now None None, ee_source = src, ee_key = key, ee_value = v\<rparr>) t"
proof -
  have l: "env_live y sc now src key produce s = (Inr v, t)" "s_can_record s"
    using assms by (simp_all add: env_value_def rec_ok_def)
  then obtain x where x: "produce = Inr x" by (cases produce) (auto simp: env_live_def)
  let ?e = "Environment \<lparr>ee_parent = current_call_id s, ee_tool = snd sc,
      ee_meta = meta_at now None None, ee_source = src, ee_key = key, ee_value = x\<rparr>"
  obtain n u where "append_op y ?e s = (Inr (Some n), u)" "logged y rid X es s [] ?e u"
    using append_logged [OF assms(1) grown_refl holds_all_Nil] by blast
  then show ?thesis using l x by (simp add: env_live_def)
qed

lemma record_call:
  assumes r: "rec_ok y rid X es s" and g: "grown s0 s"
    and a: "append_model_call y now cid mo params tools ms resp chunks dur offsets s = (Inr i, t)"
  shows "i = cid \<and> logged y rid X es s0 [] (ModelCall \<lparr>mc_parent = current_call_id s, mc_tool = None,
      mc_meta = meta_at now (Some dur) offsets, call_id = cid, mc_provider = mo_provider mo, mc_model_id = mo_model_id mo,
      mc_model_version = mo_model_version mo, mc_params = params, mc_tools = tools, mc_messages = ms,
      messages_hash = hash_messages (s_py y) ms, mc_response = resp, mc_stream = chunks\<rparr>) t"
proof -
  let ?e = "\<lparr>mc_parent = current_call_id s, mc_tool = None,
      mc_meta = meta_at now (Some dur) offsets, call_id = cid, mc_provider = mo_provider mo, mc_model_id = mo_model_id mo,
      mc_model_version = mo_model_version mo, mc_params = params, mc_tools = tools, mc_messages = ms,
      messages_hash = hash_messages (s_py y) ms, mc_response = resp, mc_stream = chunks\<rparr>"
  have m: "redact_messages (s_redactor s) ms = Inr ms" using r by (simp add: rec_ok_def plain_session_def redact_messages_def)
  obtain n u where u: "append_op y (ModelCall ?e) s = (Inr (Some n), u)" "logged y rid X es s0 [] (ModelCall ?e) u"
    using append_logged [OF r g holds_all_Nil, of "ModelCall ?e"] by blast
  have sr: "stream_reassembles (s_py y) e = Inr e \<or> stream_reassembles (s_py y) e = Inl ValueError" for e
    by (auto simp: stream_reassembles_def Let_def split: option.splits)
  have "stream_reassembles (s_py y) ?e = Inr ?e"
    using sr [of ?e] a m by (auto simp: append_model_call_def)
  moreover have "\<not> can_replay u" using u(2) by (simp add: logged_def rec_ok_def)
  ultimately have "append_model_call y now cid mo params tools ms resp chunks dur offsets s = (Inr cid, u\<lparr>current_call_id := Some cid\<rparr>)"
    using m u(1) by (simp add: append_model_call_def Let_def)
  then show ?thesis using a u(2) by (auto simp: logged_def)
qed

lemma recording_turn:
  "rec_ok y rid X es s \<Longrightarrow> turn_messages ms s = (ms, s\<lparr>s_turn := s_turn s + 1\<rparr>)"
  "rec_ok y rid X es s \<Longrightarrow> matched_call y mo ms tools s = (Inr None, s)"
  by (simp_all add: rec_ok_def plain_session_def forked_def turn_messages_def Let_def matched_call_def)

lemma grown_turn [simp]: "grown s (s\<lparr>s_turn := n\<rparr>)"
  by (simp add: grown_def)

lemma record_create:
  assumes r: "rec_ok y rid X es s" and a: "create y (w_now w) cid (w_dur w) (model_of w prov mid ver) ms tools params s = (Inr (i, resp), t)"
  shows "logged y rid X es s [] (ModelCall (call_event y w s i prov mid ver params tools ms resp None None)) t"
proof -
  let ?s = "s\<lparr>s_turn := s_turn s + 1\<rparr>"
  have r': "rec_ok y rid X es ?s" using r by simp
  obtain g where g: "create_fn (model_of w prov mid ver) = Some g"
    using a recording_turn(1) [OF r] recording_turn(2) [OF r'] by (auto simp: create_def split: option.splits)
  obtain x where x: "g mid ms params = Inr x"
    using a g recording_turn(1) [OF r] recording_turn(2) [OF r']
    by (cases "g mid ms params") (auto simp: create_def model_of_def)
  obtain q u where q: "append_model_call y (w_now w) cid (model_of w prov mid ver) params tools ms x None (w_dur w) None ?s = (q, u)"
    by force
  have mid: "mo_model_id (model_of w prov mid ver) = mid" by (simp add: model_of_def)
  have "bind_op (append_model_call y (w_now w) cid (model_of w prov mid ver) params tools ms x None (w_dur w) None)
      (\<lambda>cid. return_op (cid, x)) ?s = (Inr (i, resp), t)"
    using a g x recording_turn(1) [OF r] recording_turn(2) [OF r'] by (simp add: create_def mid)
  then have "q = Inr i" "x = resp" "u = t" using q by (cases q; auto)+
  then have "append_model_call y (w_now w) cid (model_of w prov mid ver) params tools ms resp None (w_dur w) None ?s = (Inr i, t)"
    using q by simp
  from record_call [OF r' grown_turn this] show ?thesis by (auto simp: call_event_def model_of_def)
qed

text \<open>Draining a handle that records: all chunks are delivered, then the call is finalised once.\<close>

definition drained :: "(nat \<Rightarrow> real) \<Rightarrow> stream_handle \<Rightarrow> stream_handle" where
  "drained clock h = h\<lparr>h_rest := [], h_chunks := h_chunks h @ h_rest h,
     h_offsets := h_offsets h @ map clock [length (h_chunks h)..<length (h_chunks h) + length (h_rest h)],
     h_returned := (case h_end h of Inr r \<Rightarrow> r | Inl _ \<Rightarrow> h_returned h),
     h_end := (case h_end h of Inr r \<Rightarrow> Inr r | Inl _ \<Rightarrow> Inr None)\<rparr>"

lemma drain_loop_finalizes:
  "h_response h = None \<Longrightarrow> drain_loop y now dur clock h s = (r, h', t) \<Longrightarrow> r = Inr () \<Longrightarrow> h_response h' = Some resp \<Longrightarrow>
   finalize y now dur (drained clock h) s = (Inr resp, t) \<and> h' = (drained clock h)\<lparr>h_response := Some resp\<rparr>"
proof (induction "h_rest h" arbitrary: h)
  case Nil
  let ?h = "case h_end h of Inr r \<Rightarrow> h\<lparr>h_returned := r\<rparr> | Inl _ \<Rightarrow> h\<lparr>h_end := Inr None\<rparr>"
  have d: "drained clock h = ?h"
    using Nil.hyps [symmetric] by (cases h) (auto simp: drained_def split: sum.splits)
  obtain q u where q: "finalize y now dur ?h s = (q, u)" by force
  have hn: "h_response ?h = None" using Nil.prems(1) by (simp split: sum.splits)
  show ?case
  proof (cases q)
    case (Inl e)
    then have "drain_loop y now dur clock h s = (if e = StopIteration then Inr () else Inl e, ?h, u)"
      using Nil.hyps [symmetric] Nil.prems(1) q by (subst drain_loop.simps) (simp add: next_chunk_def Let_def)
    then show ?thesis using Nil.prems hn by auto
  next
    case (Inr x)
    then have "snd (drain_loop y now dur clock h s) = (?h\<lparr>h_response := Some x\<rparr>, u)"
      using Nil.hyps [symmetric] Nil.prems(1) q by (subst drain_loop.simps) (simp add: next_chunk_def Let_def)
    then show ?thesis using Nil.prems q Inr d by auto
  qed
next
  case (Cons c cs)
  let ?h = "h\<lparr>h_rest := cs, h_chunks := h_chunks h @ [c], h_offsets := h_offsets h @ [clock (length (h_chunks h))]\<rparr>"
  have n: "next_chunk y now dur (clock (length (h_chunks h))) h s = (Inr c, ?h, s)"
    using Cons.hyps(2) [symmetric] Cons.prems(1) by (simp add: next_chunk_def)
  have "drain_loop y now dur clock ?h s = (r, h', t)"
    using Cons.prems(2) n by (subst (asm) drain_loop.simps) simp
  moreover have "drained clock ?h = drained clock h"
    using Cons.hyps(2) [symmetric] by (cases "h_end h") (simp_all add: drained_def upt_conv_Cons del: upt_Suc)
  ultimately show ?case using Cons.hyps(1) [of ?h] Cons.prems by simp
qed

lemma record_stream:
  assumes r: "rec_ok y rid X es s"
    and a: "stream_and_drain y w (model_of w prov mid ver) ms tools params s = (Inr ans, t)"
  shows "\<exists>i chunks resp. ans = AStream i chunks resp \<and>
    logged y rid X es s [] (ModelCall (call_event y w s i prov mid ver params tools ms resp (Some chunks)
       (Some (map (w_clock w) [0..<length chunks])))) t"
proof -
  let ?s = "s\<lparr>s_turn := s_turn s + 1\<rparr>" and ?mo = "model_of w prov mid ver"
  have r': "rec_ok y rid X es ?s" using r by simp
  have mid: "mo_model_id ?mo = mid" by (simp add: model_of_def)
  obtain g where g: "stream_fn ?mo = Some g"
    using a recording_turn(1) [OF r] recording_turn(2) [OF r']
    by (cases "stream_fn ?mo") (auto simp: stream_and_drain_def stream_def bind_op_def)
  obtain cs fin where c: "g mid ms params = (cs, fin)" by force
  let ?h = "new_handle (w_id w) cs fin (Recording ?mo params tools ms)"
  have "stream y (w_id w) ?mo ms tools params s = (Inr ?h, ?s)"
    using g c recording_turn(1) [OF r] recording_turn(2) [OF r'] by (simp add: stream_def mid)
  then have d: "(case drain y (w_now w) (w_dur w) (w_clock w) ?h ?s of
      (Inl e, h', t) \<Rightarrow> (Inl e, t) | (Inr r, h', t) \<Rightarrow> (Inr (AStream (h_call_id h') (h_chunks h') r), t)) = (Inr ans, t)"
    using a by (simp add: stream_and_drain_def)
  obtain q h' u where q: "drain_loop y (w_now w) (w_dur w) (w_clock w) ?h ?s = (q, h', u)" by (metis prod_cases3)
  then obtain resp where resp: "q = Inr ()" "h_response h' = Some resp" "u = t" "ans = AStream (h_call_id h') (h_chunks h') resp"
    using d by (cases q) (auto simp: drain_def handle_response_def split: option.splits)
  let ?d = "drained (w_clock w) ?h"
  have f: "finalize y (w_now w) (w_dur w) ?d ?s = (Inr resp, t)" "h' = ?d\<lparr>h_response := Some resp\<rparr>"
    using drain_loop_finalizes [OF _ q resp(1,2)] resp(3) by (simp_all add: new_handle_def)
  have h: "h_call_id ?d = w_id w" "h_chunks ?d = cs" "h_offsets ?d = map (w_clock w) [0..<length cs]"
    "h_finalizer ?d = Recording ?mo params tools ms" by (simp_all add: drained_def new_handle_def)
  have "\<exists>i. append_model_call y (w_now w) (w_id w) ?mo params tools ms resp (Some cs) (w_dur w)
      (Some (map (w_clock w) [0..<length cs])) ?s = (Inr i, t)"
    using f(1) by (auto simp: finalize_def h bind_op_def Let_def split: prod.splits sum.splits option.splits)
  then obtain i where "append_model_call y (w_now w) (w_id w) ?mo params tools ms resp (Some cs) (w_dur w)
      (Some (map (w_clock w) [0..<length cs])) ?s = (Inr i, t)" by blast
  from record_call [OF r' grown_turn this] show ?thesis using resp(4) f(2) h
    by (auto simp: call_event_def model_of_def)
qed

lemma rec_plain:
  "rec_ok y rid X es s \<Longrightarrow> redact_args (s_redactor s) args = args"
  "rec_ok y rid X es s \<Longrightarrow> recorded_tool s parent rq = s_tool_calls s (parent, req_id rq)"
  "rec_ok y rid X es s \<Longrightarrow> replay_fs kind key s = (Inr None, s)"
  by (simp_all add: rec_ok_def plain_session_def redact_args_def recorded_tool_def replay_fs_def)

lemma record_tool:
  assumes r: "rec_ok y rid X es s" and i: "inj_on (sha256 (s_py y)) X" "out_content out \<in> X"
    and a: "call_tool y (w_now w) (w_dur w) (dispatch_of w) parent rq s = (Inr out, t)"
  shows "logged y rid X es s [out_content out] (ToolCall \<lparr>tc_parent = parent, tc_tool = req_id rq,
      tc_meta = meta_at (w_now w) (Some (w_dur w)) None, tc_batch_index = req_batch_index rq, tc_name = req_name rq,
      tc_args = req_args rq, tc_args_hash = hash_args (s_py y) (req_args rq), tc_result = ref_of y (out_content out),
      tc_status = out_status out, tc_error = out_error out\<rparr>) t"
proof -
  have c: "s_can_record s" "s_tool_calls s = Map.empty" using r by (simp_all add: rec_ok_def)
  obtain g where g: "w_dispatch w = Some g"
    using a r c rec_plain [OF r] by (cases "w_dispatch w") (auto simp: call_tool_def dispatch_of_def Let_def)
  have l: "call_live y (w_now w) (w_dur w) (\<lambda>sc name args. lift_op (g name args)) parent rq (req_args rq)
      (hash_args (s_py y) (req_args rq)) s = (Inr out, t)"
    using a r c g rec_plain [OF r] by (simp add: call_tool_def dispatch_of_def Let_def)
  then have o: "g (req_name rq) (req_args rq) = Inr out"
    by (cases "g (req_name rq) (req_args rq)") (auto simp: call_live_def bind_op_def split: prod.splits sum.splits)
  obtain st where p: "put_blob_op y (out_content out) s = (Inr (ref_of y (out_content out)), s\<lparr>s_store := st\<rparr>)"
    "rec_ok y rid X es (s\<lparr>s_store := st\<rparr>)" "grown s (s\<lparr>s_store := st\<rparr>)" "holds_all y (s\<lparr>s_store := st\<rparr>) [out_content out]"
    using put_rec [OF r i] by blast
  let ?e = "ToolCall \<lparr>tc_parent = parent, tc_tool = req_id rq,
      tc_meta = meta_at (w_now w) (Some (w_dur w)) None, tc_batch_index = req_batch_index rq, tc_name = req_name rq,
      tc_args = req_args rq, tc_args_hash = hash_args (s_py y) (req_args rq), tc_result = ref_of y (out_content out),
      tc_status = out_status out, tc_error = out_error out\<rparr>"
  obtain n u where "append_op y ?e (s\<lparr>s_store := st\<rparr>) = (Inr (Some n), u)" "logged y rid X es s [out_content out] ?e u"
    using append_logged [OF p(2,3,4), of ?e] by blast
  then show ?thesis using l o p(1) by (simp add: call_live_def)
qed

lemma record_read_none:
  assumes r: "rec_ok y rid X es s"
  shows "\<exists>t. record_read y sc now key kind None s = (Inl FileNotFoundError, t) \<and> logged y rid X es s []
     (read_event sc now s key kind False None) t"
  using append_logged [OF r grown_refl holds_all_Nil, of "read_event sc now s key kind False None"]
  by (auto simp: record_read_def put_optional_def)

lemma read_event_store: "read_event sc now (s\<lparr>s_store := st\<rparr>) = read_event sc now s"
  "write_event sc now (s\<lparr>s_store := st\<rparr>) = write_event sc now s"
  by (intro ext, simp add: read_event_def write_event_def scope_parent_def)+

lemma record_read_some:
  assumes r: "rec_ok y rid X es s" and i: "inj_on (sha256 (s_py y)) X" "data \<in> X"
  shows "\<exists>t. record_read y sc now key kind (Some data) s = (Inr (), t) \<and> logged y rid X es s [data]
     (read_event sc now s key kind True (Some (ref_of y data))) t"
proof -
  obtain st where p: "put_blob_op y data s = (Inr (ref_of y data), s\<lparr>s_store := st\<rparr>)"
    "rec_ok y rid X es (s\<lparr>s_store := st\<rparr>)" "grown s (s\<lparr>s_store := st\<rparr>)" "holds_all y (s\<lparr>s_store := st\<rparr>) [data]"
    using put_rec [OF r i] by blast
  show ?thesis
    using append_logged [OF p(2-4), of "read_event sc now s key kind True (Some (ref_of y data))"] p(1)
    by (auto simp: record_read_def put_optional_def read_event_store)
qed

lemma put_error: "put_blob_op y data s = (Inl x, t) \<Longrightarrow> x = ValueError"
  by (auto simp: put_blob_op_def put_blob_def blob_path_def Let_def split: if_splits)

lemma append_error:
  "plain_session s \<Longrightarrow> s_can_record s \<Longrightarrow> append_op y e s = (Inl x, t) \<Longrightarrow> x = IntegrityError"
  by (auto simp: append_op_def redact_event_def plain_session_def append_event_def insert_event_def Let_def
      split: prod.splits sum.splits if_splits)

lemma put_state: "put_blob_op y data s = (r, t) \<Longrightarrow> \<exists>st. t = s\<lparr>s_store := st\<rparr>"
  by (auto simp: put_blob_op_def split: prod.splits)

lemma record_read_error:
  assumes "plain_session s" "s_can_record s" "record_read y sc now key kind (Some data) s = (Inl x, t)"
  shows "x \<in> {ValueError, IntegrityError}"
proof (cases "put_blob_op y data s")
  case (Pair r u)
  then obtain st where u: "u = s\<lparr>s_store := st\<rparr>" using put_state by blast
  have p: "plain_session u" "s_can_record u" using assms(1,2) by (simp_all add: u plain_session_def forked_def)
  show ?thesis
  proof (cases r)
    case (Inl e)
    then show ?thesis using Pair assms(3) put_error by (auto simp: record_read_def put_optional_def)
  next
    case (Inr b)
    then show ?thesis using Pair assms(3) append_error [OF p]
      by (cases "append_op y (read_event sc now u key kind True (Some b)) u"; cases "fst (append_op y (read_event sc now u key kind True (Some b)) u)")
         (auto simp: record_read_def put_optional_def)
  qed
qed

lemma record_file:
  assumes r: "rec_ok y rid X es s" and i: "inj_on (sha256 (s_py y)) X" "\<And>d. res = Inr d \<Longrightarrow> d \<in> X"
    and a: "read_bytes y dk f sc (w_now w) d path s = (res, t)" "accepted (ReadFile path) (map_sum id ABytes res)"
  shows "\<exists>e. op_event y f sc w s (ReadFile path) (map_sum id ABytes res) = [e]
    \<and> logged y rid X es s (contents (ReadFile path) (map_sum id ABytes res)) e t \<and> (\<exists>k. locate f s path = Inr k)"
proof -
  obtain key target where l: "locate f s path = Inr (key, target)"
    using a by (cases "locate f s path") (auto simp: read_bytes_def accepted_def locate_def resolve_path_def bind_res_def
        Let_def split: option.splits if_splits sum.splits)
  have k: "path_key f s path = key" by (simp add: path_key_def l)
  show ?thesis
  proof (cases "file_at dk d target")
    case None
    obtain u where u: "record_read y sc (w_now w) key KContent None s = (Inl FileNotFoundError, u)"
      "logged y rid X es s [] (read_event sc (w_now w) s key KContent False None) u"
      using record_read_none [OF r] by blast
    have "read_bytes y dk f sc (w_now w) d path s = (Inl FileNotFoundError, u)"
      using l None u(1) rec_plain(3) [OF r] by (simp add: read_bytes_def)
    then show ?thesis using a(1) u(2) l k by auto
  next
    case (Some data)
    obtain q u where q: "record_read y sc (w_now w) key KContent (Some data) s = (q, u)" by force
    have eq: "read_bytes y dk f sc (w_now w) d path s = (map_sum id (\<lambda>_. data) q, u)"
      using l Some q rec_plain(3) [OF r] by (cases q) (simp_all add: read_bytes_def)
    obtain v where v: "put_blob_op y data s = v" by blast
    have "\<exists>x. q = Inr x"
    proof (rule ccontr)
      assume "\<nexists>x. q = Inr x"
      then have "res = Inl FileNotFoundError" using a eq by (cases q) (auto simp: accepted_def)
      moreover have "record_read y sc (w_now w) key KContent (Some data) s \<noteq> (Inl FileNotFoundError, u)"
        using record_read_error [of s y sc "w_now w" key KContent data FileNotFoundError u] r
        by (auto simp: rec_ok_def)
      ultimately show False using q eq a(1) by (cases q) auto
    qed
    then have "res = Inr data" using a(1) eq by auto
    then have "data \<in> X" using i(2) by simp
    from record_read_some [OF r i(1) this] obtain u' where
      "record_read y sc (w_now w) key KContent (Some data) s = (Inr (), u')"
      "logged y rid X es s [data] (read_event sc (w_now w) s key KContent True (Some (ref_of y data))) u'" by blast
    then show ?thesis using q eq a(1) l k \<open>res = Inr data\<close> by auto
  qed
qed

lemma record_exists:
  assumes r: "rec_ok y rid X es s" and a: "path_exists y dk f sc (w_now w) d path s = (Inr b, t)"
  shows "logged y rid X es s [] (read_event sc (w_now w) s (path_key f s path) KExists b None) t \<and> (\<exists>k. locate f s path = Inr k)"
proof -
  obtain key target where l: "locate f s path = Inr (key, target)"
    using a by (cases "locate f s path") (auto simp: path_exists_def)
  let ?e = "read_event sc (w_now w) s key KExists (exists_at dk d target) None"
  obtain n u where "append_op y ?e s = (Inr (Some n), u)" "logged y rid X es s [] ?e u"
    using append_logged [OF r grown_refl holds_all_Nil] by blast
  then show ?thesis using a l rec_plain(3) [OF r] by (simp add: path_exists_def path_key_def)
qed

lemma record_write_step:
  assumes r: "rec_ok y rid X es s" and i: "inj_on (sha256 (s_py y)) X" "data \<in> X"
    and a: "write_bytes y dk f sc (w_now w) path data (s, d) = (Inr u, t, d')"
  shows "logged y rid X es s [data] (write_event sc (w_now w) s (path_key f s path) (ref_of y data)) t
    \<and> (\<exists>k. locate f s path = Inr k)"
proof -
  obtain key target where l: "locate f s path = Inr (key, target)"
    using a by (cases "locate f s path") (auto simp: write_bytes_def)
  obtain st where p: "put_blob_op y data s = (Inr (ref_of y data), s\<lparr>s_store := st\<rparr>)"
    "rec_ok y rid X es (s\<lparr>s_store := st\<rparr>)" "grown s (s\<lparr>s_store := st\<rparr>)" "holds_all y (s\<lparr>s_store := st\<rparr>) [data]"
    using put_rec [OF r i] by blast
  let ?e = "write_event sc (w_now w) s key (ref_of y data)"
  obtain n v where v: "append_op y ?e (s\<lparr>s_store := st\<rparr>) = (Inr (Some n), v)" "logged y rid X es s [data] ?e v"
    using append_logged [OF p(2-4), of ?e] by blast
  have "record_write y sc (w_now w) key data s = (Inr (), v)"
    using p(1) v(1) by (simp add: record_write_def read_event_store)
  then show ?thesis using a l v(2) rec_plain(3) [OF r]
    by (auto simp: write_bytes_def path_key_def split: sum.splits)
qed

text \<open>The paths a step names are inside the root.\<close>

definition paths_ok :: "fs \<Rightarrow> session \<Rightarrow> agent_op \<Rightarrow> bool" where
  "paths_ok f s p = (case p of ReadFile path \<Rightarrow> \<exists>k. locate f s path = Inr k
     | CheckPath path \<Rightarrow> \<exists>k. locate f s path = Inr k | WriteFile path data \<Rightarrow> \<exists>k. locate f s path = Inr k | _ \<Rightarrow> True)"

lemma map_op_InrE:
  "map_op g m s = (Inr a, t) \<Longrightarrow> \<exists>x. m s = (Inr x, t) \<and> a = g x"
  by (auto simp: map_op_def split: prod.splits sum.splits)

lemma accepted_op:
  "with_disk d (map_op g m s) = (a, t, d') \<Longrightarrow> accepted p a \<Longrightarrow> (\<And>path. p \<noteq> ReadFile path) \<Longrightarrow>
   \<exists>x. m s = (Inr x, t) \<and> a = Inr (g x)"
  by (cases "m s"; cases "fst (m s)"; cases p) (auto simp: with_disk_def map_op_def accepted_def)

lemma map_op_sum: "map_op g m s = (map_sum id g (fst (m s)), snd (m s))"
  by (auto simp: map_op_def split: prod.splits sum.splits)

lemma record_step:
  assumes r: "rec_ok y rid X es s" and i: "inj_on (sha256 (s_py y)) X" "set (contents p a) \<subseteq> X"
    and a: "agent_step y f sc w p (s, d) = (a, t, d')" "accepted p a"
  shows "\<exists>e. op_event y f sc w s p a = [e] \<and> logged y rid X es s (contents p a) e t \<and> paths_ok f s p"
proof (cases p)
  case (ReadEnv src key)
  then obtain v where "env_value y sc (w_now w) src key (w_produce w src key) s = (Inr v, t)" "a = Inr (AJson v)"
    using accepted_op [OF _ a(2)] a(1) by fastforce
  then show ?thesis using record_env [OF r] ReadEnv by (simp add: paths_ok_def)
next
  case (AskModel prov mid ver ms tools params)
  then obtain i resp where "create y (w_now w) (w_id w) (w_dur w) (model_of w prov mid ver) ms tools params s = (Inr (i, resp), t)"
    "a = Inr (ACall i resp)"
    using accepted_op [OF _ a(2)] a(1) by fastforce
  then show ?thesis using record_create [OF r] AskModel by (simp add: paths_ok_def)
next
  case (StreamModel prov mid ver ms tools params)
  then obtain ans where "stream_and_drain y w (model_of w prov mid ver) ms tools params s = (Inr ans, t)" "a = Inr ans"
    using a by (cases "stream_and_drain y w (model_of w prov mid ver) ms tools params s"; cases a)
      (auto simp: with_disk_def accepted_def)
  then show ?thesis using record_stream [OF r, of w prov mid ver ms tools params ans t] StreamModel by (auto simp: paths_ok_def)
next
  case (CallTool parent rq)
  then obtain out where c: "call_tool y (w_now w) (w_dur w) (dispatch_of w) parent rq s = (Inr out, t)" "a = Inr (ATool out)"
    using accepted_op [OF _ a(2)] a(1) by fastforce
  then have "out_content out \<in> X" using i(2) CallTool by simp
  from record_tool [OF r i(1) this c(1)] show ?thesis using CallTool c(2) by (simp add: paths_ok_def)
next
  case (ReadFile path)
  obtain res where res: "read_bytes y (w_disk w) f sc (w_now w) d path s = (res, t)" "a = map_sum id ABytes res"
    using a(1) ReadFile that [of "fst (read_bytes y (w_disk w) f sc (w_now w) d path s)"]
    by (auto simp: with_disk_def map_op_sum)
  have "d \<in> X" if "res = Inr d" for d using i(2) ReadFile res(2) that by simp
  from record_file [OF r i(1) this res(1)] show ?thesis using a(2) ReadFile res(2) by (auto simp: paths_ok_def)
next
  case (CheckPath path)
  then obtain b where "path_exists y (w_disk w) f sc (w_now w) d path s = (Inr b, t)" "a = Inr (ABool b)"
    using accepted_op [OF _ a(2)] a(1) by fastforce
  then show ?thesis using record_exists [OF r] CheckPath by (simp add: paths_ok_def)
next
  case (WriteFile path data)
  then obtain u where "write_bytes y (w_disk w) f sc (w_now w) path data (s, d) = (Inr u, t, d')" "a = Inr AUnit"
    using a by (cases a) (auto simp: accepted_def split: prod.splits sum.splits)
  moreover have "data \<in> X" using i(2) WriteFile by simp
  ultimately show ?thesis using record_write_step [OF r i(1)] WriteFile by (simp add: paths_ok_def)
qed

section \<open>Replaying a log from a position\<close>

text \<open>Recorded values are consumed in order: the contract of the two replay cursors.\<close>

locale cursor =
  fixes entries :: "'s \<Rightarrow> 'k \<Rightarrow> 'v list" and pos :: "'s \<Rightarrow> 'k \<Rightarrow> nat" and pop :: "'k \<Rightarrow> 's \<Rightarrow> 'v option \<times> 's"
    and ok :: "'s \<Rightarrow> bool"
  assumes pop_value: "ok s \<Longrightarrow> pos s k < length (entries s k) \<Longrightarrow> fst (pop k s) = Some (entries s k ! pos s k)"
    and pop_pos: "ok s \<Longrightarrow> pos s k < length (entries s k) \<Longrightarrow> pos (snd (pop k s)) = (pos s)(k := pos s k + 1)"
    and pop_entries: "entries (snd (pop k s)) = entries s"
    and pop_ok: "ok s \<Longrightarrow> ok (snd (pop k s))"
begin

fun pops :: "'k list \<Rightarrow> 's \<Rightarrow> 'v option list \<times> 's" where
  "pops [] s = ([], s)"
| "pops (k # ks) s = (case pop k s of (v, t) \<Rightarrow> (case pops ks t of (vs, u) \<Rightarrow> (v # vs, u)))"

text \<open>Whatever the interleaving of keys, the values of each key come in recorded order.\<close>

lemma pops_in_order:
  "ok s \<Longrightarrow> (\<And>k. pos s k + count_list ks k \<le> length (entries s k)) \<Longrightarrow>
   map (\<lambda>(k', v). v) (filter (\<lambda>p. fst p = k) (zip ks (fst (pops ks s))))
     = map Some (take (count_list ks k) (drop (pos s k) (entries s k)))"
proof (induction ks arbitrary: s)
  case (Cons c ks)
  obtain v t where p: "pop c s = (v, t)" by force
  have lt: "pos s c < length (entries s c)" using Cons.prems(2) [of c] by simp
  have v: "v = Some (entries s c ! pos s c)" using pop_value [OF Cons.prems(1) lt] p by simp
  have t: "pos t = (pos s)(c := pos s c + 1)" "entries t = entries s" "ok t"
    using pop_pos [OF Cons.prems(1) lt] pop_entries [of c s] pop_ok [OF Cons.prems(1), of c] p by auto
  have "pos t k' + count_list ks k' \<le> length (entries t k')" for k'
    using Cons.prems(2) [of k'] by (auto simp: t split: if_splits)
  note ih = Cons.IH [OF t(3) this]
  obtain vs u where u: "pops ks t = (vs, u)" by force
  show ?case using ih p u v t lt
    by (cases "c = k") (auto simp: Cons_nth_drop_Suc [symmetric])
qed simp

end

definition cursor_at :: "('k \<rightharpoonup> nat) \<Rightarrow> 'k \<Rightarrow> nat" where
  "cursor_at c k = (case c k of None \<Rightarrow> 0 | Some i \<Rightarrow> i)"

lemma cursor_at_update [simp]: "cursor_at (c(k \<mapsto> i)) = (cursor_at c)(k := i)"
  by (auto simp: cursor_at_def)

lemma list_at_key_Some: "i < length (list_at_key m k) \<Longrightarrow> \<exists>vs. m k = Some vs \<and> list_at_key m k = vs"
  by (auto simp: list_at_key_def split: option.splits)

definition pop_env_key :: "env_source \<times> string option \<Rightarrow> session \<Rightarrow> json option \<times> session" where
  "pop_env_key k = pop_env (fst k) (snd k)"

definition pop_fs_key :: "string \<times> string \<Rightarrow> session \<Rightarrow> fs_access option \<times> session" where
  "pop_fs_key k s = (case replay_fs (fst k) (snd k) s of (Inr a, t) \<Rightarrow> (a, t) | (Inl _, t) \<Rightarrow> (None, t))"

lemma pop_env_below:
  assumes "cursor_at (s_env_cursor s) k < length (list_at_key (s_env s) k)"
  shows "pop_env_key k s = (Some (list_at_key (s_env s) k ! cursor_at (s_env_cursor s) k),
    s\<lparr>s_env_cursor := (s_env_cursor s)(k \<mapsto> cursor_at (s_env_cursor s) k + 1)\<rparr>)"
proof -
  obtain vs where vs: "s_env s k = Some vs" "list_at_key (s_env s) k = vs" using list_at_key_Some [OF assms] by blast
  then have "vs \<noteq> []" using assms by auto
  then show ?thesis using assms unfolding pop_env_key_def pop_env_def
    by (simp add: vs Let_def cursor_at_def)
qed

lemma replay_fs_below:
  assumes "can_replay s" "\<not> forked s" "cursor_at (s_fs_cursor s) k < length (list_at_key (s_fs s) k)"
  shows "replay_fs (fst k) (snd k) s = (Inr (Some (list_at_key (s_fs s) k ! cursor_at (s_fs_cursor s) k)),
    s\<lparr>s_fs_cursor := (s_fs_cursor s)(k \<mapsto> cursor_at (s_fs_cursor s) k + 1)\<rparr>)"
proof -
  obtain vs where vs: "s_fs s k = Some vs" "list_at_key (s_fs s) k = vs" using list_at_key_Some [OF assms(3)] by blast
  then show ?thesis using assms unfolding replay_fs_def
    by (simp add: vs Let_def cursor_at_def)
qed

lemma pop_env_frame: "s_env (snd (pop_env src key s)) = s_env s"
  by (simp add: pop_env_def Let_def split: option.splits)

lemma replay_fs_frame:
  "s_fs (snd (replay_fs kind key s)) = s_fs s \<and> can_replay (snd (replay_fs kind key s)) = can_replay s
   \<and> forked (snd (replay_fs kind key s)) = forked s"
  by (simp add: replay_fs_def forked_def Let_def)

interpretation envs: cursor "\<lambda>s. list_at_key (s_env s)" "\<lambda>s. cursor_at (s_env_cursor s)" pop_env_key "\<lambda>s. True"
  by unfold_locales (simp_all add: pop_env_below, simp add: pop_env_key_def pop_env_frame)

lemma pop_fs_key_frame:
  "s_fs (snd (pop_fs_key k s)) = s_fs s \<and> can_replay (snd (pop_fs_key k s)) = can_replay s
   \<and> forked (snd (pop_fs_key k s)) = forked s"
  using replay_fs_frame [of "fst k" "snd k" s] by (auto simp: pop_fs_key_def split: prod.splits sum.splits)

interpretation accesses: cursor "\<lambda>s. list_at_key (s_fs s)" "\<lambda>s. cursor_at (s_fs_cursor s)" pop_fs_key
  "\<lambda>s. can_replay s \<and> \<not> forked s"
  by unfold_locales (simp_all add: pop_fs_key_frame, simp_all add: pop_fs_key_def replay_fs_below)

text \<open>What the log holds for each key.\<close>

fun env_vals :: "any_event list \<Rightarrow> env_source \<times> string option \<Rightarrow> json list" where
  "env_vals [] k = []"
| "env_vals (e # es) k = (case e of Environment v \<Rightarrow> if (ee_source v, ee_key v) = k then [ee_value v] else [] | _ \<Rightarrow> [])
     @ env_vals es k"

fun fs_vals :: "any_event list \<Rightarrow> string \<times> string \<Rightarrow> fs_access list" where
  "fs_vals [] k = []"
| "fs_vals (e # es) k =
     (case e of
        FsRead v \<Rightarrow> if access_key (RAccess v) = k then [RAccess v] else []
      | FsWrite v \<Rightarrow> if access_key (WAccess v) = k then [WAccess v] else []
      | _ \<Rightarrow> []) @ fs_vals es k"

lemma vals_append [simp]:
  "env_vals (es @ es') k = env_vals es k @ env_vals es' k" "fs_vals (es @ es') k' = fs_vals es k' @ fs_vals es' k'"
  by (induction es) (auto split: any_event.splits)

lemma model_calls_append [simp]: "model_calls_of (es @ es') = model_calls_of es @ model_calls_of es'"
  by (induction es rule: model_calls_of.induct) auto

text \<open>
  A replay of log \<open>L\<close> from the store \<open>st\<close> that has consumed what the prefix \<open>es\<close> recorded.
\<close>

definition matcher_at :: "sys \<Rightarrow> any_event list \<Rightarrow> any_event list \<Rightarrow> call_matcher \<Rightarrow> bool" where
  "matcher_at y L es m \<longleftrightarrow> m_calls m = model_calls_of L \<and> length (consumed m) = length (model_calls_of L)
     \<and> (\<forall>j < length (model_calls_of L). consumed m ! j \<longleftrightarrow> j < length (model_calls_of es))
     \<and> (\<forall>c. hashed (s_py y) c \<longrightarrow> accepts m (request_of (s_py y) c) c)"

definition replay_at :: "sys \<Rightarrow> any_event list \<Rightarrow> store \<Rightarrow> any_event list \<Rightarrow> session \<Rightarrow> bool" where
  "replay_at y L st es p \<longleftrightarrow> pure_replay p \<and> \<not> enabled (s_redactor p) \<and> s_store p = st
     \<and> (\<forall>k. list_at_key (s_env p) k = env_vals L k \<and> cursor_at (s_env_cursor p) k = length (env_vals es k))
     \<and> (\<forall>k. list_at_key (s_fs p) k = fs_vals L k \<and> cursor_at (s_fs_cursor p) k = length (fs_vals es k))
     \<and> (\<forall>e. ToolCall e \<in> set L \<longrightarrow> s_tool_calls p (tc_parent e, tc_tool e) = Some e)
     \<and> (\<exists>m. s_matcher p = Some m \<and> matcher_at y L es m)"

lemma replay_atD:
  assumes "replay_at y L st es p"
  shows "list_at_key (s_env p) k = env_vals L k" "cursor_at (s_env_cursor p) k = length (env_vals es k)"
    "list_at_key (s_fs p) k' = fs_vals L k'" "cursor_at (s_fs_cursor p) k' = length (fs_vals es k')"
    "pure_replay p" "\<not> enabled (s_redactor p)" "s_store p = st"
  using assms by (auto simp only: replay_at_def)

section \<open>Replaying a step\<close>

named_theorems replay_simps \<open>what a replay of an unredacted log does\<close>

lemma replay_plain [replay_simps]:
  "\<not> enabled r \<Longrightarrow> restore_path r v = v" "\<not> enabled r \<Longrightarrow> redact_args r args = args"
  "\<not> enabled r \<Longrightarrow> redact_blob r data = data" "\<not> enabled r \<Longrightarrow> redact_messages r ms = Inr ms"
  "\<not> enabled r \<Longrightarrow> redact_text r path = path"
  by (simp_all add: restore_path_def redact_args_def redact_blob_def redact_messages_def redact_text_def)

lemma replay_env:
  assumes at: "replay_at y L st es p" and e: "L = es @ Environment e # rest"
  shows "\<exists>t. replay_step y f (ReadEnv (ee_source e) (ee_key e)) p = (Inr (AJson (ee_value e)), t)
    \<and> replay_at y L st (es @ [Environment e]) t"
proof -
  let ?k = "(ee_source e, ee_key e)"
  have l: "list_at_key (s_env p) ?k = env_vals es ?k @ ee_value e # env_vals rest ?k"
    "cursor_at (s_env_cursor p) ?k = length (env_vals es ?k)"
    using replay_atD [OF at] by (simp_all add: e)
  have vs: "s_env p ?k = Some (env_vals es ?k @ ee_value e # env_vals rest ?k)"
    using l(1) by (auto simp: list_at_key_def split: option.splits)
  have "pop_env (ee_source e) (ee_key e) p
      = (Some (ee_value e), p\<lparr>s_env_cursor := (s_env_cursor p)(?k \<mapsto> length (env_vals es ?k) + 1)\<rparr>)"
    using l(2) vs unfolding pop_env_def cursor_at_def by (simp add: Let_def)
  then show ?thesis using at
    by (auto simp: replay_simps replay_at_def pure_replay_def forked_def matcher_at_def)
qed

lemma replay_access:
  assumes at: "replay_at y L st es p" and e: "L = es @ e # rest" "fs_vals [e] k = [a]" "\<And>k'. k' \<noteq> k \<Longrightarrow> fs_vals [e] k' = []"
    and other: "model_calls_of [e] = []" "\<And>k. env_vals [e] k = []"
  shows "\<exists>t. replay_fs (fst k) (snd k) p = (Inr (Some a), t) \<and> replay_at y L st (es @ [e]) t"
proof -
  have split: "fs_vals L k' = fs_vals es k' @ fs_vals [e] k' @ fs_vals rest k'" for k'
    using vals_append(2) [of es "[e] @ rest" k'] vals_append(2) [of "[e]" rest k'] by (simp add: e(1) del: fs_vals.simps)
  have l: "list_at_key (s_fs p) k = fs_vals es k @ a # fs_vals rest k"
    "cursor_at (s_fs_cursor p) k = length (fs_vals es k)"
    using replay_atD [OF at] split [of k] unfolding e(2) by simp_all
  have vs: "s_fs p k = Some (fs_vals es k @ a # fs_vals rest k)"
    using l(1) by (auto simp: list_at_key_def split: option.splits)
  let ?t = "p\<lparr>s_fs_cursor := (s_fs_cursor p)(k \<mapsto> length (fs_vals es k) + 1)\<rparr>"
  have "replay_fs (fst k) (snd k) p = (Inr (Some a), ?t)"
    using l(2) vs at unfolding replay_fs_def cursor_at_def by (simp add: Let_def replay_at_def pure_replay_def)
  moreover have "length (fs_vals (es @ [e]) k') = cursor_at (s_fs_cursor ?t) k'" for k'
    using replay_atD(4) [OF at] e(2) e(3) [of k'] by (cases "k' = k") (simp_all del: fs_vals.simps)
  then have "replay_at y L st (es @ [e]) ?t"
    using at other by (auto simp: replay_at_def pure_replay_def forked_def matcher_at_def)
  ultimately show ?thesis by blast
qed

lemma replay_matched:
  assumes at: "replay_at y L st es p" and e: "L = es @ ModelCall c # rest" and c: "hashed (s_py y) c"
    and mo: "mo_model_id mo = mc_model_id c"
  shows "\<exists>s t. turn_messages (mc_messages c) p = (mc_messages c, s)
    \<and> matched_call y mo (mc_messages c) (mc_tools c) s = (Inr (Some c), t)
    \<and> (\<forall>i. replay_at y L st (es @ [ModelCall c]) (t\<lparr>current_call_id := i\<rparr>))"
proof -
  let ?s = "p\<lparr>s_turn := s_turn p + 1\<rparr>" and ?k = "length (model_calls_of es)"
  obtain m where m: "s_matcher p = Some m" "matcher_at y L es m" using at by (auto simp: replay_at_def)
  have turn: "turn_messages (mc_messages c) p = (mc_messages c, ?s)"
    using at by (auto simp: turn_messages_def Let_def replay_at_def pure_replay_def forked_def split: option.splits)
  let ?m = "m\<lparr>m_report := s_report p\<rparr>" and ?rq = "request_of (s_py y) c"
  have calls: "m_calls m = model_calls_of es @ c # model_calls_of rest" using m(2) by (simp add: matcher_at_def e)
  have acc: "accepts ?m ?rq (m_calls ?m ! ?k)"
    using m(2) c by (simp add: matcher_at_def accepts_def e)
  have pos: "length (consumed ?m) = length (m_calls ?m)" "?k < length (m_calls ?m)"
    "\<forall>j < length (m_calls ?m). consumed ?m ! j \<longleftrightarrow> j < ?k"
    using m(2) calls by (simp_all add: matcher_at_def e)
  note o = match_in_order [OF pos acc, of "s_py y"]
  obtain m' where m': "match_call (s_py y) ?m ?rq = (Some c, m')"
    using o(1) calls by (cases "match_call (s_py y) ?m ?rq") simp
  then have call: "matched_call y mo (mc_messages c) (mc_tools c) ?s
      = (Inr (Some c), ?s\<lparr>s_matcher := Some m', s_report := m_report m'\<rparr>)"
    using m(1) replay_atD(6) [OF at] mo by (simp add: matched_call_def replay_simps request_of_def)
  have new: "consumed m' = (consumed m)[?k := True]" "m_predicates m' = m_predicates m" "m_calls m' = m_calls m"
    using o(2,4,5) m' by simp_all
  have "consumed m' ! j \<longleftrightarrow> j < Suc ?k" if "j < length (m_calls m)" for j
    using that pos(1,3) new(1) by (cases "j = ?k") auto
  then have "matcher_at y L (es @ [ModelCall c]) m'"
    using m(2) new by (simp add: matcher_at_def accepts_def)
  then have "replay_at y L st (es @ [ModelCall c]) (?s\<lparr>s_matcher := Some m', s_report := m_report m', current_call_id := i\<rparr>)" for i
    using at by (simp add: replay_at_def pure_replay_def forked_def)
  then show ?thesis using turn call by auto
qed

lemma locate_plain:
  "\<not> enabled (s_redactor s) \<Longrightarrow> \<not> enabled (s_redactor p) \<Longrightarrow> locate f s path = locate f p path"
proof -
  assume "\<not> enabled (s_redactor s)" "\<not> enabled (s_redactor p)"
  then have key: "fs_key s = fs_key p" by (intro ext) (simp add: fs_key_def replay_simps)
  show ?thesis unfolding locate_def key ..
qed

lemma stored_blob:
  "digests_ok env \<Longrightarrow> blobs st (sha256 env data) = Some data \<Longrightarrow> get_blob env st (sha256_hex env data) = Inr data"
  by (simp add: get_blob_def blob_path_def sha256_hex_def digests_ok_def)

lemma replay_model:
  assumes at: "replay_at y L st es p" and e: "L = es @ ModelCall c # rest" and c: "hashed (s_py y) c"
  shows "mc_stream c = None \<Longrightarrow> \<exists>t.
      replay_step y f (AskModel prov (mc_model_id c) ver (mc_messages c) (mc_tools c) params) p
        = (Inr (ACall (call_id c) (mc_response c)), t) \<and> replay_at y L st (es @ [ModelCall c]) t"
    "mc_stream c = Some chunks \<Longrightarrow> \<exists>t.
      replay_step y f (StreamModel prov (mc_model_id c) ver (mc_messages c) (mc_tools c) params) p
        = (Inr (AStream (call_id c) chunks (mc_response c)), t) \<and> replay_at y L st (es @ [ModelCall c]) t"
proof -
  let ?mo = "\<lparr>mo_provider = prov, mo_model_id = mc_model_id c, mo_model_version = ver, create_fn = None, stream_fn = None\<rparr>"
  obtain s t where t: "turn_messages (mc_messages c) p = (mc_messages c, s)"
    "matched_call y ?mo (mc_messages c) (mc_tools c) s = (Inr (Some c), t)"
    "\<And>i. replay_at y L st (es @ [ModelCall c]) (t\<lparr>current_call_id := i\<rparr>)"
    using replay_matched [OF at e c, of ?mo] by auto
  show "mc_stream c = None \<Longrightarrow> \<exists>t.
      replay_step y f (AskModel prov (mc_model_id c) ver (mc_messages c) (mc_tools c) params) p
        = (Inr (ACall (call_id c) (mc_response c)), t) \<and> replay_at y L st (es @ [ModelCall c]) t"
    using t by (simp add: map_op_def replay_create_def)
  show "mc_stream c = Some chunks \<Longrightarrow> \<exists>t.
      replay_step y f (StreamModel prov (mc_model_id c) ver (mc_messages c) (mc_tools c) params) p
        = (Inr (AStream (call_id c) chunks (mc_response c)), t) \<and> replay_at y L st (es @ [ModelCall c]) t"
    using t by (simp add: replay_stream_def)
qed

lemma replay_tool_step:
  assumes at: "replay_at y L st es p" and e: "L = es @ ToolCall c # rest"
    and c: "tc_parent c = parent" "tc_tool c = req_id rq" "tc_args_hash c = hash_args (s_py y) (req_args rq)"
      "digest (tc_result c) = sha256_hex (s_py y) data" "digests_ok (s_py y)" "blobs st (sha256 (s_py y) data) = Some data"
      "utf8_valid data"
  shows "\<exists>t. replay_step y f (CallTool parent rq) p
      = (Inr (ATool \<lparr>out_content = data, out_status = tc_status c, out_error = tc_error c\<rparr>), t)
    \<and> replay_at y L st (es @ [ToolCall c]) t"
proof -
  have tool: "s_tool_calls p (parent, req_id rq) = Some c"
    using at c(1,2) unfolding replay_at_def e by auto
  let ?t = "p\<lparr>s_report := (s_report p)\<lparr>tool_calls_replayed := tool_calls_replayed (s_report p) + 1\<rparr>\<rparr>"
  have "replay_step y f (CallTool parent rq) p
      = (Inr (ATool \<lparr>out_content = data, out_status = tc_status c, out_error = tc_error c\<rparr>), ?t)"
    using tool c stored_blob [OF c(5,6)] replay_atD(6,7) [OF at]
    by (simp add: map_op_def replay_call_tool_def replay_tool_def replay_simps decode_utf8_def)
  moreover have "replay_at y L st (es @ [ToolCall c]) ?t"
    using at by (simp add: replay_at_def pure_replay_def forked_def matcher_at_def)
  ultimately show ?thesis by blast
qed

lemma replay_path:
  assumes at: "replay_at y L st es p" and r: "\<not> enabled (s_redactor s)" "\<exists>kt. locate f s path = Inr kt"
  shows "\<exists>target. locate f p path = Inr (path_key f s path, target)"
  using r locate_plain [of s p f path] replay_atD(6) [OF at] by (auto simp: path_key_def)

lemma replay_next:
  assumes at: "replay_at y L st es p" and e: "op_event y f sc w s op a = [e]" and L: "L = es @ e # rest"
    and acc: "accepted op a" and paths: "paths_ok f s op" and r: "\<not> enabled (s_redactor s)"
    and b: "digests_ok (s_py y)" "\<forall>d \<in> set (contents op a). blobs st (sha256 (s_py y) d) = Some d"
  shows "\<exists>t. replay_step y f op p = (a, t) \<and> replay_at y L st (es @ [e]) t"
proof (cases op)
  case (ReadEnv src key)
  then obtain v where v: "a = Inr (AJson v)" "e = Environment \<lparr>ee_parent = current_call_id s, ee_tool = snd sc,
      ee_meta = meta_at (w_now w) None None, ee_source = src, ee_key = key, ee_value = v\<rparr>"
    using e by (auto split: sum.splits answer.splits)
  show ?thesis using replay_env [OF at L [unfolded v(2)], of f] v ReadEnv by simp
next
  case (AskModel prov mid ver ms tools params)
  then obtain i x where v: "a = Inr (ACall i x)" "e = ModelCall (call_event y w s i prov mid ver params tools ms x None None)"
    using e by (auto split: sum.splits answer.splits)
  show ?thesis using replay_model(1) [OF at L [unfolded v(2)], of f prov ver params] v AskModel
    by (simp add: call_event_def hashed_def)
next
  case (StreamModel prov mid ver ms tools params)
  then obtain i cs x where v: "a = Inr (AStream i cs x)"
    "e = ModelCall (call_event y w s i prov mid ver params tools ms x (Some cs) (Some (map (w_clock w) [0..<length cs])))"
    using e by (auto split: sum.splits answer.splits)
  show ?thesis using replay_model(2) [OF at L [unfolded v(2)], of cs f prov ver params] v StreamModel
    by (simp add: call_event_def hashed_def)
next
  case (CallTool parent rq)
  then obtain out where v: "a = Inr (ATool out)" and ev: "e = ToolCall \<lparr>tc_parent = parent, tc_tool = req_id rq,
        tc_meta = meta_at (w_now w) (Some (w_dur w)) None, tc_batch_index = req_batch_index rq, tc_name = req_name rq,
        tc_args = req_args rq, tc_args_hash = hash_args (s_py y) (req_args rq), tc_result = ref_of y (out_content out),
        tc_status = out_status out, tc_error = out_error out\<rparr>"
    using e by (auto split: sum.splits answer.splits)
  show ?thesis using replay_tool_step [OF at L [unfolded ev], of parent rq "out_content out" f] v ev CallTool acc b
    by (cases out) (simp add: ref_of_def accepted_def)
next
  case (ReadFile path)
  let ?e = "\<lambda>b c. read_event sc (w_now w) s (path_key f s path) KContent b c"
  obtain target where l: "locate f p path = Inr (path_key f s path, target)"
    using replay_path [OF at r, of f path] paths ReadFile by (auto simp: paths_ok_def)
  have ev: "(\<exists>data. a = Inr (ABytes data) \<and> e = ?e True (Some (ref_of y data))) \<or> (a = Inl FileNotFoundError \<and> e = ?e False None)"
    using e acc ReadFile by (auto simp: accepted_def split: sum.splits answer.splits)
  obtain b c where bc: "e = ?e b c" using ev by blast
  obtain x where x: "e = FsRead x" "access_key (RAccess x) = (''content'', path_key f s path)"
    "fr_exists x = b" "fr_content x = c"
    using bc by (simp add: read_event_def access_key_def)
  obtain t where t: "replay_fs ''content'' (path_key f s path) p = (Inr (Some (RAccess x)), t)" "replay_at y L st (es @ [e]) t"
    using replay_access [OF at L, of "(''content'', path_key f s path)" "RAccess x"] x by auto
  have "replay_step y f op p = (a, t)"
    using ev
  proof (elim disjE exE conjE)
    fix data
    assume h: "a = Inr (ABytes data)" "e = ?e True (Some (ref_of y data))"
    then have "fr_exists x" "fr_content x = Some (ref_of y data)" using x(1) by (simp_all add: read_event_def)
    then show ?thesis using h l t ReadFile stored_blob [OF b(1), of st data] b(2) replay_atD(7) [OF t(2)]
      by (simp add: map_op_def replay_read_def recorded_content_def ref_of_def)
  next
    assume h: "a = Inl FileNotFoundError" "e = ?e False None"
    then have "\<not> fr_exists x" using x(1) by (simp add: read_event_def)
    then show ?thesis using h l t ReadFile
      by (simp add: map_op_def replay_read_def recorded_content_def)
  qed
  then show ?thesis using t(2) by blast
next
  case (CheckPath path)
  obtain target where l: "locate f p path = Inr (path_key f s path, target)"
    using replay_path [OF at r, of f path] paths CheckPath by (auto simp: paths_ok_def)
  obtain b where b: "a = Inr (ABool b)" "e = read_event sc (w_now w) s (path_key f s path) KExists b None"
    using e CheckPath by (auto split: sum.splits answer.splits)
  then obtain x where x: "e = FsRead x" "access_key (RAccess x) = (''exists'', path_key f s path)" "fr_exists x = b"
    by (simp add: read_event_def access_key_def)
  obtain t where t: "replay_fs ''exists'' (path_key f s path) p = (Inr (Some (RAccess x)), t)" "replay_at y L st (es @ [e]) t"
    using replay_access [OF at L, of "(''exists'', path_key f s path)" "RAccess x"] x by auto
  then show ?thesis using l b(1) x(3) CheckPath by (simp add: map_op_def replay_exists_def)
next
  case (WriteFile path data)
  obtain target where l: "locate f p path = Inr (path_key f s path, target)"
    using replay_path [OF at r, of f path] paths WriteFile by (auto simp: paths_ok_def)
  have w: "a = Inr AUnit" "e = write_event sc (w_now w) s (path_key f s path) (ref_of y data)"
    using e WriteFile by (auto split: sum.splits answer.splits)
  then obtain x where x: "e = FsWrite x" "access_key (WAccess x) = (''write'', path_key f s path)" "a = Inr AUnit"
    "fw_content x = ref_of y data"
    by (simp add: write_event_def access_key_def)
  obtain t where t: "replay_fs ''write'' (path_key f s path) p = (Inr (Some (WAccess x)), t)" "replay_at y L st (es @ [e]) t"
    using replay_access [OF at L, of "(''write'', path_key f s path)" "WAccess x"] x by auto
  then show ?thesis using l x WriteFile replay_atD(6) [OF t(2)]
    by (simp add: map_op_def replay_write_def check_write_def replay_simps ref_of_def)
qed

section \<open>Whole runs\<close>

text \<open>The events of a run, in order.\<close>

fun run_log ::
  "sys \<Rightarrow> fs \<Rightarrow> scope \<Rightarrow> (nat \<Rightarrow> 'd world) \<Rightarrow> agent \<Rightarrow> nat \<Rightarrow> history \<Rightarrow> session \<times> 'd \<Rightarrow> any_event list" where
  "run_log y f sc W ag 0 hist sd = []"
| "run_log y f sc W ag (Suc n) hist sd =
     (case ag hist of
        None \<Rightarrow> []
      | Some p \<Rightarrow>
          (case agent_step y f sc (W (length hist)) p sd of
             (a, sd') \<Rightarrow> op_event y f sc (W (length hist)) (fst sd) p a
                          @ run_log y f sc W ag n (hist @ [(p, a)]) sd'))"

definition all_contents :: "history \<Rightarrow> string set" where
  "all_contents hist = set (concat (map (\<lambda>(p, a). contents p a) hist))"

lemma agent_run_extends: "agent_run y f sc W ag n hist sd = (h, sd') \<Longrightarrow> \<exists>new. h = hist @ new"
  by (induction n arbitrary: hist sd) (fastforce split: option.splits prod.splits)+

definition step_ok :: "sys \<Rightarrow> fs \<Rightarrow> scope \<Rightarrow> (nat \<Rightarrow> 'd world) \<Rightarrow> store \<Rightarrow> agent_op \<times> answer res \<Rightarrow> any_event \<Rightarrow> bool" where
  "step_ok y f sc W st pa e \<longleftrightarrow> (\<exists>i s. op_event y f sc (W i) s (fst pa) (snd pa) = [e] \<and> paths_ok f s (fst pa)
       \<and> \<not> enabled (s_redactor s))
     \<and> accepted (fst pa) (snd pa) \<and> (\<forall>d \<in> set (contents (fst pa) (snd pa)). blobs st (sha256 (s_py y) d) = Some d)"

lemma step_ok_grown: "step_ok y f sc W (s_store s) pa e \<Longrightarrow> grown s t \<Longrightarrow> step_ok y f sc W (s_store t) pa e"
  unfolding step_ok_def grown_def by blast

lemma record_run:
  assumes "rec_ok y rid X es s" "agent_run y f sc W ag n hist (s, d) = (hist @ new, t, d')"
    and "list_all (\<lambda>(p, a). accepted p a) new" "inj_on (sha256 (s_py y)) X" "all_contents new \<subseteq> X"
  shows "rec_ok y rid X (es @ run_log y f sc W ag n hist (s, d)) t \<and> grown s t
    \<and> list_all2 (step_ok y f sc W (s_store t)) new (run_log y f sc W ag n hist (s, d))"
  using assms
proof (induction n arbitrary: hist s d es new)
  case (Suc n)
  show ?case
  proof (cases "ag hist")
    case (Some p)
    obtain a u d'' where a: "agent_step y f sc (W (length hist)) p (s, d) = (a, u, d'')" by (metis prod_cases3)
    have run: "agent_run y f sc W ag n (hist @ [(p, a)]) (u, d'') = (hist @ new, t, d')"
      using Suc.prems(2) Some a by simp
    then obtain new' where new: "new = (p, a) # new'" using agent_run_extends [OF run] by auto
    have acc: "accepted p a" "set (contents p a) \<subseteq> X" "all_contents new' \<subseteq> X"
      using Suc.prems(3,5) new by (auto simp: all_contents_def)
    obtain e where e: "op_event y f sc (W (length hist)) s p a = [e]" "logged y rid X es s (contents p a) e u" "paths_ok f s p"
      using record_step [OF Suc.prems(1,4) acc(2) a acc(1)] by blast
    have u: "rec_ok y rid X (es @ [e]) u" "grown s u" "holds_all y u (contents p a)"
      using e(2) by (simp_all add: logged_def)
    have "agent_run y f sc W ag n (hist @ [(p, a)]) (u, d'') = ((hist @ [(p, a)]) @ new', t, d')"
      using run new by simp
    note ih = Suc.IH [OF u(1) this _ Suc.prems(4) acc(3)]
    have t: "rec_ok y rid X ((es @ [e]) @ run_log y f sc W ag n (hist @ [(p, a)]) (u, d'')) t" "grown u t"
      "list_all2 (step_ok y f sc W (s_store t)) new' (run_log y f sc W ag n (hist @ [(p, a)]) (u, d''))"
      using ih Suc.prems(3) new by simp_all
    have "\<not> enabled (s_redactor s)" using Suc.prems(1) by (simp add: rec_ok_def plain_session_def)
    moreover have "holds_all y t (contents p a)" by (rule holds_all_grown [OF u(3) t(2)])
    ultimately have "step_ok y f sc W (s_store t) (p, a) e"
      using e(1,3) acc(1) unfolding step_ok_def holds_all_def by auto
    then show ?thesis using t u(2) new Some a e(1) grown_trans by auto
  qed (use Suc.prems in simp)
qed simp

lemma replay_run_again:
  assumes "agent_run y f sc W ag n hist (s, d) = (hist @ new, t, d')"
    and "list_all2 (step_ok y f sc W st) new es'" "replay_at y L st es p" "L = es @ es' @ rest" "digests_ok (s_py y)"
  shows "\<exists>t'. replay_run y f ag n hist p = (hist @ new, t') \<and> replay_at y L st (es @ es') t'"
  using assms
proof (induction n arbitrary: hist s d es es' new p)
  case (Suc n)
  show ?case
  proof (cases "ag hist")
    case (Some op)
    obtain a u d'' where a: "agent_step y f sc (W (length hist)) op (s, d) = (a, u, d'')" by (metis prod_cases3)
    have run: "agent_run y f sc W ag n (hist @ [(op, a)]) (u, d'') = (hist @ new, t, d')"
      using Suc.prems(1) Some a by simp
    then obtain new' where new: "new = (op, a) # new'" using agent_run_extends [OF run] by auto
    then obtain e es'' where e: "es' = e # es''" "step_ok y f sc W st (op, a) e" "list_all2 (step_ok y f sc W st) new' es''"
      using Suc.prems(2) by (auto simp: list_all2_Cons1)
    have L: "L = es @ e # (es'' @ rest)" "L = (es @ [e]) @ es'' @ rest" using Suc.prems(4) e(1) by simp_all
    obtain i s' where so: "op_event y f sc (W i) s' op a = [e]" "paths_ok f s' op" "\<not> enabled (s_redactor s')" "accepted op a"
      "\<forall>d \<in> set (contents op a). blobs st (sha256 (s_py y) d) = Some d"
      using e(2) unfolding step_ok_def fst_conv snd_conv by blast
    obtain q where q: "replay_step y f op p = (a, q)" "replay_at y L st (es @ [e]) q"
      using replay_next [OF Suc.prems(3) so(1) L(1) so(4,2,3) Suc.prems(5) so(5)] by blast
    have "agent_run y f sc W ag n (hist @ [(op, a)]) (u, d'') = ((hist @ [(op, a)]) @ new', t, d')"
      using run new by simp
    from Suc.IH [OF this e(3) q(2) L(2) Suc.prems(5)] show ?thesis using Some q(1) new e(1) by simp
  qed (use Suc.prems in auto)
qed auto

section \<open>Loading a log\<close>

fun tool_keys :: "any_event list \<Rightarrow> (string \<times> string) list" where
  "tool_keys [] = []"
| "tool_keys (e # es) = (case e of ToolCall c \<Rightarrow> [(tc_parent c, tc_tool c)] | _ \<Rightarrow> []) @ tool_keys es"

lemma list_at_push: "list_at_key (push k v m) k' = list_at_key m k' @ (if k = k' then [v] else [])"
  by (simp add: list_at_key_def push_def)

lemma index_event_env:
  "list_at_key (s_env (index_event e s)) k = list_at_key (s_env s) k @ env_vals [e] k"
  by (cases e) (simp_all add: index_event_def list_at_push)

lemma index_event_fs:
  "list_at_key (s_fs (index_event e s)) k = list_at_key (s_fs s) k @ fs_vals [e] k"
  by (cases e) (simp_all add: index_event_def list_at_push)

lemma index_log_env: "list_at_key (s_env (fold index_event es s)) k = list_at_key (s_env s) k @ env_vals es k"
  by (induction es arbitrary: s) (simp_all add: index_event_env)

lemma index_log_fs: "list_at_key (s_fs (fold index_event es s)) k = list_at_key (s_fs s) k @ fs_vals es k"
  by (induction es arbitrary: s) (simp_all add: index_event_fs)

text \<open>What indexing leaves alone.\<close>

definition indexed :: "session \<Rightarrow> session \<Rightarrow> bool" where
  "indexed s t \<longleftrightarrow> s_store t = s_store s \<and> s_redactor t = s_redactor s \<and> s_config t = s_config s
     \<and> can_replay t = can_replay s \<and> s_can_record t = s_can_record s \<and> s_intervention t = s_intervention s
     \<and> s_env_cursor t = s_env_cursor s \<and> s_fs_cursor t = s_fs_cursor s \<and> s_report t = s_report s"

lemma index_frame: "indexed s (fold index_event es s)"
proof (induction es arbitrary: s)
  case (Cons e es)
  have "indexed s (index_event e s)" by (cases e) (simp_all add: indexed_def index_event_def)
  then show ?case using Cons.IH [of "index_event e s"] by (simp add: indexed_def)
qed (simp add: indexed_def)

lemma index_tools_other:
  "k \<notin> set (tool_keys es) \<Longrightarrow> s_tool_calls (fold index_event es s) k = s_tool_calls s k"
proof (induction es arbitrary: s)
  case (Cons e es)
  then show ?case by (cases e) (auto simp: index_event_def)
qed simp

lemma index_tools:
  "distinct (tool_keys es) \<Longrightarrow> ToolCall c \<in> set es \<Longrightarrow>
   s_tool_calls (fold index_event es s) (tc_parent c, tc_tool c) = Some c"
proof (induction es arbitrary: s)
  case (Cons e es)
  show ?case
  proof (cases "e = ToolCall c")
    case True
    then have "(tc_parent c, tc_tool c) \<notin> set (tool_keys es)" using Cons.prems(1) by simp
    from index_tools_other [OF this, of "index_event e s"]
    have "s_tool_calls (fold index_event es (index_event e s)) (tc_parent c, tc_tool c)
        = s_tool_calls (index_event e s) (tc_parent c, tc_tool c)" .
    also have "\<dots> = Some c" using True by (simp add: index_event_def)
    finally show ?thesis by simp
  next
    case False
    then show ?thesis using Cons by simp
  qed
qed simp

lemma new_session_replays:
  assumes "new_session y mach st header mode config (Some stored) None = Inr p" "\<not> can_record_in mode True" "\<not> redact config"
    and "distinct (tool_keys (map event stored))"
  shows "replay_at y (map event stored) st [] p"
proof -
  let ?L = "map event stored"
  define s where "s = \<lparr>s_run_id = hdr_run_id header, s_name = hdr_name header, s_mode = mode, s_config = config,
               s_header = header, s_intervention = None, s_blocks_dropped = 0, s_turn = 0, s_store = st,
               s_redactor = new_redactor config mach, current_call_id = None, s_models = [],
               can_replay = True, s_can_record = can_record_in mode True,
               s_report = new_report (can_record_in mode True), s_tool_calls = Map.empty,
               s_env = Map.empty, s_env_cursor = Map.empty, s_fs = Map.empty, s_fs_cursor = Map.empty,
               s_outcome = None, s_matcher = None\<rparr>"
  have s: "s_store s = st" "s_config s = config" "can_replay s" "\<not> s_can_record s" "s_intervention s = None"
    "s_env s = Map.empty" "s_fs s = Map.empty" "s_env_cursor s = Map.empty" "s_fs_cursor s = Map.empty"
    "\<not> enabled (s_redactor s)"
    using assms(2,3) by (simp_all add: s_def new_redactor_def Let_def)
  define t where "t = fold index_event ?L s"
  have fr: "indexed s t" unfolding t_def by (rule index_frame)
  have "\<exists>u. index_log y stored s = Inr u \<and> (if forked u then u\<lparr>s_outcome := None\<rparr> else u) = p"
    using assms(1) by (auto simp: new_session_def bind_res_eq_Inr Let_def s_def split: if_splits)
  then obtain u m where u: "new_matcher (s_py y) (model_calls_of ?L) config (s_report t) = Inr m"
    "u = t\<lparr>s_matcher := Some m, s_report := m_report m\<rparr>" "(if forked u then u\<lparr>s_outcome := None\<rparr> else u) = p"
    using fr s by (auto simp: index_log_def bind_res_eq_Inr indexed_def t_def [symmetric])
  have "\<not> forked u" using u(2) fr s by (simp add: forked_def indexed_def)
  then have p: "p = t\<lparr>s_matcher := Some m, s_report := m_report m\<rparr>" using u(2,3) by simp
  have m: "matcher_at y ?L [] m"
    using u(1) accepts_own_request [OF u(1)] unfolding matcher_at_def
    by (auto simp: new_matcher_def bind_res_eq_Inr)
  have env: "list_at_key (s_env p) k = env_vals ?L k" "cursor_at (s_env_cursor p) k = 0" for k
    using fr s index_log_env [of ?L s k] by (simp_all add: p indexed_def cursor_at_def list_at_key_def [of Map.empty] t_def)
  have fs: "list_at_key (s_fs p) k = fs_vals ?L k" "cursor_at (s_fs_cursor p) k = 0" for k
    using fr s index_log_fs [of ?L s k] by (simp_all add: p indexed_def cursor_at_def list_at_key_def [of Map.empty] t_def)
  have tools: "s_tool_calls p (tc_parent e, tc_tool e) = Some e" if "ToolCall e \<in> set ?L" for e
    using index_tools [OF assms(4) that, of s] by (simp add: p t_def)
  have "pure_replay p" "\<not> enabled (s_redactor p)" "s_store p = st"
    using fr s by (simp_all add: p pure_replay_def forked_def indexed_def)
  then show ?thesis unfolding replay_at_def using env fs tools m by (simp add: p)
qed

section \<open>Recording, then replaying\<close>

lemma start_recording:
  assumes "store_ok st0" "blobs_ok (s_py y) st0" "create_run st0 header = (Inr (), st)"
    and "new_session y mach st header mode config None None = Inr s" "can_record_in mode False"
    and "\<not> redact config" "before_record config = None"
  shows "rec_ok y (hdr_run_id header) (X \<union> ran (blobs st0)) [] s"
proof -
  have st: "run_row st0 (hdr_run_id header) = None" "st = st0\<lparr>run_rows := run_rows st0 @ [header]\<rparr>"
    using assms(3) by (auto simp: create_run_def split: if_splits)
  have rows: "rows_of st (hdr_run_id header) = []"
    using rows_need_run [OF assms(1) st(1)] by (simp add: st(2) rows_of_def)
  have row: "run_row st (hdr_run_id header) \<noteq> None" using st by (auto simp: run_row_def find_None_iff)
  show ?thesis using assms(2,4-7) rows row st(2)
    by (auto simp: new_session_def Let_def forked_def rec_ok_def plain_session_def new_redactor_def recording_def
        numbered_def log_of_def blobs_ok_def ran_def split: if_splits)
qed

lemma recorded_log:
  assumes "rec_ok y rid X es t" "list_all (loads_back (s_py y) (s_codec y)) es"
  shows "events (s_codec y) (s_store t) rid = Inr (map (\<lambda>(i, e). \<lparr>se_run_id = rid, seq = int i, event = e\<rparr>) (enumerate 0 es))"
  using events_of_log [of "s_store t" rid "s_py y" "s_codec y" es] assms by (simp add: rec_ok_def recording_def)

text \<open>
  C14. A recording that does not redact and has no \<open>before_record\<close> hook logs exactly what happened: when every step of
  the agent's run was accepted (the world raised nothing, but for a file that is not there), no two contents share a hash and the
  events load back from their columns, the events of the run read back from the store are, in order
  and numbered from 0, the events of the steps of the agent's run, one for each step. With redaction on, as it is by
  default, the log holds scrubbed events on purpose.
\<close>

theorem recording_logs_run:
  assumes "store_ok st0" "blobs_ok (s_py y) st0" "create_run st0 header = (Inr (), st)"
    and "new_session y mach st header mode config None None = Inr s" "can_record_in mode False"
    and "\<not> redact config" "before_record config = None"
    and "agent_run y f sc W ag n [] (s, d) = (hist, t, d')" "list_all (\<lambda>(p, a). accepted p a) hist"
    and "inj_on (sha256 (s_py y)) (all_contents hist \<union> ran (blobs st0))"
    and "list_all (loads_back (s_py y) (s_codec y)) (run_log y f sc W ag n [] (s, d))"
  shows "events (s_codec y) (s_store t) (hdr_run_id header)
      = Inr (map (\<lambda>(i, e). \<lparr>se_run_id = hdr_run_id header, seq = int i, event = e\<rparr>)
          (enumerate 0 (run_log y f sc W ag n [] (s, d))))
    \<and> length (run_log y f sc W ag n [] (s, d)) = length hist"
proof -
  note r = start_recording [OF assms(1-7), of "all_contents hist"]
  have "agent_run y f sc W ag n [] (s, d) = ([] @ hist, t, d')" using assms(8) by simp
  note run = record_run [OF r this assms(9,10) Un_upper1]
  then show ?thesis using recorded_log [of y "hdr_run_id header"] assms(11) list_all2_lengthD by fastforce
qed

text \<open>
  C2. Replay is faithful: an agent recorded in a fresh run, without redaction (which is on by default) and without a
  \<open>before_record\<close> hook, whose steps were all accepted (the world raised nothing, but for a file that is not there) and whose tool calls have ids of their own
  within their model call, and that is run again on its own log by a session that cannot record and does not redact, gets
  exactly the answers it got then, whatever the clocks, ids, models, tools, environment and disk are now, and every recorded model call is
  used. Tools answer from their arguments and the world, without using the session; paths resolve as they did when
  the run was recorded; no two contents share a hash, and the events load back from their columns.
\<close>

theorem replay_faithful:
  assumes "store_ok st0" "blobs_ok (s_py y) st0" "create_run st0 header = (Inr (), st)"
    and "new_session y mach st header mode config None None = Inr s" "can_record_in mode False"
    and "\<not> redact config" "before_record config = None"
    and "agent_run y f sc W ag n [] (s, d) = (hist, t, d')" "list_all (\<lambda>(p, a). accepted p a) hist"
    and "inj_on (sha256 (s_py y)) (all_contents hist \<union> ran (blobs st0))"
    and "list_all (loads_back (s_py y) (s_codec y)) (run_log y f sc W ag n [] (s, d))"
    and "distinct (tool_keys (run_log y f sc W ag n [] (s, d)))"
    and "events (s_codec y) (s_store t) (hdr_run_id header) = Inr stored"
    and "new_session y mach' (s_store t) header mode' config' (Some stored) None = Inr p"
    and "\<not> can_record_in mode' True" "\<not> redact config'"
  shows "\<exists>q m. agent_run y f sc' W' ag n [] (p, e) = (hist, q, e) \<and> s_store q = s_store t
    \<and> s_matcher q = Some m \<and> list_all (\<lambda>used. used) (consumed m)"
proof -
  let ?L = "run_log y f sc W ag n [] (s, d)"
  note r = start_recording [OF assms(1-7), of "all_contents hist"]
  have run: "agent_run y f sc W ag n [] (s, d) = ([] @ hist, t, d')" using assms(8) by simp
  note rec = record_run [OF r run assms(9,10) Un_upper1]
  have "stored = map (\<lambda>(i, e). \<lparr>se_run_id = hdr_run_id header, seq = int i, event = e\<rparr>) (enumerate 0 ?L)"
    using recorded_log [OF _ assms(11), of _ _ t] conjunct1 [OF rec] assms(13) by fastforce
  then have L: "map event stored = ?L" by (auto simp: enumerate_eq_zip comp_def case_prod_beta)
  have p: "replay_at y ?L (s_store t) [] p"
    using new_session_replays [OF assms(14-16)] assms(12) L by simp
  have dg: "digests_ok (s_py y)" using rec by (simp add: rec_ok_def)
  obtain q where q: "replay_run y f ag n [] p = (hist, q)" "replay_at y ?L (s_store t) ?L q"
    using replay_run_again [OF run _ p _ dg, of ?L "[]"] rec by auto
  obtain m where m: "s_matcher q = Some m" "matcher_at y ?L ?L m" using q(2) by (auto simp: replay_at_def)
  have "list_all (\<lambda>used. used) (consumed m)" using m(2) by (simp add: matcher_at_def list_all_length)
  moreover have "pure_replay p" using replay_atD(5) [OF p] .
  ultimately show ?thesis using agent_run_replays [of p y f sc' W' ag n "[]" e] q m replay_atD(7) [OF q(2)] by simp
qed

section \<open>An example\<close>

definition ex_request :: tool_call_request where
  "ex_request = \<lparr>req_id = ''t1'', req_name = ''ls'', req_args = [], req_batch_index = 0\<rparr>"

definition ex_agent :: agent where
  "ex_agent hist = (if length hist = 0 then Some (CallTool ''c1'' ex_request)
     else if length hist = 1 then Some (ReadFile ''a'') else None)"

definition ex_world :: "string \<Rightarrow> nat \<Rightarrow> unit world" where
  "ex_world data n = \<lparr>w_now = 1, w_dur = 2, w_clock = real, w_id = ''c'', w_produce = (\<lambda>_ _. Inl KeyError),
     w_create = None, w_stream = None,
     w_dispatch = Some (\<lambda>_ _. Inr \<lparr>out_content = data, out_status = StOk, out_error = None\<rparr>),
     w_disk = \<lparr>file_at = (\<lambda>_ _. Some data), exists_at = (\<lambda>_ _. True), entries_at = (\<lambda>_ _. None),
               write_at = (\<lambda>d _ _. Inr d)\<rparr>\<rparr>"

definition ex_zeros :: blob_ref where
  "ex_zeros = \<lparr>digest = replicate 64 (CHR ''0''), blob_size = 2\<rparr>"

definition ex_logged :: "any_event list" where
  "ex_logged =
     [ToolCall \<lparr>tc_parent = ''c1'', tc_tool = ''t1'', tc_meta = meta_at 1 (Some 2) None, tc_batch_index = 0,
        tc_name = ''ls'', tc_args = [], tc_args_hash = replicate 64 (CHR ''0''), tc_result = ex_zeros,
        tc_status = StOk, tc_error = None\<rparr>,
      FsRead \<lparr>fr_parent = None, fr_tool = None, fr_meta = meta_at 1 None None, fr_path = ''a'', fr_kind = KContent,
        fr_exists = True, fr_content = Some ex_zeros\<rparr>]"

definition ex_sys :: sys where
  "ex_sys = \<lparr>s_py = const_env,
     s_codec = \<lparr>meta_text = (\<lambda>m. if duration_ms m = None then ''r'' else ''t''),
                load_event = (\<lambda>_ mt. Inr (ex_logged ! (if mt = ''t'' then 0 else 1)))\<rparr>,
     s_validate = (\<lambda>_. Inl ValueError)\<rparr>"

definition ex_fs :: fs where
  "ex_fs = \<lparr>fs_root = None, realpath = id\<rparr>"

definition ex_config :: config where
  "ex_config = default_config\<lparr>redact := False\<rparr>"

definition ex_machine :: machine where
  "ex_machine = \<lparr>environ = [], home = []\<rparr>"

definition ex_start :: session where
  "ex_start = projr (new_session ex_sys ex_machine (snd (create_run empty_store (ex_header ''a'' 1)))
     (ex_header ''a'' 1) MOnce ex_config None None)"

lemma ex_new_session:
  "new_session ex_sys ex_machine (snd (create_run empty_store (ex_header ''a'' 1))) (ex_header ''a'' 1) MOnce ex_config None None
     = Inr ex_start"
  by (simp add: ex_start_def new_session_def Let_def)

lemma ex_hist: "fst (agent_run ex_sys ex_fs (None, None) (ex_world ''ok'') ex_agent 2 [] (ex_start, ()))
   = [(CallTool ''c1'' ex_request, Inr (ATool \<lparr>out_content = ''ok'', out_status = StOk, out_error = None\<rparr>)),
      (ReadFile ''a'', Inr (ABytes ''ok''))]"
  by code_simp

lemma ex_log: "run_log ex_sys ex_fs (None, None) (ex_world ''ok'') ex_agent 2 [] (ex_start, ()) = ex_logged"
  by code_simp

lemma ex_loads: "list_all (loads_back (s_py ex_sys) (s_codec ex_sys)) ex_logged"
  by (simp add: loads_back_def ex_sys_def ex_logged_def meta_at_def)

lemma ex_accepted: "list_all (\<lambda>(p, a). accepted p a)
   [(CallTool ''c1'' ex_request, Inr (ATool \<lparr>out_content = ''ok'', out_status = StOk, out_error = None\<rparr>)),
    (ReadFile ''a'', Inr (ABytes ''ok''))]"
  by code_simp

lemma ex_store_empty: "store_ok empty_store" "blobs_ok const_env empty_store" "ran (blobs empty_store) = {}"
  by (simp_all add: store_ok_def blobs_ok_def empty_store_def digests_ok_def const_env_def is_digest_def hex_char_def list_all_iff)

lemma ex_hashing: "inj_on (sha256 (s_py ex_sys)) (all_contents
   [(CallTool ''c1'' ex_request, Inr (ATool \<lparr>out_content = ''ok'', out_status = StOk, out_error = None\<rparr>)),
    (ReadFile ''a'', Inr (ABytes ''ok''))] \<union> ran (blobs empty_store))"
  by (simp add: all_contents_def ex_store_empty(3))

lemma ex_created: "create_run empty_store (ex_header ''a'' 1) = (Inr (), snd (create_run empty_store (ex_header ''a'' 1)))"
  by (simp add: create_run_def run_row_def empty_store_def)

lemma ex_modes: "can_record_in MOnce False" "\<not> can_record_in MNone True" "\<not> redact ex_config" "before_record ex_config = None"
  by (simp_all add: can_record_in_def ex_config_def default_config_def)

lemma ex_setup: "store_ok empty_store" "blobs_ok (s_py ex_sys) empty_store"
  using ex_store_empty by (simp_all add: ex_sys_def)

theorem recording_logs_run_witness:
  "case agent_run ex_sys ex_fs (None, None) (ex_world ''ok'') ex_agent 2 [] (ex_start, ()) of (hist, t, d) \<Rightarrow>
     length hist = 2 \<and> events (s_codec ex_sys) (s_store t) ''a''
       = Inr (map (\<lambda>(i, e). \<lparr>se_run_id = ''a'', seq = int i, event = e\<rparr>) (enumerate 0 ex_logged))"
proof -
  obtain hist t d where run: "agent_run ex_sys ex_fs (None, None) (ex_world ''ok'') ex_agent 2 [] (ex_start, ()) = (hist, t, d)"
    by (metis prod_cases3)
  have hist: "hist = [(CallTool ''c1'' ex_request, Inr (ATool \<lparr>out_content = ''ok'', out_status = StOk, out_error = None\<rparr>)),
      (ReadFile ''a'', Inr (ABytes ''ok''))]" using ex_hist run by simp
  have id: "hdr_run_id (ex_header ''a'' 1) = ''a''" by (simp add: ex_header_def)
  show ?thesis
    using recording_logs_run [OF ex_setup ex_created ex_new_session ex_modes(1,3,4) run [unfolded hist] ex_accepted
        ex_hashing, unfolded ex_log, OF ex_loads, unfolded id]
    unfolding run hist by simp
qed

theorem replay_faithful_witness:
  "case agent_run ex_sys ex_fs (None, None) (ex_world ''ok'') ex_agent 2 [] (ex_start, ()) of (hist, t, d) \<Rightarrow>
     length hist = 2
     \<and> (\<exists>stored p q. events (s_codec ex_sys) (s_store t) ''a'' = Inr stored
        \<and> new_session ex_sys ex_machine (s_store t) (ex_header ''a'' 1) MNone ex_config (Some stored) None = Inr p
        \<and> agent_run ex_sys ex_fs (None, None) (ex_world ''other'') ex_agent 2 [] (p, ()) = (hist, q, ()))"
proof -
  obtain hist t d where run: "agent_run ex_sys ex_fs (None, None) (ex_world ''ok'') ex_agent 2 [] (ex_start, ()) = (hist, t, d)"
    by (metis prod_cases3)
  have hist: "hist = [(CallTool ''c1'' ex_request, Inr (ATool \<lparr>out_content = ''ok'', out_status = StOk, out_error = None\<rparr>)),
      (ReadFile ''a'', Inr (ABytes ''ok''))]" using ex_hist run by simp
  have id: "hdr_run_id (ex_header ''a'' 1) = ''a''" by (simp add: ex_header_def)
  note start = start_recording [OF ex_setup ex_created ex_new_session ex_modes(1,3,4)]
  have "agent_run ex_sys ex_fs (None, None) (ex_world ''ok'') ex_agent 2 [] (ex_start, ()) = ([] @ hist, t, d)"
    using run by simp
  from record_run [OF start this [unfolded hist] ex_accepted ex_hashing Un_upper1]
  have "rec_ok ex_sys ''a'' (all_contents hist \<union> ran (blobs empty_store)) ex_logged t" by (simp add: ex_log id hist)
  from recorded_log [OF this ex_loads] obtain stored where stored: "events (s_codec ex_sys) (s_store t) ''a'' = Inr stored"
    "stored = map (\<lambda>(i, e). \<lparr>se_run_id = ''a'', seq = int i, event = e\<rparr>) (enumerate 0 ex_logged)" by blast
  obtain p where p: "new_session ex_sys ex_machine (s_store t) (ex_header ''a'' 1) MNone ex_config (Some stored) None = Inr p"
    using PREDICATES_def [of "s_py ex_sys"]
    by (auto simp: new_session_def index_log_def new_matcher_def Let_def bind_res_def ex_config_def default_config_def
        DEFAULT_MATCH_ON_def index_frame [unfolded indexed_def] split: sum.splits)
  have keys: "distinct (tool_keys ex_logged)" by (simp add: ex_logged_def)
  show ?thesis
    using replay_faithful [OF ex_setup ex_created ex_new_session ex_modes(1,3,4) run [unfolded hist] ex_accepted
        ex_hashing, unfolded ex_log, OF ex_loads keys, unfolded id, OF stored(1) p ex_modes(2,3),
        of "(None, None)" "ex_world ''other''" "()"] stored(1) p
    unfolding run hist by auto
qed

definition ex_replay :: session where
  "ex_replay = projr (new_session ex_sys ex_machine empty_store (ex_header ''a'' 1) MNone ex_config
     (Some (map (\<lambda>e. \<lparr>se_run_id = ''a'', seq = 0, event = e\<rparr>) ex_logged)) None)"

lemma ex_replay_pure: "pure_replay ex_replay"
proof -
  let ?stored = "map (\<lambda>e. \<lparr>se_run_id = ''a'', seq = 0, event = e\<rparr>) ex_logged"
  obtain p where p: "new_session ex_sys ex_machine empty_store (ex_header ''a'' 1) MNone ex_config (Some ?stored) None = Inr p"
    using PREDICATES_def [of "s_py ex_sys"]
    by (auto simp: new_session_def index_log_def new_matcher_def Let_def bind_res_def ex_config_def default_config_def
        DEFAULT_MATCH_ON_def index_frame [unfolded indexed_def] split: sum.splits)
  have "distinct (tool_keys (map event ?stored))" by (simp add: ex_logged_def)
  from new_session_replays [OF p ex_modes(2,3) this]
  show ?thesis using p by (simp add: ex_replay_def replay_at_def)
qed

theorem replay_hermetic_witness:
  "case agent_run ex_sys ex_fs (None, None) (ex_world ''ok'') ex_agent 2 [] (ex_replay, ()) of (hist, t, d) \<Rightarrow>
     s_store t = s_store ex_replay
     \<and> agent_run ex_sys ex_fs (None, None) (ex_world ''other'') ex_agent 2 [] (ex_replay, ()) = (hist, t, ())"
  using replay_hermetic [OF ex_replay_pure, where y = ex_sys and f = ex_fs and sc = "(None, None)" and W = "ex_world ''ok''"
      and ag = ex_agent and n = 2 and d = "()" and W' = "ex_world ''other''" and e = "()"]
  by (auto split: prod.splits)

end
