(* ===== verification/Runs.thy ===== *)
theory Runs
  imports Replay
begin

text \<open>
  What holds of sessions in every mode (\<open>src/tracewake/session.py\<close>): a session that cannot record leaves
  the log alone, a streamed call is recorded once however its handle is used, and an intervention changes
  exactly the turns it was planned for.
\<close>

section \<open>Sessions that cannot record\<close>

definition keeps_log :: "session \<Rightarrow> session \<Rightarrow> bool" where
  "keeps_log s t \<longleftrightarrow> s_can_record t = s_can_record s \<and> s_run_id t = s_run_id s \<and> run_rows (s_store t) = run_rows (s_store s)
     \<and> (\<exists>own. event_rows (s_store t) = event_rows (s_store s) @ own \<and> (\<forall>e\<in>set own. er_run_id e = s_run_id s)
          \<and> (\<not> s_can_record s \<longrightarrow> own = []))"

interpretation log_kept: preorder_on_states keeps_log
proof
  show "keeps_log s s" for s by (simp add: keeps_log_def)
  show "keeps_log s t \<Longrightarrow> keeps_log t u \<Longrightarrow> keeps_log s u" for s t u
    by (auto simp: keeps_log_def)
qed

lemma same_log:
  "s_can_record t = s_can_record s \<Longrightarrow> s_run_id t = s_run_id s \<Longrightarrow> run_rows (s_store t) = run_rows (s_store s)
    \<Longrightarrow> event_rows (s_store t) = event_rows (s_store s) \<Longrightarrow> keeps_log s t"
  by (simp add: keeps_log_def)

lemma keepsI: "(\<And>s. keeps_log s (snd (m s))) \<Longrightarrow> keeps keeps_log m"
  by (simp add: keeps_def)

lemma keepsD: "keeps keeps_log m \<Longrightarrow> keeps_log s (snd (m s))"
  by (simp add: keeps_def)

lemma put_keeps: "keeps keeps_log (put_blob_op y data)"
  by (rule keepsI) (auto simp: keeps_log_def put_blob_op_def put_blob_def Let_def split: sum.splits)

lemma append_keeps: "keeps keeps_log (append_op y e)"
  by (rule keepsI) (auto simp: keeps_log_def append_op_def append_event_def insert_event_def event_row_of_def Let_def
      split: sum.splits option.splits prod.splits if_splits)

lemma modify_keeps:
  "(\<And>s. s_store (g s) = s_store s \<and> s_can_record (g s) = s_can_record s \<and> s_run_id (g s) = s_run_id s) \<Longrightarrow> keeps keeps_log (modify_op g)"
  by (simp add: keeps_def keeps_log_def)

text \<open>The state an operation is given may decide what it does next.\<close>

lemma state_keeps: "(\<And>u. keeps keeps_log (g u)) \<Longrightarrow> keeps keeps_log (\<lambda>s. g s s)"
  by (simp add: keeps_def)

lemma prod_keeps: "(\<And>a b. keeps keeps_log (g a b)) \<Longrightarrow> keeps keeps_log (case x of (a, b) \<Rightarrow> g a b)"
  by (cases x) simp

lemma access_keeps:
  "(\<And>e. keeps keeps_log (g e)) \<Longrightarrow> (\<And>e. keeps keeps_log (h e)) \<Longrightarrow>
   keeps keeps_log (case a of RAccess e \<Rightarrow> g e | WAccess e \<Rightarrow> h e)"
  by (cases a) simp_all

lemmas op_keeps = prod_keeps access_keeps log_kept.keeps_rules put_keeps append_keeps modify_keeps

lemma after_keeps: "keeps_log s t \<Longrightarrow> keeps keeps_log m \<Longrightarrow> keeps_log s (snd (m t))"
  using log_kept.trans keepsD by blast

lemma append_state_keeps:
  assumes "\<And>x. keeps keeps_log (k x)" shows "keeps keeps_log (\<lambda>s. bind_op (append_op y (e s)) k s)"
  by (rule state_keeps) (intro op_keeps assms)

lemma turn_keeps: "keeps_log s (snd (turn_messages ms s))"
  by (auto simp: turn_messages_def keeps_log_def Let_def split: option.splits)

lemma matched_keeps: "keeps keeps_log (matched_call y mo ms tools)"
  by (rule keepsI) (auto simp: matched_call_def keeps_log_def Let_def split: option.splits sum.splits prod.splits)

lemma append_model_keeps: "keeps keeps_log (append_model_call y now cid mo params tools ms x chunks dur offsets)"
  unfolding append_model_call_def
  by (rule state_keeps, intro op_keeps) (simp add: Let_def)

lemma create_keeps: "keeps keeps_log (create y now cid dur mo ms tools params)"
proof (rule keepsI)
  fix s
  obtain ms' t where t: "turn_messages ms s = (ms', t)" by force
  have "keeps keeps_log (bind_op (matched_call y mo ms' tools) (\<lambda>hit.
          case hit of
            Some e \<Rightarrow>
              bind_op (modify_op (\<lambda>s. s\<lparr>current_call_id := Some (call_id e)\<rparr>)) (\<lambda>_.
                if mc_stream e \<noteq> None then raise_op (ReplayMiss MissRecordedStream)
                else return_op (call_id e, mc_response e))
          | None \<Rightarrow>
              (case create_fn mo of
                 None \<Rightarrow> raise_op (ReplayMiss MissBackend)
               | Some f \<Rightarrow>
                   bind_op (lift_op (f (mo_model_id mo) ms' params)) (\<lambda>response.
                   bind_op (append_model_call y now cid mo params tools ms' response None dur None) (\<lambda>cid.
                     return_op (cid, response))))))"
    by (intro op_keeps matched_keeps append_model_keeps) simp
  from after_keeps [OF _ this, of s t] show "keeps_log s (snd (create y now cid dur mo ms tools params s))"
    using t turn_keeps [of s ms] by (simp add: create_def)
qed

lemma stream_keeps: "keeps keeps_log (stream y cid mo ms tools params)"
proof (rule keepsI)
  fix s
  obtain ms' t where t: "turn_messages ms s = (ms', t)" by force
  have "keeps keeps_log (bind_op (matched_call y mo ms' tools) (\<lambda>hit.
          case hit of
            Some e \<Rightarrow>
              bind_op (modify_op (\<lambda>s. s\<lparr>current_call_id := Some (call_id e)\<rparr>)) (\<lambda>_.
                case mc_stream e of
                  None \<Rightarrow> raise_op (ReplayMiss MissRecordedPlain)
                | Some chunks \<Rightarrow>
                    return_op (new_handle (call_id e) chunks (Inr None) (Replayed (mc_response e))))
          | None \<Rightarrow>
              (case stream_fn mo of
                 None \<Rightarrow> raise_op (ReplayMiss MissBackend)
               | Some f \<Rightarrow>
                   case f (mo_model_id mo) ms' params of (chunks, fin) \<Rightarrow>
                     return_op (new_handle cid chunks fin (Recording mo params tools ms')))))"
    by (intro op_keeps matched_keeps) (simp_all add: log_kept.keeps_return split: prod.split)
  from after_keeps [OF _ this, of s t] show "keeps_log s (snd (stream y cid mo ms tools params s))"
    using t turn_keeps [of s ms] by (simp add: stream_def)
qed

lemma finalize_keeps: "keeps keeps_log (finalize y now dur h)"
  unfolding finalize_def Let_def
  by (cases "h_finalizer h") (simp_all add: op_keeps append_model_keeps)

lemma next_chunk_keeps: "keeps_log s (snd (snd (next_chunk y now dur offset h s)))"
  using keepsD [OF finalize_keeps, of s y now dur] log_kept.refl [of s]
  by (auto simp: next_chunk_def Let_def split: list.splits prod.splits sum.splits)
    (metis snd_conv)+

lemma drain_loop_keeps: "keeps_log s (snd (snd (drain_loop y now dur clock h s)))"
proof (induction "h_rest h" arbitrary: h s rule: length_induct)
  case 1
  obtain r h' t where n: "next_chunk y now dur (clock (length (h_chunks h))) h s = (r, h', t)" by (metis prod_cases3)
  have t: "keeps_log s t" using next_chunk_keeps [of s y now dur "clock (length (h_chunks h))" h] n by simp
  show ?case
  proof (cases r)
    case (Inr c)
    then have "length (h_rest h') < length (h_rest h)"
      using n by (auto simp: next_chunk_def Let_def split: list.splits if_splits sum.splits prod.splits)
    then have "keeps_log t (snd (snd (drain_loop y now dur clock h' t)))" using 1 by blast
    then show ?thesis using log_kept.trans [OF t] n Inr by (subst drain_loop.simps) simp
  next
    case (Inl e)
    then show ?thesis using t n by (subst drain_loop.simps) simp
  qed
qed

lemma drain_keeps: "keeps_log s (snd (snd (drain y now dur clock h s)))"
  using drain_loop_keeps [of s y now dur clock h] by (auto simp: drain_def split: prod.splits sum.splits)

lemma stream_and_drain_keeps: "keeps keeps_log (stream_and_drain y w mo ms tools params)"
proof -
  have "keeps keeps_log (\<lambda>s. case drain y (w_now w) (w_dur w) (w_clock w) h s of
      (Inl e, h', t) \<Rightarrow> (Inl e, t) | (Inr r, h', t) \<Rightarrow> (Inr (AStream (h_call_id h') (h_chunks h') r), t))" for h
    using drain_keeps [of _ y "w_now w" "w_dur w" "w_clock w" h]
    by (intro keepsI) (auto split: prod.split sum.split, (metis snd_conv)+)
  then show ?thesis unfolding stream_and_drain_def by (intro op_keeps stream_keeps)
qed

lemma pop_env_keeps: "keeps_log s (snd (pop_env src key s))"
  by (auto simp: pop_env_def keeps_log_def Let_def split: option.splits)

lemma env_live_keeps: "keeps keeps_log (env_live y sc now src key produce)"
  unfolding env_live_def
  by (rule keepsI) (auto intro!: keepsD [OF log_kept.keeps_bind] op_keeps simp: log_kept.refl)

lemma env_value_keeps: "keeps keeps_log (env_value y sc now src key produce)"
proof (rule keepsI)
  fix s
  obtain v t where t: "pop_env src key s = (v, t)" by force
  have k: "keeps_log s t" using pop_env_keeps [of s src key] t by simp
  show "keeps_log s (snd (env_value y sc now src key produce s))"
    using t k keepsD [OF env_live_keeps [of y sc now src key produce], of s]
      after_keeps [OF k env_live_keeps [of y sc now src key produce]]
    by (auto simp: env_value_def split: option.splits)
qed

lemma call_live_keeps:
  "(\<And>sc name args. keeps keeps_log (f sc name args)) \<Longrightarrow> keeps keeps_log (call_live y now dur f parent rq args h)"
  unfolding call_live_def by (intro op_keeps)

lemma replay_tool_keeps: "keeps keeps_log (replay_tool y e)"
  unfolding replay_tool_def by (intro op_keeps) (simp_all add: keeps_def log_kept.refl)

lemma call_tool_keeps:
  assumes "\<And>f sc name args. dsp = Some f \<Longrightarrow> keeps keeps_log (f sc name args)"
  shows "keeps keeps_log (call_tool y now dur dsp parent rq)"
proof (rule keepsI)
  fix s
  have "keeps_log s (snd (call_live y now dur f parent rq args h s))" if "dsp = Some f" for f args h
    by (rule keepsD [OF call_live_keeps]) (rule assms [OF that])
  then show "keeps_log s (snd (call_tool y now dur dsp parent rq s))"
    using keepsD [OF replay_tool_keeps, of s y] log_kept.refl [of s]
    by (auto simp: call_tool_def Let_def split: option.splits)
qed

lemma agent_call_keeps: "keeps keeps_log (call_tool y now dur (dispatch_of w) parent rq)"
  by (rule call_tool_keeps) (auto simp: dispatch_of_def log_kept.keeps_lift)

lemma replay_fs_keeps: "keeps keeps_log (replay_fs kind key)"
  by (rule keepsI) (auto simp: replay_fs_def keeps_log_def Let_def)

lemma recorded_content_keeps: "keeps keeps_log (recorded_content y a)"
  by (rule keepsI) (auto simp: recorded_content_def log_kept.refl split: fs_access.splits option.splits)

lemma check_write_keeps: "keeps keeps_log (check_write y a data)"
  by (rule keepsI) (auto simp: check_write_def log_kept.refl split: fs_access.splits)

lemma record_read_keeps: "keeps keeps_log (record_read y sc now key kind data)"
  unfolding record_read_def put_optional_def by (intro op_keeps append_state_keeps)

lemma record_write_keeps: "keeps keeps_log (record_write y sc now key data)"
  unfolding record_write_def by (intro op_keeps append_state_keeps)

lemma read_keeps: "keeps keeps_log (read_bytes y dk f sc now d path)"
proof -
  have "keeps keeps_log (\<lambda>s. bind_op (lift_op (locate f u path)) (\<lambda>(key, target).
     bind_op (replay_fs ''content'' key) (\<lambda>recorded.
       case recorded of
         Some a \<Rightarrow> recorded_content y a
       | None \<Rightarrow> bind_op (record_read y sc now key KContent (file_at dk d target)) (\<lambda>_.
             return_op (the (file_at dk d target))))) s)" for u
    by (intro op_keeps replay_fs_keeps recorded_content_keeps record_read_keeps)
  from state_keeps [OF this] show ?thesis unfolding read_bytes_def .
qed

lemma exists_keeps: "keeps keeps_log (path_exists y dk f sc now d path)"
proof -
  have live: "keeps keeps_log (\<lambda>s. bind_op (append_op y (read_event sc now s key KExists b None)) (\<lambda>_. return_op b) s)" for key b
    by (intro append_state_keeps op_keeps)
  have "keeps keeps_log (\<lambda>s. bind_op (lift_op (locate f u path)) (\<lambda>(key, target).
     bind_op (replay_fs ''exists'' key) (\<lambda>recorded.
       case recorded of
         Some (RAccess e) \<Rightarrow> return_op (fr_exists e)
       | Some (WAccess _) \<Rightarrow> raise_op (Raised ''AttributeError'')
       | None \<Rightarrow> (\<lambda>s.
           bind_op (append_op y (read_event sc now s key KExists (exists_at dk d target) None)) (\<lambda>_.
             return_op (exists_at dk d target)) s))) s)" for u
    by (intro op_keeps replay_fs_keeps live)
  from state_keeps [OF this] show ?thesis unfolding path_exists_def .
qed

lemma write_keeps: "keeps_log s (fst (snd (write_bytes y dk f sc now path data (s, d))))"
proof -
  let ?m = "bind_op (lift_op (locate f s path)) (\<lambda>(key, target).
                bind_op (replay_fs ''write'' key) (\<lambda>recorded. return_op (key, target, recorded)))"
  have "keeps keeps_log ?m" by (intro op_keeps replay_fs_keeps)
  then have m: "keeps_log s (snd (?m s))" by (rule keepsD)
  obtain r t where t: "?m s = (r, t)" by force
  then have "keeps_log s t" using m by simp
  note after = after_keeps [OF this check_write_keeps] after_keeps [OF this record_write_keeps] this
  show ?thesis
  proof (cases r)
    case (Inl e)
    then show ?thesis using t after(3) by (simp add: write_bytes_def)
  next
    case (Inr x)
    obtain key target a where x: "x = (key, target, a)" by (metis prod_cases3)
    show ?thesis using t Inr x after(1) [of y "the a" data] after(2) [of y sc now key data] after(3)
      by (cases a) (auto simp: write_bytes_def split: sum.splits prod.splits)
  qed
qed

lemma map_op_keeps: "keeps keeps_log m \<Longrightarrow> keeps keeps_log (map_op g m)"
  by (simp add: keeps_def)

lemma agent_step_keeps: "keeps_log s (fst (snd (agent_step y f sc w p (s, d))))"
proof (cases p)
  case (WriteFile path data)
  then show ?thesis using write_keeps [of s y "w_disk w" f sc "w_now w" path data d]
    by (auto split: prod.splits sum.splits)
qed (simp_all add: with_disk_def keepsD env_value_keeps create_keeps stream_and_drain_keeps
      agent_call_keeps map_op_keeps read_keeps exists_keeps)

lemma agent_run_keeps: "keeps_log s (fst (snd (agent_run y f sc W ag n hist (s, d))))"
proof (induction n arbitrary: hist s d)
  case (Suc n)
  show ?case
  proof (cases "ag hist")
    case (Some p)
    obtain a t d' where t: "agent_step y f sc (W (length hist)) p (s, d) = (a, t, d')" by (metis prod_cases3)
    have "keeps_log s t" using agent_step_keeps [of s y f sc "W (length hist)" p d] t by simp
    then show ?thesis using Suc.IH [of t "hist @ [(p, a)]" d'] Some t log_kept.trans by auto
  qed (simp add: log_kept.refl)
qed (simp add: log_kept.refl)

text \<open>
  C13. A session that cannot record never changes a log: whatever an agent asks of it, in any mode, forked or
  not, with or without a recording, no event and no run of the store is added, changed or removed.
\<close>

theorem read_only_session:
  "\<not> s_can_record s \<Longrightarrow>
   (case agent_run y f sc W ag n [] (s, d) of
      (hist, t, d') \<Rightarrow> event_rows (s_store t) = event_rows (s_store s) \<and> run_rows (s_store t) = run_rows (s_store s))"
  using agent_run_keeps [of s y f sc W ag n "[]" d] by (auto simp: keeps_log_def split: prod.splits)

theorem read_only_session_witness:
  "\<not> s_can_record ex_replay \<and>
   (case agent_run ex_sys ex_fs (None, None) (ex_world ''ok'') ex_agent 2 [] (ex_replay, ()) of
      (hist, t, d) \<Rightarrow> event_rows (s_store t) = event_rows (s_store ex_replay))"
proof -
  have "\<not> s_can_record ex_replay" using ex_replay_pure by (simp add: pure_replay_def)
  with read_only_session [OF this, of ex_sys ex_fs "(None, None)" "ex_world ''ok''" ex_agent 2 "()"]
  show ?thesis by (auto split: prod.splits)
qed

section \<open>A streamed call is recorded once\<close>

text \<open>What a caller may do with a handle: take a chunk, drain it, leave its \<open>with\<close> block with or without an exception.\<close>

inductive handle_step :: "sys \<Rightarrow> stream_handle \<times> session \<Rightarrow> stream_handle \<times> session \<Rightarrow> bool" for y where
  next_: "next_chunk y now dur offset h s = (r, h', t) \<Longrightarrow> handle_step y (h, s) (h', t)"
| drain_: "drain y now dur clock h s = (r, h', t) \<Longrightarrow> handle_step y (h, s) (h', t)"
| exit_: "exit_handle y now dur clock failing h s = (r, h', t) \<Longrightarrow> handle_step y (h, s) (h', t)"

inductive_cases handle_stepE: "handle_step y (h, s) (h', t)"

text \<open>A session that may append to its run, and whose redactor drops no event.\<close>

definition open_run :: "session \<Rightarrow> bool" where
  "open_run s \<longleftrightarrow> recording (s_store s) (s_run_id s) \<and> r_before_record (s_redactor s) = None"

definition run_size :: "session \<Rightarrow> nat" where
  "run_size s = length (rows_of (s_store s) (s_run_id s))"

text \<open>The contract of a handle that records: the run has grown by one event exactly when there is a response.\<close>

definition recorded_once :: "nat \<Rightarrow> stream_handle \<times> session \<Rightarrow> bool" where
  "recorded_once n hs \<longleftrightarrow> (\<exists>mo params tools ms. h_finalizer (fst hs) = Recording mo params tools ms)
     \<and> open_run (snd hs) \<and> run_size (snd hs) = n + (if h_response (fst hs) = None then 0 else 1)"

lemma append_size:
  assumes "open_run s" "append_op y e s = (r, t)"
  shows "open_run t \<and> run_size t = run_size s + (case r of Inr _ \<Rightarrow> 1 | Inl _ \<Rightarrow> 0)"
proof -
  have rec: "recording (s_store s) (s_run_id s)" using assms(1) by (simp add: open_run_def)
  have grown: "length (rows_of (append_to (s_py y) (s_codec y) (s_store s) (s_run_id s) e') (s_run_id s))
      = length (rows_of (s_store s) (s_run_id s)) + 1" for e'
    using arg_cong [OF runlog.log_app [OF rec, of "s_py y" "s_codec y" e'], of length] by (simp add: log_of_def)
  have still: "recording (append_to (s_py y) (s_codec y) (s_store s) (s_run_id s) e') (s_run_id s)" for e'
    by (rule runlog.open_app [OF rec rec])
  have some: "append_event (s_py y) (s_codec y) (s_store s) (s_run_id s) e'
      = (Inr (int (length (rows_of (s_store s) (s_run_id s)))), append_to (s_py y) (s_codec y) (s_store s) (s_run_id s) e')" for e'
    using append_event_rows [OF rec, of "s_py y" "s_codec y" e'] by (simp add: append_to_def)
  have hook: "redact_event (s_validate y) (s_redactor s) e \<noteq> Inr None"
    using assms(1) by (auto simp: open_run_def redact_event_def bind_res_def split: sum.splits)
  show ?thesis using assms hook still grown
    by (auto simp: append_op_def some open_run_def run_size_def split: if_splits sum.splits option.splits)
qed

lemma append_call_size:
  assumes "open_run s" "append_model_call y now cid mo params tools ms x chunks dur offsets s = (r, t)"
  shows "open_run t \<and> run_size t = run_size s + (case r of Inr _ \<Rightarrow> 1 | Inl _ \<Rightarrow> 0)"
proof (cases "redact_messages (s_redactor s) ms")
  case (Inr stored)
  let ?e = "\<lparr>mc_parent = current_call_id s, mc_tool = None, mc_meta = meta_at now (Some dur) offsets, call_id = cid,
        mc_provider = mo_provider mo, mc_model_id = mo_model_id mo, mc_model_version = mo_model_version mo,
        mc_params = params, mc_tools = tools, mc_messages = stored,
        messages_hash = hash_messages (s_py y) stored, mc_response = x, mc_stream = chunks\<rparr>"
  show ?thesis
  proof (cases "stream_reassembles (s_py y) ?e")
    case (Inr e)
    obtain q u where u: "append_op y (ModelCall e) s = (q, u)" by force
    then have a: "open_run u \<and> run_size u = run_size s + (case q of Inr _ \<Rightarrow> 1 | Inl _ \<Rightarrow> 0)"
      using append_size [OF assms(1)] by blast
    have upd: "open_run (u\<lparr>current_call_id := c\<rparr>) = open_run u" "run_size (u\<lparr>current_call_id := c\<rparr>) = run_size u"
      "open_run (u\<lparr>current_call_id := c, s_report := p\<rparr>) = open_run u"
      "run_size (u\<lparr>current_call_id := c, s_report := p\<rparr>) = run_size u" for c p
      by (simp_all add: open_run_def run_size_def)
    show ?thesis using assms(2) \<open>redact_messages _ _ = Inr stored\<close> Inr u a upd
      by (cases q) (auto simp: append_model_call_def Let_def split: if_splits)
  qed (use assms \<open>redact_messages _ _ = Inr stored\<close> in \<open>auto simp: append_model_call_def\<close>)
qed (use assms in \<open>auto simp: append_model_call_def\<close>)

lemma finalize_size:
  assumes "recorded_once n (h, s)" "h_response h = None" "finalize y now dur h s = (r, t)"
  shows "open_run t \<and> run_size t = n + (case r of Inr _ \<Rightarrow> 1 | Inl _ \<Rightarrow> 0)"
proof -
  obtain mo params tools ms where f: "h_finalizer h = Recording mo params tools ms"
    using assms(1) by (auto simp: recorded_once_def)
  define x where "x = (case h_returned h of Some r \<Rightarrow> r | None \<Rightarrow> rescued_response (s_py y) (h_chunks h))"
  obtain q u where u: "append_model_call y now (h_call_id h) mo params tools ms x (Some (h_chunks h)) dur (Some (h_offsets h)) s = (q, u)"
    by force
  have "open_run s" "run_size s = n" using assms(1,2) by (simp_all add: recorded_once_def)
  with append_call_size [OF _ u] have "open_run u \<and> run_size u = n + (case q of Inr _ \<Rightarrow> 1 | Inl _ \<Rightarrow> 0)" by simp
  then show ?thesis using assms(3) u f by (cases q) (auto simp: finalize_def x_def [symmetric] Let_def)
qed

lemma next_once:
  assumes "recorded_once n (h, s)" "next_chunk y now dur offset h s = (r, h', t)"
  shows "recorded_once n (h', t)"
proof (cases "h_response h")
  case None
  show ?thesis
  proof (cases "h_rest h")
    case (Cons c cs)
    then show ?thesis using assms None by (auto simp: next_chunk_def recorded_once_def)
  next
    case Nil
    let ?h = "case h_end h of Inr r \<Rightarrow> h\<lparr>h_returned := r\<rparr> | Inl _ \<Rightarrow> h\<lparr>h_end := Inr None\<rparr>"
    have h: "h_response ?h = None" "h_finalizer ?h = h_finalizer h" using None by (simp_all split: sum.split)
    then have once: "recorded_once n (?h, s)" using assms(1) None by (simp add: recorded_once_def)
    obtain q u where u: "finalize y now dur ?h s = (q, u)" by force
    from finalize_size [OF once h(1) u] have "open_run u \<and> run_size u = n + (case q of Inr _ \<Rightarrow> 1 | Inl _ \<Rightarrow> 0)" .
    then show ?thesis using assms None Nil u h
      by (cases q) (auto simp: next_chunk_def Let_def recorded_once_def split: sum.splits)
  qed
qed (use assms in \<open>auto simp: next_chunk_def\<close>)

lemma drain_loop_once:
  "recorded_once n (h, s) \<Longrightarrow> drain_loop y now dur clock h s = (r, h', t) \<Longrightarrow> recorded_once n (h', t)"
proof (induction "length (h_rest h)" arbitrary: h s rule: less_induct)
  case less
  obtain q g u where u: "next_chunk y now dur (clock (length (h_chunks h))) h s = (q, g, u)" by (metis prod_cases3)
  have once: "recorded_once n (g, u)" by (rule next_once [OF less.prems(1) u])
  show ?case
  proof (cases q)
    case (Inl e)
    then show ?thesis using less.prems(2) u once by (subst (asm) drain_loop.simps) auto
  next
    case (Inr c)
    then have "length (h_rest g) < length (h_rest h)"
      using u by (auto simp: next_chunk_def Let_def split: list.splits if_splits sum.splits prod.splits)
    moreover have "drain_loop y now dur clock g u = (r, h', t)"
      using less.prems(2) u Inr by (subst (asm) drain_loop.simps) simp
    ultimately show ?thesis using less.hyps once by blast
  qed
qed

lemma drain_once:
  "recorded_once n (h, s) \<Longrightarrow> drain y now dur clock h s = (r, h', t) \<Longrightarrow> recorded_once n (h', t)"
  using drain_loop_once [of n h s y now dur clock] by (auto simp: drain_def split: prod.splits sum.splits)

lemma exit_once:
  assumes "recorded_once n (h, s)" "exit_handle y now dur clock failing h s = (r, h', t)"
  shows "recorded_once n (h', t)"
proof (cases "h_response h = None \<and> failing")
  case True
  then have none: "h_response h = None" by simp
  obtain q u where u: "finalize y now dur h s = (q, u)" by force
  from finalize_size [OF assms(1) none u] show ?thesis using assms True u
    by (cases q) (auto simp: exit_handle_def recorded_once_def)
next
  case False
  then show ?thesis using assms drain_once [OF assms(1)]
    by (auto simp: exit_handle_def split: if_splits prod.splits sum.splits)
qed


definition ex_handle :: stream_handle where
  "ex_handle = new_handle ''c9'' [\<lparr>chunk_index = 0, text_delta = ''hi'', tool_call_delta = None\<rparr>] (Inr None)
     (Recording \<lparr>mo_provider = ''p'', mo_model_id = ''m'', mo_model_version = None, create_fn = None, stream_fn = None\<rparr>
        (mc_params ex_call) None [])"

lemma ex_drained:
  "(case drain ex_sys 1 2 real ex_handle ex_start of (r, h, t) \<Rightarrow> h_response h \<noteq> None \<and> h_chunks h = [\<lparr>chunk_index = 0, text_delta = ''hi'', tool_call_delta = None\<rparr>])"
  by code_simp

lemma ex_start_open: "recording (s_store ex_start) (s_run_id ex_start)" "r_before_record (s_redactor ex_start) = None" "run_size ex_start = 0"
  using start_recording [OF ex_setup ex_created ex_new_session ex_modes(1,3,4), of "{}"]
  by (simp_all add: rec_ok_def plain_session_def run_size_def log_of_def)


section \<open>Interventions\<close>

text \<open>The requests of a run made again, one turn after another.\<close>

fun turns :: "message list list \<Rightarrow> session \<Rightarrow> message list list \<times> session" where
  "turns [] s = ([], s)"
| "turns (ms # rest) s =
     (case turn_messages ms s of (kept, t) \<Rightarrow> (case turns rest t of (ks, u) \<Rightarrow> (kept # ks, u)))"

definition untagged :: "string set \<Rightarrow> message list \<Rightarrow> message list" where
  "untagged tags ms = filter (\<lambda>m. \<not> tagged tags m) ms"

definition tag_count :: "string set \<Rightarrow> message list list \<Rightarrow> int" where
  "tag_count tags mss = int (length (filter (tagged tags) (concat mss)))"

lemma turns_before:
  "s_intervention s = Some iv \<Longrightarrow> s_turn s + int (length mss) \<le> iv_from_turn iv \<Longrightarrow>
   turns mss s = (mss, s\<lparr>s_turn := s_turn s + int (length mss)\<rparr>)"
proof (induction mss arbitrary: s)
  case (Cons ms mss)
  have "turn_messages ms s = (ms, s\<lparr>s_turn := s_turn s + 1\<rparr>)"
    using Cons.prems by (simp add: turn_messages_def Let_def)
  then show ?case using Cons.IH [of "s\<lparr>s_turn := s_turn s + 1\<rparr>"] Cons.prems by (simp add: add.assoc)
qed simp

lemma turn_counts: "int (length ms) - int (length (filter (\<lambda>m. \<not> P m) ms)) = int (length (filter P ms))"
  using sum_length_filter_compl [of P ms] by simp

lemma turns_after:
  "s_intervention s = Some iv \<Longrightarrow> iv_from_turn iv \<le> s_turn s \<Longrightarrow> turns mss s = (ks, t) \<Longrightarrow>
   ks = map (untagged (iv_drop_tags iv)) mss \<and> s_blocks_dropped t = s_blocks_dropped s + tag_count (iv_drop_tags iv) mss
   \<and> (mss \<noteq> [] \<longrightarrow> blocks_dropped (s_report t) = s_blocks_dropped t)"
proof (induction mss arbitrary: s ks)
  case (Cons ms mss)
  let ?n = "s_blocks_dropped s + int (length (filter (tagged (iv_drop_tags iv)) ms))"
  let ?s = "s\<lparr>s_turn := s_turn s + 1, s_blocks_dropped := ?n, s_report := (s_report s)\<lparr>blocks_dropped := ?n\<rparr>\<rparr>"
  have "(\<lambda>m. provenance m \<notin> Some ` iv_drop_tags iv) = (\<lambda>m. \<not> tagged (iv_drop_tags iv) m)"
    by (simp add: tagged_def)
  then have t: "turn_messages ms s = (untagged (iv_drop_tags iv) ms, ?s)"
    using Cons.prems(1,2) turn_counts [of ms "tagged (iv_drop_tags iv)"]
    by (simp add: turn_messages_def Let_def untagged_def)
  obtain ks' where ks': "turns mss ?s = (ks', t)" "ks = untagged (iv_drop_tags iv) ms # ks'"
    using Cons.prems(3) t by (auto split: prod.splits)
  have "ks' = map (untagged (iv_drop_tags iv)) mss \<and> s_blocks_dropped t = ?n + tag_count (iv_drop_tags iv) mss
     \<and> (mss \<noteq> [] \<longrightarrow> blocks_dropped (s_report t) = s_blocks_dropped t)"
    using Cons.IH [OF _ _ ks'(1)] Cons.prems(1,2) by simp
  then show ?case using ks' by (cases "mss = []") (auto simp: tag_count_def)
qed (simp add: tag_count_def)

lemma turns_append:
  "turns (xs @ ys) s = (case turns xs s of (ks, t) \<Rightarrow> (case turns ys t of (ls, u) \<Rightarrow> (ks @ ls, u)))"
  by (induction xs arbitrary: s) (auto split: prod.splits)


definition ex_tagged_call :: model_call_event where
  "ex_tagged_call = ex_call\<lparr>mc_messages := [ex_message, ex_message\<lparr>provenance := Some ''hint''\<rparr>]\<rparr>"

definition ex_plan :: intervention where
  "ex_plan = \<lparr>iv_source_run_id = ''a'', iv_drop_tags = {''hint''}, iv_from_turn = 1, iv_blocks = 1\<rparr>"

definition ex_recorded :: "stored_event list" where
  "ex_recorded = [ex_stored 0 (ModelCall ex_tagged_call), ex_stored 1 (ModelCall ex_tagged_call)]"


end
