(* ===== verification/Opening.thy ===== *)
theory Opening
  imports Runs
begin

text \<open>
  Opening and closing a session, \<open>tracewake/__init__.py\<close>: which run a mode opens, what a fork inherits, and what
  the context manager leaves in the store when its block ends.

  The process the program runs in is an argument: its environment, its default configuration, whether it randomises
  hashes, its clock (read once for a new run, once for the event of a fork and once at the end), a
  fresh identifier, and the results of installing the environment patches and of
  blocking the network, which replace functions of the Python runtime. A warning of staleness has no effect on the state.
\<close>

section \<open>Opening\<close>

definition RECORD_MODES :: "(string \<times> record_mode) list" where
  "RECORD_MODES = [(''once'', MOnce), (''none'', MNone), (''new_episodes'', MNewEpisodes), (''all'', MAll)]"

definition HashSeedError :: exn where "HashSeedError = Raised ''HashSeedError''"

record process =
  pr_machine :: machine
  pr_default :: config
  pr_hash_randomized :: bool
  pr_clock :: "nat \<Rightarrow> real"
  pr_uuid :: string
  pr_patch :: "unit res"
  pr_block :: "unit res"

text \<open>The arguments of \<open>_open_session\<close>; a source store of its own is opened beside the run's, or fails to open.\<close>

record session_args =
  op_name :: string
  op_mode :: string
  op_config :: "config option"
  op_overrides :: "config_option list"
  op_command :: "string list option"
  op_task :: "string option"
  op_intervention :: "intervention option"
  op_source :: "store res option"

definition require_seed :: "process \<Rightarrow> config \<Rightarrow> unit res" where
  "require_seed p c = guard_res (\<not> require_hash_seed c \<or> \<not> pr_hash_randomized p) HashSeedError"

text \<open>\<open>replace(cfg, redact=...)\<close>.\<close>

definition with_redact :: "config \<Rightarrow> bool \<Rightarrow> config res" where
  "with_redact c b = post_init (c\<lparr>redact := b\<rparr>)"

definition fresh_header :: "process \<Rightarrow> string \<Rightarrow> string list option \<Rightarrow> config \<Rightarrow> string option \<Rightarrow> run_header" where
  "fresh_header p name cmd c task =
     \<lparr>hdr_run_id = pr_uuid p, hdr_name = name, started_at = pr_clock p 0, finished_at = None, hdr_status = Running,
      schema_version = EVENT_SCHEMA_VERSION, hdr_models = [], command = cmd, redacted = redact c, task_id = task\<rparr>"

definition scrub_command :: "process \<Rightarrow> config \<Rightarrow> string list option \<Rightarrow> string list option" where
  "scrub_command p c cmd = map_option (map (redact_text (new_redactor c (pr_machine p)))) cmd"

definition insert_run :: "store \<Rightarrow> run_header \<Rightarrow> 'a \<Rightarrow> 'a res \<times> store" where
  "insert_run st h x = (case create_run st h of (Inl e, st') \<Rightarrow> (Inl e, st') | (Inr _, st') \<Rightarrow> (Inr x, st'))"

definition read_source :: "sys \<Rightarrow> store \<Rightarrow> string \<Rightarrow> store res option \<Rightarrow> (run_header \<times> stored_event list) res" where
  "read_source y st rid source =
     bind_res (case source of None \<Rightarrow> Inr st | Some r \<Rightarrow> r) (\<lambda>other.
     bind_res (resolve other rid) (\<lambda>h.
     bind_res (events (s_codec y) other (hdr_run_id h)) (\<lambda>es. Inr (h, es))))"

text \<open>The run a session opens, the configuration it is opened with and the log it replays.\<close>

type_synonym chosen = "run_header \<times> config \<times> stored_event list option"

definition fork_run :: "sys \<Rightarrow> process \<Rightarrow> session_args \<Rightarrow> config \<Rightarrow> intervention \<Rightarrow> store \<Rightarrow> chosen res \<times> store" where
  "fork_run y p o' c iv st =
     (case bind_res (read_source y st (iv_source_run_id iv) (op_source o')) (\<lambda>(source, es).
             bind_res (with_redact c (redacted source)) (\<lambda>c. Inr (source, es, c))) of
        Inl e \<Rightarrow> (Inl e, st)
      | Inr (source, es, c) \<Rightarrow>
          let h = fresh_header p (if op_name o' \<noteq> [] then op_name o' else hdr_name source @ ''+'' @ iv_label iv)
                    (case op_command o' of None \<Rightarrow> command source | Some parts \<Rightarrow> scrub_command p c (Some parts)) c
                    (case op_task o' of None \<Rightarrow> task_id source | Some t \<Rightarrow> if t = [] then task_id source else Some t)
          in insert_run st h (h, c, Some es))"

definition find_or_start :: "sys \<Rightarrow> process \<Rightarrow> session_args \<Rightarrow> record_mode \<Rightarrow> config \<Rightarrow> store \<Rightarrow> chosen res \<times> store" where
  "find_or_start y p o' mode c st =
     (case bind_res (if mode = MAll then Inr None else find_run st (op_name o')) (\<lambda>found.
             if found = None \<and> mode = MNone then bind_res (resolve st (op_name o')) (\<lambda>_. Inr None) else Inr found) of
        Inl e \<Rightarrow> (Inl e, st)
      | Inr None \<Rightarrow>
          let h = fresh_header p (op_name o') (scrub_command p c (op_command o')) c (op_task o')
          in insert_run st h (h, c, None)
      | Inr (Some h) \<Rightarrow>
          (bind_res (with_redact c (redacted h)) (\<lambda>c.
           bind_res (events (s_codec y) st (hdr_run_id h)) (\<lambda>es. Inr (h, c, Some es))), st))"

definition announce :: "sys \<Rightarrow> process \<Rightarrow> intervention option \<Rightarrow> unit op" where
  "announce y p iv =
     (case iv of
        None \<Rightarrow> return_op ()
      | Some iv \<Rightarrow>
          bind_op (append_op y (InterventionMark \<lparr>ie_parent = None, ie_tool = None, ie_meta = meta_at (pr_clock p 1) None None,
              ie_source_run_id = iv_source_run_id iv, ie_drop_tags = sorted_list_of_set (iv_drop_tags iv),
              ie_from_turn = iv_from_turn iv\<rparr>)) (\<lambda>_. return_op ()))"

definition prepare :: "sys \<Rightarrow> process \<Rightarrow> intervention option \<Rightarrow> config \<Rightarrow> unit op" where
  "prepare y p iv c =
     bind_op (announce y p iv) (\<lambda>_ s.
       lift_op (bind_res (if can_replay s then require_seed p c else Inr ()) (\<lambda>_.
         bind_res (if patch_environment c then pr_patch p else Inr ()) (\<lambda>_.
           if s_can_record s then Inr () else pr_block p))) s)"

definition open_session :: "sys \<Rightarrow> process \<Rightarrow> session_args \<Rightarrow> store \<Rightarrow> session res \<times> store" where
  "open_session y p o' st =
     (case map_of RECORD_MODES (op_mode o') of
        None \<Rightarrow> (Inl ValueError, st)
      | Some mode \<Rightarrow>
          (case resolve_config (pr_default p) (op_config o') (op_overrides o') of
             Inl e \<Rightarrow> (Inl e, st)
           | Inr c \<Rightarrow>
               (case (case op_intervention o' of
                        Some iv \<Rightarrow> fork_run y p o' c iv st
                      | None \<Rightarrow> find_or_start y p o' mode c st) of
                  (Inl e, st') \<Rightarrow> (Inl e, st')
                | (Inr (h, c, past), st') \<Rightarrow>
                    (case new_session y (pr_machine p) st' h mode c past (op_intervention o') of
                       Inl e \<Rightarrow> (Inl e, st')
                     | Inr s \<Rightarrow>
                         (case prepare y p (op_intervention o') c s of
                            (Inl e, t) \<Rightarrow> (Inl e, s_store t)
                          | (Inr _, t) \<Rightarrow> (Inr t, s_store t))))))"

section \<open>Closing\<close>

definition close_session :: "process \<Rightarrow> status \<Rightarrow> session \<Rightarrow> store" where
  "close_session p st s =
     (if s_can_record s then finish_run (s_store s) (s_run_id s) (Ended st) (pr_clock p 2) (Some (models_of s))
      else s_store s)"

text \<open>The \<open>with\<close> statement: the block runs in the session, and what it raised decides the status.\<close>

definition in_session :: "sys \<Rightarrow> process \<Rightarrow> session_args \<Rightarrow> 'a op \<Rightarrow> store \<Rightarrow> 'a res \<times> store" where
  "in_session y p o' body st =
     (case open_session y p o' st of
        (Inl e, st') \<Rightarrow> (Inl e, st')
      | (Inr s, _) \<Rightarrow> (case body s of (r, t) \<Rightarrow> (r, close_session p (if isl r then StError else StOk) t)))"

section \<open>Entry points\<close>

text \<open>
  \<open>_entered\<close>: under the command line's own session a script joins that one, which it neither opens nor closes. The
  session, if there is one, is left as the block left it.
\<close>

definition entered :: "sys \<Rightarrow> process \<Rightarrow> session option \<Rightarrow> session_args \<Rightarrow> 'a op \<Rightarrow> store \<Rightarrow> 'a res \<times> session option \<times> store" where
  "entered y p ambient o' body st =
     (case ambient of
        Some s \<Rightarrow> (case body s of (r, t) \<Rightarrow> (r, Some t, st))
      | None \<Rightarrow> (case in_session y p o' body st of (r, st') \<Rightarrow> (r, None, st')))"

definition args_of :: "string \<Rightarrow> string \<Rightarrow> config option \<Rightarrow> string option \<Rightarrow> config_option list \<Rightarrow> session_args" where
  "args_of name mode config task overrides =
     \<lparr>op_name = name, op_mode = mode, op_config = config, op_overrides = overrides, op_command = None, op_task = task,
      op_intervention = None, op_source = None\<rparr>"

text \<open>The three entry points differ in the mode they default to and in whether they take a task.\<close>

definition record_in where
  "record_in y p ambient name mode config task overrides body st =
     entered y p ambient (args_of name (case mode of None \<Rightarrow> ''all'' | Some m \<Rightarrow> m) config task overrides) body st"

definition replay_in where
  "replay_in y p ambient name mode config overrides body st =
     entered y p ambient (args_of name (case mode of None \<Rightarrow> ''none'' | Some m \<Rightarrow> m) config None overrides) body st"

definition session_in where
  "session_in y p ambient name mode config task overrides body st =
     entered y p ambient (args_of name (case mode of None \<Rightarrow> ''once'' | Some m \<Rightarrow> m) config task overrides) body st"

definition plan_in :: "sys \<Rightarrow> store \<Rightarrow> string \<Rightarrow> string set \<Rightarrow> int \<Rightarrow> intervention res" where
  "plan_in y st name tags turn =
     bind_res (resolve st name) (\<lambda>source.
     bind_res (events (s_codec y) st (hdr_run_id source)) (\<lambda>es.
       plan_intervention source es tags turn))"

definition intervene_in ::
  "sys \<Rightarrow> process \<Rightarrow> string \<Rightarrow> string set \<Rightarrow> int \<Rightarrow> string \<Rightarrow> store res option \<Rightarrow> config option \<Rightarrow> config_option list
    \<Rightarrow> 'a op \<Rightarrow> store \<Rightarrow> 'a res \<times> store" where
  "intervene_in y p run tags turn name source config overrides body st =
     (case bind_res (case source of None \<Rightarrow> Inr st | Some r \<Rightarrow> r) (\<lambda>other. plan_in y other run tags turn) of
        Inl e \<Rightarrow> (Inl e, st)
      | Inr iv \<Rightarrow>
          in_session y p
            \<lparr>op_name = name, op_mode = ''new_episodes'', op_config = config, op_overrides = overrides, op_command = None,
             op_task = None, op_intervention = Some iv, op_source = source\<rparr> body st)"

section \<open>What opening leaves\<close>

lemma index_names:
  "s_run_id (fold index_event es s) = s_run_id s \<and> s_header (fold index_event es s) = s_header s"
proof (induction es arbitrary: s)
  case (Cons e es)
  then show ?case by (cases e) (simp_all add: index_event_def)
qed simp

lemma new_session_fields:
  assumes "new_session y mach st h mode c past iv = Inr s"
  shows "s_run_id s = hdr_run_id h \<and> s_header s = h \<and> s_config s = c \<and> s_store s = st \<and> can_replay s = (past \<noteq> None)
    \<and> s_can_record s = can_record_in mode (past \<noteq> None)"
proof (cases past)
  case None
  then show ?thesis using assms by (auto simp: new_session_def Let_def split: if_splits)
next
  case (Some es)
  define s0 where "s0 = \<lparr>s_run_id = hdr_run_id h, s_name = hdr_name h, s_mode = mode, s_config = c,
               s_header = h, s_intervention = iv, s_blocks_dropped = 0, s_turn = 0, s_store = st,
               s_redactor = new_redactor c mach, current_call_id = None, s_models = [],
               can_replay = True, s_can_record = can_record_in mode True,
               s_report = new_report (can_record_in mode True), s_tool_calls = Map.empty,
               s_env = Map.empty, s_env_cursor = Map.empty, s_fs = Map.empty, s_fs_cursor = Map.empty,
               s_outcome = None, s_matcher = None\<rparr>"
  obtain m where s: "s = (fold index_event (map event es) s0)\<lparr>s_matcher := Some m, s_report := m_report m\<rparr>
      \<or> s = (fold index_event (map event es) s0)\<lparr>s_matcher := Some m, s_report := m_report m, s_outcome := None\<rparr>"
    using assms Some by (auto simp: new_session_def Let_def index_log_def bind_res_eq_Inr s0_def split: if_splits)
  have "s_run_id s0 = hdr_run_id h \<and> s_header s0 = h \<and> s_config s0 = c \<and> s_store s0 = st \<and> can_replay s0
    \<and> s_can_record s0 = can_record_in mode True" by (simp add: s0_def)
  then show ?thesis
    using s Some index_names [of "map event es" s0] index_frame [of s0 "map event es"] by (auto simp: indexed_def)
qed

lemma announce_keeps: "keeps keeps_log (announce y p iv)"
  unfolding announce_def by (cases iv) (simp_all add: log_kept.keeps_return log_kept.keeps_bind append_keeps)

lemma prepare_keeps: "keeps keeps_log (prepare y p iv c)"
  unfolding prepare_def by (rule log_kept.keeps_bind [OF announce_keeps]) (simp add: keeps_def log_kept.refl)

lemma prepare_records: "prepare y p (Some iv) c s = (Inr (), t) \<Longrightarrow> s_can_record s"
  by (auto simp: prepare_def announce_def bind_op_def append_op_def split: if_splits)

lemma prepared:
  assumes "prepare y p iv c s = (r, t)"
  shows "keeps_log s t \<and> s_header t = s_header s \<and> s_config t = s_config s \<and> can_replay t = can_replay s
    \<and> (iv = None \<longrightarrow> t = s)"
proof -
  have "keeps_log s t" using assms prepare_keeps [of y p iv c] by (metis keepsD snd_conv)
  moreover have "s_header t = s_header s \<and> s_config t = s_config s \<and> can_replay t = can_replay s \<and> (iv = None \<longrightarrow> t = s)"
    using assms
    by (cases iv) (auto simp: prepare_def announce_def bind_op_def append_op_def return_op_def lift_op_def
        split: prod.splits sum.splits option.splits if_splits)
  ultimately show ?thesis by blast
qed

text \<open>A session starts a run of its own or opens one that is there.\<close>

definition started :: "process \<Rightarrow> store \<Rightarrow> store \<Rightarrow> run_header \<Rightarrow> bool" where
  "started p st st' h \<longleftrightarrow>
     st' = st\<lparr>run_rows := run_rows st @ [h]\<rparr> \<and> hdr_run_id h = pr_uuid p \<and> run_row st (pr_uuid p) = None
     \<and> hdr_status h = Running \<and> started_at h = pr_clock p 0"

lemma read_header_eq: "read_header r = Inr h \<Longrightarrow> h = r"
  by (simp add: read_header_def split: if_splits)

lemma find_run_member:
  assumes "find_run st x = Inr (Some h)"
  shows "h \<in> set (run_rows st)"
proof (cases "run_row st x")
  case (Some r)
  then show ?thesis using assms run_row_Some [OF Some] by (auto simp: find_run_def bind_res_eq_Inr dest: read_header_eq)
next
  case none: None
  show ?thesis
  proof (cases "newest (filter (\<lambda>h. hdr_name h = x) (run_rows st))")
    case (Some r)
    then show ?thesis
      using assms none newest_Some [OF Some] by (auto simp: find_run_def latest_named_def bind_res_eq_Inr dest: read_header_eq)
  next
    case None
    then obtain r where "filter (\<lambda>h. id_prefix x (hdr_run_id h)) (run_rows st) = [r]" "read_header r = Inr h"
      using assms none by (auto simp: find_run_def latest_named_def bind_res_eq_Inr split: list.splits)
    then have "r \<in> set (filter (\<lambda>h. id_prefix x (hdr_run_id h)) (run_rows st))" by simp
    then show ?thesis using read_header_eq [OF \<open>read_header r = Inr h\<close>] by simp
  qed
qed

lemma insert_run_eq:
  "insert_run st h x = (Inr y', st') \<longleftrightarrow> x = y' \<and> run_row st (hdr_run_id h) = None \<and> st' = st\<lparr>run_rows := run_rows st @ [h]\<rparr>"
  by (auto simp: insert_run_def create_run_def)

lemma fork_run_eq:
  assumes "fork_run y p a c iv st = (Inr (h, c', past), st')"
  shows "started p st st' h \<and> past \<noteq> None \<and> redacted h = redact c'
    \<and> (\<exists>source es. read_source y st (iv_source_run_id iv) (op_source a) = Inr (source, es) \<and> past = Some es
      \<and> with_redact c (redacted source) = Inr c')"
proof -
  obtain source es where src: "read_source y st (iv_source_run_id iv) (op_source a) = Inr (source, es)"
    "with_redact c (redacted source) = Inr c'" "past = Some es"
    using assms by (auto simp: fork_run_def Let_def insert_run_eq bind_res_eq_Inr split: sum.splits)
  then show ?thesis
    using assms by (auto simp: fork_run_def Let_def insert_run_eq started_def fresh_header_def)
qed

lemma find_or_start_eq:
  assumes "find_or_start y p a mode c st = (Inr (h, c', past), st')"
  shows "case past of
      Some es \<Rightarrow> st' = st \<and> mode \<noteq> MAll \<and> find_run st (op_name a) = Inr (Some h) \<and> redact c' = redacted h
        \<and> events (s_codec y) st (hdr_run_id h) = Inr es
    | None \<Rightarrow> started p st st' h \<and> mode \<noteq> MNone \<and> hdr_name h = op_name a \<and> c' = c \<and> redacted h = redact c
        \<and> (mode = MAll \<or> find_run st (op_name a) = Inr None)"
proof -
  have fresh: "mode \<noteq> MNone \<and> (mode = MAll \<or> find_run st (op_name a) = Inr None)"
    if "bind_res (if mode = MAll then Inr None else find_run st (op_name a)) (\<lambda>found.
      if found = None \<and> mode = MNone then bind_res (resolve st (op_name a)) (\<lambda>_. Inr None) else Inr found) = Inr None"
    using that by (auto simp: bind_res_eq_Inr resolve_def split: if_splits)
  show ?thesis
    using assms fresh
    by (auto simp: find_or_start_def Let_def insert_run_eq bind_res_eq_Inr with_redact_def post_init_def started_def fresh_header_def
        split: sum.splits if_splits option.splits)
qed

text \<open>What a session that opened has behind it: the run it started, or the one it found.\<close>

definition opened :: "process \<Rightarrow> session_args \<Rightarrow> store \<Rightarrow> record_mode \<Rightarrow> run_header \<Rightarrow> session \<Rightarrow> bool" where
  "opened p a st mode h s \<longleftrightarrow>
     map_of RECORD_MODES (op_mode a) = Some mode \<and> s_header s = h \<and> s_run_id s = hdr_run_id h
     \<and> s_can_record s = can_record_in mode (can_replay s)
     \<and> (run_rows (s_store s) = run_rows st @ [h] \<and> run_row st (pr_uuid p) = None \<and> hdr_run_id h = pr_uuid p \<and> hdr_status h = Running
          \<and> s_can_record s
        \<or> run_rows (s_store s) = run_rows st \<and> find_run st (op_name a) = Inr (Some h) \<and> mode \<noteq> MAll \<and> can_replay s
          \<and> op_intervention a = None)"

definition own_rows :: "string \<Rightarrow> store \<Rightarrow> store \<Rightarrow> event_row list \<Rightarrow> bool" where
  "own_rows rid st st' own \<longleftrightarrow> event_rows st' = event_rows st @ own \<and> (\<forall>e\<in>set own. er_run_id e = rid)"

lemma started_rows:
  "started p st st' h \<Longrightarrow> run_rows st' = run_rows st @ [h] \<and> event_rows st' = event_rows st \<and> run_row st (pr_uuid p) = None
    \<and> hdr_run_id h = pr_uuid p \<and> hdr_status h = Running"
  by (simp add: started_def)

lemma chosen_run:
  assumes "(case op_intervention a of Some iv \<Rightarrow> fork_run y p a c iv st | None \<Rightarrow> find_or_start y p a mode c st) = (Inr (h, c', past), st')"
  shows "started p st st' h \<and> (op_intervention a = None \<longrightarrow> past = None \<and> mode \<noteq> MNone)
    \<or> st' = st \<and> find_run st (op_name a) = Inr (Some h) \<and> mode \<noteq> MAll \<and> past \<noteq> None \<and> op_intervention a = None"
proof (cases "op_intervention a")
  case (Some iv)
  then show ?thesis using assms fork_run_eq [of y p a c iv st h c' past st'] by auto
next
  case None
  then show ?thesis using assms find_or_start_eq [of y p a mode c st h c' past st'] by (auto split: option.splits)
qed

lemma open_session_opened:
  assumes "open_session y p a st = (Inr s, st')"
  shows "s_store s = st' \<and> (\<exists>mode h own. opened p a st mode h s \<and> own_rows (s_run_id s) st st' own \<and> (\<not> s_can_record s \<longrightarrow> own = []))"
proof -
  obtain mode c h c' past st1 s1 where m: "map_of RECORD_MODES (op_mode a) = Some mode"
    and chosen: "(case op_intervention a of Some iv \<Rightarrow> fork_run y p a c iv st | None \<Rightarrow> find_or_start y p a mode c st) = (Inr (h, c', past), st1)"
    and new: "new_session y (pr_machine p) st1 h mode c' past (op_intervention a) = Inr s1"
    and prep: "prepare y p (op_intervention a) c' s1 = (Inr (), s)" and st': "st' = s_store s"
    using assms unfolding open_session_def by (auto split: option.splits sum.splits prod.splits)
  note s1 = new_session_fields [OF new]
  note s = prepared [OF prep]
  obtain own where own: "event_rows (s_store s) = event_rows st1 @ own" "\<forall>e\<in>set own. er_run_id e = s_run_id s1"
    "\<not> s_can_record s1 \<longrightarrow> own = []" "run_rows (s_store s) = run_rows st1" "s_run_id s = s_run_id s1" "s_can_record s = s_can_record s1"
    using s s1 by (auto simp: keeps_log_def)
  have "event_rows st1 = event_rows st" using chosen_run [OF chosen] by (auto dest: started_rows)
  then have "own_rows (s_run_id s) st st' own" using own st' by (simp add: own_rows_def)
  moreover have "s_can_record s" if "op_intervention a = None \<longrightarrow> past = None \<and> mode \<noteq> MNone"
    using that prep prepare_records [of y p _ c' s1 s] s1 own(6) by (cases "op_intervention a"; cases mode) (auto simp: can_record_in_def)
  moreover have "opened p a st mode h s"
  proof -
    have fields: "s_header s = h" "s_run_id s = hdr_run_id h" "can_replay s = (past \<noteq> None)" "s_can_record s = can_record_in mode (past \<noteq> None)"
      using s s1 own(5,6) by simp_all
    from chosen_run [OF chosen] show ?thesis
    proof
      assume "started p st st1 h \<and> (op_intervention a = None \<longrightarrow> past = None \<and> mode \<noteq> MNone)"
      then show ?thesis using started_rows [of p st st1 h] calculation(2) m own(4) fields by (simp add: opened_def)
    next
      assume "st1 = st \<and> find_run st (op_name a) = Inr (Some h) \<and> mode \<noteq> MAll \<and> past \<noteq> None \<and> op_intervention a = None"
      then show ?thesis using m own(4) fields by (simp add: opened_def)
    qed
  qed
  moreover have "\<not> s_can_record s \<longrightarrow> own = []" using own(3,6) by simp
  ultimately show ?thesis using st' by blast
qed

section \<open>What closing leaves\<close>

lemma finish_run_row:
  "run_row (finish_run st rid x f (Some ms)) r = (if r = rid
     then map_option (\<lambda>h. h\<lparr>hdr_status := x, finished_at := Some f, hdr_models := ms\<rparr>) (run_row st r) else run_row st r)"
proof -
  have "List.find (\<lambda>h. hdr_run_id h = r) (map (\<lambda>h. if hdr_run_id h = rid then h\<lparr>hdr_status := x, finished_at := Some f, hdr_models := ms\<rparr> else h) hs)
    = (if r = rid then map_option (\<lambda>h. h\<lparr>hdr_status := x, finished_at := Some f, hdr_models := ms\<rparr>) (List.find (\<lambda>h. hdr_run_id h = r) hs)
       else List.find (\<lambda>h. hdr_run_id h = r) hs)" for hs
    by (induction hs) auto
  from this [of "run_rows st"] show ?thesis by (simp add: run_row_def finish_run_def cong: if_cong)
qed

lemma run_row_snoc: "run_rows st' = run_rows st @ [h] \<Longrightarrow> run_row st (hdr_run_id h) = None \<Longrightarrow>
   run_row st' r = (if r = hdr_run_id h then Some h else run_row st r)"
proof -
  have "List.find P (xs @ [x]) = (case List.find P xs of None \<Rightarrow> if P x then Some x else None | Some y \<Rightarrow> Some y)"
    for P :: "run_header \<Rightarrow> bool" and xs x by (induction xs) auto
  then show "run_rows st' = run_rows st @ [h] \<Longrightarrow> run_row st (hdr_run_id h) = None \<Longrightarrow> ?thesis"
    by (auto simp: run_row_def split: option.split)
qed

text \<open>An agent as the block of a \<open>with\<close> statement: it runs to its end, or to a bound, and may raise in the end.\<close>

definition agent_body ::
  "sys \<Rightarrow> fs \<Rightarrow> scope \<Rightarrow> (nat \<Rightarrow> 'd world) \<Rightarrow> agent \<Rightarrow> nat \<Rightarrow> (history \<Rightarrow> 'a res) \<Rightarrow> 'd \<Rightarrow> 'a op" where
  "agent_body y f sc W ag n verdict d s = (case agent_run y f sc W ag n [] (s, d) of (hist, t, _) \<Rightarrow> (verdict hist, t))"

lemma body_keeps: "agent_body y f sc W ag n verdict d s = (r, t) \<Longrightarrow> keeps_log s t"
  using agent_run_keeps [of s y f sc W ag n "[]" d] by (auto simp: agent_body_def split: prod.splits)

text \<open>
  C15. A session touches its own run only: whatever an agent does in the block of a \<open>with\<close> statement and however
  the block ends, no row and no event of another run changes; a recording session leaves its run finished, with the status of
  the way the block ended and the time it ended, and a session that cannot record leaves the runs and the log as they were.
\<close>

theorem session_settled:
  assumes "open_session y p a st = (Inr s, st1)" "in_session y p a (agent_body y f sc W ag n verdict d) st = (r, st')"
  shows "(\<forall>rid. rid \<noteq> s_run_id s \<longrightarrow> rows_of st' rid = rows_of st rid \<and> run_row st' rid = run_row st rid)
    \<and> (if s_can_record s
       then \<exists>h. run_row st' (s_run_id s) = Some h \<and> hdr_status h = Ended (if isl r then StError else StOk) \<and> finished_at h = Some (pr_clock p 2)
       else run_rows st' = run_rows st \<and> event_rows st' = event_rows st)"
proof -
  obtain t where body: "agent_body y f sc W ag n verdict d s = (r, t)" and st': "st' = close_session p (if isl r then StError else StOk) t"
    using assms by (auto simp: in_session_def split: prod.splits)
  note keep = body_keeps [OF body, unfolded keeps_log_def]
  obtain mode h own where o': "s_store s = st1" "opened p a st mode h s" "own_rows (s_run_id s) st st1 own" "\<not> s_can_record s \<longrightarrow> own = []"
    using open_session_opened [OF assms(1)] by blast
  obtain own' where ev: "event_rows (s_store t) = event_rows st @ own @ own'" "\<forall>e\<in>set (own @ own'). er_run_id e = s_run_id s"
      "\<not> s_can_record s \<longrightarrow> own @ own' = []"
    using keep o' by (auto simp: own_rows_def)
  have st'_events: "event_rows st' = event_rows (s_store t)" by (simp add: st' close_session_def finish_run_def)
  have rows: "rows_of st' rid = rows_of st rid" if "rid \<noteq> s_run_id s" for rid
    using ev(1,2) that unfolding rows_of_def st'_events by (auto simp: filter_empty_conv)
  have run: "run_row (s_store t) rid = (if rid = s_run_id s then Some h' else run_row st rid)"
    if "run_row (s_store t) (s_run_id s) = Some h'" for rid h'
  proof -
    have "run_row (s_store t) rid = run_row (s_store s) rid" for rid using keep by (simp add: run_row_def)
    then show ?thesis using that o'(2) run_row_snoc [of "s_store s" st h rid]
      by (auto simp: opened_def run_row_def)
  qed
  have there: "run_row (s_store t) (s_run_id s) \<noteq> None"
    using o'(2) keep find_run_member [of st "op_name a" h] by (auto simp: opened_def run_row_None)
  then obtain h' where h': "run_row (s_store t) (s_run_id s) = Some h'" by blast
  show ?thesis
  proof (cases "s_can_record s")
    case True
    then have "st' = finish_run (s_store t) (s_run_id s) (Ended (if isl r then StError else StOk)) (pr_clock p 2) (Some (models_of t))"
      using keep by (simp add: st' close_session_def)
    then show ?thesis using True rows run [OF h'] h' by (simp add: finish_run_row)
  next
    case False
    then have "st' = s_store t" "run_rows (s_store t) = run_rows st" using keep o'(2) by (auto simp: st' close_session_def opened_def)
    then show ?thesis using False rows ev by (simp add: run_row_def)
  qed
qed

section \<open>Recording and replaying through the entry points\<close>

lemma open_fresh:
  assumes "open_session y p (args_of name ''all'' config task opts) st0 = (Inr s, st)"
  obtains c h where "h = fresh_header p name None c task" "create_run st0 h = (Inr (), st)" "s_config s = c" "s_store s = st"
    "new_session y (pr_machine p) st h MAll c None None = Inr s"
proof -
  have all: "map_of RECORD_MODES ''all'' = Some MAll" by (simp add: RECORD_MODES_def)
  obtain c h c' past st1 s1 where chosen: "find_or_start y p (args_of name ''all'' config task opts) MAll c st0 = (Inr (h, c', past), st1)"
    and new: "new_session y (pr_machine p) st1 h MAll c' past None = Inr s1" and prep: "prepare y p None c' s1 = (Inr (), s)" "st = s_store s"
    using assms unfolding open_session_def by (auto simp: args_of_def all split: sum.splits prod.splits)
  have "h = fresh_header p name None c task" "c' = c" "past = None" "create_run st0 h = (Inr (), st1)"
    using chosen by (auto simp: find_or_start_def insert_run_def args_of_def scrub_command_def Let_def split: sum.splits prod.splits)
  moreover have "s = s1" using prepared [OF prep(1)] by simp
  moreover note new_session_fields [OF new]
  ultimately show ?thesis using that new prep(2) by simp
qed

lemma open_recorded:
  assumes "run_row st x = Some h" "schema_version h = EVENT_SCHEMA_VERSION" "events (s_codec y) st (hdr_run_id h) = Inr es"
    and "resolve_config (pr_default p) config opts = Inr c" "post_init c = Inr c"
    and "require_hash_seed c \<longrightarrow> \<not> pr_hash_randomized p" "patch_environment c \<longrightarrow> pr_patch p = Inr ()" "pr_block p = Inr ()"
  obtains s where "open_session y p (args_of x ''none'' config None opts) st = (Inr s, st)"
    "new_session y (pr_machine p) st h MNone (c\<lparr>redact := redacted h\<rparr>) (Some es) None = Inr s"
proof -
  let ?c = "c\<lparr>redact := redacted h\<rparr>"
  have none: "map_of RECORD_MODES ''none'' = Some MNone" by (simp add: RECORD_MODES_def)
  have "find_run st x = Inr (Some h)" using assms(1,2) by (simp add: find_run_def read_header_def)
  moreover have c: "with_redact c (redacted h) = Inr ?c"
    using assms(5) by (auto simp: with_redact_def post_init_def split: if_splits)
  ultimately have chosen: "find_or_start y p (args_of x ''none'' config None opts) MNone c st = (Inr (h, ?c, Some es), st)"
    using assms(3) by (simp add: find_or_start_def args_of_def)
  have "\<exists>ps. map_res (\<lambda>n. case PREDICATES (s_py y) n of Some p \<Rightarrow> Inr p | None \<Rightarrow> Inl KeyError) (match_on c) = Inr ps"
    using assms(5) by (intro map_res_total) (auto simp: post_init_def PREDICATES_def MATCHERS_def filter_empty_conv split: if_splits)
  then have "\<exists>s. new_session y (pr_machine p) st h MNone ?c (Some es) None = Inr s"
    by (auto simp: new_session_def index_log_def new_matcher_def Let_def index_frame [unfolded indexed_def])
  then obtain s where s: "new_session y (pr_machine p) st h MNone ?c (Some es) None = Inr s" ..
  have "can_replay s" "\<not> s_can_record s" "s_store s = st" using new_session_fields [OF s] by (simp_all add: can_record_in_def)
  then have "prepare y p None ?c s = (Inr (), s)"
    using assms(6-8) by (simp add: prepare_def announce_def bind_op_def return_op_def lift_op_def require_seed_def)
  then have "open_session y p (args_of x ''none'' config None opts) st = (Inr s, st)"
    using assms(4) none chosen s \<open>s_store s = st\<close> by (simp add: open_session_def args_of_def)
  with s show ?thesis by (rule that [rotated])
qed

lemma step_ok_blobs: "step_ok y f sc W st = step_ok y f sc W st'" if "blobs st = blobs st'"
  using that by (intro ext) (simp add: step_ok_def)

text \<open>
  C4. The round trip of the package. What an agent does in a \<open>with record(name)\<close> block is replayed by a
  \<open>with replay(run)\<close> block in any later process, whatever the world is then: the first block returns and leaves
  a finished run; the second opens that run by its id, gives the agent exactly the answers it got, and leaves the store as it is. This
  holds without redaction and \<open>before_record\<close> hook, for steps the world did not fail, with tool calls and contents told apart by their ids and hashes, events that load
  back, and a replaying process whose configuration is valid, whose hash seed is fixed where that is required, and whose patches can be installed.
\<close>

theorem record_then_replay:
  assumes "store_ok st0" "blobs_ok (s_py y) st0"
    and opened: "open_session y p (args_of name ''all'' config task opts) st0 = (Inr s, st)"
    and plain: "\<not> redact (s_config s)" "before_record (s_config s) = None"
    and run: "agent_run y f sc W ag n [] (s, d) = (hist, t, d')" "list_all (\<lambda>(p, a). accepted p a) hist"
      "inj_on (sha256 (s_py y)) (all_contents hist \<union> ran (blobs st0))"
    and logged: "list_all (loads_back (s_py y) (s_codec y)) (run_log y f sc W ag n [] (s, d))"
      "distinct (tool_keys (run_log y f sc W ag n [] (s, d)))"
    and config': "resolve_config (pr_default p') config' opts' = Inr c" "post_init c = Inr c"
    and process': "require_hash_seed c \<longrightarrow> \<not> pr_hash_randomized p'" "patch_environment c \<longrightarrow> pr_patch p' = Inr ()" "pr_block p' = Inr ()"
  shows "\<exists>st1. record_in y p None name None config task opts (agent_body y f sc W ag n Inr d) st0 = (Inr hist, None, st1)
    \<and> replay_in y p' None (pr_uuid p) None config' opts' (agent_body y f sc' W' ag n Inr e) st1 = (Inr hist, None, st1)"
proof -
  let ?L = "run_log y f sc W ag n [] (s, d)" and ?id = "pr_uuid p"
  obtain c0 h where h: "h = fresh_header p name None c0 task" "create_run st0 h = (Inr (), st)" "s_config s = c0" "s_store s = st"
    and new: "new_session y (pr_machine p) st h MAll c0 None None = Inr s"
    using open_fresh [OF opened] .
  have id: "hdr_run_id h = ?id" "s_run_id s = ?id" "s_can_record s"
    using new_session_fields [OF new] h(1) by (simp_all add: fresh_header_def can_record_in_def)
  note rec0 = start_recording [OF assms(1,2) h(2) new _ plain [unfolded h(3)], of "all_contents hist"]
  have rec: "rec_ok y ?id (all_contents hist \<union> ran (blobs st0)) ?L t" "list_all2 (step_ok y f sc W (s_store t)) hist ?L"
    using record_run [OF rec0 _ run(2,3) Un_upper1, of f sc W ag n "[]" d t d'] run(1) id(1) by (simp_all add: can_record_in_def)
  define fin where "fin = finish_run (s_store t) ?id (Ended StOk) (pr_clock p 2) (Some (models_of t))"
  have keep: "keeps_log s t" using agent_run_keeps [of s y f sc W ag n "[]" d] run(1) by simp
  have first: "record_in y p None name None config task opts (agent_body y f sc W ag n Inr d) st0 = (Inr hist, None, fin)"
    using opened run(1) keep id by (simp add: record_in_def entered_def in_session_def agent_body_def close_session_def keeps_log_def fin_def)
  obtain stored where stored: "events (s_codec y) (s_store t) ?id = Inr stored" "map event stored = ?L"
    using recorded_log [OF rec(1) logged(1)] by (auto simp: enumerate_eq_zip comp_def case_prod_beta)
  have same: "events (s_codec y) fin ?id = Inr stored" "blobs fin = blobs (s_store t)"
    using stored(1) by (simp_all add: fin_def finish_run_def events_def rows_of_def)
  have "run_row (s_store t) ?id = Some h"
  proof -
    have "run_row st ?id = Some h"
      using h(2) id(1) run_row_snoc [of st st0 h ?id] by (auto simp: create_run_def split: if_splits)
    then show ?thesis using keep h(4) by (simp add: keeps_log_def run_row_def)
  qed
  then obtain h' where h': "run_row fin ?id = Some h'" "hdr_run_id h' = ?id" "schema_version h' = EVENT_SCHEMA_VERSION" "\<not> redacted h'"
    using h(1,3) plain(1) id(1) by (auto simp: fin_def finish_run_row fresh_header_def)
  obtain q where q: "open_session y p' (args_of ?id ''none'' config' None opts') fin = (Inr q, fin)"
    "new_session y (pr_machine p') fin h' MNone (c\<lparr>redact := redacted h'\<rparr>) (Some stored) None = Inr q"
    using open_recorded [OF h'(1,3) _ config' process', of y stored] same(1) h'(2) by auto
  have at: "replay_at y ?L fin [] q"
    using new_session_replays [OF q(2)] h'(4) logged(2) stored(2) by (simp add: can_record_in_def)
  have "agent_run y f sc W ag n [] (s, d) = ([] @ hist, t, d')" using run(1) by simp
  moreover have "list_all2 (step_ok y f sc W fin) hist ?L" using rec(2) by (subst step_ok_blobs [OF same(2)])
  moreover have "digests_ok (s_py y)" using rec(1) by (simp add: rec_ok_def)
  ultimately obtain q' where q': "replay_run y f ag n [] q = (hist, q')" "replay_at y ?L fin ?L q'"
    using replay_run_again [OF _ _ at, of f sc W ag n "[]" s d hist t d' ?L "[]"] by auto
  have "agent_run y f sc' W' ag n [] (q, e) = (hist, q', e)"
    using agent_run_replays [of q y f sc' W' ag n "[]" e] replay_atD(5) [OF at] q'(1) by simp
  moreover have "s_store q' = fin" using replay_atD(7) [OF q'(2)] .
  moreover have "\<not> s_can_record q'" using replay_atD(5) [OF q'(2)] by (simp add: pure_replay_def)
  ultimately have "replay_in y p' None ?id None config' opts' (agent_body y f sc' W' ag n Inr e) fin = (Inr hist, None, fin)"
    using q(1) by (simp add: replay_in_def entered_def in_session_def agent_body_def close_session_def)
  with first show ?thesis by blast
qed

section \<open>Sessions that do not open\<close>

lemma refused_choice:
  "fork_run y p a c iv st = (Inl e, st') \<Longrightarrow> st' = st" "find_or_start y p a mode c st = (Inl e, st') \<Longrightarrow> st' = st"
  by (auto simp: fork_run_def find_or_start_def insert_run_def create_run_def Let_def split: sum.splits prod.splits option.splits if_splits)

text \<open>
  What a session that does not open leaves behind: either the store is as it was, or the run it had started is in the
  store as running, with no event of another run added, although the block never began. The second case is real: a fork in a process that
  randomises hashes is refused only after its run and its intervention were written.
\<close>

lemma refused_session:
  assumes "open_session y p a st = (Inl e, st')"
  shows "st' = st \<or> (\<exists>h own. run_rows st' = run_rows st @ [h] \<and> hdr_run_id h = pr_uuid p \<and> hdr_status h = Running
    \<and> own_rows (pr_uuid p) st st' own)"
proof (cases "map_of RECORD_MODES (op_mode a)")
  case (Some mode)
  show ?thesis
  proof (cases "resolve_config (pr_default p) (op_config a) (op_overrides a)")
    case (Inr c)
    obtain r st1 where chosen: "(case op_intervention a of Some iv \<Rightarrow> fork_run y p a c iv st | None \<Rightarrow> find_or_start y p a mode c st) = (r, st1)"
      by (metis surj_pair)
    show ?thesis
    proof (cases r)
      case (Inl e')
      then have "st1 = st" using chosen refused_choice by (auto split: option.splits)
      then show ?thesis using assms Some Inr chosen Inl by (auto simp: open_session_def)
    next
      case (Inr x)
      obtain h c' past where x: "x = (h, c', past)" by (metis prod_cases3)
      note run = chosen_run [OF chosen [unfolded Inr x]]
      show ?thesis
      proof (cases "new_session y (pr_machine p) st1 h mode c' past (op_intervention a)")
        case (Inl e')
        then have "st' = st1"
          using assms Some \<open>resolve_config _ _ _ = Inr c\<close> chosen Inr x by (auto simp: open_session_def)
        then show ?thesis using run by (auto dest!: started_rows simp: own_rows_def)
      next
        case (Inr s)
        obtain q t where t: "prepare y p (op_intervention a) c' s = (q, t)" by force
        then have "st' = s_store t"
          using assms Some \<open>resolve_config _ _ _ = Inr c\<close> chosen \<open>r = Inr x\<close> x Inr by (auto simp: open_session_def split: sum.splits)
        then show ?thesis
          using run prepared [OF t] new_session_fields [OF Inr]
          by (auto dest!: started_rows simp: own_rows_def keeps_log_def)
      qed
    qed
  qed (use assms Some in \<open>simp add: open_session_def\<close>)
qed (use assms in \<open>simp add: open_session_def\<close>)

text \<open>The second case for a fork in a process that randomises hashes.\<close>

lemma unseeded_fork:
  assumes "op_mode a = ''new_episodes''" "op_intervention a = Some iv" "resolve_config (pr_default p) (op_config a) (op_overrides a) = Inr c"
    and fork: "fork_run y p a c iv st = (Inr (h, c', past), st1)" "new_session y (pr_machine p) st1 h MNewEpisodes c' past (Some iv) = Inr s"
    and mark: "announce y p (Some iv) s = (Inr (), t)"
    and "require_hash_seed c'" "pr_hash_randomized p"
  shows "\<exists>st'. open_session y p a st = (Inl HashSeedError, st') \<and> run_rows st' = run_rows st @ [h] \<and> hdr_status h = Running"
proof -
  have mode: "map_of RECORD_MODES ''new_episodes'' = Some MNewEpisodes" by (simp add: RECORD_MODES_def)
  have st1: "run_rows st1 = run_rows st @ [h]" "hdr_status h = Running" "past \<noteq> None"
    using fork_run_eq [OF fork(1)] by (auto dest: started_rows)
  have keep: "keeps_log s t" using mark announce_keeps [of y p "Some iv"] by (metis keepsD snd_conv)
  have "can_replay t"
    using keep new_session_fields [OF fork(2)] st1(3) mark
    by (auto simp: announce_def bind_op_def append_op_def return_op_def split: prod.splits sum.splits option.splits if_splits)
  then have "prepare y p (Some iv) c' s = (Inl HashSeedError, t)"
    using mark assms(7,8) by (simp add: prepare_def bind_op_def lift_op_def require_seed_def)
  then have "open_session y p a st = (Inl HashSeedError, s_store t)"
    using assms(1-3) fork by (simp add: open_session_def mode)
  moreover have "run_rows (s_store t) = run_rows st @ [h]"
    using keep new_session_fields [OF fork(2)] st1(1) by (simp add: keeps_log_def)
  ultimately show ?thesis using st1(2) by blast
qed

section \<open>Examples\<close>

definition ex_process :: "string \<Rightarrow> bool \<Rightarrow> process" where
  "ex_process rid randomized = \<lparr>pr_machine = ex_machine, pr_default = ex_config, pr_hash_randomized = randomized, pr_clock = real,
     pr_uuid = rid, pr_patch = Inr (), pr_block = Inr ()\<rparr>"

definition ex_fresh_header :: run_header where
  "ex_fresh_header = fresh_header (ex_process ''a'' False) ''fix'' None ex_config None"

definition ex_fresh :: session where
  "ex_fresh = projr (new_session ex_sys ex_machine (snd (create_run empty_store ex_fresh_header)) ex_fresh_header MAll ex_config None None)"

definition ex_hist :: history where
  "ex_hist = [(CallTool ''c1'' ex_request, Inr (ATool \<lparr>out_content = ''ok'', out_status = StOk, out_error = None\<rparr>)),
      (ReadFile ''a'', Inr (ABytes ''ok''))]"

lemma ex_fresh_open:
  "open_session ex_sys (ex_process ''a'' False) (args_of ''fix'' ''all'' None None []) empty_store
     = (Inr ex_fresh, snd (create_run empty_store ex_fresh_header))"
proof -
  have created: "create_run empty_store ex_fresh_header = (Inr (), snd (create_run empty_store ex_fresh_header))"
    by (simp add: create_run_def run_row_def empty_store_def)
  have "insert_run empty_store ex_fresh_header x = (Inr x, snd (create_run empty_store ex_fresh_header))" for x :: chosen
    unfolding insert_run_def by (subst created) simp
  then have fresh: "find_or_start ex_sys (ex_process ''a'' False) (args_of ''fix'' ''all'' None None []) MAll ex_config empty_store
      = (Inr (ex_fresh_header, ex_config, None), snd (create_run empty_store ex_fresh_header))"
    by (simp add: find_or_start_def args_of_def scrub_command_def Let_def flip: ex_fresh_header_def)
  have new: "new_session ex_sys ex_machine (snd (create_run empty_store ex_fresh_header)) ex_fresh_header MAll ex_config None None = Inr ex_fresh"
    by (simp add: ex_fresh_def new_session_def Let_def)
  have keep: "\<not> can_replay ex_fresh" "s_can_record ex_fresh" "s_store ex_fresh = snd (create_run empty_store ex_fresh_header)"
    using new_session_fields [OF new] by (simp_all add: can_record_in_def)
  have "prepare ex_sys (ex_process ''a'' False) None ex_config ex_fresh = (Inr (), ex_fresh)"
    using keep by (simp add: prepare_def announce_def bind_op_def return_op_def lift_op_def ex_process_def)
  then show ?thesis
    using fresh new keep by (simp add: open_session_def args_of_def RECORD_MODES_def resolve_config_def ex_process_def)
qed

lemma ex_fresh_fields: "s_run_id ex_fresh = ''a''" "s_can_record ex_fresh" "s_config ex_fresh = ex_config"
  by (simp_all add: ex_fresh_def new_session_def Let_def ex_fresh_header_def fresh_header_def ex_process_def can_record_in_def forked_def)

lemma ex_fresh_hist: "fst (agent_run ex_sys ex_fs (None, None) (ex_world ''ok'') ex_agent 2 [] (ex_fresh, ())) = ex_hist"
  by code_simp

lemma ex_fresh_log: "run_log ex_sys ex_fs (None, None) (ex_world ''ok'') ex_agent 2 [] (ex_fresh, ()) = ex_logged"
  by code_simp

theorem session_settled_witness:
  "\<exists>st' h. in_session ex_sys (ex_process ''a'' False) (args_of ''fix'' ''all'' None None [])
        (agent_body ex_sys ex_fs (None, None) (ex_world ''ok'') ex_agent 2 (\<lambda>_. Inl ValueError :: unit res) ()) empty_store = (Inl ValueError, st')
     \<and> run_row st' ''a'' = Some h \<and> hdr_status h = Ended StError \<and> finished_at h = Some 2"
proof -
  let ?body = "agent_body ex_sys ex_fs (None, None) (ex_world ''ok'') ex_agent 2 (\<lambda>_. Inl ValueError :: unit res) ()"
  obtain t where "?body ex_fresh = (Inl ValueError, t)"
    unfolding agent_body_def by (cases "agent_run ex_sys ex_fs (None, None) (ex_world ''ok'') ex_agent 2 [] (ex_fresh, ())") simp
  then obtain st' where st': "in_session ex_sys (ex_process ''a'' False) (args_of ''fix'' ''all'' None None []) ?body empty_store = (Inl ValueError, st')"
    unfolding in_session_def ex_fresh_open by simp
  have "pr_clock (ex_process ''a'' False) 2 = 2" by (simp add: ex_process_def)
  with session_settled [OF ex_fresh_open st', unfolded ex_fresh_fields(1), THEN conjunct2, unfolded if_P [OF ex_fresh_fields(2)]] st'
  show ?thesis by (simp only: sum.disc if_True) blast
qed

theorem record_then_replay_witness:
  "\<exists>st1. record_in ex_sys (ex_process ''a'' False) None ''fix'' None None None []
        (agent_body ex_sys ex_fs (None, None) (ex_world ''ok'') ex_agent 2 Inr ()) empty_store = (Inr ex_hist, None, st1)
     \<and> replay_in ex_sys (ex_process ''b'' False) None ''a'' None None []
        (agent_body ex_sys ex_fs (None, None) (ex_world ''other'') ex_agent 2 Inr ()) st1 = (Inr ex_hist, None, st1)"
proof -
  obtain t where run: "agent_run ex_sys ex_fs (None, None) (ex_world ''ok'') ex_agent 2 [] (ex_fresh, ()) = (ex_hist, t, ())"
    using ex_fresh_hist by (metis prod.collapse old.unit.exhaust)
  have ids: "pr_uuid (ex_process ''a'' False) = ''a''" by (simp add: ex_process_def)
  have keys: "distinct (tool_keys ex_logged)" by (simp add: ex_logged_def)
  have valid: "resolve_config (pr_default (ex_process ''b'' False)) None [] = Inr ex_config" "post_init ex_config = Inr ex_config"
    by (simp_all add: resolve_config_def ex_process_def post_init_def ex_config_def default_config_def DEFAULT_MATCH_ON_def MATCHERS_def)
  have process': "require_hash_seed ex_config \<longrightarrow> \<not> pr_hash_randomized (ex_process ''b'' False)"
    "patch_environment ex_config \<longrightarrow> pr_patch (ex_process ''b'' False) = Inr ()" "pr_block (ex_process ''b'' False) = Inr ()"
    by (simp_all add: ex_process_def)
  have plain: "\<not> redact (s_config ex_fresh)" "before_record (s_config ex_fresh) = None"
    unfolding ex_fresh_fields using ex_modes by simp_all
  have log: "list_all (loads_back (s_py ex_sys) (s_codec ex_sys)) (run_log ex_sys ex_fs (None, None) (ex_world ''ok'') ex_agent 2 [] (ex_fresh, ()))"
    "distinct (tool_keys (run_log ex_sys ex_fs (None, None) (ex_world ''ok'') ex_agent 2 [] (ex_fresh, ())))"
    unfolding ex_fresh_log by (rule ex_loads, rule keys)
  show ?thesis
    using record_then_replay [OF ex_setup ex_fresh_open plain run ex_accepted [folded ex_hist_def] ex_hashing [folded ex_hist_def] log valid process',
      of "(None, None)" "ex_world ''other''" "()", unfolded ids] .
qed

end
