(* ===== verification/Cassette.thy ===== *)
theory Cassette
  imports Redaction Store
begin

text \<open>
  Cassettes (\<open>src/tracewake/cassette.py\<close>): the exported form of a run - a directory with a header line, one
  line per event and a file per blob -, its validation, the export from a store and the transactional
  import into one.

  The files are a list of relative paths and nodes in the order \<open>rglob\<close> lists them. What pydantic and
  \<open>json.loads\<close> do to a line is an argument (\<open>cassette_codec\<close>, \<open>s_validate\<close> of \<open>Session\<close>); every failed check is
  a \<open>ValueError\<close>, whose text is not modelled. Atomic renaming and staging directories are the operating
  system's.
\<close>

section \<open>Data\<close>

definition CASSETTE_FORMAT_VERSION :: int where
  "CASSETTE_FORMAT_VERSION = 1"

definition CASSETTE_FILE :: string where
  "CASSETTE_FILE = ''cassette.jsonl''"

definition BLOB_DIR :: string where
  "BLOB_DIR = ''blobs''"

record cassette_header =
  ch_format_version :: int
  ch_tracewake_version :: string
  ch_schema_version :: int
  ch_run_id :: string
  ch_name :: string
  ch_recorded_at :: real
  ch_finished_at :: "real option"
  ch_status :: run_status
  ch_models :: "model_identity list"
  ch_command :: "string list option"
  ch_redacted :: bool
  ch_task_id :: "string option"
  ch_event_count :: int
  ch_digest :: string

text \<open>\<open>model_dump_json\<close> and \<open>model_validate_json\<close> of the header, \<open>json.loads\<close>, the event adapter, the event codec.\<close>

record cassette_codec =
  dump_header :: "cassette_header \<Rightarrow> string"
  load_header :: "string \<Rightarrow> cassette_header res"
  loads_json :: "string \<Rightarrow> json res"
  validate_event :: "jobject \<Rightarrow> any_event res"
  store_codec :: event_codec

datatype node = NFile string | NDir | NLink

type_synonym tree = "(string \<times> node) list"

text \<open>A path given by the user: a directory (\<open>src_strict\<close>) or a file \<open>src_name\<close> of its parent.\<close>

record source =
  src_link :: bool
  src_strict :: bool
  src_name :: string
  src_tree :: tree

record validated =
  v_header :: cassette_header
  v_events :: "stored_event list"
  v_blobs :: "(string \<times> string) list"

section \<open>Blob references\<close>

text \<open>The blob references \<open>walk\<close> finds in an event.\<close>

fun event_refs :: "any_event \<Rightarrow> blob_ref list" where
  "event_refs (ToolCall e) = [tc_result e]"
| "event_refs (FsRead e) = (case fr_content e of None \<Rightarrow> [] | Some b \<Rightarrow> [b])"
| "event_refs (FsWrite e) = [fw_content e]"
| "event_refs (Outcome e) = (case oc_patch e of None \<Rightarrow> [] | Some b \<Rightarrow> [b])"
| "event_refs _ = []"

definition add_ref :: "blob_ref \<Rightarrow> (string \<times> int set) list \<Rightarrow> (string \<times> int set) list" where
  "add_ref b refs =
     AList.update (digest b) (insert (blob_size b) (case map_of refs (digest b) of None \<Rightarrow> {} | Some s \<Rightarrow> s)) refs"

definition blob_refs :: "stored_event list \<Rightarrow> (string \<times> int set) list" where
  "blob_refs es = fold add_ref (concat (map (\<lambda>se. event_refs (event se)) es)) []"

definition blob_digests :: "stored_event list \<Rightarrow> string set" where
  "blob_digests es = fst ` set (blob_refs es)"

section \<open>Lines\<close>

text \<open>\<open>_line\<close>: the canonical object with its \<open>meta\<close> and \<open>seq\<close>, keys sorted.\<close>

definition event_line :: "py_env \<Rightarrow> stored_event \<Rightarrow> string" where
  "event_line env se =
     canonical_json (frepr env)
       (JObj (dump_base (event se) @ dump_fields (event se)
              @ [(''meta'', dump_meta (meta_of (event se))), (''seq'', JInt (seq se))]))"

text \<open>Text files: universal newlines, and lines that keep their end.\<close>

function universal :: "string \<Rightarrow> string" where
  "universal [] = []"
| "universal (c # cs) =
     (if c = CHR 0x0D then CHR 0x0A # universal (if cs \<noteq> [] \<and> hd cs = CHR 0x0A then tl cs else cs)
      else c # universal cs)"
  by pat_completeness auto
termination
  by (relation "measure length") auto

fun split_lines :: "string \<Rightarrow> string \<Rightarrow> string list" where
  "split_lines acc [] = (if acc = [] then [] else [acc])"
| "split_lines acc (c # cs) =
     (if c = CHR 0x0A then (acc @ [c]) # split_lines [] cs else split_lines (acc @ [c]) cs)"

definition file_lines :: "string \<Rightarrow> string list res" where
  "file_lines data =
     (case decode_utf8 data of Inl _ \<Rightarrow> Inl ValueError | Inr t \<Rightarrow> Inr (split_lines [] (universal t)))"

definition blank :: "string \<Rightarrow> bool" where
  "blank line \<longleftrightarrow> list_all is_space (utf8_chars line)"

definition read_cassette_header :: "cassette_codec \<Rightarrow> node option \<Rightarrow> cassette_header res" where
  "read_cassette_header cc file =
     (case file of
        Some (NFile data) \<Rightarrow>
          bind_res (file_lines data) (\<lambda>ls.
            case ls of
              [] \<Rightarrow> Inl ValueError
            | first # _ \<Rightarrow>
                if blank first then Inl ValueError
                else (case load_header cc first of Inl _ \<Rightarrow> Inl ValueError | Inr h \<Rightarrow> Inr h))
      | _ \<Rightarrow> Inl ValueError)"

text \<open>The body of the loop of \<open>_read_events\<close>: a line as its number and event.\<close>

definition read_line :: "cassette_codec \<Rightarrow> string \<Rightarrow> (int \<times> any_event) res" where
  "read_line cc line =
     (if blank line then Inl ValueError
      else case loads_json cc line of
             Inr (JObj kvs) \<Rightarrow>
               (case map_of kvs ''seq'' of
                  Some (JInt n) \<Rightarrow>
                    (case validate_event cc (filter (\<lambda>p. fst p \<noteq> ''seq'') kvs) of
                       Inl _ \<Rightarrow> Inl ValueError | Inr e \<Rightarrow> Inr (n, e))
                | _ \<Rightarrow> Inl ValueError)
           | _ \<Rightarrow> Inl ValueError)"

fun check_seqs :: "int \<Rightarrow> (int \<times> any_event) list \<Rightarrow> unit res" where
  "check_seqs expected [] = Inr ()"
| "check_seqs expected ((actual, e) # rest) =
     (if actual \<noteq> expected then Inl ValueError else check_seqs (expected + 1) rest)"

definition read_events :: "cassette_codec \<Rightarrow> node option \<Rightarrow> cassette_header \<Rightarrow> stored_event list res" where
  "read_events cc file header =
     (case file of
        Some (NFile data) \<Rightarrow>
          bind_res (file_lines data) (\<lambda>ls.
          bind_res (map_res (read_line cc) (tl ls)) (\<lambda>parsed.
          bind_res (check_seqs 0 parsed) (\<lambda>_.
            Inr (map (\<lambda>(n, e). \<lparr>se_run_id = ch_run_id header, seq = n, event = e\<rparr>) parsed))))
      | _ \<Rightarrow> Inl ValueError)"

text \<open>\<open>_validate_derived_request_hashes\<close>.\<close>

fun hashes_ok :: "py_env \<Rightarrow> any_event \<Rightarrow> bool" where
  "hashes_ok env (ModelCall e) = (messages_hash e = hash_messages env (mc_messages e))"
| "hashes_ok env (ToolCall e) = (tc_args_hash e = hash_args env (tc_args e))"
| "hashes_ok env _ = True"

section \<open>Files\<close>

definition blob_file :: "string \<Rightarrow> string" where
  "blob_file d = BLOB_DIR @ ''/'' @ take 2 d @ ''/'' @ take 2 (drop 2 d) @ ''/'' @ d"

text \<open>The proper ancestors of a relative path.\<close>

definition parents :: "string \<Rightarrow> string list" where
  "parents p = map (\<lambda>i. take i p) (filter (\<lambda>i. p ! i = CHR ''/'') [0..<length p])"

definition expected_dirs :: "string list \<Rightarrow> string set" where
  "expected_dirs ds = (if ds = [] then {} else {BLOB_DIR}) \<union> set (concat (map (\<lambda>d. parents (blob_file d)) ds))"

definition check_entry :: "string set \<Rightarrow> string set \<Rightarrow> string \<times> node \<Rightarrow> bool" where
  "check_entry files dirs entry =
     (case entry of
        (p, NLink) \<Rightarrow> False
      | (p, NFile _) \<Rightarrow> p \<in> files
      | (p, NDir) \<Rightarrow> p \<notin> files \<and> p \<in> dirs)"

definition entries_under :: "string \<Rightarrow> tree \<Rightarrow> tree" where
  "entries_under dir t = filter (\<lambda>(p, n). starts_with (dir @ ''/'') p) t"

definition validate_entries :: "source \<Rightarrow> string \<Rightarrow> string list \<Rightarrow> unit res" where
  "validate_entries src cassette ds =
     (let files = blob_file ` set ds \<union> (if src_strict src then {cassette} else {});
          entries = (if src_strict src then src_tree src else entries_under BLOB_DIR (src_tree src))
      in if \<not> list_all (check_entry files (expected_dirs ds)) entries then Inl ValueError
         else if \<exists>d \<in> set ds. \<nexists>data. map_of (src_tree src) (blob_file d) = Some (NFile data) then Inl ValueError
         else Inr ())"

definition read_blob_file :: "py_env \<Rightarrow> tree \<Rightarrow> string \<times> int set \<Rightarrow> (string \<times> string) res" where
  "read_blob_file env t ref =
     (case ref of (d, sizes) \<Rightarrow>
        (case map_of t (blob_file d) of
           Some (NFile data) \<Rightarrow>
             if sha256_hex env data \<noteq> d then Inl ValueError
             else if sizes \<noteq> {int (length data)} then Inl ValueError
             else Inr (d, data)
         | _ \<Rightarrow> Inl ValueError))"

section \<open>Validation\<close>

definition validate_cassette :: "py_env \<Rightarrow> cassette_codec \<Rightarrow> source \<Rightarrow> validated res" where
  "validate_cassette env cc src =
     (if src_link src then Inl ValueError
      else
        let cassette = (if src_strict src then CASSETTE_FILE else src_name src);
            file = map_of (src_tree src) cassette
        in bind_res (read_cassette_header cc file) (\<lambda>header.
           bind_res (guard_res (ch_format_version header = CASSETTE_FORMAT_VERSION) ValueError) (\<lambda>_.
           bind_res (guard_res (ch_schema_version header = EVENT_SCHEMA_VERSION) ValueError) (\<lambda>_.
           bind_res (read_events cc file header) (\<lambda>es.
           bind_res (guard_res (int (length es) = ch_event_count header) ValueError) (\<lambda>_.
           bind_res (guard_res (list_all (\<lambda>se. hashes_ok env (event se)) es) ValueError) (\<lambda>_.
           bind_res (guard_res (run_digest env es = ch_digest header) ValueError) (\<lambda>_.
           bind_res (validate_entries src cassette (map fst (blob_refs es))) (\<lambda>_.
           bind_res (map_res (read_blob_file env (src_tree src)) (blob_refs es)) (\<lambda>bs.
             Inr \<lparr>v_header = header, v_events = es, v_blobs = bs\<rparr>))))))))))"

section \<open>Export\<close>

definition checked_store_blobs :: "py_env \<Rightarrow> store \<Rightarrow> stored_event list \<Rightarrow> (string \<times> string) list res" where
  "checked_store_blobs env st es =
     map_res (\<lambda>(d, sizes).
         bind_res (get_blob env st d) (\<lambda>data.
           if sha256_hex env data \<noteq> d then Inl ValueError
           else if sizes \<noteq> {int (length data)} then Inl ValueError
           else Inr (d, data)))
       (sort_key fst (blob_refs es))"

definition cassette_of :: "py_env \<Rightarrow> string \<Rightarrow> run_header \<Rightarrow> stored_event list \<Rightarrow> cassette_header" where
  "cassette_of env ver h es =
     \<lparr>ch_format_version = CASSETTE_FORMAT_VERSION, ch_tracewake_version = ver, ch_schema_version = EVENT_SCHEMA_VERSION,
      ch_run_id = hdr_run_id h, ch_name = hdr_name h, ch_recorded_at = started_at h, ch_finished_at = finished_at h,
      ch_status = hdr_status h, ch_models = hdr_models h, ch_command = command h, ch_redacted = redacted h,
      ch_task_id = task_id h, ch_event_count = int (length es), ch_digest = run_digest env es\<rparr>"

definition cassette_text :: "py_env \<Rightarrow> cassette_codec \<Rightarrow> cassette_header \<Rightarrow> stored_event list \<Rightarrow> string" where
  "cassette_text env cc h es = join_str [CHR 0x0A] (dump_header cc h # map (event_line env) es) @ [CHR 0x0A]"

text \<open>The staged directory: the cassette, the blobs, and the directories made for them.\<close>

definition staged_tree :: "string \<Rightarrow> (string \<times> string) list \<Rightarrow> tree" where
  "staged_tree content bs =
     (CASSETTE_FILE, NFile content) # map (\<lambda>(d, data). (blob_file d, NFile data)) bs
     @ map (\<lambda>p. (p, NDir)) (remdups (concat (map (\<lambda>(d, data). parents (blob_file d)) bs)))"

datatype destination = Absent | Directory tree | OtherEntry

text \<open>
  \<open>_publish_export\<close>: a new destination is renamed into place; an existing directory is exchanged with the staged
  one by the system call of the platform, when it has one and the call succeeds (result 0).
\<close>

record host =
  platform :: string
  has_renameat2 :: bool
  exchange_result :: int

definition exchange :: "host \<Rightarrow> int res" where
  "exchange h =
     (if platform h = ''darwin'' then Inr (exchange_result h)
      else if starts_with ''linux'' (platform h) then
        (if has_renameat2 h then Inr (exchange_result h) else Inl (Raised ''OSError''))
      else Inl (Raised ''OSError''))"

definition publish_export :: "host \<Rightarrow> destination \<Rightarrow> tree \<Rightarrow> unit res \<times> destination" where
  "publish_export h out staging =
     (case out of
        Absent \<Rightarrow> (Inr (), Directory staging)
      | OtherEntry \<Rightarrow> (Inl ValueError, out)
      | Directory t \<Rightarrow>
          (case exchange h of
             Inl e \<Rightarrow> (Inl e, out)
           | Inr result \<Rightarrow>
               if result \<noteq> 0 then (Inl (Raised ''OSError''), out) else (Inr (), Directory staging)))"

definition export_tree :: "py_env \<Rightarrow> cassette_codec \<Rightarrow> string \<Rightarrow> store \<Rightarrow> string \<Rightarrow> tree res" where
  "export_tree env cc ver st run_or_name =
     bind_res (resolve st run_or_name) (\<lambda>header.
     bind_res (events (store_codec cc) st (hdr_run_id header)) (\<lambda>es.
     bind_res (checked_store_blobs env st es) (\<lambda>bs.
       Inr (staged_tree (cassette_text env cc (cassette_of env ver header es) es) bs))))"

definition export_cassette ::
  "py_env \<Rightarrow> cassette_codec \<Rightarrow> string \<Rightarrow> host \<Rightarrow> store \<Rightarrow> string \<Rightarrow> destination \<Rightarrow> unit res \<times> destination" where
  "export_cassette env cc ver h st run_or_name out =
     (case export_tree env cc ver st run_or_name of
        Inl e \<Rightarrow> (Inl e, out)
      | Inr t \<Rightarrow> publish_export h out t)"

section \<open>Import\<close>

definition header_of :: "cassette_header \<Rightarrow> run_header" where
  "header_of c =
     \<lparr>hdr_run_id = ch_run_id c, hdr_name = ch_name c, started_at = ch_recorded_at c, finished_at = ch_finished_at c,
      hdr_status = ch_status c, schema_version = ch_schema_version c, hdr_models = ch_models c, command = ch_command c,
      redacted = ch_redacted c, task_id = ch_task_id c\<rparr>"

text \<open>\<open>_promote_blob\<close>: whether the blob was new.\<close>

definition promote_blob :: "py_env \<Rightarrow> store \<Rightarrow> string \<Rightarrow> string \<Rightarrow> bool res \<times> store" where
  "promote_blob env st d expected =
     (case blob_path d of
        Inl e \<Rightarrow> (Inl e, st)
      | Inr _ \<Rightarrow>
          (case blobs st d of
             Some actual \<Rightarrow>
               if sha256_hex env actual \<noteq> d \<or> length actual \<noteq> length expected then (Inl ValueError, st)
               else (Inr False, st)
           | None \<Rightarrow> (Inr True, st\<lparr>blobs := (blobs st)(d \<mapsto> expected)\<rparr>)))"

fun promote_all :: "py_env \<Rightarrow> (string \<times> string) list \<Rightarrow> string list \<Rightarrow> store \<Rightarrow> unit res \<times> string list \<times> store" where
  "promote_all env [] created st = (Inr (), created, st)"
| "promote_all env ((d, data) # bs) created st =
     (case promote_blob env st d data of
        (Inl e, st') \<Rightarrow> (Inl e, created, st')
      | (Inr new, st') \<Rightarrow> promote_all env bs (if new then created @ [d] else created) st')"

fun insert_all :: "py_env \<Rightarrow> event_codec \<Rightarrow> stored_event list \<Rightarrow> store \<Rightarrow> unit res \<times> store" where
  "insert_all env codec [] st = (Inr (), st)"
| "insert_all env codec (se # es) st =
     (case insert_import_event env codec st se of
        (Inl e, st') \<Rightarrow> (Inl e, st')
      | (Inr _, st') \<Rightarrow> insert_all env codec es st')"

text \<open>The transaction, with the blobs it has created so far.\<close>

definition import_body ::
  "py_env \<Rightarrow> cassette_codec \<Rightarrow> validated \<Rightarrow> store \<Rightarrow> unit res \<times> string list \<times> store" where
  "import_body env cc v st =
     (let header = header_of (v_header v)
      in if run_row st (hdr_run_id header) \<noteq> None then (Inl ValueError, [], st)
         else
           case promote_all env (v_blobs v) [] st of
             (Inl e, created, st1) \<Rightarrow> (Inl e, created, st1)
           | (Inr _, created, st1) \<Rightarrow>
               (case create_run st1 header of
                  (Inl e, st2) \<Rightarrow> (Inl e, created, st2)
                | (Inr _, st2) \<Rightarrow>
                    (case insert_all env (store_codec cc) (v_events v) st2 of
                       (Inl e, st3) \<Rightarrow> (Inl e, created, st3)
                     | (Inr _, st3) \<Rightarrow>
                         (case bind_res (events (store_codec cc) st3 (hdr_run_id header)) (\<lambda>stored.
                                 if run_digest env stored \<noteq> ch_digest (v_header v) then Inl ValueError
                                 else checked_store_blobs env st3 stored) of
                            Inl e \<Rightarrow> (Inl e, created, st3)
                          | Inr _ \<Rightarrow> (Inr (), created, st3)))))"

text \<open>The \<open>except\<close> clause: created blobs are unlinked, the transaction is rolled back.\<close>

definition roll_back :: "store \<Rightarrow> string list \<Rightarrow> store \<Rightarrow> store" where
  "roll_back before created st =
     st\<lparr>run_rows := run_rows before, event_rows := event_rows before, blobs := (blobs st) |` (- set created)\<rparr>"

definition import_cassette :: "py_env \<Rightarrow> cassette_codec \<Rightarrow> source \<Rightarrow> store \<Rightarrow> run_header res \<times> store" where
  "import_cassette env cc src st =
     (case validate_cassette env cc src of
        Inl e \<Rightarrow> (Inl e, st)
      | Inr v \<Rightarrow>
          (case import_body env cc v st of
             (Inl e, created, st') \<Rightarrow> (Inl e, roll_back st created st')
           | (Inr _, created, st') \<Rightarrow> (Inr (header_of (v_header v)), st')))"

section \<open>Blobs of a log\<close>

lemma map_res_projr:
  "map_res f xs = Inr ys \<longleftrightarrow> (\<forall>x \<in> set xs. \<exists>y. f x = Inr y) \<and> ys = map (\<lambda>x. projr (f x)) xs"
  by (induction xs arbitrary: ys) (auto simp: bind_res_eq_Inr)

text \<open>The blobs a log refers to, read from a store.\<close>

definition blob_at :: "py_env \<Rightarrow> store \<Rightarrow> string \<times> int set \<Rightarrow> string \<times> string" where
  "blob_at env st ref = (fst ref, projr (get_blob env st (fst ref)))"

definition blobs_fit :: "py_env \<Rightarrow> store \<Rightarrow> stored_event list \<Rightarrow> bool" where
  "blobs_fit env st es \<longleftrightarrow> (\<forall>(d, sizes) \<in> set (blob_refs es). \<exists>data. get_blob env st d = Inr data
     \<and> sha256_hex env data = d \<and> sizes = {int (length data)})"

lemma checked_store_blobs_iff:
  "checked_store_blobs env st es = Inr bs \<longleftrightarrow> blobs_fit env st es \<and> bs = map (blob_at env st) (sort_key fst (blob_refs es))"
proof -
  let ?f = "\<lambda>(d, sizes). bind_res (get_blob env st d) (\<lambda>data.
           if sha256_hex env data \<noteq> d then Inl ValueError
           else if sizes \<noteq> {int (length data)} then Inl ValueError
           else Inr (d, data))"
  have ok: "(\<forall>x \<in> set (blob_refs es). \<exists>y. ?f x = Inr y) \<longleftrightarrow> blobs_fit env st es"
    unfolding blobs_fit_def by (intro ball_cong refl) (force simp: bind_res_eq_Inr split: if_splits)
  have at: "blobs_fit env st es \<Longrightarrow> x \<in> set (blob_refs es) \<Longrightarrow> projr (?f x) = blob_at env st x" for x
    unfolding blobs_fit_def blob_at_def by (cases x) fastforce
  show ?thesis unfolding checked_store_blobs_def map_res_projr set_sort ok
    using at by (auto intro!: map_cong)
qed

section \<open>An import is all or nothing\<close>

text \<open>The store during an import: only blobs that did not exist have been added.\<close>

definition promoted :: "store \<Rightarrow> string list \<Rightarrow> store \<Rightarrow> bool" where
  "promoted st0 created st \<longleftrightarrow> (\<forall>d. blobs st d = blobs st0 d \<or> d \<in> set created)
     \<and> (\<forall>d \<in> set created. blobs st0 d = None \<and> blobs st d \<noteq> None)"

lemma promoted_blob:
  assumes "promoted st0 created st" "promote_blob env st d data = (r, st')"
  shows "promoted st0 (if r = Inr True then created @ [d] else created) st'
    \<and> run_rows st' = run_rows st \<and> event_rows st' = event_rows st"
proof -
  have "blobs st0 d = None" if "blobs st d = None" using assms(1) that unfolding promoted_def by metis
  then show ?thesis
    using assms by (auto simp: promote_blob_def promoted_def split: sum.splits option.splits if_splits)
qed

lemma promoted_all:
  "promoted st0 created st \<Longrightarrow> promote_all env bs created st = (r, created', st') \<Longrightarrow>
   promoted st0 created' st' \<and> run_rows st' = run_rows st \<and> event_rows st' = event_rows st"
proof (induction bs arbitrary: created st)
  case (Cons b bs)
  obtain d data where b: "b = (d, data)" by force
  obtain q u where u: "promote_blob env st d data = (q, u)" by force
  note step = promoted_blob [OF Cons.prems(1) u]
  show ?case
  proof (cases q)
    case (Inl e)
    then show ?thesis using step u b Cons.prems(2) by auto
  next
    case (Inr new)
    then show ?thesis using step u b Cons.prems(2) Cons.IH [of "if new then created @ [d] else created" u]
      by (cases new) auto
  qed
qed simp

lemma roll_back_promoted: "promoted st0 created st \<Longrightarrow> roll_back st0 created st = st0"
proof -
  assume p: "promoted st0 created st"
  have "(blobs st) |` (- set created) = blobs st0"
  proof
    fix d show "((blobs st) |` (- set created)) d = blobs st0 d"
      using p unfolding promoted_def by (cases "d \<in> set created") (simp, metis ComplI restrict_in)
  qed
  then show "roll_back st0 created st = st0" by (simp add: roll_back_def)
qed

lemma promoted_blobs: "blobs st' = blobs st \<Longrightarrow> promoted st0 created st \<Longrightarrow> promoted st0 created st'"
  by (simp add: promoted_def)

lemma insert_all_blobs: "insert_all env codec es st = (r, st') \<Longrightarrow> blobs st' = blobs st \<and> run_rows st' = run_rows st"
  by (induction es arbitrary: st)
    (auto simp: insert_import_event_def insert_event_def split: prod.splits sum.splits if_splits)

text \<open>The body: what it has added when it stops, and how it stops.\<close>

lemma import_body_promoted:
  assumes "import_body env cc v st = (r, created, st')" shows "promoted st created st'"
proof (cases "run_row st (hdr_run_id (header_of (v_header v))) = None")
  case True
  have start: "promoted st [] st" by (simp add: promoted_def)
  obtain q c1 st1 where p: "promote_all env (v_blobs v) [] st = (q, c1, st1)" by (metis prod_cases3)
  have st1: "promoted st c1 st1" using promoted_all [OF start p] by blast
  obtain q2 st2 where c: "create_run st1 (header_of (v_header v)) = (q2, st2)" by force
  have st2: "promoted st c1 st2" using promoted_blobs [OF _ st1, of st2] c by (auto simp: create_run_def split: if_splits)
  obtain q3 st3 where i: "insert_all env (store_codec cc) (v_events v) st2 = (q3, st3)" by force
  have st3: "promoted st c1 st3" using promoted_blobs [OF _ st2, of st3] insert_all_blobs [OF i] by blast
  show ?thesis using assms True p c i st1 st2 st3
    by (auto simp: import_body_def Let_def split: sum.splits)
qed (use assms in \<open>auto simp: import_body_def Let_def promoted_def\<close>)

lemma insert_all_rows:
  "insert_all env codec es st = (Inr u, st') \<Longrightarrow>
   event_rows st' = event_rows st @ map (\<lambda>se. event_row_of env codec (se_run_id se) (seq se) (event se)) es"
  by (induction es arbitrary: st)
    (auto simp: insert_import_event_def insert_event_def split: prod.splits sum.splits if_splits)

lemma read_events_ids: "read_events cc file h = Inr es \<Longrightarrow> se \<in> set es \<Longrightarrow> se_run_id se = ch_run_id h"
  by (auto simp: read_events_def bind_res_eq_Inr split: option.splits node.splits)

lemma validate_parts:
  "validate_cassette env cc src = Inr v \<Longrightarrow> \<exists>file. read_events cc file (v_header v) = Inr (v_events v)"
  by (auto simp: validate_cassette_def bind_res_eq_Inr Let_def split: if_splits)

text \<open>
  C8. An import is all or nothing: one that fails leaves the store exactly as it was; one that succeeds adds one
  run, which did not exist, and its events, changes no other run and no existing blob, and leaves every
  blob the run refers to readable.
\<close>

theorem import_atomic:
  assumes "import_cassette env cc src st = (r, st')"
  shows "(\<exists>e. r = Inl e \<and> st' = st)
    \<or> (\<exists>h stored. r = Inr h \<and> run_row st (hdr_run_id h) = None \<and> run_rows st' = run_rows st @ [h]
        \<and> (\<forall>rid. rid \<noteq> hdr_run_id h \<longrightarrow> rows_of st' rid = rows_of st rid) \<and> blobs st \<subseteq>\<^sub>m blobs st'
        \<and> events (store_codec cc) st' (hdr_run_id h) = Inr stored
        \<and> (\<forall>d \<in> blob_digests stored. \<exists>data. get_blob env st' d = Inr data))"
proof (cases "validate_cassette env cc src")
  case (Inl e)
  then show ?thesis using assms by (auto simp: import_cassette_def)
next
  case (Inr v)
  obtain q created u where b: "import_body env cc v st = (q, created, u)" by (metis prod_cases3)
  note pr = import_body_promoted [OF b]
  show ?thesis
  proof (cases q)
    case (Inl e)
    then show ?thesis using assms Inr b roll_back_promoted [OF pr] \<open>validate_cassette env cc src = Inr v\<close>
      by (auto simp: import_cassette_def)
  next
    case (Inr u')
    let ?h = "header_of (v_header v)"
    have res: "r = Inr ?h" "st' = u" using assms b Inr \<open>validate_cassette env cc src = Inr v\<close>
      by (simp_all add: import_cassette_def)
    obtain c1 st1 st2 bs stored where st: "run_row st (hdr_run_id ?h) = None"
      "promote_all env (v_blobs v) [] st = (Inr (), c1, st1)" "create_run st1 ?h = (Inr (), st2)"
      "insert_all env (store_codec cc) (v_events v) st2 = (Inr (), u)"
      "events (store_codec cc) u (hdr_run_id ?h) = Inr stored" "checked_store_blobs env u stored = Inr bs"
      using b Inr by (auto simp: import_body_def Let_def bind_res_eq_Inr split: if_splits prod.splits sum.splits)
    have st1: "run_rows st1 = run_rows st" "event_rows st1 = event_rows st"
      using promoted_all [OF _ st(2), of st] by (simp_all add: promoted_def)
    have st2: "run_rows st2 = run_rows st @ [?h]" "event_rows st2 = event_rows st"
      using st(3) st1 by (auto simp: create_run_def split: if_splits)
    have rows: "run_rows u = run_rows st @ [?h]"
      "event_rows u = event_rows st @ map (\<lambda>se. event_row_of env (store_codec cc) (se_run_id se) (seq se) (event se)) (v_events v)"
      using insert_all_blobs [OF st(4)] insert_all_rows [OF st(4)] st2 by simp_all
    have ids: "se_run_id se = hdr_run_id ?h" if "se \<in> set (v_events v)" for se
      using validate_parts [OF \<open>validate_cassette env cc src = Inr v\<close>] read_events_ids that by (fastforce simp: header_of_def)
    have "rows_of u rid = rows_of st rid" if "rid \<noteq> hdr_run_id ?h" for rid
      using that ids by (auto simp: rows_of_def rows(2) filter_empty_conv)
    moreover have "blobs st \<subseteq>\<^sub>m blobs u"
      using pr unfolding promoted_def map_le_def by (metis domIff)
    moreover have "\<exists>data. get_blob env u d = Inr data" if d: "d \<in> blob_digests stored" for d
      using d st(6) by (fastforce simp: checked_store_blobs_iff blobs_fit_def blob_digests_def)
    ultimately show ?thesis using st(1,5) rows(1) res by blast
  qed
qed

section \<open>Reading what was written\<close>

text \<open>No line end occurs in a text.\<close>

definition one_line :: "string \<Rightarrow> bool" where
  "one_line t \<longleftrightarrow> CHR 0x0A \<notin> set t \<and> CHR 0x0D \<notin> set t"

lemma one_line_append [simp]: "one_line (s @ t) \<longleftrightarrow> one_line s \<and> one_line t"
  and one_line_Nil [simp]: "one_line []"
  and one_line_Cons [simp]: "one_line (c # t) \<longleftrightarrow> c \<noteq> CHR 0x0A \<and> c \<noteq> CHR 0x0D \<and> one_line t"
  by (auto simp: one_line_def)

lemma one_line_concat: "(\<And>t. t \<in> set ts \<Longrightarrow> one_line t) \<Longrightarrow> one_line (concat ts)"
  by (induction ts) auto

lemma one_line_join: "one_line sep \<Longrightarrow> (\<And>t. t \<in> set ts \<Longrightarrow> one_line t) \<Longrightarrow> one_line (join_str sep ts)"
  by (induction sep ts rule: join_str.induct) auto

lemma hex_digit_plain: "n < 16 \<Longrightarrow> hex_digit n \<noteq> CHR 0x0A \<and> hex_digit n \<noteq> CHR 0x0D"
  by (auto simp: hex_digit_def less_Suc_eq numeral_eq_Suc)

lemma byte_val_lt: "byte_val c < 256"
  by (simp add: byte_val_def)

lemma one_line_esc: "one_line (esc_char c)"
proof -
  have d: "byte_val c < 32 \<Longrightarrow> byte_val c div 16 < 16 \<and> byte_val c mod 16 < 16" by simp
  show ?thesis
    using hex_digit_plain [of "byte_val c div 16"] hex_digit_plain [of "byte_val c mod 16"] d
    by (auto simp: esc_char_def)
qed

lemma one_line_quote: "one_line (quote_str s)"
  by (auto simp: quote_str_def intro!: one_line_concat one_line_esc)

lemma one_line_nat_str: "one_line (nat_str n)"
proof -
  have "\<not> digit_char (CHR 0x0A)" "\<not> digit_char (CHR 0x0D)" by (simp_all add: digit_char_def)
  then show ?thesis using nat_str_digits [of n] unfolding one_line_def list_all_iff by blast
qed

lemma one_line_int_str: "one_line (int_str n)"
  by (simp add: int_str_def one_line_nat_str)

lemma one_line_render: "(\<And>x. one_line (f x)) \<Longrightarrow> one_line (render f v)"
proof (induction v rule: json_obj_induct)
  case (Arr vs)
  then show ?case by (auto intro!: one_line_join)
next
  case (Obj kvs)
  then show ?case by (fastforce intro!: one_line_join simp: one_line_quote)
qed (simp_all add: one_line_quote one_line_int_str)

lemma one_line_event: "(\<And>x. one_line (frepr env x)) \<Longrightarrow> one_line (event_line env se)"
  unfolding event_line_def canonical_json_def by (rule one_line_render)

text \<open>A file of such texts, one per line, reads back as them.\<close>

definition file_of :: "string list \<Rightarrow> string" where
  "file_of ls = concat (map (\<lambda>l. l @ [CHR 0x0A]) ls)"

lemma join_file: "ls \<noteq> [] \<Longrightarrow> join_str [CHR 0x0A] ls @ [CHR 0x0A] = file_of ls"
  by (induction "[CHR 0x0A]" ls rule: join_str.induct) (auto simp: file_of_def)

lemma universal_plain: "CHR 0x0D \<notin> set t \<Longrightarrow> universal t = t"
  by (induction t) auto

lemma split_line: "CHR 0x0A \<notin> set l \<Longrightarrow> split_lines acc (l @ CHR 0x0A # r) = (acc @ l @ [CHR 0x0A]) # split_lines [] r"
  by (induction l arbitrary: acc) auto

lemma split_file: "list_all one_line ls \<Longrightarrow> split_lines [] (file_of ls) = map (\<lambda>l. l @ [CHR 0x0A]) ls"
  by (induction ls) (auto simp: file_of_def split_line one_line_def)

lemma file_lines_file:
  assumes "list_all one_line ls" "utf8_valid (file_of ls)"
  shows "file_lines (file_of ls) = Inr (map (\<lambda>l. l @ [CHR 0x0A]) ls)"
proof -
  have "CHR 0x0D \<notin> set (file_of ls)" using assms(1) by (auto simp: file_of_def list_all_iff one_line_def)
  then show ?thesis using split_file [OF assms(1)] assms(2)
    by (simp add: file_lines_def decode_utf8_def universal_plain)
qed

text \<open>What pydantic and \<open>json.loads\<close> promise of the lines of a cassette.\<close>

definition line_loads :: "py_env \<Rightarrow> cassette_codec \<Rightarrow> stored_event \<Rightarrow> bool" where
  "line_loads env cc se \<longleftrightarrow>
     read_line cc (event_line env se @ [CHR 0x0A]) = Inr (seq se, event se)"

definition header_loads :: "cassette_codec \<Rightarrow> cassette_header \<Rightarrow> bool" where
  "header_loads cc h \<longleftrightarrow> one_line (dump_header cc h) \<and> \<not> blank (dump_header cc h @ [CHR 0x0A])
     \<and> load_header cc (dump_header cc h @ [CHR 0x0A]) = Inr h"

definition numbered_from :: "int \<Rightarrow> stored_event list \<Rightarrow> bool" where
  "numbered_from n es \<longleftrightarrow> map seq es = map (\<lambda>i. n + int i) [0..<length es]"

lemma numbered_from_Cons: "numbered_from n (se # es) \<longleftrightarrow> seq se = n \<and> numbered_from (n + 1) es"
  by (simp add: numbered_from_def upt_rec [of 0] map_Suc_upt [symmetric] comp_def add.assoc del: upt_Suc)

lemma check_seqs_numbered: "numbered_from n es \<Longrightarrow> check_seqs n (map (\<lambda>se. (seq se, event se)) es) = Inr ()"
  by (induction es arbitrary: n) (auto simp: numbered_from_Cons)

lemma cassette_reads_back:
  assumes "header_loads cc h" "list_all (line_loads env cc) es" "\<And>x. one_line (frepr env x)"
    and "utf8_valid (cassette_text env cc h es)"
  shows "read_cassette_header cc (Some (NFile (cassette_text env cc h es))) = Inr h"
    and "numbered_from 0 es \<Longrightarrow> list_all (\<lambda>se. se_run_id se = ch_run_id h) es \<Longrightarrow>
      read_events cc (Some (NFile (cassette_text env cc h es))) h = Inr es"
proof -
  let ?ls = "dump_header cc h # map (event_line env) es"
  have "list_all one_line ?ls" using assms(1,3) by (auto simp: header_loads_def list_all_iff one_line_event)
  moreover have t: "cassette_text env cc h es = file_of ?ls" unfolding cassette_text_def by (rule join_file) simp
  ultimately have ls: "file_lines (cassette_text env cc h es) = Inr (map (\<lambda>l. l @ [CHR 0x0A]) ?ls)"
    using file_lines_file assms(4) by simp
  show "read_cassette_header cc (Some (NFile (cassette_text env cc h es))) = Inr h"
    using assms(1) ls by (simp add: read_cassette_header_def header_loads_def)
  assume n: "numbered_from 0 es" and ids: "list_all (\<lambda>se. se_run_id se = ch_run_id h) es"
  have "map_res (read_line cc) (map ((\<lambda>l. l @ [CHR 0x0A]) \<circ> event_line env) es) = Inr (map (\<lambda>se. (seq se, event se)) es)"
    using assms(2) by (auto intro!: map_res_nthI simp: list_all_length line_loads_def)
  moreover have "map ((\<lambda>(n, e). \<lparr>se_run_id = ch_run_id h, seq = n, event = e\<rparr>) \<circ> (\<lambda>se. (seq se, event se))) es = es"
    using ids by (intro map_idI) (auto simp: list_all_iff)
  ultimately show "read_events cc (Some (NFile (cassette_text env cc h es))) h = Inr es"
    using ls check_seqs_numbered [OF n] by (simp add: read_events_def)
qed

section \<open>The exported directory\<close>

lemma digest_length: "is_digest d \<Longrightarrow> length d = 64"
  by (simp add: is_digest_def)

lemma blob_file_length: "is_digest d \<Longrightarrow> length (blob_file d) = 76"
  by (simp add: blob_file_def BLOB_DIR_def is_digest_def)

lemma blob_file_drop: "is_digest d \<Longrightarrow> drop 12 (blob_file d) = d"
  by (simp add: blob_file_def BLOB_DIR_def is_digest_def)

lemma blob_file_inj: "is_digest d \<Longrightarrow> is_digest d' \<Longrightarrow> blob_file d = blob_file d' \<longleftrightarrow> d = d'"
  using blob_file_drop by metis

lemma parents_short:
  assumes "is_digest d" "p \<in> set (parents (blob_file d))" shows "length p < 12"
proof -
  obtain i where i: "i < length (blob_file d)" "blob_file d ! i = CHR ''/''" "p = take i (blob_file d)"
    using assms(2) by (auto simp: parents_def)
  have "i < 12"
  proof (rule ccontr)
    assume "\<not> i < 12"
    then have "blob_file d ! i = d ! (i - 12)" "i - 12 < length d"
      using blob_file_drop [OF assms(1)] nth_drop [of 12 "blob_file d" "i - 12"] i(1) blob_file_length [OF assms(1)]
        digest_length [OF assms(1)] by auto
    then have "hex_char (CHR ''/'')" using i(2) assms(1) by (auto simp: is_digest_def list_all_length)
    then show False by (simp add: hex_char_def)
  qed
  then show ?thesis using i(3) by simp
qed

text \<open>Digests with data: what is exported and imported.\<close>

definition blob_list :: "(string \<times> string) list \<Rightarrow> bool" where
  "blob_list bs \<longleftrightarrow> distinct (map fst bs) \<and> list_all (\<lambda>b. is_digest (fst b)) bs"

lemma staged_cassette: "map_of (staged_tree c bs) CASSETTE_FILE = Some (NFile c)"
  by (simp add: staged_tree_def)

lemma staged_blob:
  assumes "blob_list bs" "(d, data) \<in> set bs"
  shows "map_of (staged_tree c bs) (blob_file d) = Some (NFile data)"
proof -
  have d: "is_digest d" using assms by (auto simp: blob_list_def list_all_iff)
  have "length (blob_file d) \<noteq> length CASSETTE_FILE" using blob_file_length [OF d] by (simp add: CASSETTE_FILE_def)
  then have ne: "blob_file d \<noteq> CASSETTE_FILE" by metis
  have "inj_on blob_file (set (map fst bs))"
    using assms(1) blob_file_inj by (auto simp: blob_list_def list_all_iff inj_on_def)
  then have "distinct (map blob_file (map fst bs))"
    using assms(1) unfolding blob_list_def distinct_map [of blob_file] by blast
  then have "distinct (map fst (map (\<lambda>(d, data). (blob_file d, NFile data)) bs))"
    by (simp add: comp_def case_prod_beta)
  moreover have "(blob_file d, NFile data) \<in> set (map (\<lambda>(d, data). (blob_file d, NFile data)) bs)"
    using assms(2) by force
  ultimately have "map_of (map (\<lambda>(d, data). (blob_file d, NFile data)) bs) (blob_file d) = Some (NFile data)"
    by (rule map_of_is_SomeI)
  then show ?thesis using ne by (simp add: staged_tree_def map_of_append map_add_def)
qed

lemma staged_entries:
  assumes "blob_list bs" "set ds = fst ` set bs"
  shows "validate_entries \<lparr>src_link = False, src_strict = True, src_name = n, src_tree = staged_tree c bs\<rparr> CASSETTE_FILE ds = Inr ()"
proof -
  let ?files = "blob_file ` set ds \<union> {CASSETTE_FILE}"
  have len: "length f \<ge> 12" if "f \<in> ?files" for f
    using that assms blob_file_length by (fastforce simp: blob_list_def list_all_iff CASSETTE_FILE_def)
  have "check_entry ?files (expected_dirs ds) e" if e: "e \<in> set (staged_tree c bs)" for e
  proof -
    consider "e = (CASSETTE_FILE, NFile c)" | d data where "(d, data) \<in> set bs" "e = (blob_file d, NFile data)"
      | d data p where "(d, data) \<in> set bs" "p \<in> set (parents (blob_file d))" "e = (p, NDir)"
      using e unfolding staged_tree_def by auto
    then show ?thesis
    proof cases
      case 1
      then show ?thesis by (simp add: check_entry_def)
    next
      case 2
      then have "d \<in> set ds" using assms(2) by force
      then show ?thesis using 2(2) by (simp add: check_entry_def)
    next
      case 3
      then have "is_digest d" using assms(1) by (auto simp: blob_list_def list_all_iff)
      then have "length p < 12" using parents_short 3(2) by blast
      then have "p \<notin> ?files" using len [of p] by linarith
      moreover have "d \<in> set ds" using 3(1) assms(2) by force
      then have "p \<in> expected_dirs ds" using 3(2) by (auto simp: expected_dirs_def)
      ultimately show ?thesis using 3(3) by (simp add: check_entry_def)
    qed
  qed
  moreover have "\<exists>data. map_of (staged_tree c bs) (blob_file d) = Some (NFile data)" if "d \<in> set ds" for d
    using that assms staged_blob [OF assms(1)] by force
  ultimately show ?thesis by (simp add: validate_entries_def Let_def list_all_iff)
qed

lemma blob_refs_distinct: "distinct (map fst (blob_refs es))"
proof -
  have "distinct (map fst r) \<Longrightarrow> distinct (map fst (fold add_ref bs r))" for bs and r :: "(string \<times> int set) list"
    by (induction bs arbitrary: r) (simp_all add: add_ref_def distinct_update)
  then show ?thesis by (simp add: blob_refs_def)
qed


section \<open>Export, then import\<close>

lemma get_blob_Inr:
  "get_blob env st d = Inr data \<longleftrightarrow> is_digest d \<and> blobs st d = Some data \<and> sha256_hex env data = d"
  by (auto simp: get_blob_def blob_path_def bind_res_def split: option.splits sum.splits if_splits)

lemma promote_all_ok:
  assumes "distinct (map fst bs)"
    and "\<forall>(d, data) \<in> set bs. is_digest d \<and> sha256_hex env data = d \<and> blobs st d \<in> {None, Some data}"
  shows "\<exists>c st'. promote_all env bs created st = (Inr (), c, st') \<and> blobs st' = blobs st ++ map_of bs
    \<and> run_rows st' = run_rows st \<and> event_rows st' = event_rows st"
  using assms
proof (induction bs arbitrary: created st)
  case (Cons b bs)
  obtain d data where b: "b = (d, data)" by force
  let ?u = "st\<lparr>blobs := (blobs st)(d \<mapsto> data)\<rparr>"
  have d: "is_digest d" "sha256_hex env data = d" "blobs st d \<in> {None, Some data}" using Cons.prems(2) b by auto
  have p: "\<exists>new. promote_blob env st d data = (Inr new, ?u)"
  proof (cases "blobs st d")
    case None
    then have "promote_blob env st d data = (Inr True, ?u)" using d by (simp add: promote_blob_def blob_path_def)
    then show ?thesis by blast
  next
    case (Some x)
    then have "x = data" "?u = st" using d(3) by (auto simp: fun_upd_idem)
    then have "promote_blob env st d data = (Inr False, ?u)" using d Some by (simp add: promote_blob_def blob_path_def)
    then show ?thesis by blast
  qed
  then obtain new where new: "promote_blob env st d data = (Inr new, ?u)" by blast
  have nd: "d \<notin> fst ` set bs" using Cons.prems(1) b by simp
  have "\<forall>(d', data') \<in> set bs. is_digest d' \<and> sha256_hex env data' = d' \<and> blobs ?u d' \<in> {None, Some data'}"
    using Cons.prems(2) nd by (force simp: b)
  moreover have "distinct (map fst bs)" using Cons.prems(1) by simp
  ultimately obtain c st' where
    st': "promote_all env bs (if new then created @ [d] else created) ?u = (Inr (), c, st')"
    "blobs st' = blobs ?u ++ map_of bs" "run_rows st' = run_rows ?u" "event_rows st' = event_rows ?u"
    using Cons.IH [of ?u "if new then created @ [d] else created"] by blast
  have "map_of bs d = None" using nd by (simp add: map_of_eq_None_iff)
  then have "(blobs st)(d \<mapsto> data) ++ map_of bs = blobs st ++ map_of (b # bs)"
    by (auto simp: b map_add_def fun_eq_iff split: option.splits)
  then have "blobs st' = blobs st ++ map_of (b # bs)" using st'(2) by simp
  then show ?case using st'(1,3,4) new by (simp add: b del: map_of.simps)
qed simp

lemma insert_all_ok:
  assumes "run_row st rid \<noteq> None" "list_all (\<lambda>se. se_run_id se = rid) es"
    and "distinct (map er_seq (rows_of st rid) @ map seq es)"
  shows "\<exists>st'. insert_all env codec es st = (Inr (), st')"
  using assms
proof (induction es arbitrary: st)
  case (Cons se es)
  let ?u = "st\<lparr>event_rows := event_rows st @ [event_row_of env codec rid (seq se) (event se)]\<rparr>"
  have "insert_import_event env codec st se = (Inr (), ?u)"
    using Cons.prems by (force simp: insert_import_event_def insert_event_def)
  moreover have "\<exists>st'. insert_all env codec es ?u = (Inr (), st')"
  proof (rule Cons.IH)
    show "run_row ?u rid \<noteq> None" using Cons.prems(1) by (simp add: run_row_def)
    show "distinct (map er_seq (rows_of ?u rid) @ map seq es)" using Cons.prems(3) by (simp add: rows_of_def)
  qed (use Cons.prems(2) in simp)
  ultimately show ?case by simp
qed simp

lemma enumerate_stored:
  assumes "numbered_from 0 es" "list_all (\<lambda>se. se_run_id se = rid) es"
  shows "map (\<lambda>(i, e). \<lparr>se_run_id = rid, seq = int i, event = e\<rparr>) (enumerate 0 (map event es)) = es"
proof (rule nth_equalityI)
  fix i assume "i < length (map (\<lambda>(i, e). \<lparr>se_run_id = rid, seq = int i, event = e\<rparr>) (enumerate 0 (map event es)))"
  then have i: "i < length es" by simp
  have "seq (es ! i) = int i" using arg_cong [OF assms(1) [unfolded numbered_from_def], of "\<lambda>l. l ! i"] i by simp
  moreover have "se_run_id (es ! i) = rid" using assms(2) i by (simp add: list_all_length)
  ultimately show "map (\<lambda>(i, e). \<lparr>se_run_id = rid, seq = int i, event = e\<rparr>) (enumerate 0 (map event es)) ! i = es ! i"
    using i by (cases "es ! i") (simp add: nth_enumerate_eq)
qed simp

text \<open>Importing a validated log into a store that has no such run.\<close>

lemma import_body_ok:
  assumes rid: "ch_run_id h = rid" "run_row st rid = None" "rows_of st rid = []"
    and es: "numbered_from 0 es" "list_all (\<lambda>se. se_run_id se = rid) es" "list_all (\<lambda>se. loads_back env (store_codec cc) (event se)) es"
    and dg: "ch_digest h = run_digest env es"
    and bs: "bs = map (\<lambda>(d, sizes). (d, B d)) (blob_refs es)"
    and B: "\<forall>(d, sizes) \<in> set (blob_refs es). is_digest d \<and> sha256_hex env (B d) = d \<and> sizes = {int (length (B d))}
              \<and> blobs st d \<in> {None, Some (B d)}"
  shows "\<exists>c st'. import_body env cc \<lparr>v_header = h, v_events = es, v_blobs = bs\<rparr> st = (Inr (), c, st')
    \<and> events (store_codec cc) st' rid = Inr es \<and> (\<forall>d \<in> blob_digests es. get_blob env st' d = Inr (B d))"
proof -
  let ?h = "header_of h"
  have fst_bs: "map fst bs = map fst (blob_refs es)" by (simp add: bs comp_def case_prod_beta)
  have ok: "\<forall>(d, data) \<in> set bs. is_digest d \<and> sha256_hex env data = d \<and> blobs st d \<in> {None, Some data}"
    using B by (auto simp: bs)
  obtain c st1 where p: "promote_all env bs [] st = (Inr (), c, st1)" "blobs st1 = blobs st ++ map_of bs"
    "run_rows st1 = run_rows st" "event_rows st1 = event_rows st"
    using promote_all_ok [OF _ ok, of "[]"] blob_refs_distinct [of es] fst_bs by auto
  define st2 where "st2 = st1\<lparr>run_rows := run_rows st1 @ [?h]\<rparr>"
  have hid: "hdr_run_id ?h = rid" using rid(1) by (simp add: header_of_def)
  have r: "create_run st1 ?h = (Inr (), st2)"
    using rid(2) p(3) hid by (simp add: create_run_def run_row_def st2_def)
  have row2: "run_row st2 rid \<noteq> None" using hid by (auto simp: st2_def run_row_def find_None_iff)
  have rows2: "rows_of st2 rid = []" using rid(3) p(4) by (simp add: st2_def rows_of_def)
  have "distinct (map seq es)" using es(1) unfolding numbered_from_def by (simp add: distinct_map inj_on_def)
  then obtain st3 where i: "insert_all env (store_codec cc) es st2 = (Inr (), st3)"
    using insert_all_ok [OF row2 es(2)] rows2 by fastforce
  have rows3: "rows_of st3 rid = map (\<lambda>se. event_row_of env (store_codec cc) rid (seq se) (event se)) es"
    using insert_all_rows [OF i] rows2 es(2) by (auto simp: rows_of_def list_all_iff filter_map intro!: filter_True)
  have blobs3: "blobs st3 = blobs st ++ map_of bs" using insert_all_blobs [OF i] p(2) by (simp add: st2_def)
  have num: "numbered st3 rid" using es(1) by (simp add: numbered_def numbered_from_def rows3 comp_def)
  have "set (map seq es) = int ` {0..<length es}" using es(1) unfolding numbered_from_def by simp
  then have nonneg: "0 \<le> seq se" if "se \<in> set es" for se using that by force
  have log: "log_of st3 rid = map (\<lambda>(i, e). log_entry env (store_codec cc) i e) (enumerate 0 (map event es))"
  proof -
    have "log_of st3 rid = map (\<lambda>se. log_entry env (store_codec cc) (nat (seq se)) (event se)) es"
      using nonneg by (simp add: log_of_def rows3 log_entry_def)
    also have "\<dots> = map (\<lambda>(i, e). log_entry env (store_codec cc) i e) (enumerate 0 (map event es))"
      using arg_cong [OF enumerate_stored [OF es(1,2)], of "map (\<lambda>se. log_entry env (store_codec cc) (nat (seq se)) (event se))"]
      by (simp add: comp_def case_prod_unfold)
    finally show ?thesis .
  qed
  have ev: "events (store_codec cc) st3 rid = Inr es"
    using events_of_log [OF num log] es(3) enumerate_stored [OF es(1,2)] by (simp add: list_all_iff)
  have got: "get_blob env st3 d = Inr (B d)" if "(d, sizes) \<in> set (blob_refs es)" for d sizes
  proof -
    have "distinct (map fst bs)" "(d, B d) \<in> set bs"
      using that blob_refs_distinct [of es] unfolding fst_bs by (force simp: bs)+
    then have "map_of bs d = Some (B d)" by (rule map_of_is_SomeI)
    then show ?thesis using that B by (auto simp: get_blob_Inr blobs3)
  qed
  have "blobs_fit env st3 es" using got B unfolding blobs_fit_def by fastforce
  then obtain x where "checked_store_blobs env st3 es = Inr x" by (simp add: checked_store_blobs_iff)
  then have "import_body env cc \<lparr>v_header = h, v_events = es, v_blobs = bs\<rparr> st = (Inr (), c, st3)"
    using p(1) r i ev rid(2) hid dg by (simp add: import_body_def Let_def)
  then show ?thesis using ev got by (auto simp: blob_digests_def)
qed

lemma resolve_schema: "resolve st x = Inr h \<Longrightarrow> schema_version h = EVENT_SCHEMA_VERSION"
  by (auto simp: resolve_def find_run_def latest_named_def read_header_def bind_res_eq_Inr
      split: option.splits if_splits list.splits)

lemma events_numbered:
  assumes "events codec st rid = Inr es" "numbered st rid"
  shows "numbered_from 0 es" "list_all (\<lambda>se. se_run_id se = rid) es"
proof -
  let ?rows = "rows_of st rid"
  have "sorted (map er_seq ?rows)"
    using assms(2) by (simp add: numbered_def sorted_map sorted_wrt_map sorted_wrt_iff_nth_less)
  then have es: "map_res (load_row codec rid) ?rows = Inr es"
    using assms(1) by (simp add: events_def sort_key_id_if_sorted)
  have "\<forall>x \<in> set rows. \<exists>y. load_row codec rid x = Inr y \<Longrightarrow>
      map (\<lambda>x. seq (projr (load_row codec rid x))) rows = map er_seq rows
      \<and> list_all (\<lambda>x. se_run_id (projr (load_row codec rid x)) = rid) rows" for rows
    by (induction rows) (auto simp: load_row_def bind_res_eq_Inr)
  from this [of ?rows] es have "map seq es = map er_seq ?rows \<and> list_all (\<lambda>se. se_run_id se = rid) es"
    unfolding map_res_projr by (auto simp: list_all_iff)
  then show "numbered_from 0 es" "list_all (\<lambda>se. se_run_id se = rid) es"
    using assms(2) map_res_eq_Inr_length [OF es] by (simp_all add: numbered_from_def numbered_def)
qed

lemma header_of_cassette: "schema_version h = EVENT_SCHEMA_VERSION \<Longrightarrow> header_of (cassette_of env ver h es) = h"
  by (simp add: header_of_def cassette_of_def)

text \<open>Validating the exported directory.\<close>

lemma export_validates:
  assumes fit: "blobs_fit env st es" and bs: "bs = map (blob_at env st) (sort_key fst (blob_refs es))"
    and h: "h = cassette_of env ver header es" "header_loads cc h"
    and es: "numbered_from 0 es" "list_all (\<lambda>se. se_run_id se = hdr_run_id header) es" "list_all (line_loads env cc) es"
      "list_all (\<lambda>se. hashes_ok env (event se)) es"
    and plain: "\<And>x. one_line (frepr env x)" "utf8_valid (cassette_text env cc h es)"
  shows "validate_cassette env cc \<lparr>src_link = False, src_strict = True, src_name = n,
      src_tree = staged_tree (cassette_text env cc h es) bs\<rparr>
    = Inr \<lparr>v_header = h, v_events = es, v_blobs = map (\<lambda>(d, sizes). (d, projr (get_blob env st d))) (blob_refs es)\<rparr>"
proof -
  let ?t = "staged_tree (cassette_text env cc h es) bs"
  have fst_bs: "map fst bs = map fst (sort_key fst (blob_refs es))" by (simp add: bs blob_at_def comp_def)
  have "distinct (map fst (sort_key fst (blob_refs es)))"
    using blob_refs_distinct [of es] by (metis distinct_map distinct_sort set_sort)
  then have bl: "blob_list bs"
    using fit unfolding blob_list_def fst_bs
    by (auto simp: list_all_iff bs blob_at_def blobs_fit_def get_blob_Inr)
  have set_ds: "set (map fst (blob_refs es)) = fst ` set bs" by (force simp: bs blob_at_def image_image)
  note rb = cassette_reads_back [OF h(2) es(3) plain]
  have read: "read_events cc (Some (NFile (cassette_text env cc h es))) h = Inr es"
    using rb(2) es(1,2) by (simp add: h(1) cassette_of_def)
  have blob: "read_blob_file env ?t (d, sizes) = Inr (d, projr (get_blob env st d))" if r: "(d, sizes) \<in> set (blob_refs es)" for d sizes
  proof -
    obtain data where d: "get_blob env st d = Inr data" "sha256_hex env data = d" "sizes = {int (length data)}"
      using fit r by (auto simp: blobs_fit_def)
    have "(d, data) \<in> set bs" using r d(1) by (force simp: bs blob_at_def)
    from staged_blob [OF bl this] show ?thesis using d by (simp add: read_blob_file_def)
  qed
  have blobs: "map_res (read_blob_file env ?t) (blob_refs es) = Inr (map (\<lambda>(d, sizes). (d, projr (get_blob env st d))) (blob_refs es))"
    by (rule map_res_Inr) (use blob in auto)
  have v: "validate_entries \<lparr>src_link = False, src_strict = True, src_name = n, src_tree = ?t\<rparr> CASSETTE_FILE (map fst (blob_refs es)) = Inr ()"
    by (rule staged_entries [OF bl set_ds])
  have fields: "ch_format_version h = CASSETTE_FORMAT_VERSION" "ch_schema_version h = EVENT_SCHEMA_VERSION"
    "int (length es) = ch_event_count h" "run_digest env es = ch_digest h" by (simp_all add: h(1) cassette_of_def)
  show ?thesis
    by (simp add: validate_cassette_def staged_cassette rb(1) read fields es(4) v blobs)
qed

text \<open>
  C7. A cassette carries a run whole: exporting a recorded run and importing the directory into a store that does
  not have it succeeds, with the run's own header, the same events in the same order, and the same contents.
\<close>

theorem cassette_roundtrip:
  assumes "export_tree env cc ver st ref = Inr t"
    and "resolve st ref = Inr header" "events (store_codec cc) st (hdr_run_id header) = Inr es" "numbered st (hdr_run_id header)"
    and "list_all (\<lambda>se. hashes_ok env (event se)) es" "list_all (line_loads env cc) es"
    and "list_all (\<lambda>se. loads_back env (store_codec cc) (event se)) es"
    and "header_loads cc (cassette_of env ver header es)" "\<And>x. one_line (frepr env x)"
    and "utf8_valid (cassette_text env cc (cassette_of env ver header es) es)"
    and "store_ok st2" "run_row st2 (hdr_run_id header) = None" "blobs_ok env st2"
    and "inj_on (sha256 env) (ran (blobs st) \<union> ran (blobs st2))"
  shows "\<exists>st2'. import_cassette env cc \<lparr>src_link = False, src_strict = True, src_name = [], src_tree = t\<rparr> st2 = (Inr header, st2')
    \<and> events (store_codec cc) st2' (hdr_run_id header) = Inr es
    \<and> (\<forall>d \<in> blob_digests es. get_blob env st2' d = get_blob env st d)"
proof -
  let ?h = "cassette_of env ver header es" and ?rid = "hdr_run_id header"
  define B where "B = (\<lambda>d. projr (get_blob env st d))"
  obtain bs where bs: "checked_store_blobs env st es = Inr bs" "t = staged_tree (cassette_text env cc ?h es) bs"
    using assms(1-3) by (auto simp: export_tree_def bind_res_eq_Inr)
  then have fit: "blobs_fit env st es" "bs = map (blob_at env st) (sort_key fst (blob_refs es))"
    by (simp_all add: checked_store_blobs_iff)
  note num = events_numbered [OF assms(3,4)]
  have valid: "validate_cassette env cc \<lparr>src_link = False, src_strict = True, src_name = [], src_tree = t\<rparr>
      = Inr \<lparr>v_header = ?h, v_events = es, v_blobs = map (\<lambda>(d, sizes). (d, B d)) (blob_refs es)\<rparr>"
    using export_validates [OF fit refl assms(8) num assms(6,5,9,10)] by (simp add: bs(2) B_def)
  have B: "\<forall>(d, sizes) \<in> set (blob_refs es). is_digest d \<and> sha256_hex env (B d) = d \<and> sizes = {int (length (B d))}
      \<and> blobs st2 d \<in> {None, Some (B d)}"
  proof (rule ballI)
    fix p assume "p \<in> set (blob_refs es)"
    then obtain d sizes data where p: "p = (d, sizes)"
      and d: "get_blob env st d = Inr data" "sha256_hex env data = d" "sizes = {int (length data)}"
      using fit(1) by (cases p) (auto simp: blobs_fit_def)
    have Bd: "B d = data" using d(1) by (simp add: B_def)
    have "blobs st2 d = Some x \<Longrightarrow> x = data" for x
      using assms(13,14) d by (auto simp: get_blob_Inr blobs_ok_def inj_on_def sha256_hex_def ran_def)
    then have "blobs st2 d \<in> {None, Some (B d)}" using Bd by (cases "blobs st2 d") auto
    then show "case p of (d, sizes) \<Rightarrow> is_digest d \<and> sha256_hex env (B d) = d \<and> sizes = {int (length (B d))}
      \<and> blobs st2 d \<in> {None, Some (B d)}"
      using d Bd p by (simp add: get_blob_Inr)
  qed
  have rows: "rows_of st2 ?rid = []" by (rule rows_need_run [OF assms(11,12)])
  have h: "ch_run_id ?h = ?rid" "ch_digest ?h = run_digest env es" by (simp_all add: cassette_of_def)
  obtain c st2' where imp: "import_body env cc \<lparr>v_header = ?h, v_events = es, v_blobs = map (\<lambda>(d, sizes). (d, B d)) (blob_refs es)\<rparr> st2
      = (Inr (), c, st2')" "events (store_codec cc) st2' ?rid = Inr es" "\<forall>d \<in> blob_digests es. get_blob env st2' d = Inr (B d)"
    using import_body_ok [OF h(1) assms(12) rows num assms(7) h(2) refl B] by blast
  have "get_blob env st d = Inr (B d)" if "d \<in> blob_digests es" for d
    using that fit(1) by (fastforce simp: blob_digests_def blobs_fit_def B_def)
  then show ?thesis using imp header_of_cassette [OF resolve_schema [OF assms(2)]]
    by (simp add: import_cassette_def valid)
qed

section \<open>An example\<close>

definition ex_write :: any_event where
  "ex_write = FsWrite \<lparr>fw_parent = None, fw_tool = None, fw_meta = ex_meta, fw_path = ''f'',
     fw_content = \<lparr>digest = replicate 64 (CHR ''0''), blob_size = 2\<rparr>\<rparr>"

definition ex_cc :: cassette_codec where
  "ex_cc = \<lparr>dump_header = (\<lambda>_. ''h''),
     load_header = (\<lambda>_. Inr (cassette_of const_env ''v1'' (ex_header ''a'' 1) [\<lparr>se_run_id = ''a'', seq = 0, event = ex_write\<rparr>])),
     loads_json = (\<lambda>_. Inr (JObj [(''seq'', JInt 0)])), validate_event = (\<lambda>_. Inr ex_write),
     store_codec = \<lparr>meta_text = (\<lambda>_. []), load_event = (\<lambda>_ _. Inr ex_write)\<rparr>\<rparr>"

definition ex_full_store :: store where
  "ex_full_store = \<lparr>blobs = (\<lambda>d. if d = replicate 64 (CHR ''0'') then Some ''ok'' else None),
     run_rows = [ex_header ''a'' 1], event_rows = [event_row_of const_env (store_codec ex_cc) ''a'' 0 ex_write]\<rparr>"

abbreviation ex_es :: "stored_event list" where
  "ex_es \<equiv> [\<lparr>se_run_id = ''a'', seq = 0, event = ex_write\<rparr>]"

lemma ex_export_events:
  "resolve ex_full_store ''a'' = Inr (ex_header ''a'' 1)" "events (store_codec ex_cc) ex_full_store ''a'' = Inr ex_es"
  "numbered ex_full_store ''a''"
proof -
  show "resolve ex_full_store ''a'' = Inr (ex_header ''a'' 1)"
    by (simp add: resolve_def find_run_def run_row_def ex_full_store_def read_header_def ex_header_def)
  show "events (store_codec ex_cc) ex_full_store ''a'' = Inr ex_es"
    by (simp add: events_def rows_of_def ex_full_store_def load_row_def ex_cc_def)
  show "numbered ex_full_store ''a''"
    by (simp add: numbered_def rows_of_def ex_full_store_def)
qed

lemma ex_text_valid: "utf8_valid (cassette_text const_env ex_cc (cassette_of const_env ''v1'' (ex_header ''a'' 1) ex_es) ex_es)"
  by code_simp

lemma ex_not_blank: "\<not> blank [CHR ''h'', CHR 0x0A]" "\<not> blank (event_line const_env \<lparr>se_run_id = ''a'', seq = 0, event = ex_write\<rparr> @ [CHR 0x0A])"
  by code_simp+

lemma ex_refs: "blob_refs ex_es = [(replicate 64 (CHR ''0''), {2})]"
  by (simp add: blob_refs_def add_ref_def ex_write_def)

lemma ex_blobs: "checked_store_blobs const_env ex_full_store ex_es = Inr [(replicate 64 (CHR ''0''), ''ok'')]"
  by (simp add: checked_store_blobs_def ex_refs get_blob_def blob_path_def ex_full_store_def is_digest_def hex_char_def
      list_all_iff const_env_def sha256_hex_def)

lemma ex_codec_laws:
  "list_all (\<lambda>se. hashes_ok const_env (event se)) ex_es" "list_all (line_loads const_env ex_cc) ex_es"
  "list_all (\<lambda>se. loads_back const_env (store_codec ex_cc) (event se)) ex_es"
  "header_loads ex_cc (cassette_of const_env ''v1'' (ex_header ''a'' 1) ex_es)" "one_line (frepr const_env x)"
  using ex_not_blank
  by (simp_all add: ex_write_def line_loads_def read_line_def ex_cc_def loads_back_def header_loads_def const_env_def)

lemma ex_empty: "store_ok empty_store" "run_row empty_store ''a'' = None" "blobs_ok const_env empty_store"
  by (simp_all add: store_ok_def empty_store_def run_row_def blobs_ok_def digests_ok_def const_env_def is_digest_def
      hex_char_def list_all_iff)

theorem cassette_roundtrip_witness:
  "case export_tree const_env ex_cc ''v1'' ex_full_store ''a'' of
     Inl _ \<Rightarrow> False
   | Inr t \<Rightarrow>
       \<exists>st'. import_cassette const_env ex_cc \<lparr>src_link = False, src_strict = True, src_name = [], src_tree = t\<rparr> empty_store
           = (Inr (ex_header ''a'' 1), st')
         \<and> events (store_codec ex_cc) st' ''a'' = Inr ex_es"
proof -
  have id: "hdr_run_id (ex_header ''a'' 1) = ''a''" by (simp add: ex_header_def)
  obtain t where t: "export_tree const_env ex_cc ''v1'' ex_full_store ''a'' = Inr t"
    by (simp add: export_tree_def ex_export_events id ex_blobs)
  have inj: "inj_on (sha256 const_env) (ran (blobs ex_full_store) \<union> ran (blobs empty_store))"
    by (auto simp: ex_full_store_def empty_store_def ran_def inj_on_def split: if_splits)
  show ?thesis
    using cassette_roundtrip [OF t ex_export_events(1), unfolded id, OF ex_export_events(2,3) ex_codec_laws(1-5)
        ex_text_valid ex_empty inj] t by auto
qed

theorem import_atomic_witness:
  "\<exists>e. import_cassette const_env ex_cc \<lparr>src_link = True, src_strict = True, src_name = [], src_tree = []\<rparr> ex_full_store
     = (Inl e, ex_full_store)"
proof -
  obtain r st' where i: "import_cassette const_env ex_cc \<lparr>src_link = True, src_strict = True, src_name = [], src_tree = []\<rparr>
      ex_full_store = (r, st')" by force
  then have "\<exists>e. r = Inl e" by (auto simp: import_cassette_def validate_cassette_def)
  then show ?thesis using import_atomic [OF i] i by auto
qed

end
