(* ===== verification/Bundle.thy ===== *)
theory Bundle
  imports Cassette
begin

text \<open>
  Bundles (\<open>src/tracewake/bundle.py\<close>): a cassette as one canonical USTAR file with a manifest, its construction
  and its validation, and the header an analysis of a bundle sees.

  The \<open>tarfile\<close> module and the manifest's pydantic model are arguments (\<open>bundle_codec\<close>); writing the file to
  disk is the operating system's. A failed check is a \<open>ValueError\<close>.
\<close>

section \<open>Data\<close>

definition BUNDLE_FORMAT_VERSION :: int where "BUNDLE_FORMAT_VERSION = 1"
definition MANIFEST_PATH :: string where "MANIFEST_PATH = ''manifest.json''"
definition EVENTS_PATH :: string where "EVENTS_PATH = ''events.jsonl''"
definition MAX_BUNDLE_BYTES :: int where "MAX_BUNDLE_BYTES = 256 * 1024 * 1024"
definition MAX_BLOB_BYTES :: int where "MAX_BLOB_BYTES = 64 * 1024 * 1024"
definition MAX_EVENT_BYTES :: int where "MAX_EVENT_BYTES = 64 * 1024 * 1024"
definition MAX_EVENTS :: int where "MAX_EVENTS = 100000"
definition MAX_ENTRIES :: int where "MAX_ENTRIES = 10000"

record bundle_entry =
  be_path :: string
  be_digest :: string
  be_size :: int

record manifest =
  bm_bundle_format_version :: int
  bm_cassette_format_version :: int
  bm_event_schema_version :: int
  bm_run_id :: string
  bm_event_count :: int
  bm_logical_run_digest :: string
  bm_events :: bundle_entry
  bm_blobs :: "bundle_entry list"

text \<open>The constraints of the fields and \<open>_canonical_path\<close>.\<close>

definition bundle_entry_ok :: "bundle_entry \<Rightarrow> bool" where
  "bundle_entry_ok b \<longleftrightarrow> is_digest (be_digest b) \<and> 0 \<le> be_size b"

definition blob_entry_ok :: "bundle_entry \<Rightarrow> bool" where
  "blob_entry_ok b \<longleftrightarrow> bundle_entry_ok b \<and> be_size b \<le> MAX_BLOB_BYTES \<and> be_path b = blob_file (be_digest b)"

definition manifest_ok :: "manifest \<Rightarrow> bool" where
  "manifest_ok m \<longleftrightarrow> 0 \<le> bm_event_count m \<and> bm_event_count m \<le> MAX_EVENTS \<and> is_digest (bm_logical_run_digest m)
     \<and> bundle_entry_ok (bm_events m) \<and> list_all blob_entry_ok (bm_blobs m) \<and> int (length (bm_blobs m)) \<le> MAX_ENTRIES - 2"

record tar_member =
  tm_name :: string
  tm_isfile :: bool
  tm_size :: int
  tm_stream :: "string option"

text \<open>Writing regular files with fixed metadata, reading the members, and reading a manifest.\<close>

record bundle_codec =
  tar_write :: "(string \<times> string) list \<Rightarrow> string"
  tar_read :: "string \<Rightarrow> tar_member list res"
  load_manifest :: "string \<Rightarrow> manifest res"
  bundle_cc :: cassette_codec

record validated_bundle =
  vb_manifest :: manifest
  vb_events :: "stored_event list"
  vb_blobs :: "(string \<times> string) list"
  vb_logical_run_digest :: string
  vb_bundle_digest :: string
  vb_size :: int

section \<open>Building\<close>

definition dump_entry :: "bundle_entry \<Rightarrow> json" where
  "dump_entry b = JObj [(''path'', JStr (be_path b)), (''digest'', JStr (be_digest b)), (''size'', JInt (be_size b))]"

definition dump_manifest :: "manifest \<Rightarrow> json" where
  "dump_manifest m =
     JObj [(''bundle_format_version'', JInt (bm_bundle_format_version m)),
           (''cassette_format_version'', JInt (bm_cassette_format_version m)),
           (''event_schema_version'', JInt (bm_event_schema_version m)), (''run_id'', JStr (bm_run_id m)),
           (''event_count'', JInt (bm_event_count m)), (''logical_run_digest'', JStr (bm_logical_run_digest m)),
           (''events'', dump_entry (bm_events m)), (''blobs'', JArr (map dump_entry (bm_blobs m)))]"

definition manifest_bytes :: "py_env \<Rightarrow> manifest \<Rightarrow> string" where
  "manifest_bytes env m = canonical_json (frepr env) (dump_manifest m) @ [CHR 0x0A]"

definition bundle_bytes :: "bundle_codec \<Rightarrow> (string \<times> string) list \<Rightarrow> string" where
  "bundle_bytes bc entries = tar_write bc (sort_key fst entries)"

definition event_data :: "py_env \<Rightarrow> stored_event list \<Rightarrow> string" where
  "event_data env es =
     (let event_text = join_str [CHR 0x0A] (map (event_line env) es)
      in event_text @ (if event_text = [] then [] else [CHR 0x0A]))"

definition manifest_of :: "py_env \<Rightarrow> validated \<Rightarrow> manifest" where
  "manifest_of env v =
     \<lparr>bm_bundle_format_version = BUNDLE_FORMAT_VERSION,
      bm_cassette_format_version = ch_format_version (v_header v), bm_event_schema_version = ch_schema_version (v_header v),
      bm_run_id = ch_run_id (v_header v), bm_event_count = int (length (v_events v)),
      bm_logical_run_digest = ch_digest (v_header v),
      bm_events = \<lparr>be_path = EVENTS_PATH, be_digest = sha256_hex env (event_data env (v_events v)),
                   be_size = int (length (event_data env (v_events v)))\<rparr>,
      bm_blobs = map (\<lambda>(d, data). \<lparr>be_path = blob_file d, be_digest = d, be_size = int (length data)\<rparr>)
                   (sort_key fst (v_blobs v))\<rparr>"

definition bundle_entries :: "py_env \<Rightarrow> validated \<Rightarrow> (string \<times> string) list" where
  "bundle_entries env v =
     (MANIFEST_PATH, manifest_bytes env (manifest_of env v)) # (EVENTS_PATH, event_data env (v_events v))
     # map (\<lambda>(d, data). (blob_file d, data)) (v_blobs v)"

definition build_bundle :: "py_env \<Rightarrow> bundle_codec \<Rightarrow> source \<Rightarrow> string res" where
  "build_bundle env bc src =
     bind_res (validate_cassette env (bundle_cc bc) src) (\<lambda>v.
     bind_res (guard_res (int (length (event_data env (v_events v))) \<le> MAX_EVENT_BYTES) ValueError) (\<lambda>_.
     bind_res (guard_res (int (length (v_events v)) \<le> MAX_EVENTS) ValueError) (\<lambda>_.
     bind_res (guard_res (manifest_ok (manifest_of env v)) ValueError) (\<lambda>_.
     bind_res (guard_res (int (length (bundle_entries env v)) \<le> MAX_ENTRIES) ValueError) (\<lambda>_.
       let raw = bundle_bytes bc (bundle_entries env v)
       in if int (length raw) > MAX_BUNDLE_BYTES then Inl ValueError else Inr raw)))))"

section \<open>Reading entries\<close>

text \<open>\<open>PurePosixPath\<close>: \<open>parts\<close> and \<open>as_posix\<close> of a relative path.\<close>

definition path_parts :: "string \<Rightarrow> string list" where
  "path_parts name = filter (\<lambda>p. p \<noteq> [] \<and> p \<noteq> ''.'') (split_char (CHR ''/'') name)"

definition as_posix :: "string \<Rightarrow> string" where
  "as_posix name = (if path_parts name = [] then ''.'' else join_str ''/'' (path_parts name))"

definition safe_name :: "string \<Rightarrow> bool" where
  "safe_name name \<longleftrightarrow> name \<noteq> [] \<and> hd name \<noteq> CHR ''/'' \<and> CHR 0x5C \<notin> set name \<and> as_posix name = name
     \<and> list_all (\<lambda>p. p \<notin> {[], ''.'', ''..''}) (path_parts name) \<and> length name \<le> 100"

text \<open>The loop over the members: the entries read and the bytes so far.\<close>

fun read_members :: "tar_member list \<Rightarrow> int \<Rightarrow> (string \<times> string) list \<Rightarrow> (string \<times> string) list res" where
  "read_members [] read entries = Inr entries"
| "read_members (m # ms) read entries =
     (if \<not> safe_name (tm_name m) then Inl ValueError
      else if \<not> tm_isfile m then Inl ValueError
      else if tm_size m > MAX_BUNDLE_BYTES then Inl ValueError
      else case tm_stream m of
             None \<Rightarrow> Inl ValueError
           | Some stream \<Rightarrow>
               let data = take (nat (MAX_BUNDLE_BYTES + 1)) stream
               in if int (length data) \<noteq> tm_size m then Inl ValueError
                  else if read + int (length data) > MAX_BUNDLE_BYTES then Inl ValueError
                  else read_members ms (read + int (length data)) (entries @ [(tm_name m, data)]))"

definition compressed_magic :: "string list" where
  "compressed_magic = [bytes_of [31, 139], ''BZh'', bytes_of [253, 55, 122, 88, 90]]"

definition read_entries :: "bundle_codec \<Rightarrow> string \<Rightarrow> (string \<times> string) list res" where
  "read_entries bc raw =
     (if \<exists>p \<in> set compressed_magic. starts_with p raw then Inl ValueError
      else case tar_read bc raw of
             Inl _ \<Rightarrow> Inl ValueError
           | Inr members \<Rightarrow>
               let names = map tm_name members
               in if int (length members) > MAX_ENTRIES then Inl ValueError
                  else if names \<noteq> sort names then Inl ValueError
                  else if \<not> distinct names then Inl ValueError
                  else bind_res (read_members members 0 []) (\<lambda>entries.
                         if raw \<noteq> bundle_bytes bc entries then Inl ValueError else Inr entries))"

section \<open>Reading events\<close>

text \<open>\<open>str.splitlines\<close>: its line boundaries, and the lines without their ends.\<close>

definition line_ends :: "string list" where
  "line_ends =
     [[CHR 0x0A], [CHR 0x0D], [CHR 0x0B], [CHR 0x0C], [CHR 0x1C], [CHR 0x1D], [CHR 0x1E],
      [CHR 0xC2, CHR 0x85], [CHR 0xE2, CHR 0x80, CHR 0xA8], [CHR 0xE2, CHR 0x80, CHR 0xA9]]"

fun lines_from :: "string \<Rightarrow> string list \<Rightarrow> string list" where
  "lines_from acc [] = (if acc = [] then [] else [acc])"
| "lines_from acc [c] = (if c \<in> set line_ends then [acc] else [acc @ c])"
| "lines_from acc (c # d # cs) =
     (if c = [CHR 0x0D] \<and> d = [CHR 0x0A] then acc # lines_from [] cs
      else if c \<in> set line_ends then acc # lines_from [] (d # cs)
      else lines_from (acc @ c) (d # cs))"

definition splitlines :: "string \<Rightarrow> string list" where
  "splitlines t = lines_from [] (utf8_chars t)"

text \<open>
  A line of \<open>_parse_events\<close>. A JSON object or array without a usable \<open>seq\<close> is refused; any other value has
  no \<open>pop\<close>. A \<open>seq\<close> that is equal to the number expected without being that integer fails the comparison of
  the line with its canonical form.
\<close>

definition parse_line :: "py_env \<Rightarrow> cassette_codec \<Rightarrow> string \<Rightarrow> int \<Rightarrow> string \<Rightarrow> stored_event res" where
  "parse_line env cc rid expected line =
     (case loads_json cc line of
        Inl _ \<Rightarrow> Inl ValueError
      | Inr (JObj kvs) \<Rightarrow>
          (case map_of kvs ''seq'' of
             None \<Rightarrow> Inl ValueError
           | Some n \<Rightarrow>
               (case validate_event cc (filter (\<lambda>p. fst p \<noteq> ''seq'') kvs) of
                  Inl _ \<Rightarrow> Inl ValueError
                | Inr e \<Rightarrow>
                    let stored = \<lparr>se_run_id = rid, seq = expected, event = e\<rparr>
                    in if n \<noteq> JInt expected then Inl ValueError
                       else if event_line env stored \<noteq> line then Inl ValueError
                       else Inr stored))
      | Inr (JArr _) \<Rightarrow> Inl ValueError
      | Inr _ \<Rightarrow> Inl (Raised ''AttributeError''))"

fun parse_lines :: "py_env \<Rightarrow> cassette_codec \<Rightarrow> string \<Rightarrow> int \<Rightarrow> string list \<Rightarrow> stored_event list res" where
  "parse_lines env cc rid expected [] = Inr []"
| "parse_lines env cc rid expected (l # ls) =
     bind_res (parse_line env cc rid expected l) (\<lambda>se.
     bind_res (parse_lines env cc rid (expected + 1) ls) (\<lambda>es. Inr (se # es)))"

definition parse_events :: "py_env \<Rightarrow> cassette_codec \<Rightarrow> manifest \<Rightarrow> string \<Rightarrow> stored_event list res" where
  "parse_events env cc m raw =
     (if int (length raw) > MAX_EVENT_BYTES then Inl ValueError
      else case decode_utf8 raw of
             Inl _ \<Rightarrow> Inl ValueError
           | Inr t \<Rightarrow>
               if t \<noteq> [] \<and> last t \<noteq> CHR 0x0A then Inl ValueError
               else if int (length (splitlines t)) \<noteq> bm_event_count m then Inl ValueError
               else parse_lines env cc (bm_run_id m) 0 (splitlines t))"

section \<open>Validation\<close>

definition check_blob ::
  "py_env \<Rightarrow> (string \<times> string) list \<Rightarrow> (string \<times> int set) list \<Rightarrow> bundle_entry \<Rightarrow> (string \<times> string) res" where
  "check_blob env entries refs b =
     (case map_of entries (be_path b) of
        None \<Rightarrow> Inl KeyError
      | Some data \<Rightarrow>
          if int (length data) \<noteq> be_size b \<or> sha256_hex env data \<noteq> be_digest b then Inl ValueError
          else if map_of refs (be_digest b) \<noteq> Some {int (length data)} then Inl ValueError
          else Inr (be_digest b, data))"

definition read_manifest :: "py_env \<Rightarrow> bundle_codec \<Rightarrow> string \<Rightarrow> manifest res" where
  "read_manifest env bc raw =
     (case load_manifest bc raw of
        Inl _ \<Rightarrow> Inl ValueError
      | Inr m \<Rightarrow>
          if raw \<noteq> manifest_bytes env m then Inl ValueError
          else if bm_bundle_format_version m \<noteq> BUNDLE_FORMAT_VERSION then Inl ValueError
          else if bm_cassette_format_version m \<noteq> CASSETTE_FORMAT_VERSION then Inl ValueError
          else if bm_event_schema_version m \<noteq> EVENT_SCHEMA_VERSION then Inl ValueError
          else Inr m)"

text \<open>\<open>validate_bundle\<close> on a regular file's bytes.\<close>

definition validate_bundle :: "py_env \<Rightarrow> bundle_codec \<Rightarrow> string \<Rightarrow> validated_bundle res" where
  "validate_bundle env bc raw =
     (if int (length raw) > MAX_BUNDLE_BYTES then Inl ValueError
      else
        bind_res (read_entries bc raw) (\<lambda>entries.
          case (map_of entries MANIFEST_PATH, map_of entries EVENTS_PATH) of
            (Some manifest_raw, Some data) \<Rightarrow>
              bind_res (read_manifest env bc manifest_raw) (\<lambda>m.
              bind_res (guard_res (be_path (bm_events m) = EVENTS_PATH) ValueError) (\<lambda>_.
              bind_res (guard_res (be_size (bm_events m) = int (length data)
                  \<and> be_digest (bm_events m) = sha256_hex env data) ValueError) (\<lambda>_.
              bind_res (parse_events env (bundle_cc bc) m data) (\<lambda>es.
              bind_res (guard_res (run_digest env es = bm_logical_run_digest m) ValueError) (\<lambda>_.
              let refs = blob_refs es; declared = map be_digest (bm_blobs m)
              in bind_res (guard_res (distinct declared) ValueError) (\<lambda>_.
                 bind_res (guard_res (set declared = fst ` set refs) ValueError) (\<lambda>_.
                 bind_res (guard_res (fst ` set entries = {MANIFEST_PATH, EVENTS_PATH} \<union> be_path ` set (bm_blobs m)) ValueError) (\<lambda>_.
                 bind_res (map_res (check_blob env entries refs) (bm_blobs m)) (\<lambda>bs.
                   Inr \<lparr>vb_manifest = m, vb_events = es, vb_blobs = bs, vb_logical_run_digest = run_digest env es,
                        vb_bundle_digest = sha256_hex env raw, vb_size = int (length raw)\<rparr>)))))))))
          | _ \<Rightarrow> Inl ValueError))"

section \<open>The header of a bundle\<close>

text \<open>The loop of \<open>bundle_header\<close>: the status and the models seen so far.\<close>

fun bundle_scan :: "any_event list \<Rightarrow> run_status \<Rightarrow> model_identity list \<Rightarrow> run_status \<times> model_identity list" where
  "bundle_scan [] st models = (st, models)"
| "bundle_scan (e # es) st models =
     (case e of
        Outcome x \<Rightarrow> bundle_scan es (Ended (oc_status x)) models
      | ModelCall x \<Rightarrow>
          let i = \<lparr>id_provider = mc_provider x, id_model_id = mc_model_id x, id_model_version = None\<rparr>
          in bundle_scan es st (if i \<in> set models then models else models @ [i])
      | _ \<Rightarrow> bundle_scan es st models)"

definition bundle_header :: "validated_bundle \<Rightarrow> run_header" where
  "bundle_header b =
     (let times = map (\<lambda>se. recorded_at (meta_of (event se))) (vb_events b);
          started = (if times = [] then 0 else Min (set times));
          (st, models) = bundle_scan (map event (vb_events b)) (Ended StOk) []
      in \<lparr>hdr_run_id = bm_run_id (vb_manifest b), hdr_name = bm_run_id (vb_manifest b), started_at = started,
          finished_at = Some (if times = [] then started else Max (set times)), hdr_status = st,
          schema_version = bm_event_schema_version (vb_manifest b), hdr_models = models, command = None,
          redacted = True, task_id = None\<rparr>)"

section \<open>Lines of the event file\<close>

definition no_line_ends :: "string \<Rightarrow> bool" where
  "no_line_ends l \<longleftrightarrow> list_all (\<lambda>c. c \<notin> set line_ends) (utf8_chars l)"

lemma utf8_chars_LF:
  assumes "r = [] \<or> \<not> is_cont (hd r)"
  shows "utf8_chars (l @ CHR 0x0A # r) = utf8_chars l @ [CHR 0x0A] # utf8_chars r"
proof -
  have "\<not> is_cont (CHR 0x0A)" by (simp add: is_cont_def byte_val_def)
  moreover have "takeWhile is_cont r = []" "dropWhile is_cont r = r" using assms by (cases r; simp)+
  ultimately show ?thesis using utf8_chars_append [of "CHR 0x0A # r" l] by simp
qed

lemma lines_from_end: "lines_from acc ([CHR 0x0A] # rest) = acc # lines_from [] rest"
  by (cases rest) (simp_all add: line_ends_def)

lemma lines_from_step: "c \<notin> set line_ends \<Longrightarrow> rest \<noteq> [] \<Longrightarrow> lines_from acc (c # rest) = lines_from (acc @ c) rest"
  by (cases rest) (auto simp: line_ends_def)

lemma lines_from_line:
  "list_all (\<lambda>c. c \<notin> set line_ends) cs \<Longrightarrow> lines_from acc (cs @ [CHR 0x0A] # rest) = (acc @ concat cs) # lines_from [] rest"
proof (induction cs arbitrary: acc)
  case (Cons c cs)
  then show ?case using lines_from_step [of c "cs @ [CHR 0x0A] # rest" acc] by simp
qed (simp add: lines_from_end)

text \<open>A file of lines that begin with an ASCII character and hold no line boundary.\<close>

lemma splitlines_file:
  "list_all (\<lambda>l. no_line_ends l \<and> l \<noteq> [] \<and> \<not> is_cont (hd l)) ls \<Longrightarrow> splitlines (file_of ls) = ls"
proof (induction ls)
  case (Cons l ls)
  have "file_of ls = [] \<or> \<not> is_cont (hd (file_of ls))" using Cons.prems by (cases ls) (auto simp: file_of_def)
  then have "utf8_chars (file_of (l # ls)) = utf8_chars l @ [CHR 0x0A] # utf8_chars (file_of ls)"
    using utf8_chars_LF [of "file_of ls" l] by (simp add: file_of_def)
  then show ?case using Cons lines_from_line [of "utf8_chars l" "[]" "utf8_chars (file_of ls)"]
    by (simp add: splitlines_def no_line_ends_def concat_utf8_chars)
qed (simp add: splitlines_def file_of_def)

lemma event_line_start: "event_line env se \<noteq> [] \<and> hd (event_line env se) = CHR ''{''"
  by (simp add: event_line_def canonical_json_def)

lemma event_data_file: "event_data env es = file_of (map (event_line env) es)"
proof (cases es)
  case (Cons se ses)
  have "join_str [CHR 0x0A] (event_line env se # ls) \<noteq> []" for ls
    using event_line_start [of env se] by (cases ls) auto
  then show ?thesis using join_file [of "map (event_line env) es"] Cons
    by (simp add: event_data_def Let_def)
qed (simp add: event_data_def file_of_def)

lemma splitlines_events:
  assumes "list_all (\<lambda>se. no_line_ends (event_line env se)) es"
  shows "splitlines (event_data env es) = map (event_line env) es"
proof -
  have "\<not> is_cont (CHR ''{'')" by (simp add: is_cont_def byte_val_def)
  then show ?thesis
    using assms event_line_start unfolding event_data_file by (intro splitlines_file) (auto simp: list_all_iff)
qed

text \<open>What pydantic and \<open>json.loads\<close> promise of a line of the event file.\<close>

definition bundle_line_loads :: "py_env \<Rightarrow> cassette_codec \<Rightarrow> stored_event \<Rightarrow> bool" where
  "bundle_line_loads env cc se \<longleftrightarrow> parse_line env cc (se_run_id se) (seq se) (event_line env se) = Inr se"

lemma parse_lines_back:
  "numbered_from n es \<Longrightarrow> list_all (\<lambda>se. se_run_id se = rid) es \<Longrightarrow> list_all (bundle_line_loads env cc) es \<Longrightarrow>
   parse_lines env cc rid n (map (event_line env) es) = Inr es"
  by (induction es arbitrary: n) (auto simp: numbered_from_Cons bundle_line_loads_def)

section \<open>Entries of the archive\<close>

lemma hex_not_special:
  assumes "is_digest d" shows "CHR ''/'' \<notin> set d" "CHR 0x5C \<notin> set d" "CHR ''.'' \<notin> set d"
proof -
  have "\<not> hex_char (CHR ''/'')" "\<not> hex_char (CHR 0x5C)" "\<not> hex_char (CHR ''.'')" by (simp_all add: hex_char_def)
  then show "CHR ''/'' \<notin> set d" "CHR 0x5C \<notin> set d" "CHR ''.'' \<notin> set d"
    using assms unfolding is_digest_def list_all_iff by blast+
qed

lemma safe_blob_file:
  assumes "is_digest d" shows "safe_name (blob_file d)"
proof -
  let ?a = "take 2 d" and ?b = "take 2 (drop 2 d)"
  have no: "c \<notin> set ?a \<and> c \<notin> set ?b" if "c \<notin> set d" for c
    using that by (meson in_set_dropD in_set_takeD)
  note h = hex_not_special [OF assms] no [OF hex_not_special(1) [OF assms]] no [OF hex_not_special(2) [OF assms]]
    no [OF hex_not_special(3) [OF assms]]
  have len: "length ?a = 2" "length ?b = 2" "length d = 64" using digest_length [OF assms] by simp_all
  have "blob_file d = ''blobs'' @ CHR ''/'' # (?a @ CHR ''/'' # (?b @ CHR ''/'' # d))"
    by (simp add: blob_file_def BLOB_DIR_def)
  then have parts: "split_char (CHR ''/'') (blob_file d) = [''blobs'', ?a, ?b, d]"
    using h by (simp only: split_char_append split_char_clean) (simp add: split_char_append split_char_clean)
  have ne: "p \<noteq> [] \<and> p \<noteq> ''.'' \<and> p \<noteq> ''..''" if "p \<in> {?a, ?b, d}" for p
  proof -
    have "2 \<le> length p" "CHR ''.'' \<notin> set p" using that h len by auto
    then show ?thesis by auto
  qed
  have pp: "path_parts (blob_file d) = [''blobs'', ?a, ?b, d]"
    using ne [of ?a] ne [of ?b] ne [of d] unfolding path_parts_def parts
    by (simp del: take_eq_Nil take_eq_Nil2 drop_eq_Nil drop_eq_Nil2)
  show ?thesis
    using ne h blob_file_length [OF assms]
    unfolding safe_name_def as_posix_def pp by (auto simp: blob_file_def BLOB_DIR_def)
qed

lemma safe_fixed: "safe_name MANIFEST_PATH" "safe_name EVENTS_PATH"
  by (simp_all add: safe_name_def as_posix_def path_parts_def MANIFEST_PATH_def EVENTS_PATH_def)

section \<open>What a validated cassette gives\<close>

lemma numbered_of_check_seqs: "check_seqs n (map (\<lambda>se. (seq se, event se)) es) = Inr () \<Longrightarrow> numbered_from n es"
proof (induction es arbitrary: n)
  case (Cons se es)
  then show ?case by (simp add: numbered_from_Cons split: if_splits)
qed (simp add: numbered_from_def)

lemma read_events_numbered:
  assumes "read_events cc file h = Inr es" shows "numbered_from 0 es"
proof -
  obtain parsed where p: "check_seqs 0 parsed = Inr ()" "es = map (\<lambda>(n, e). \<lparr>se_run_id = ch_run_id h, seq = n, event = e\<rparr>) parsed"
    using assms by (auto simp: read_events_def bind_res_eq_Inr split: option.splits node.splits)
  have "map (\<lambda>se. (seq se, event se)) es = parsed" by (simp add: p(2) comp_def case_prod_unfold)
  then show ?thesis using p(1) numbered_of_check_seqs by metis
qed

lemma validated_facts:
  assumes "validate_cassette env cc src = Inr v"
  shows "ch_format_version (v_header v) = CASSETTE_FORMAT_VERSION" "ch_schema_version (v_header v) = EVENT_SCHEMA_VERSION"
    and "numbered_from 0 (v_events v)" "list_all (\<lambda>se. se_run_id se = ch_run_id (v_header v)) (v_events v)"
    and "run_digest env (v_events v) = ch_digest (v_header v)"
    and "map_res (read_blob_file env (src_tree src)) (blob_refs (v_events v)) = Inr (v_blobs v)"
proof -
  obtain data where "read_events cc data (v_header v) = Inr (v_events v)" using validate_parts [OF assms] by blast
  then show "numbered_from 0 (v_events v)" "list_all (\<lambda>se. se_run_id se = ch_run_id (v_header v)) (v_events v)"
    using read_events_numbered read_events_ids by (auto simp: list_all_iff)
qed (use assms in \<open>auto simp: validate_cassette_def bind_res_eq_Inr Let_def split: if_splits\<close>)

lemma read_blob_file_Inr:
  "read_blob_file env t ref = Inr b \<Longrightarrow> fst b = fst ref \<and> snd ref = {int (length (snd b))} \<and> sha256_hex env (snd b) = fst b"
  by (auto simp: read_blob_file_def split: prod.splits option.splits node.splits if_splits)

lemma blobs_of_refs:
  assumes "map_res (read_blob_file env t) refs = Inr bs"
  shows "map fst bs = map fst refs"
    and "distinct (map fst refs) \<Longrightarrow> (d, data) \<in> set bs \<Longrightarrow> map_of refs d = Some {int (length data)} \<and> sha256_hex env data = d"
proof -
  have nth: "length bs = length refs" "i < length refs \<Longrightarrow> read_blob_file env t (refs ! i) = Inr (bs ! i)" for i
    using map_res_eq_Inr_length [OF assms] map_res_eq_Inr_nth [OF assms] by auto
  show "map fst bs = map fst refs"
    using nth read_blob_file_Inr [OF nth(2)] by (intro nth_equalityI) auto
  assume "distinct (map fst refs)" "(d, data) \<in> set bs"
  then obtain i where i: "i < length refs" "bs ! i = (d, data)" using nth(1) by (auto simp: in_set_conv_nth)
  then have "fst (refs ! i) = d \<and> snd (refs ! i) = {int (length data)} \<and> sha256_hex env data = d"
    using read_blob_file_Inr [OF nth(2) [OF i(1)]] by auto
  moreover from this have "refs ! i = (d, {int (length data)})" by (simp add: prod_eq_iff)
  then have "(d, {int (length data)}) \<in> set refs" using i(1) nth_mem by metis
  ultimately show "map_of refs d = Some {int (length data)} \<and> sha256_hex env data = d"
    using \<open>distinct (map fst refs)\<close> by simp
qed

section \<open>Reading back an archive\<close>

text \<open>
  What \<open>tarfile\<close> promises of an archive it wrote: the members are read back as regular files with their names, sizes
  and data, the archive begins with the name of its first member, and it is no shorter than its data.
\<close>

definition member_of :: "string \<times> string \<Rightarrow> tar_member" where
  "member_of e = \<lparr>tm_name = fst e, tm_isfile = True, tm_size = int (length (snd e)), tm_stream = Some (snd e)\<rparr>"

definition tar_reads_back :: "bundle_codec \<Rightarrow> (string \<times> string) list \<Rightarrow> bool" where
  "tar_reads_back bc es \<longleftrightarrow>
     tar_read bc (tar_write bc es) = Inr (map member_of es) \<and> es \<noteq> [] \<and> starts_with (fst (hd es)) (tar_write bc es)
     \<and> sum_list (map (length \<circ> snd) es) \<le> length (tar_write bc es)"

lemma read_members_of:
  "list_all (safe_name \<circ> fst) es \<Longrightarrow> 0 \<le> n \<Longrightarrow> n + int (sum_list (map (length \<circ> snd) es)) \<le> MAX_BUNDLE_BYTES \<Longrightarrow>
   read_members (map member_of es) n acc = Inr (acc @ es)"
proof (induction es arbitrary: n acc)
  case (Cons e es)
  have "int (length (snd e)) \<le> MAX_BUNDLE_BYTES" using Cons.prems by simp
  then have "take (nat (MAX_BUNDLE_BYTES + 1)) (snd e) = snd e" by (simp add: MAX_BUNDLE_BYTES_def)
  then show ?case using Cons by (simp add: member_of_def Let_def)
qed simp

lemma starts_with_take: "starts_with p s \<longleftrightarrow> take (length p) s = p"
  by (induction p s rule: starts_with.induct) auto

lemma not_compressed:
  assumes "starts_with name raw" "name \<noteq> []" "hd name \<in> set ''bem''"
  shows "\<not> (\<exists>p \<in> set compressed_magic. starts_with p raw)"
proof -
  obtain c n cs where "name = c # n" "raw = c # cs" "c \<in> set ''bem''"
    using assms by (cases name; cases raw) auto
  moreover have "byte_val c \<in> {98, 101, 109}" "c \<noteq> CHR ''B''" using \<open>c \<in> set ''bem''\<close> by (auto simp: byte_val_def)
  ultimately show ?thesis by (auto simp: compressed_magic_def bytes_of_def eq_char_of [THEN eq_commute [THEN trans]])
qed

lemma read_entries_back:
  assumes "tar_reads_back bc (sort_key fst es)" "distinct (map fst es)" "list_all (safe_name \<circ> fst) es"
    and "list_all (\<lambda>e. hd (fst e) \<in> set ''bem'') es" "int (length es) \<le> MAX_ENTRIES"
    and "int (length (bundle_bytes bc es)) \<le> MAX_BUNDLE_BYTES"
  shows "read_entries bc (bundle_bytes bc es) = Inr (sort_key fst es)"
proof -
  let ?s = "sort_key fst es"
  have s: "set ?s = set es" "length ?s = length es" by simp_all
  have "mset (map fst ?s) = mset (map fst es)" by simp
  then have "distinct (map fst ?s)" using assms(2) mset_eq_imp_distinct_iff by blast
  note tar = assms(1) [unfolded tar_reads_back_def]
  have "hd ?s \<in> set es" using tar s(1) by (metis hd_in_set)
  then have "fst (hd ?s) \<noteq> []" "hd (fst (hd ?s)) \<in> set ''bem''"
    using assms(3,4) by (auto simp: list_all_iff safe_name_def)
  then have magic: "\<not> (\<exists>p \<in> set compressed_magic. starts_with p (tar_write bc ?s))"
    using not_compressed tar by blast
  have names: "map (tm_name \<circ> member_of) ?s = map fst ?s" by (simp add: member_of_def comp_def)
  have "sort (map fst ?s) = map fst ?s" by (simp add: sorted_sort_id)
  moreover have "read_members (map member_of ?s) 0 [] = Inr ?s"
    using read_members_of [of ?s 0 "[]"] assms(3,6) tar s(1) by (simp add: list_all_iff bundle_bytes_def)
  moreover have "bundle_bytes bc ?s = bundle_bytes bc es" by (simp add: bundle_bytes_def sort_key_id_if_sorted)
  ultimately show ?thesis
    using magic assms(5) tar \<open>distinct (map fst ?s)\<close> s(2) by (simp add: read_entries_def bundle_bytes_def Let_def names)
qed

section \<open>A bundle that was built is valid\<close>

lemma bundle_names:
  assumes "list_all (is_digest \<circ> fst) (v_blobs v)" "distinct (map fst (v_blobs v))"
  shows "list_all (safe_name \<circ> fst) (bundle_entries env v)" "distinct (map fst (bundle_entries env v))"
    and "list_all (\<lambda>e. hd (fst e) \<in> set ''bem'') (bundle_entries env v)"
proof -
  have d: "is_digest (fst b)" if "b \<in> set (v_blobs v)" for b using that assms(1) by (auto simp: list_all_iff)
  have hd: "hd (blob_file x) = CHR ''b''" for x by (simp add: blob_file_def BLOB_DIR_def)
  show "list_all (safe_name \<circ> fst) (bundle_entries env v)"
    using d safe_blob_file safe_fixed by (auto simp: bundle_entries_def list_all_iff)
  show "list_all (\<lambda>e. hd (fst e) \<in> set ''bem'') (bundle_entries env v)"
    using hd by (auto simp: bundle_entries_def list_all_iff MANIFEST_PATH_def EVENTS_PATH_def)
  have "inj_on blob_file (set (map fst (v_blobs v)))" using d blob_file_inj by (auto simp: inj_on_def)
  then have "distinct (map blob_file (map fst (v_blobs v)))" using assms(2) by (metis distinct_map)
  moreover have "map fst (bundle_entries env v) = MANIFEST_PATH # EVENTS_PATH # map blob_file (map fst (v_blobs v))"
    by (simp add: bundle_entries_def comp_def case_prod_unfold)
  moreover have "MANIFEST_PATH \<noteq> blob_file x" "EVENTS_PATH \<noteq> blob_file x" for x
    using hd [of x] by (auto simp: MANIFEST_PATH_def EVENTS_PATH_def dest!: arg_cong [where f = hd])
  ultimately show "distinct (map fst (bundle_entries env v))"
    by (simp add: MANIFEST_PATH_def EVENTS_PATH_def) blast
qed

lemma manifest_digests: "manifest_ok (manifest_of env v) \<Longrightarrow> list_all (is_digest \<circ> fst) (v_blobs v)"
  by (auto simp: manifest_ok_def manifest_of_def blob_entry_ok_def bundle_entry_ok_def list_all_iff)

text \<open>The blobs of the manifest, in its order.\<close>

lemma declared_blobs:
  "map be_digest (bm_blobs (manifest_of env v)) = map fst (sort_key fst (v_blobs v))"
  "map be_path (bm_blobs (manifest_of env v)) = map (blob_file \<circ> fst) (sort_key fst (v_blobs v))"
  by (simp_all add: manifest_of_def comp_def case_prod_unfold)

lemma check_blobs_back:
  assumes "\<And>d data. (d, data) \<in> set bs \<Longrightarrow>
      map_of entries (blob_file d) = Some data \<and> map_of refs d = Some {int (length data)} \<and> sha256_hex env data = d"
  shows "map_res (check_blob env entries refs)
      (map (\<lambda>(d, data). \<lparr>be_path = blob_file d, be_digest = d, be_size = int (length data)\<rparr>) bs) = Inr bs"
  using assms
proof (induction bs)
  case (Cons b bs)
  obtain d data where b: "b = (d, data)" by force
  have "map_of entries (blob_file d) = Some data \<and> map_of refs d = Some {int (length data)} \<and> sha256_hex env data = d"
    by (rule Cons.prems) (simp add: b)
  then have "check_blob env entries refs \<lparr>be_path = blob_file d, be_digest = d, be_size = int (length data)\<rparr> = Inr b"
    by (simp add: b check_blob_def)
  moreover have "map_res (check_blob env entries refs)
      (map (\<lambda>(d, data). \<lparr>be_path = blob_file d, be_digest = d, be_size = int (length data)\<rparr>) bs) = Inr bs"
    by (rule Cons.IH) (rule Cons.prems, simp)
  ultimately show ?case by (simp add: b)
qed simp

lemma event_data_end: "event_data env es = [] \<or> last (event_data env es) = CHR 0x0A"
  by (simp add: event_data_def Let_def)

lemma parse_events_back:
  assumes "list_all (bundle_line_loads env cc) es" "list_all (\<lambda>se. no_line_ends (event_line env se)) es"
    and "utf8_valid (event_data env es)" "int (length (event_data env es)) \<le> MAX_EVENT_BYTES"
    and "numbered_from 0 es" "list_all (\<lambda>se. se_run_id se = bm_run_id m) es" "bm_event_count m = int (length es)"
  shows "parse_events env cc m (event_data env es) = Inr es"
  using assms parse_lines_back [OF assms(5,6,1)] splitlines_events [OF assms(2)] event_data_end [of env es]
  by (auto simp: parse_events_def decode_utf8_def)

text \<open>Reading the archive that was built: the entries, the manifest and the event file.\<close>

lemma built_facts:
  assumes "build_bundle env bc src = Inr raw" "validate_cassette env (bundle_cc bc) src = Inr v"
  shows "int (length (event_data env (v_events v))) \<le> MAX_EVENT_BYTES" "manifest_ok (manifest_of env v)"
    and "int (length (bundle_entries env v)) \<le> MAX_ENTRIES" "raw = bundle_bytes bc (bundle_entries env v)"
    and "int (length raw) \<le> MAX_BUNDLE_BYTES"
  using assms by (auto simp: build_bundle_def bind_res_eq_Inr Let_def split: if_splits)

lemma built_blobs:
  assumes "build_bundle env bc src = Inr raw" "validate_cassette env (bundle_cc bc) src = Inr v"
  shows "distinct (map fst (v_blobs v))" "list_all (is_digest \<circ> fst) (v_blobs v)"
    and "fst ` set (v_blobs v) = fst ` set (blob_refs (v_events v))"
proof -
  note names = blobs_of_refs(1) [OF validated_facts(6) [OF assms(2)]]
  show "distinct (map fst (v_blobs v))" unfolding names by (rule blob_refs_distinct)
  show "list_all (is_digest \<circ> fst) (v_blobs v)" by (rule manifest_digests [OF built_facts(2) [OF assms]])
  show "fst ` set (v_blobs v) = fst ` set (blob_refs (v_events v))" using arg_cong [OF names, of set] by (simp only: set_map)
qed

lemma built_entries:
  assumes built: "build_bundle env bc src = Inr raw" "validate_cassette env (bundle_cc bc) src = Inr v"
    and tar: "tar_reads_back bc (sort_key fst (bundle_entries env v))"
  shows "read_entries bc raw = Inr (sort_key fst (bundle_entries env v))"
    and "(n, data) \<in> set (bundle_entries env v) \<Longrightarrow> map_of (sort_key fst (bundle_entries env v)) n = Some data"
proof -
  let ?en = "bundle_entries env v"
  note b = built_facts [OF built] and names = bundle_names [OF built_blobs(2,1) [OF built]]
  show "read_entries bc raw = Inr (sort_key fst ?en)"
    unfolding b(4) using read_entries_back [OF tar names(2,1,3) b(3)] b(4,5) by simp
  have "mset (map fst (sort_key fst ?en)) = mset (map fst ?en)" by simp
  then have "distinct (map fst (sort_key fst ?en))" using names(2) mset_eq_imp_distinct_iff by blast
  then show "(n, data) \<in> set ?en \<Longrightarrow> map_of (sort_key fst ?en) n = Some data" by simp
qed

lemma built_manifest:
  assumes "validate_cassette env (bundle_cc bc) src = Inr v"
    and "load_manifest bc (manifest_bytes env (manifest_of env v)) = Inr (manifest_of env v)"
  shows "read_manifest env bc (manifest_bytes env (manifest_of env v)) = Inr (manifest_of env v)"
  using assms(2) validated_facts(1,2) [OF assms(1)] by (simp add: read_manifest_def manifest_of_def BUNDLE_FORMAT_VERSION_def)

lemma manifest_fields:
  "bm_run_id (manifest_of env v) = ch_run_id (v_header v)" "bm_event_count (manifest_of env v) = int (length (v_events v))"
  "bm_logical_run_digest (manifest_of env v) = ch_digest (v_header v)" "be_path (bm_events (manifest_of env v)) = EVENTS_PATH"
  "be_size (bm_events (manifest_of env v)) = int (length (event_data env (v_events v)))"
  "be_digest (bm_events (manifest_of env v)) = sha256_hex env (event_data env (v_events v))"
  by (simp_all add: manifest_of_def)

lemma built_blobs_back:
  assumes built: "build_bundle env bc src = Inr raw" "validate_cassette env (bundle_cc bc) src = Inr v"
    and tar: "tar_reads_back bc (sort_key fst (bundle_entries env v))"
  shows "map_res (check_blob env (sort_key fst (bundle_entries env v)) (blob_refs (v_events v))) (bm_blobs (manifest_of env v))
    = Inr (sort_key fst (v_blobs v))"
proof -
  have fact: "map_of (sort_key fst (bundle_entries env v)) (blob_file d) = Some data
      \<and> map_of (blob_refs (v_events v)) d = Some {int (length data)} \<and> sha256_hex env data = d"
    if "(d, data) \<in> set (sort_key fst (v_blobs v))" for d data
  proof -
    have "(blob_file d, data) \<in> set (bundle_entries env v)" using that by (force simp: bundle_entries_def)
    then show ?thesis
      using that built_entries(2) [OF assms] blobs_of_refs(2) [OF validated_facts(6) [OF built(2)] blob_refs_distinct, of d data]
      by simp
  qed
  have eq: "bm_blobs (manifest_of env v) = map (\<lambda>(d, data). \<lparr>be_path = blob_file d, be_digest = d, be_size = int (length data)\<rparr>)
      (sort_key fst (v_blobs v))" by (simp add: manifest_of_def)
  show ?thesis unfolding eq by (rule check_blobs_back, rule fact)
qed

lemma built_declared:
  assumes built: "build_bundle env bc src = Inr raw" "validate_cassette env (bundle_cc bc) src = Inr v"
  shows "distinct (map be_digest (bm_blobs (manifest_of env v)))"
    and "set (map be_digest (bm_blobs (manifest_of env v))) = fst ` set (blob_refs (v_events v))"
    and "fst ` set (sort_key fst (bundle_entries env v)) = {MANIFEST_PATH, EVENTS_PATH} \<union> be_path ` set (bm_blobs (manifest_of env v))"
proof -
  have "mset (map fst (sort_key fst (v_blobs v))) = mset (map fst (v_blobs v))" by simp
  then show "distinct (map be_digest (bm_blobs (manifest_of env v)))"
    unfolding declared_blobs using built_blobs(1) [OF built] mset_eq_imp_distinct_iff by blast
  show "set (map be_digest (bm_blobs (manifest_of env v))) = fst ` set (blob_refs (v_events v))"
    unfolding declared_blobs using built_blobs(3) [OF built] by simp
  show "fst ` set (sort_key fst (bundle_entries env v)) = {MANIFEST_PATH, EVENTS_PATH} \<union> be_path ` set (bm_blobs (manifest_of env v))"
    using arg_cong [OF declared_blobs(2) [of env v], of set]
    unfolding set_sort by (auto simp: bundle_entries_def image_image case_prod_unfold)
qed

lemma validate_built:
  assumes built: "build_bundle env bc src = Inr raw" and valid: "validate_cassette env (bundle_cc bc) src = Inr v"
    and tar: "tar_reads_back bc (sort_key fst (bundle_entries env v))"
    and man: "load_manifest bc (manifest_bytes env (manifest_of env v)) = Inr (manifest_of env v)"
    and loads: "list_all (bundle_line_loads env (bundle_cc bc)) (v_events v)"
    and ends: "list_all (\<lambda>se. no_line_ends (event_line env se)) (v_events v)"
    and text8: "utf8_valid (event_data env (v_events v))"
  shows "validate_bundle env bc raw =
    Inr \<lparr>vb_manifest = manifest_of env v, vb_events = v_events v, vb_blobs = sort_key fst (v_blobs v),
         vb_logical_run_digest = ch_digest (v_header v), vb_bundle_digest = sha256_hex env raw, vb_size = int (length raw)\<rparr>"
proof -
  note b = built_facts [OF built valid] and facts = validated_facts [OF valid] and entries = built_entries [OF built valid tar]
  have two: "map_of (sort_key fst (bundle_entries env v)) MANIFEST_PATH = Some (manifest_bytes env (manifest_of env v))"
    "map_of (sort_key fst (bundle_entries env v)) EVENTS_PATH = Some (event_data env (v_events v))"
    by (rule entries(2), simp add: bundle_entries_def)+
  have ev: "parse_events env (bundle_cc bc) (manifest_of env v) (event_data env (v_events v)) = Inr (v_events v)"
    using parse_events_back [OF loads ends text8 b(1) facts(3)] facts(4) by (simp add: manifest_fields)
  show ?thesis
    unfolding validate_bundle_def
    using b(5) entries(1) two built_manifest [OF valid man] ev built_declared [OF built valid]
      built_blobs_back [OF built valid tar] facts(5) by (simp add: Let_def manifest_fields)
qed

text \<open>
  C17. Validating a bundle that was built from a valid cassette succeeds and gives back the manifest, the events and
  the blobs of the cassette, for events that are read back from their own lines and whose lines hold no
  line boundary of \<open>str.splitlines\<close>.
\<close>

theorem bundle_roundtrip:
  assumes built: "build_bundle env bc src = Inr raw" and valid: "validate_cassette env (bundle_cc bc) src = Inr v"
    and tar: "tar_reads_back bc (sort_key fst (bundle_entries env v))"
    and man: "load_manifest bc (manifest_bytes env (manifest_of env v)) = Inr (manifest_of env v)"
    and loads: "list_all (bundle_line_loads env (bundle_cc bc)) (v_events v)"
    and ends: "list_all (\<lambda>se. no_line_ends (event_line env se)) (v_events v)"
    and text8: "utf8_valid (event_data env (v_events v))"
  shows "validate_bundle env bc raw =
    Inr \<lparr>vb_manifest = manifest_of env v, vb_events = v_events v, vb_blobs = sort_key fst (v_blobs v),
         vb_logical_run_digest = ch_digest (v_header v), vb_bundle_digest = sha256_hex env raw, vb_size = int (length raw)\<rparr>"
  by (rule validate_built [OF assms])

text \<open>A line boundary that is not an end of line adds a line.\<close>

lemma lines_from_count:
  "[CHR 0x0D] \<notin> set cs \<Longrightarrow>
   length (lines_from acc (cs @ [CHR 0x0A] # rest))
     = Suc (length (filter (\<lambda>c. c \<in> set line_ends) cs)) + length (lines_from [] rest)"
proof (induction cs arbitrary: acc)
  case (Cons c cs)
  obtain d ds where d: "cs @ [CHR 0x0A] # rest = d # ds" by (cases cs) auto
  then show ?case
    using Cons.IH [of "[]"] Cons.IH [of "acc @ c"] Cons.prems by auto
qed (simp add: lines_from_end)

lemma one_line_chars: "one_line l \<Longrightarrow> [CHR 0x0D] \<notin> set (utf8_chars l)"
proof
  assume "one_line l" "[CHR 0x0D] \<in> set (utf8_chars l)"
  then have "CHR 0x0D \<in> set (concat (utf8_chars l))" by force
  then show False using \<open>one_line l\<close> by (simp add: concat_utf8_chars one_line_def)
qed

lemma splitlines_count:
  "list_all (\<lambda>l. one_line l \<and> l \<noteq> [] \<and> \<not> is_cont (hd l)) ls \<Longrightarrow>
   length (splitlines (file_of ls)) = length ls + sum_list (map (\<lambda>l. length (filter (\<lambda>c. c \<in> set line_ends) (utf8_chars l))) ls)"
proof (induction ls)
  case (Cons l ls)
  have "file_of ls = [] \<or> \<not> is_cont (hd (file_of ls))" using Cons.prems by (cases ls) (auto simp: file_of_def)
  then have "utf8_chars (file_of (l # ls)) = utf8_chars l @ [CHR 0x0A] # utf8_chars (file_of ls)"
    using utf8_chars_LF [of "file_of ls" l] by (simp add: file_of_def)
  then show ?case using Cons lines_from_count [OF one_line_chars, of l "[]" "utf8_chars (file_of ls)"]
    by (simp add: splitlines_def)
qed (simp add: splitlines_def file_of_def)

lemma parse_events_refuses:
  assumes "\<And>x. one_line (frepr env x)" "\<not> list_all (\<lambda>se. no_line_ends (event_line env se)) es"
    and "bm_event_count m = int (length es)"
  shows "parse_events env cc m (event_data env es) = Inl ValueError"
proof -
  let ?n = "\<lambda>l. length (filter (\<lambda>c. c \<in> set line_ends) (utf8_chars l))" and ?ls = "map (event_line env) es"
  have "\<not> is_cont (CHR ''{'')" by (simp add: is_cont_def byte_val_def)
  then have "list_all (\<lambda>l. one_line l \<and> l \<noteq> [] \<and> \<not> is_cont (hd l)) ?ls"
    using one_line_event [OF assms(1)] event_line_start by (auto simp: list_all_iff)
  from splitlines_count [OF this] have n: "length (splitlines (event_data env es)) = length es + sum_list (map ?n ?ls)"
    by (simp only: event_data_file length_map)
  obtain se where "se \<in> set es" "\<not> no_line_ends (event_line env se)" using assms(2) by (auto simp: list_all_iff)
  then have "0 < ?n (event_line env se)" "event_line env se \<in> set ?ls"
    by (auto simp: no_line_ends_def list_all_iff filter_empty_conv)
  moreover from this have "?n (event_line env se) \<le> sum_list (map ?n ?ls)"
    using \<open>se \<in> set es\<close> by (intro member_le_sum_list) auto
  ultimately have "0 < sum_list (map ?n ?ls)" by linarith
  then have "int (length (splitlines (event_data env es))) \<noteq> bm_event_count m" using assms(3) n by linarith
  then show ?thesis by (simp add: parse_events_def decode_utf8_def)
qed

text \<open>
  C18. A bundle of a valid cassette with an event whose line holds a line boundary of \<open>str.splitlines\<close> other than
  LF and CR, such as U+2028 in a message, is built without error and then refused by validation.
\<close>

theorem bundle_refuses_line_ends:
  assumes built: "build_bundle env bc src = Inr raw" and valid: "validate_cassette env (bundle_cc bc) src = Inr v"
    and tar: "tar_reads_back bc (sort_key fst (bundle_entries env v))"
    and man: "load_manifest bc (manifest_bytes env (manifest_of env v)) = Inr (manifest_of env v)"
    and plain: "\<And>x. one_line (frepr env x)"
    and ends: "\<not> list_all (\<lambda>se. no_line_ends (event_line env se)) (v_events v)"
  shows "validate_bundle env bc raw = Inl ValueError"
proof -
  note b = built_facts [OF built valid] and entries = built_entries [OF built valid tar]
  have two: "map_of (sort_key fst (bundle_entries env v)) MANIFEST_PATH = Some (manifest_bytes env (manifest_of env v))"
    "map_of (sort_key fst (bundle_entries env v)) EVENTS_PATH = Some (event_data env (v_events v))"
    by (rule entries(2), simp add: bundle_entries_def)+
  have ev: "parse_events env (bundle_cc bc) (manifest_of env v) (event_data env (v_events v)) = Inl ValueError"
    using parse_events_refuses [OF plain ends] by (simp add: manifest_fields)
  show ?thesis
    unfolding validate_bundle_def
    using b(5) entries(1) two built_manifest [OF valid man] ev by (simp add: Let_def manifest_fields)
qed

section \<open>What an accepted bundle promises\<close>

lemma parse_lines_sound:
  "parse_lines env cc rid n ls = Inr es \<Longrightarrow>
   numbered_from n es \<and> list_all (\<lambda>se. se_run_id se = rid) es \<and> map (event_line env) es = ls"
proof (induction ls arbitrary: n es)
  case (Cons l ls)
  then obtain se ses where "parse_line env cc rid n l = Inr se" "parse_lines env cc rid (n + 1) ls = Inr ses" "es = se # ses"
    by (auto simp: bind_res_eq_Inr)
  moreover from this have "se_run_id se = rid \<and> seq se = n \<and> event_line env se = l"
    by (auto simp: parse_line_def Let_def split: sum.splits json.splits option.splits if_splits)
  ultimately show ?case using Cons.IH by (simp add: numbered_from_Cons)
qed (simp add: numbered_from_def)

lemma read_entries_canonical: "read_entries bc raw = Inr entries \<Longrightarrow> raw = bundle_bytes bc entries"
  by (auto simp: read_entries_def Let_def bind_res_eq_Inr split: if_splits sum.splits)

lemma check_blobs_sound:
  "map_res (check_blob env entries refs) ds = Inr bs \<Longrightarrow>
   map fst bs = map be_digest ds
   \<and> list_all (\<lambda>(d, data). sha256_hex env data = d \<and> map_of refs d = Some {int (length data)} \<and> data \<in> snd ` set entries) bs"
proof (induction ds arbitrary: bs)
  case (Cons d ds)
  then obtain b bs' where "check_blob env entries refs d = Inr b" "map_res (check_blob env entries refs) ds = Inr bs'" "bs = b # bs'"
    by (auto simp: bind_res_eq_Inr)
  moreover from this have "fst b = be_digest d \<and> sha256_hex env (snd b) = fst b \<and> map_of refs (fst b) = Some {int (length (snd b))}
      \<and> snd b \<in> snd ` set entries"
    by (auto simp: check_blob_def dest: map_of_SomeD intro: rev_image_eqI split: option.splits if_splits)
  ultimately show ?case using Cons.IH by (auto simp: case_prod_unfold)
qed simp

text \<open>
  C16. A bundle that validates is what it says: the archive is the canonical one of its entries and begins with a
  canonical manifest, the events are numbered from zero, belong to the run of the manifest and have
  the digest it declares, and the blobs are exactly those the events refer to, with the contents their digests and the
  sizes their references say.
\<close>

theorem bundle_sound:
  assumes "validate_bundle env bc raw = Inr b"
  shows "numbered_from 0 (vb_events b) \<and> list_all (\<lambda>se. se_run_id se = bm_run_id (vb_manifest b)) (vb_events b)
    \<and> run_digest env (vb_events b) = bm_logical_run_digest (vb_manifest b) \<and> vb_logical_run_digest b = run_digest env (vb_events b)
    \<and> distinct (map fst (vb_blobs b)) \<and> fst ` set (vb_blobs b) = blob_digests (vb_events b)
    \<and> list_all (\<lambda>(d, data). sha256_hex env data = d \<and> map_of (blob_refs (vb_events b)) d = Some {int (length data)}) (vb_blobs b)
    \<and> (\<exists>entries data. raw = bundle_bytes bc entries \<and> map_of entries MANIFEST_PATH = Some (manifest_bytes env (vb_manifest b))
        \<and> map_of entries EVENTS_PATH = Some data \<and> splitlines data = map (event_line env) (vb_events b)
        \<and> snd ` set (vb_blobs b) \<subseteq> snd ` set entries)
    \<and> int (length raw) \<le> MAX_BUNDLE_BYTES \<and> vb_size b = int (length raw)"
proof -
  obtain entries where r: "read_entries bc raw = Inr entries"
    using assms by (cases "read_entries bc raw") (auto simp: validate_bundle_def split: if_splits)
  obtain mraw data where two: "map_of entries MANIFEST_PATH = Some mraw" "map_of entries EVENTS_PATH = Some data"
    using assms r by (cases "map_of entries MANIFEST_PATH"; cases "map_of entries EVENTS_PATH")
      (auto simp: validate_bundle_def split: if_splits)
  obtain m es bs where e: "int (length raw) \<le> MAX_BUNDLE_BYTES" "read_manifest env bc mraw = Inr m"
    "parse_events env (bundle_cc bc) m data = Inr es" "run_digest env es = bm_logical_run_digest m"
    "distinct (map be_digest (bm_blobs m))" "set (map be_digest (bm_blobs m)) = fst ` set (blob_refs es)"
    "map_res (check_blob env entries (blob_refs es)) (bm_blobs m) = Inr bs"
    and b: "b = \<lparr>vb_manifest = m, vb_events = es, vb_blobs = bs, vb_logical_run_digest = run_digest env es,
      vb_bundle_digest = sha256_hex env raw, vb_size = int (length raw)\<rparr>"
    using assms r two by (auto simp: validate_bundle_def bind_res_eq_Inr Let_def split: if_splits)
  have "mraw = manifest_bytes env m" using e(2) by (auto simp: read_manifest_def split: sum.splits if_splits)
  moreover have "parse_lines env (bundle_cc bc) (bm_run_id m) 0 (splitlines data) = Inr es"
    using e(3) by (auto simp: parse_events_def decode_utf8_def split: if_splits sum.splits)
  note lines = parse_lines_sound [OF this]
  note blobs = check_blobs_sound [OF e(7)]
  have "fst ` set bs = set (map be_digest (bm_blobs m))" using blobs by (metis list.set_map)
  then have "fst ` set bs = blob_digests es" using e(6) by (simp add: blob_digests_def)
  moreover have "distinct (map fst bs)" using blobs e(5) by simp
  moreover have "snd ` set bs \<subseteq> snd ` set entries" using blobs by (fastforce simp: list_all_iff)
  ultimately show ?thesis
    using e(1,4) two lines blobs read_entries_canonical [OF r] by (auto simp: b list_all_iff case_prod_unfold)
qed

section \<open>Examples\<close>

text \<open>A cassette of one event as a directory, its codecs, and a bundle codec that reads what it wrote.\<close>

definition ex_digest :: string where "ex_digest = replicate 64 (CHR ''0'')"

definition ex_writes :: "string \<Rightarrow> stored_event" where
  "ex_writes path = \<lparr>se_run_id = ''a'', seq = 0, event = FsWrite \<lparr>fw_parent = None, fw_tool = None, fw_meta = ex_meta,
     fw_path = path, fw_content = \<lparr>digest = ex_digest, blob_size = 2\<rparr>\<rparr>\<rparr>"

definition ex_validated :: "string \<Rightarrow> validated" where
  "ex_validated path = \<lparr>v_header = cassette_of const_env ''v1'' (ex_header ''a'' 1) [ex_writes path],
     v_events = [ex_writes path], v_blobs = [(ex_digest, ''ok'')]\<rparr>"

definition ex_lines :: "string \<Rightarrow> cassette_codec" where
  "ex_lines path = \<lparr>dump_header = (\<lambda>_. ''h''), load_header = (\<lambda>_. Inr (v_header (ex_validated path))),
     loads_json = (\<lambda>_. Inr (JObj [(''seq'', JInt 0)])), validate_event = (\<lambda>_. Inr (event (ex_writes path))),
     store_codec = \<lparr>meta_text = (\<lambda>_. []), load_event = (\<lambda>_ _. Inr (event (ex_writes path)))\<rparr>\<rparr>"

definition ex_source :: "string \<Rightarrow> source" where
  "ex_source path = \<lparr>src_link = False, src_strict = True, src_name = [], src_tree =
     staged_tree (cassette_text const_env (ex_lines path) (v_header (ex_validated path)) [ex_writes path]) [(ex_digest, ''ok'')]\<rparr>"

definition ex_bc :: "string \<Rightarrow> bundle_codec" where
  "ex_bc path = \<lparr>tar_write = (\<lambda>es. concat (map (\<lambda>(n, data). n @ data) es)),
     tar_read = (\<lambda>_. Inr (map member_of (sort_key fst (bundle_entries const_env (ex_validated path))))),
     load_manifest = (\<lambda>_. Inr (manifest_of const_env (ex_validated path))), bundle_cc = ex_lines path\<rparr>"

lemma ex_source_valid:
  assumes "utf8_valid (cassette_text const_env (ex_lines path) (v_header (ex_validated path)) [ex_writes path])"
    and "\<not> blank (event_line const_env (ex_writes path) @ [CHR 0x0A])"
  shows "validate_cassette const_env (ex_lines path) (ex_source path) = Inr (ex_validated path)"
proof -
  have refs: "blob_refs [ex_writes path] = [(ex_digest, {2})]" by (simp add: blob_refs_def add_ref_def ex_writes_def)
  have blob: "get_blob const_env ex_full_store ex_digest = Inr ''ok''"
    by (simp add: get_blob_def blob_path_def ex_full_store_def is_digest_def hex_char_def list_all_iff const_env_def
        sha256_hex_def ex_digest_def)
  have hash: "sha256_hex const_env x = ex_digest" for x by (simp add: sha256_hex_def const_env_def ex_digest_def)
  have fit: "blobs_fit const_env ex_full_store [ex_writes path]"
    "[(ex_digest, ''ok'')] = map (blob_at const_env ex_full_store) (sort_key fst (blob_refs [ex_writes path]))"
    using hash by (simp_all add: blobs_fit_def refs blob blob_at_def)
  have hl: "header_loads (ex_lines path) (v_header (ex_validated path))"
    using ex_not_blank(1) by (simp add: header_loads_def ex_lines_def)
  have es: "numbered_from 0 [ex_writes path]" "list_all (\<lambda>se. se_run_id se = hdr_run_id (ex_header ''a'' 1)) [ex_writes path]"
    "list_all (line_loads const_env (ex_lines path)) [ex_writes path]" "list_all (\<lambda>se. hashes_ok const_env (event se)) [ex_writes path]"
    "\<And>x. one_line (frepr const_env x)"
    using assms(2)
    by (simp_all add: numbered_from_def ex_writes_def ex_header_def line_loads_def read_line_def ex_lines_def const_env_def)
  show ?thesis
    using export_validates [OF fit _ hl es(1-5) assms(1)] refs blob
    by (simp add: ex_source_def ex_validated_def)
qed

lemma ex_tar: "tar_reads_back (ex_bc path) (sort_key fst (bundle_entries const_env (ex_validated path)))"
proof -
  have ne: "sort_key fst (bundle_entries const_env (ex_validated path)) \<noteq> []"
    by (simp add: bundle_entries_def flip: length_0_conv del: length_greater_0_conv)
  have "sum_list (map (length \<circ> snd) es) \<le> length (concat (map (\<lambda>(n, data). n @ data) es))" for es :: "(string \<times> string) list"
    by (induction es) auto
  moreover have "es \<noteq> [] \<Longrightarrow> starts_with (fst (hd es)) (concat (map (\<lambda>(n, data). n @ data) es))" for es :: "(string \<times> string) list"
    by (cases es) (auto simp: starts_with_take)
  ultimately show ?thesis using ne by (simp add: tar_reads_back_def ex_bc_def)
qed

text \<open>The line of the event, and what is evaluated of it.\<close>

definition ex_line :: "string \<Rightarrow> string" where
  \<open>ex_line path = ''{"content":{"digest":"'' @ ex_digest @ ''","size":2},"meta":{"chunk_offsets_ms":null,"duration_ms":null,''
     @ ''"recorded_at":0.0},"parent_call_id":null,"path":"'' @ path @ ''","seq":0,"tool_call_id":null,"type":"fs_write"}''\<close>

definition ex_separator :: string where "ex_separator = [CHR 0xE2, CHR 0x80, CHR 0xA8]"

lemma ex_line: "event_line const_env (ex_writes ''f'') = ex_line ''f''"
  "event_line const_env (ex_writes ex_separator) = ex_line ex_separator"
  by code_simp+

lemma ex_line_utf8: "utf8_valid (file_of [''h'', ex_line ''f''])" "utf8_valid (file_of [''h'', ex_line ex_separator])"
  "utf8_valid (file_of [ex_line ''f''])"
  by code_simp+

lemma ex_line_ends: "no_line_ends (ex_line ''f'')" "no_line_ends (ex_line ex_separator) = False"
  by code_simp+

lemma ex_line_size: "length (ex_line ''f'') \<le> 1000" "length (ex_line ex_separator) \<le> 1000"
  by (simp_all add: ex_line_def ex_digest_def ex_separator_def)

lemma ex_manifest_size:
  "length (manifest_bytes const_env (manifest_of const_env (ex_validated ''f''))) \<le> 1000"
  "length (manifest_bytes const_env (manifest_of const_env (ex_validated ex_separator))) \<le> 1000"
  by code_simp+

lemma line_not_blank: "\<not> blank (event_line env se @ t)"
proof -
  obtain cs where cs: "event_line env se @ t = CHR ''{'' # cs" using event_line_start [of env se] by (cases "event_line env se") auto
  have "CHR ''{'' # w \<notin> set space_chars" for w
    by (auto simp: space_chars_def bytes_of_def eq_char_of byte_val_def)
  then show ?thesis unfolding cs blank_def by (simp add: is_space_def)
qed

lemma tar_length: "length (tar_write (ex_bc path) (sort_key fst es)) = sum_list (map (\<lambda>(n, data). length n + length data) es)"
proof -
  have "length (concat (map (\<lambda>(n, data). n @ data) es)) = sum_list (map (\<lambda>(n, data). length n + length data) es)"
    for es :: "(string \<times> string) list" by (induction es) auto
  moreover have "sum_list (map f (sort_key fst es)) = sum_list (map f es)" for f :: "string \<times> string \<Rightarrow> nat"
    by (metis mset_map mset_sort sum_mset_sum_list)
  ultimately show ?thesis by (simp add: ex_bc_def)
qed

lemma ex_built:
  assumes "event_line const_env (ex_writes path) = ex_line path" "utf8_valid (file_of [''h'', ex_line path])"
    and "length (ex_line path) \<le> 1000" "length (manifest_bytes const_env (manifest_of const_env (ex_validated path))) \<le> 1000"
  shows "\<exists>raw. build_bundle const_env (ex_bc path) (ex_source path) = Inr raw"
    and "validate_cassette const_env (bundle_cc (ex_bc path)) (ex_source path) = Inr (ex_validated path)"
    and "load_manifest (ex_bc path) (manifest_bytes const_env (manifest_of const_env (ex_validated path)))
      = Inr (manifest_of const_env (ex_validated path))"
proof -
  have cc: "bundle_cc (ex_bc path) = ex_lines path" by (simp add: ex_bc_def)
  have "cassette_text const_env (ex_lines path) (v_header (ex_validated path)) [ex_writes path] = file_of [''h'', ex_line path]"
    by (simp add: cassette_text_def ex_lines_def file_of_def assms(1))
  then show v: "validate_cassette const_env (bundle_cc (ex_bc path)) (ex_source path) = Inr (ex_validated path)"
    using ex_source_valid [of path] assms(2) line_not_blank by (simp add: cc)
  show "load_manifest (ex_bc path) (manifest_bytes const_env (manifest_of const_env (ex_validated path)))
      = Inr (manifest_of const_env (ex_validated path))" by (simp add: ex_bc_def)
  have es: "v_events (ex_validated path) = [ex_writes path]" "length (bundle_entries const_env (ex_validated path)) = 3"
    by (simp_all add: ex_validated_def bundle_entries_def)
  have data: "event_data const_env [ex_writes path] = file_of [ex_line path]" by (simp add: event_data_file assms(1))
  have d: "is_digest ex_digest" "sha256_hex const_env x = ex_digest" for x
    by (simp_all add: ex_digest_def is_digest_def hex_char_def list_all_iff sha256_hex_def const_env_def)
  have run: "run_digest const_env es = ex_digest" for es by (simp add: run_digest_def d(2))
  have m: "manifest_ok (manifest_of const_env (ex_validated path))"
    using d run by (simp add: manifest_ok_def manifest_of_def ex_validated_def bundle_entry_ok_def blob_entry_ok_def
        cassette_of_def MAX_EVENTS_def MAX_BLOB_BYTES_def MAX_ENTRIES_def)
  have blob: "length (blob_file ex_digest) = 76" by (rule blob_file_length) (rule d)
  have "length (bundle_bytes (ex_bc path) (bundle_entries const_env (ex_validated path))) \<le> 3000"
    using assms(3,4) blob unfolding bundle_bytes_def tar_length
    by (simp add: bundle_entries_def ex_validated_def data file_of_def MANIFEST_PATH_def EVENTS_PATH_def)
  then have "int (length (event_data const_env [ex_writes path])) \<le> MAX_EVENT_BYTES"
    "int (length (bundle_bytes (ex_bc path) (bundle_entries const_env (ex_validated path)))) \<le> MAX_BUNDLE_BYTES"
    using assms(3) by (simp_all add: data file_of_def MAX_EVENT_BYTES_def MAX_BUNDLE_BYTES_def)
  then show "\<exists>raw. build_bundle const_env (ex_bc path) (ex_source path) = Inr raw"
    using m by (simp add: build_bundle_def v es MAX_EVENTS_def MAX_ENTRIES_def Let_def)
qed

lemmas ex_built_f = ex_built [OF ex_line(1) ex_line_utf8(1) ex_line_size(1) ex_manifest_size(1)]
lemmas ex_built_sep = ex_built [OF ex_line(2) ex_line_utf8(2) ex_line_size(2) ex_manifest_size(2)]

lemma ex_laws:
  "list_all (bundle_line_loads const_env (bundle_cc (ex_bc ''f''))) (v_events (ex_validated ''f''))"
  "list_all (\<lambda>se. no_line_ends (event_line const_env se)) (v_events (ex_validated ''f''))"
  "utf8_valid (event_data const_env (v_events (ex_validated ''f'')))"
  "\<not> list_all (\<lambda>se. no_line_ends (event_line const_env se)) (v_events (ex_validated ex_separator))"
proof -
  show "list_all (bundle_line_loads const_env (bundle_cc (ex_bc ''f''))) (v_events (ex_validated ''f''))"
    by (simp add: ex_validated_def bundle_line_loads_def parse_line_def ex_bc_def ex_lines_def ex_writes_def)
  show "list_all (\<lambda>se. no_line_ends (event_line const_env se)) (v_events (ex_validated ''f''))"
    "\<not> list_all (\<lambda>se. no_line_ends (event_line const_env se)) (v_events (ex_validated ex_separator))"
    using ex_line_ends by (simp_all add: ex_validated_def ex_line)
  show "utf8_valid (event_data const_env (v_events (ex_validated ''f'')))"
    using ex_line_utf8(3) by (simp add: ex_validated_def event_data_file ex_line)
qed

theorem bundle_roundtrip_witness:
  "case build_bundle const_env (ex_bc ''f'') (ex_source ''f'') of
     Inl _ \<Rightarrow> False
   | Inr raw \<Rightarrow> (case validate_bundle const_env (ex_bc ''f'') raw of Inl _ \<Rightarrow> False | Inr b \<Rightarrow> vb_events b = [ex_writes ''f''])"
proof -
  obtain raw where raw: "build_bundle const_env (ex_bc ''f'') (ex_source ''f'') = Inr raw" using ex_built_f(1) by blast
  show ?thesis
    using bundle_roundtrip [OF raw ex_built_f(2) ex_tar ex_built_f(3) ex_laws(1-3)] raw by (simp add: ex_validated_def)
qed

theorem bundle_sound_witness:
  "case build_bundle const_env (ex_bc ''f'') (ex_source ''f'') of
     Inl _ \<Rightarrow> False
   | Inr raw \<Rightarrow> (case validate_bundle const_env (ex_bc ''f'') raw of
       Inl _ \<Rightarrow> False | Inr b \<Rightarrow> fst ` set (vb_blobs b) = blob_digests (vb_events b) \<and> numbered_from 0 (vb_events b))"
proof -
  obtain raw where raw: "build_bundle const_env (ex_bc ''f'') (ex_source ''f'') = Inr raw" using ex_built_f(1) by blast
  obtain b where "validate_bundle const_env (ex_bc ''f'') raw = Inr b"
    using validate_built [OF raw ex_built_f(2) ex_tar ex_built_f(3) ex_laws(1-3)] by blast
  with bundle_sound [OF this] raw show ?thesis by simp
qed

theorem bundle_refuses_line_ends_witness:
  "case build_bundle const_env (ex_bc ex_separator) (ex_source ex_separator) of
     Inl _ \<Rightarrow> False
   | Inr raw \<Rightarrow> validate_bundle const_env (ex_bc ex_separator) raw = Inl ValueError"
proof -
  obtain raw where raw: "build_bundle const_env (ex_bc ex_separator) (ex_source ex_separator) = Inr raw"
    using ex_built_sep(1) by blast
  have plain: "one_line (frepr const_env x)" for x by (simp add: const_env_def)
  from bundle_refuses_line_ends [OF raw ex_built_sep(2) ex_tar ex_built_sep(3) plain ex_laws(4)] show ?thesis using raw by simp
qed

end
