(* ===== verification/Encoding.thy ===== *)
theory Encoding
  imports Json
begin

text \<open>
  What the exporters use of Python's text functions besides the canonical writer: \<open>json.dumps\<close> with its default
  \<open>ensure_ascii=True\<close> and with \<open>indent=2\<close>, \<open>bytes.decode("utf-8", errors="replace")\<close>, and
  \<open>round(x, 4)\<close>.
\<close>

section \<open>ASCII JSON\<close>

text \<open>The code point of a character given by its UTF-8 bytes.\<close>

definition code_point :: "string \<Rightarrow> nat" where
  "code_point c =
     (case map byte_val c of
        [a] \<Rightarrow> a
      | [a, b] \<Rightarrow> (a - 192) * 64 + (b - 128)
      | [a, b, d] \<Rightarrow> (a - 224) * 4096 + (b - 128) * 64 + (d - 128)
      | [a, b, d, e] \<Rightarrow> (a - 240) * 262144 + (b - 128) * 4096 + (d - 128) * 64 + (e - 128)
      | _ \<Rightarrow> 0)"

text \<open>\<open>"\\u{0:04x}"\<close>, and a surrogate pair beyond the basic plane.\<close>

definition unicode_escape :: "nat \<Rightarrow> string" where
  "unicode_escape n =
     [CHR 0x5C, CHR ''u'', hex_digit (n div 4096 mod 16), hex_digit (n div 256 mod 16),
      hex_digit (n div 16 mod 16), hex_digit (n mod 16)]"

definition esc_ascii :: "string \<Rightarrow> string" where
  "esc_ascii c =
     (case c of
        [b] \<Rightarrow> if byte_val b < 127 then esc_char b else unicode_escape (byte_val b)
      | _ \<Rightarrow>
          let n = code_point c
          in if n < 65536 then unicode_escape n
             else unicode_escape (55296 + (n - 65536) div 1024) @ unicode_escape (56320 + (n - 65536) mod 1024))"

definition quote_ascii :: "string \<Rightarrow> string" where
  "quote_ascii s = CHR 0x22 # concat (map esc_ascii (utf8_chars s)) @ [CHR 0x22]"

definition newline :: "nat \<Rightarrow> string" where
  "newline n = CHR 0x0A # replicate n (CHR '' '')"

text \<open>\<open>json.dumps(value, indent=2)\<close> at an indentation.\<close>

primrec pretty :: "(real \<Rightarrow> string) \<Rightarrow> json \<Rightarrow> nat \<Rightarrow> string" where
  "pretty frepr JNull = (\<lambda>n. ''null'')"
| "pretty frepr (JBool b) = (\<lambda>n. if b then ''true'' else ''false'')"
| "pretty frepr (JInt i) = (\<lambda>n. int_str i)"
| "pretty frepr (JFloat x) = (\<lambda>n. frepr x)"
| "pretty frepr (JStr s) = (\<lambda>n. quote_ascii s)"
| "pretty frepr (JArr vs) = (\<lambda>n.
     if vs = [] then ''[]''
     else ''['' @ newline (n + 2)
       @ join_str ('','' @ newline (n + 2)) (map (\<lambda>f. f (n + 2)) (map (pretty frepr) vs)) @ newline n @ '']'')"
| "pretty frepr (JObj kvs) = (\<lambda>n.
     if kvs = [] then ''{}''
     else ''{'' @ newline (n + 2)
       @ join_str ('','' @ newline (n + 2))
           (map (\<lambda>(k, f). quote_ascii k @ '': '' @ f (n + 2)) (map (map_prod id (pretty frepr)) kvs))
       @ newline n @ ''}'')"

text \<open>\<open>json.dumps(value, separators=(",", ":"))\<close>.\<close>

primrec render_ascii :: "(real \<Rightarrow> string) \<Rightarrow> json \<Rightarrow> string" where
  "render_ascii frepr JNull = ''null''"
| "render_ascii frepr (JBool b) = (if b then ''true'' else ''false'')"
| "render_ascii frepr (JInt i) = int_str i"
| "render_ascii frepr (JFloat x) = frepr x"
| "render_ascii frepr (JStr s) = quote_ascii s"
| "render_ascii frepr (JArr vs) = ''['' @ join_str '','' (map (render_ascii frepr) vs) @ '']''"
| "render_ascii frepr (JObj kvs) =
     ''{'' @ join_str '','' (map (\<lambda>(k, s). quote_ascii k @ '':'' @ s) (map (map_prod id (render_ascii frepr)) kvs)) @ ''}''"

section \<open>Lossy decoding\<close>

definition cont :: "nat \<Rightarrow> bool" where
  "cont b \<longleftrightarrow> 128 \<le> b \<and> b < 192"

text \<open>
  One step of the UTF-8 decoder: how many bytes it takes, and whether they are a character. Bytes that are not are the
  longest beginning of a character.
\<close>

fun utf8_step :: "nat list \<Rightarrow> nat \<times> bool" where
  "utf8_step [] = (0, True)"
| "utf8_step (a # r) =
     (if a < 128 then (1, True)
      else if 194 \<le> a \<and> a \<le> 223 then
        (case r of b # _ \<Rightarrow> if cont b then (2, True) else (1, False) | [] \<Rightarrow> (1, False))
      else if 224 \<le> a \<and> a \<le> 239 then
        (case r of
           b # r' \<Rightarrow>
             if cont b \<and> (a = 224 \<longrightarrow> 160 \<le> b) \<and> (a = 237 \<longrightarrow> b < 160) then
               (case r' of c # _ \<Rightarrow> if cont c then (3, True) else (2, False) | [] \<Rightarrow> (2, False))
             else (1, False)
         | [] \<Rightarrow> (1, False))
      else if 240 \<le> a \<and> a \<le> 244 then
        (case r of
           b # r' \<Rightarrow>
             if cont b \<and> (a = 240 \<longrightarrow> 144 \<le> b) \<and> (a = 244 \<longrightarrow> b < 144) then
               (case r' of
                  c # r'' \<Rightarrow>
                    if cont c then (case r'' of d # _ \<Rightarrow> if cont d then (4, True) else (3, False) | [] \<Rightarrow> (3, False))
                    else (2, False)
                | [] \<Rightarrow> (2, False))
             else (1, False)
         | [] \<Rightarrow> (1, False))
      else (1, False))"

definition replacement :: string where
  "replacement = [CHR 0xEF, CHR 0xBF, CHR 0xBD]"

lemma utf8_step_pos: "s \<noteq> [] \<Longrightarrow> 0 < fst (utf8_step s)"
  by (cases s) (auto split: list.splits)

function decode_replace :: "string \<Rightarrow> string" where
  "decode_replace s =
     (if s = [] then []
      else let taken = utf8_step (map byte_val s)
           in (if snd taken then take (fst taken) s else replacement) @ decode_replace (drop (fst taken) s))"
  by pat_completeness auto
termination
proof (relation "measure length", goal_cases)
  case (2 s taken)
  then have "0 < fst taken" using utf8_step_pos [of "map byte_val s"] by auto
  then show ?case using 2 by simp
qed simp

declare decode_replace.simps [simp del]

text \<open>A text is decoded to itself, and what is decoded is a text.\<close>

lemma decode_replace_valid: "utf8_valid s \<Longrightarrow> decode_replace s = s"
proof (induction s rule: decode_replace.induct)
  case (1 s)
  show ?case
  proof (cases s)
    case (Cons c cs)
    obtain n ok where st: "utf8_step (map byte_val s) = (n, ok)" by force
    have "ok \<and> utf8_valid (drop n s)"
      using 1(2) st unfolding Cons utf8_valid_def
      by (auto simp: cont_def Let_def split: if_splits list.splits)
    moreover have "decode_replace (drop n s) = drop n s" using 1(1) [OF _ refl] calculation st Cons by simp
    ultimately show ?thesis using st Cons by (subst decode_replace.simps) simp
  qed (simp add: decode_replace.simps)
qed

lemma utf8_ok_replacement: "utf8_ok (map byte_val replacement @ r) = utf8_ok r"
  by (simp add: replacement_def byte_val_def)

lemma utf8_step_append: "utf8_step s = (n, True) \<Longrightarrow> s \<noteq> [] \<Longrightarrow> utf8_ok r \<Longrightarrow> utf8_ok (take n s @ r)"
  by (cases s) (auto simp: cont_def split: if_splits list.splits)

lemma utf8_valid_decode_replace: "utf8_valid (decode_replace s)"
proof (induction s rule: decode_replace.induct)
  case (1 s)
  show ?case
  proof (cases "s = []")
    case False
    obtain n ok where st: "utf8_step (map byte_val s) = (n, ok)" by force
    have ih: "utf8_ok (map byte_val (decode_replace (drop n s)))"
      using 1(1) [OF False refl] by (simp add: utf8_valid_def st)
    show ?thesis
      using ih utf8_step_append [of "map byte_val s" n] utf8_ok_replacement st False
      by (subst decode_replace.simps) (auto simp: utf8_valid_def take_map)
  qed (simp add: decode_replace.simps utf8_valid_def)
qed

section \<open>Rounding\<close>

text \<open>\<open>round(x, 4)\<close> of a float: to the nearest multiple of a ten-thousandth, ties to an even one.\<close>

definition round4 :: "real \<Rightarrow> real" where
  "round4 x =
     (let y = x * 10000; f = floor y; d = y - of_int f
      in of_int (if d < 1 / 2 \<or> d = 1 / 2 \<and> even f then f else f + 1) / 10000)"

section \<open>Lengths\<close>

text \<open>A bound of the rendered length that does not look at characters.\<close>

primrec json_weight :: "(real \<Rightarrow> string) \<Rightarrow> json \<Rightarrow> int" where
  "json_weight fr JNull = 4"
| "json_weight fr (JBool b) = 5"
| "json_weight fr (JInt n) = int (length (int_str n))"
| "json_weight fr (JFloat x) = int (length (fr x))"
| "json_weight fr (JStr s) = 12 * int (length s) + 2"
| "json_weight fr (JArr vs) = sum_list (map (\<lambda>n. n + 1) (map (json_weight fr) vs)) + 2"
| "json_weight fr (JObj kvs) =
     sum_list (map (\<lambda>(k, n). 12 * int (length k) + n + 4) (map (map_prod id (json_weight fr)) kvs)) + 2"

lemma length_quoted:
  "int (length (quote_str s)) \<le> 12 * int (length s) + 2" "int (length (quote_ascii s)) \<le> 12 * int (length s) + 2"
proof -
  have esc: "length (esc_char c) \<le> 6" "length (esc_ascii u) \<le> 12" for c u
    by (auto simp: esc_char_def esc_ascii_def unicode_escape_def Let_def split: list.splits)
  show "int (length (quote_str s)) \<le> 12 * int (length s) + 2"
  proof (induction s)
    case (Cons c s)
    then show ?case using esc(1) [of c] by (simp add: quote_str_def)
  qed (simp add: quote_str_def)
  have "length (concat (map esc_ascii us)) \<le> 12 * length us" for us
  proof (induction us)
    case (Cons u us)
    then show ?case using esc(2) [of u] by simp
  qed simp
  moreover have "length (utf8_chars s) \<le> length s"
  proof (induction s rule: utf8_chars.induct)
    case (2 c cs)
    then show ?case using length_dropWhile_le [of is_cont cs] by simp
  qed simp
  ultimately have "length (concat (map esc_ascii (utf8_chars s))) \<le> 12 * length s"
    by (meson le_trans mult_le_mono2)
  then show "int (length (quote_ascii s)) \<le> 12 * int (length s) + 2" by (simp add: quote_ascii_def)
qed

lemma length_commas: "int (length (join_str '','' xs)) \<le> sum_list (map (\<lambda>x. int (length x) + 1) xs)"
  by (induction "'',''" xs rule: join_str.induct) simp_all

lemma length_fields:
  assumes "\<And>s. int (length (q s)) \<le> 12 * int (length s) + 2" "\<And>k v. (k, v) \<in> set kvs \<Longrightarrow> int (length (r v)) \<le> w v"
  shows "int (length (join_str '','' (map (\<lambda>(k, v). q k @ '':'' @ r v) kvs)))
    \<le> sum_list (map (\<lambda>(k, v). 12 * int (length k) + w v + 4) kvs)"
proof -
  have "sum_list (map (\<lambda>kv. int (length (case kv of (k, v) \<Rightarrow> q k @ '':'' @ r v)) + 1) kvs)
      \<le> sum_list (map (\<lambda>(k, v). 12 * int (length k) + w v + 4) kvs)"
  proof (rule sum_list_mono, clarify)
    fix k v
    assume "(k, v) \<in> set kvs"
    then show "int (length (q k @ '':'' @ r v)) + 1 \<le> 12 * int (length k) + w v + 4"
      using assms(1) [of k] assms(2) by fastforce
  qed
  then show ?thesis using length_commas [of "map (\<lambda>(k, v). q k @ '':'' @ r v) kvs"] by (simp add: comp_def)
qed

lemma length_render:
  "int (length (render fr j)) \<le> json_weight fr j \<and> int (length (render_ascii fr j)) \<le> json_weight fr j"
proof (induction j)
  case (JStr s)
  show ?case using length_quoted by simp
next
  case (JArr vs)
  have "sum_list (map (\<lambda>v. int (length (r v)) + 1) vs) \<le> sum_list (map (\<lambda>v. json_weight fr v + 1) vs)"
    if "\<And>v. v \<in> set vs \<Longrightarrow> int (length (r v)) \<le> json_weight fr v" for r
    by (rule sum_list_mono) (use that in simp)
  then show ?case
    using JArr length_commas [of "map (render fr) vs"] length_commas [of "map (render_ascii fr) vs"] by (force simp: comp_def)
next
  case (JObj kvs)
  have "int (length (render fr v)) \<le> json_weight fr v" "int (length (render_ascii fr v)) \<le> json_weight fr v"
    if "(k, v) \<in> set kvs" for k v using JObj [OF that, of v] by (simp_all add: snds.simps)
  then show ?case
    using length_fields [OF length_quoted(1), of kvs "render fr" "json_weight fr"]
      length_fields [OF length_quoted(2), of kvs "render_ascii fr" "json_weight fr"]
    by (simp add: comp_def map_prod_def case_prod_unfold)
qed auto

lemma weight_sort_keys: "json_weight fr (sort_keys j) = json_weight fr j"
proof (induction j)
  case (JObj kvs)
  have "sum_list (map f (sort_key fst xs)) = sum_list (map f xs)" for f :: "string \<times> json \<Rightarrow> int" and xs
    using mset_map [of f xs] by (metis mset_map mset_sort sum_mset_sum_list)
  moreover have "map (map_prod id (json_weight fr \<circ> sort_keys)) kvs = map (map_prod id (json_weight fr)) kvs"
    using JObj by (intro map_cong refl) (auto simp: snds.simps)
  ultimately show ?case by (simp add: o_def map_prod_def case_prod_unfold cong: map_cong)
qed (auto cong: map_cong)

end
