(* ===== verification/Report.thy ===== *)
theory Report
  imports Encoding Align Tokens Store
begin

text \<open>
  The comparison report (\<open>src/tracewake/report.py\<close>): the table of blocks both runs share, the byte budget of the
  page, the summaries and step details, the payload and the page that carries it.

  A payload is built as typed fields and serialised by \<open>json.dumps\<close> in the order of its keys. The page template is an
  argument (it is a file); reading and writing files is the operating system's. A blob store is its two operations.
\<close>

section \<open>Blocks\<close>

record block_meta =
  bk_kind :: string
  bk_provenance :: string
  bk_chars :: nat

record blocks =
  bl_texts :: "string list"
  bl_meta :: "block_meta list"
  bl_index :: "(string \<times> string \<times> string) \<rightharpoonup> nat"

definition new_blocks :: blocks where
  "new_blocks = \<lparr>bl_texts = [], bl_meta = [], bl_index = Map.empty\<rparr>"

definition add_block :: "string \<Rightarrow> string \<Rightarrow> string \<Rightarrow> blocks \<Rightarrow> nat \<times> blocks" where
  "add_block txt0 kd prov b =
     (let key = (kd, prov, txt0)
      in case bl_index b key of
           Some found \<Rightarrow> (found, b)
         | None \<Rightarrow>
             let index = length (bl_texts b)
             in (index, \<lparr>bl_texts = bl_texts b @ [txt0],
                         bl_meta = bl_meta b @ [\<lparr>bk_kind = kd, bk_provenance = prov, bk_chars = str_len txt0\<rparr>],
                         bl_index = (bl_index b)(key \<mapsto> index)\<rparr>))"

section \<open>The payload\<close>

text \<open>\<open>float("inf")\<close>, which \<open>json.dumps\<close> writes as \<open>Infinity\<close>, is the only value that is not JSON.\<close>

datatype pvalue = Value json | Infinity

record clipped_block =
  cb_meta :: block_meta
  cb_text :: string
  cb_clipped :: bool

record truncation =
  tn_blocks :: nat
  tn_chars :: nat
  tn_limit :: "nat option"

record payload =
  pl_fields :: "(string \<times> pvalue) list"
  pl_blocks :: "clipped_block list"
  pl_truncation :: truncation

definition jnat :: "nat \<Rightarrow> json" where
  "jnat n = JInt (int n)"

definition block_json :: "clipped_block \<Rightarrow> json" where
  "block_json c =
     JObj [(''kind'', JStr (bk_kind (cb_meta c))), (''provenance'', JStr (bk_provenance (cb_meta c))),
           (''chars'', jnat (bk_chars (cb_meta c))), (''text'', JStr (cb_text c)), (''clipped'', JBool (cb_clipped c))]"

definition truncation_json :: "truncation \<Rightarrow> json" where
  "truncation_json t =
     JObj [(''blocks'', jnat (tn_blocks t)), (''chars'', jnat (tn_chars t)), (''limit'', jopt jnat (tn_limit t))]"

fun pvalue_text :: "(real \<Rightarrow> string) \<Rightarrow> pvalue \<Rightarrow> string" where
  "pvalue_text fr (Value v) = render fr v"
| "pvalue_text fr Infinity = ''Infinity''"

definition serialize_payload :: "py_env \<Rightarrow> payload \<Rightarrow> string" where
  "serialize_payload env p =
     ''{'' @ join_str '',''
       (map (\<lambda>(k, v). quote_str k @ '':'' @ pvalue_text (frepr env) v)
         (pl_fields p @ [(''blocks'', Value (JArr (map block_json (pl_blocks p)))),
                         (''truncation'', Value (truncation_json (pl_truncation p)))])) @ ''}''"

section \<open>The budget\<close>

definition clip_block :: "nat option \<Rightarrow> block_meta \<times> string \<Rightarrow> clipped_block" where
  "clip_block limit mt =
     (case mt of (m, t) \<Rightarrow>
        (case limit of
           None \<Rightarrow> \<lparr>cb_meta = m, cb_text = t, cb_clipped = False\<rparr>
         | Some l \<Rightarrow>
             if str_len t \<le> l then \<lparr>cb_meta = m, cb_text = t, cb_clipped = False\<rparr>
             else \<lparr>cb_meta = m, cb_text = take_chars l t, cb_clipped = True\<rparr>))"

definition over_limit :: "nat option \<Rightarrow> string list \<Rightarrow> string list" where
  "over_limit limit texts = (case limit of None \<Rightarrow> [] | Some l \<Rightarrow> filter (\<lambda>t. l < str_len t) texts)"

definition apply_limit ::
  "(string \<times> pvalue) list \<Rightarrow> block_meta list \<Rightarrow> string list \<Rightarrow> nat option \<Rightarrow> payload" where
  "apply_limit flds metas texts limit =
     \<lparr>pl_fields = flds, pl_blocks = map (clip_block limit) (zip metas texts),
      pl_truncation = \<lparr>tn_blocks = length (over_limit limit texts),
        tn_chars = sum_list (map (\<lambda>t. str_len t - (case limit of None \<Rightarrow> 0 | Some l \<Rightarrow> l)) (over_limit limit texts)),
        tn_limit = limit\<rparr>\<rparr>"

text \<open>The binary search for the longest limit that fits.\<close>

function search :: "(nat \<Rightarrow> bool) \<Rightarrow> int \<Rightarrow> int \<Rightarrow> nat \<Rightarrow> nat" where
  "search fits low high best =
     (if low \<le> high then
        let mid = (low + high) div 2
        in if fits (nat mid) then search fits (mid + 1) high (nat mid) else search fits low (mid - 1) best
      else best)"
  by pat_completeness auto
termination
  by (relation "measure (\<lambda>(fits, low, high, best). nat (high + 1 - low))") auto

declare search.simps [simp del]

definition max_len :: "string list \<Rightarrow> nat" where
  "max_len texts = foldl max 0 (map str_len texts)"

definition fit_budget ::
  "py_env \<Rightarrow> (string \<times> pvalue) list \<Rightarrow> block_meta list \<Rightarrow> string list \<Rightarrow> int \<Rightarrow> payload res" where
  "fit_budget env flds metas texts budget =
     (if length metas \<noteq> length texts then Inl ValueError
      else
        let clipped = apply_limit flds metas texts;
            size = (\<lambda>limit. int (length (serialize_payload env (clipped limit))))
        in if size None \<le> budget then Inr (clipped None)
           else
             let best = search (\<lambda>l. size (Some l) \<le> budget) 0 (int (max_len texts)) 0
             in if size (Some best) > budget then Inl ValueError else Inr (clipped (Some best)))"

section \<open>Summaries\<close>

definition spend_rows :: "token_share list \<Rightarrow> (string \<times> int \<times> int) list" where
  "spend_rows shares =
     foldl (\<lambda>totals s.
         let (inp, out) = (case map_of totals (ts_leaf s) of None \<Rightarrow> (0, 0) | Some c \<Rightarrow> c)
         in AList.update (ts_leaf s) (inp + ts_input s, out + ts_output s) totals) [] shares"

definition spend :: "run_header \<Rightarrow> stored_event list \<Rightarrow> json res" where
  "spend header es =
     bind_res (attribute_tokens header es) (\<lambda>shares.
       Inr (JArr (map (\<lambda>(leaf, inp, out).
                    JObj [(''leaf'', JStr leaf), (''input_tokens'', JInt inp), (''output_tokens'', JInt out)])
                  (sort_key (\<lambda>(leaf, inp, out). - (inp + out)) (spend_rows shares)))))"

fun run_status_str :: "run_status \<Rightarrow> string" where
  "run_status_str Running = ''running''"
| "run_status_str (Ended s) = status_str s"

fun first_outcome :: "any_event list \<Rightarrow> outcome_event option" where
  "first_outcome [] = None"
| "first_outcome (Outcome x # es) = Some x"
| "first_outcome (_ # es) = first_outcome es"

definition outcome_json :: "outcome_event \<Rightarrow> json" where
  "outcome_json x =
     JObj [(''status'', JStr (status_str (oc_status x))), (''coverage'', jopt JBool (oc_coverage x)),
           (''resolve'', jopt JBool (oc_resolve x)), (''test_summary'', jopt JStr (oc_test_summary x)),
           (''error'', jopt JStr (oc_error x))]"

definition run_summary :: "run_header \<Rightarrow> stored_event list \<Rightarrow> nat \<Rightarrow> string \<Rightarrow> json res" where
  "run_summary header es steps store =
     bind_res (spend header es) (\<lambda>spending.
       let calls = call_usages (map event es)
       in Inr (JObj
         [(''run_id'', JStr (hdr_run_id header)), (''name'', JStr (hdr_name header)), (''store'', JStr store),
          (''has_command'', JBool (command header \<noteq> None)), (''task_id'', jopt JStr (task_id header)),
          (''status'', JStr (run_status_str (hdr_status header))),
          (''models'', JArr (map (JStr \<circ> id_model_id) (hdr_models header))), (''started_at'', JFloat (started_at header)),
          (''finished_at'', jopt JFloat (finished_at header)), (''events'', jnat (length es)),
          (''model_calls'', jnat (length calls)), (''steps'', jnat steps),
          (''usage'', JObj [(''input_tokens'', JInt (sum_list (map input_tokens calls))),
                            (''output_tokens'', JInt (sum_list (map output_tokens calls)))]),
          (''spend'', spending), (''outcome'', jopt outcome_json (first_outcome (map event es)))]))"

section \<open>Step details\<close>

definition RESULT_PREVIEW :: nat where
  "RESULT_PREVIEW = 20000"

record blob_source =
  bs_has :: "string \<Rightarrow> bool"
  bs_get :: "string \<Rightarrow> string res"

record tool_detail =
  td_name :: string
  td_target :: string
  td_args :: string
  td_status :: status
  td_error :: "string option"
  td_result :: "nat option"
  td_size :: int
  td_duration :: "real option"

record step_detail =
  sd_i :: nat
  sd_turn :: "nat option"
  sd_name :: string
  sd_target :: string
  sd_targets :: "string list"
  sd_batch :: bool
  sd_reasoning :: "nat option"
  sd_context :: "nat list"
  sd_usage :: "int \<times> int"
  sd_tools :: "tool_detail list"
  sd_wrote :: "string list"
  sd_changed :: nat

fun add_messages :: "message list \<Rightarrow> blocks \<Rightarrow> nat list \<times> blocks" where
  "add_messages [] b = ([], b)"
| "add_messages (m # ms) b =
     (let (i, b1) = add_block (msg_content m) (role_str (role m)) (or_str (provenance m) ''untagged'') b;
          (rest, b2) = add_messages ms b1
      in (i # rest, b2))"

definition add_preview :: "blob_source option \<Rightarrow> string \<Rightarrow> blocks \<Rightarrow> (nat option \<times> blocks) res" where
  "add_preview bsrc d b =
     (case bsrc of
        None \<Rightarrow> Inr (None, b)
      | Some bs \<Rightarrow>
          if \<not> bs_has bs d then Inr (None, b)
          else bind_res (bs_get bs d) (\<lambda>data.
                 let (i, b1) = add_block (decode_replace (take RESULT_PREVIEW data)) ''tool_result'' [] b
                 in Inr (Some i, b1)))"

fun add_tools :: "py_env \<Rightarrow> blob_source option \<Rightarrow> tool_call_event list \<Rightarrow> blocks \<Rightarrow> (tool_detail list \<times> blocks) res" where
  "add_tools env bsrc [] b = Inr ([], b)"
| "add_tools env bsrc (t # ts) b =
     bind_res (add_preview bsrc (digest (tc_result t)) b) (\<lambda>(preview, b1).
     bind_res (add_tools env bsrc ts b1) (\<lambda>(rest, b2).
       Inr (\<lparr>td_name = tc_name t, td_target = target_of env (tc_args t),
             td_args = pretty (frepr env) (sort_keys (JObj (tc_args t))) 0, td_status = tc_status t,
             td_error = tc_error t, td_result = preview, td_size = blob_size (tc_result t),
             td_duration = duration_ms (tc_meta t)\<rparr> # rest, b2)))"

text \<open>The keys of the dictionary of calls, in insertion order, and the place of a key.\<close>

definition call_ids :: "any_event list \<Rightarrow> string list" where
  "call_ids es = nub_onto [] (List.map_filter (\<lambda>e. case e of ModelCall m \<Rightarrow> Some (call_id m) | _ \<Rightarrow> None) es)"

definition turn_of :: "any_event list \<Rightarrow> string \<Rightarrow> nat option" where
  "turn_of es c = map_of (zip (call_ids es) [0..<length (call_ids es)]) c"

fun details_loop ::
  "py_env \<Rightarrow> any_event list \<Rightarrow> blob_source option \<Rightarrow> nat \<Rightarrow> string set \<Rightarrow> step_trace list \<Rightarrow> blocks
    \<Rightarrow> (step_detail list \<times> blocks) res" where
  "details_loop env es bsrc i seen [] b = Inr ([], b)"
| "details_loop env es bsrc i seen (tr # trs) b =
     (let s = tr_step tr;
          call = model_calls_by_id es (tr_parent tr);
          (context, b1) = (case call of None \<Rightarrow> ([], b) | Some c \<Rightarrow> add_messages (mc_messages c) b);
          used = (case call of None \<Rightarrow> (0, 0)
                  | Some c \<Rightarrow> (input_tokens (resp_usage (mc_response c)), output_tokens (resp_usage (mc_response c))))
      in bind_res (add_tools env bsrc (tr_tools tr) b1) (\<lambda>(tools, b2).
           let paths = fst ` changed_files s;
               (reason, b3) = (if reasoning s = [] then (None, b2)
                               else case add_block (reasoning s) ''reasoning'' [] b2 of (r, b') \<Rightarrow> (Some r, b'))
           in bind_res (details_loop env es bsrc (i + 1) paths trs b3) (\<lambda>(rest, b4).
                Inr (\<lparr>sd_i = i, sd_turn = turn_of es (tr_parent tr), sd_name = step_name s, sd_target = step_target s,
                      sd_targets = sorted_list_of_set (targets s), sd_batch = (batch_names s \<noteq> []), sd_reasoning = reason,
                      sd_context = context, sd_usage = used, sd_tools = tools,
                      sd_wrote = sorted_list_of_set (paths - seen), sd_changed = card paths\<rparr> # rest, b4))))"

definition step_details ::
  "py_env \<Rightarrow> step_trace list \<Rightarrow> stored_event list \<Rightarrow> blocks \<Rightarrow> blob_source option \<Rightarrow> (step_detail list \<times> blocks) res" where
  "step_details env traces es b bsrc = details_loop env (map event es) bsrc 0 {} traces b"

definition tool_json :: "tool_detail \<Rightarrow> json" where
  "tool_json t =
     JObj [(''name'', JStr (td_name t)), (''target'', JStr (td_target t)), (''args'', JStr (td_args t)),
           (''status'', JStr (status_str (td_status t))), (''error'', jopt JStr (td_error t)),
           (''result'', jopt jnat (td_result t)), (''result_size'', JInt (td_size t)),
           (''duration_ms'', jopt JFloat (td_duration t))]"

definition usage_json :: "int \<times> int \<Rightarrow> json" where
  "usage_json u = JObj [(''input_tokens'', JInt (fst u)), (''output_tokens'', JInt (snd u))]"

definition detail_json :: "step_detail \<Rightarrow> json" where
  "detail_json d =
     JObj [(''i'', jnat (sd_i d)), (''turn'', jopt jnat (sd_turn d)), (''name'', JStr (sd_name d)),
           (''target'', JStr (sd_target d)), (''targets'', jstrs (sd_targets d)), (''batch'', JBool (sd_batch d)),
           (''reasoning'', jopt jnat (sd_reasoning d)), (''context'', JArr (map jnat (sd_context d))),
           (''usage'', usage_json (sd_usage d)), (''tools'', JArr (map tool_json (sd_tools d))),
           (''wrote'', jstrs (sd_wrote d)), (''changed'', jnat (sd_changed d))]"

section \<open>Building the payload\<close>

fun class_str :: "reliability_class \<Rightarrow> string" where
  "class_str CommitShort = ''commit-short''"
| "class_str SilentShort = ''silent-short''"
| "class_str CommitLongSingle = ''commit-long-single''"
| "class_str CommitLongMany = ''commit-long-many''"
| "class_str SilentLong = ''silent-long''"

fun band_str :: "confidence \<Rightarrow> string" where
  "band_str High = ''high''"
| "band_str Moderate = ''moderate''"
| "band_str Low = ''low''"
| "band_str VeryLow = ''very low''"

definition check_same_steps :: "step_trace list \<Rightarrow> step list \<Rightarrow> unit res" where
  "check_same_steps traces steps = guard_res (map tr_step traces = steps) ValueError"

definition column_json :: "diff_result \<Rightarrow> nat option \<times> nat option \<Rightarrow> json res" where
  "column_json r col =
     (case col of (i, j) \<Rightarrow>
        bind_res (case (i, j) of
            (Some a, Some b) \<Rightarrow>
              if a \<ge> length (good_steps r) \<or> b \<ge> length (bad_steps r) then Inl IndexError
              else Inr (target_agree (good_steps r ! a) (bad_steps r ! b))
          | _ \<Rightarrow> Inr False) (\<lambda>agree.
        bind_res (column_similarity r i j) (\<lambda>similarity.
          Inr (JObj [(''g'', jopt jnat i), (''b'', jopt jnat j), (''agree'', JBool agree),
                     (''similarity'', jopt (JFloat \<circ> round4) similarity)]))))"

fun ratio_pvalue :: "ratio_value \<Rightarrow> pvalue" where
  "ratio_pvalue (Ratio x) = Value (JFloat (round4 x))"
| "ratio_pvalue Infinite_Ratio = Infinity"

definition run_localize :: "step list \<Rightarrow> (nat \<times> reliability_class) option res" where
  "run_localize bad = (if bad = [] then Inr None else bind_res (localize bad) (\<lambda>x. Inr (Some x)))"

definition payload_fields ::
  "json \<Rightarrow> json \<Rightarrow> (nat \<times> reliability_class) option \<Rightarrow> diff_result \<Rightarrow> string \<Rightarrow> string \<Rightarrow> json list \<Rightarrow>
   step_detail list \<Rightarrow> step_detail list \<Rightarrow> (string \<times> pvalue) list" where
  "payload_fields good bad found r store store_b columns good_details bad_details =
     [(''good'', Value good), (''bad'', Value bad), (''divergence'', Value (jopt (jnat \<circ> fst) found)),
      (''reliability'', Value (jopt (JStr \<circ> class_str \<circ> snd) found)),
      (''confidence'', Value (jopt (JStr \<circ> band_str \<circ> RELIABILITY_BAND \<circ> snd) found)),
      (''alignment_divergence'', Value (jopt jnat (dr_divergence r))), (''score'', Value (JFloat (round4 (dr_score r)))),
      (''length_ratio'', ratio_pvalue (dr_length_ratio r)), (''excluded_by_length'', Value (JBool (excluded_by_length r))),
      (''embedding'', Value (JObj [(''model'', jopt JStr (embedding_model r)), (''revision'', jopt JStr (embedding_revision r))])),
      (''store'', Value (JStr store)), (''store_b'', Value (JStr store_b)), (''columns'', Value (JArr columns)),
      (''steps'', Value (JObj [(''good'', JArr (map detail_json good_details)), (''bad'', JArr (map detail_json bad_details))]))]"

record run_data =
  rd_header :: run_header
  rd_events :: "stored_event list"
  rd_blobs :: "blob_source option"

definition build_payload ::
  "py_env \<Rightarrow> run_data \<Rightarrow> run_data \<Rightarrow> diff_result \<Rightarrow> string \<Rightarrow> string option \<Rightarrow> int \<Rightarrow> payload res" where
  "build_payload env good bad r store store_path_b budget =
     (let good_traces = extract_traces env (rd_events good) False;
          bad_traces = extract_traces env (rd_events bad) False;
          store_b = (case store_path_b of None \<Rightarrow> store | Some s \<Rightarrow> s);
          blobs_b = (case rd_blobs bad of None \<Rightarrow> rd_blobs good | Some s \<Rightarrow> Some s)
      in bind_res (check_same_steps good_traces (good_steps r)) (\<lambda>_.
         bind_res (check_same_steps bad_traces (bad_steps r)) (\<lambda>_.
         bind_res (step_details env good_traces (rd_events good) new_blocks (rd_blobs good)) (\<lambda>(good_details, b1).
         bind_res (step_details env bad_traces (rd_events bad) b1 blobs_b) (\<lambda>(bad_details, b2).
         bind_res (map_res (column_json r) (dr_alignment r)) (\<lambda>columns.
         bind_res (run_localize (bad_steps r)) (\<lambda>found.
         bind_res (run_summary (rd_header good) (rd_events good) (length (good_steps r)) store) (\<lambda>good_json.
         bind_res (run_summary (rd_header bad) (rd_events bad) (length (bad_steps r)) store_b) (\<lambda>bad_json.
           fit_budget env (payload_fields good_json bad_json found r store store_b columns good_details bad_details)
             (bl_meta b2) (bl_texts b2) budget)))))))))"

section \<open>The page\<close>

definition TITLE_MARK :: string where "TITLE_MARK = ''__TRACEWAKE_TITLE__''"
definition PAYLOAD_MARK :: string where "PAYLOAD_MARK = ''__TRACEWAKE_PAYLOAD__''"

definition escape_html :: "string \<Rightarrow> string" where
  "escape_html t = replace_str ''>'' ''&gt;'' (replace_str ''<'' ''&lt;'' (replace_str ''&'' ''&amp;'' t))"

definition data_island :: "py_env \<Rightarrow> payload \<Rightarrow> string" where
  "data_island env p = replace_str ''<'' (CHR 0x5C # ''u003c'') (serialize_payload env p)"

definition render_page :: "py_env \<Rightarrow> string \<Rightarrow> payload \<Rightarrow> string \<Rightarrow> string" where
  "render_page env template p title =
     replace_str PAYLOAD_MARK (data_island env p) (replace_str TITLE_MARK (escape_html title) template)"

definition report_title :: "run_header \<Rightarrow> run_header \<Rightarrow> string" where
  "report_title good bad = or_str (task_id good) (hdr_name good @ '' vs '' @ hdr_name bad)"

definition write_report ::
  "py_env \<Rightarrow> string \<Rightarrow> run_data \<Rightarrow> run_data \<Rightarrow> diff_result \<Rightarrow> string \<Rightarrow> string option \<Rightarrow> int \<Rightarrow> (payload \<times> string) res" where
  "write_report env template good bad r store store_path_b budget =
     bind_res (build_payload env good bad r store store_path_b budget) (\<lambda>p.
       Inr (p, render_page env template p (report_title (rd_header good) (rd_header bad))))"

section \<open>Sizes\<close>

lemma nat_str_length: "length (nat_str n) = (if n < 10 then 1 else Suc (length (nat_str (n div 10))))"
  by (subst nat_str.simps) simp

lemma nat_str_mono: "m \<le> n \<Longrightarrow> length (nat_str m) \<le> length (nat_str n)"
proof (induction n arbitrary: m rule: less_induct)
  case (less n)
  have "length (nat_str (m div 10)) \<le> length (nat_str (n div 10))" if "\<not> n < 10"
    using that less by (intro less.IH div_le_mono) auto
  then show ?case using less.prems by (subst (1 2) nat_str_length) auto
qed

lemma nat_str_Suc: "length (nat_str (Suc n)) \<le> Suc (length (nat_str n))"
proof (induction n rule: less_induct)
  case (less n)
  have d: "Suc n div 10 \<le> Suc (n div 10)" by (simp add: div_Suc)
  show ?case
  proof (cases "n < 10")
    case True
    then have "Suc n div 10 < 10" by simp
    then show ?thesis using True by (simp add: nat_str_length [of "Suc n"] nat_str_length [of n] nat_str_length [of "Suc n div 10"])
  next
    case False
    then have "length (nat_str (Suc (n div 10))) \<le> Suc (length (nat_str (n div 10)))" by (intro less.IH) auto
    then have "length (nat_str (Suc n div 10)) \<le> Suc (length (nat_str (n div 10)))"
      using nat_str_mono [OF d] by linarith
    then show ?thesis using False by (subst (1 2) nat_str_length) auto
  qed
qed

lemma nat_str_add: "length (nat_str (m + k)) \<le> length (nat_str m) + k"
proof (induction k)
  case (Suc k)
  then show ?case using nat_str_Suc [of "m + k"] by simp
qed simp

lemma length_join: "length (join_str sep xs) = sum_list (map length xs) + (length xs - 1) * length sep"
proof (induction sep xs rule: join_str.induct)
  case (3 sep s t ts)
  then show ?case by (cases ts) auto
qed simp_all

definition esc_len :: "string \<Rightarrow> nat" where
  "esc_len t = sum_list (map (length \<circ> esc_char) t)"

lemma length_quote: "length (quote_str t) = esc_len t + 2"
  by (simp add: quote_str_def esc_len_def length_concat comp_def)

lemma esc_char_pos: "0 < length (esc_char c)"
  by (simp add: esc_char_def)

lemma esc_len_append: "esc_len (s @ t) = esc_len s + esc_len t"
  by (simp add: esc_len_def)

lemma esc_len_pos: "s \<noteq> [] \<Longrightarrow> 0 < esc_len s"
  using esc_char_pos by (cases s) (auto simp: esc_len_def)

lemma take_chars_all: "str_len t \<le> l \<Longrightarrow> take_chars l t = t"
  by (simp add: take_chars_def str_len_def concat_utf8_chars)

lemma take_chars_step: "l < str_len t \<Longrightarrow> Suc (esc_len (take_chars l t)) \<le> esc_len (take_chars (Suc l) t)"
proof -
  assume "l < str_len t"
  then have l: "l < length (utf8_chars t)" by (simp add: str_len_def)
  then have "0 < esc_len (utf8_chars t ! l)" using utf8_chars_ne [OF nth_mem] by (intro esc_len_pos)
  then show ?thesis using l by (simp add: take_chars_def take_Suc_conv_app_nth esc_len_append)
qed

text \<open>The size of a block, apart from its meta data.\<close>

definition text_size :: "nat \<Rightarrow> string \<Rightarrow> nat" where
  "text_size l t = (if str_len t \<le> l then esc_len t + 5 else esc_len (take_chars l t) + 4)"

lemma text_size_step:
  "text_size l t + (if l < str_len t then 1 else 0) + (if str_len t = Suc l then 1 else 0) \<le> text_size (Suc l) t"
proof -
  consider "str_len t \<le> l" | "str_len t = Suc l" | "Suc l < str_len t" by linarith
  then show ?thesis
  proof cases
    case 2
    then show ?thesis using take_chars_step [of l t] take_chars_all [of t "Suc l"] by (simp add: text_size_def)
  next
    case 3
    then show ?thesis using take_chars_step [of l t] by (simp add: text_size_def)
  qed (simp add: text_size_def)
qed

definition over_count :: "nat \<Rightarrow> string list \<Rightarrow> nat" where
  "over_count l texts = length (filter (\<lambda>t. l < str_len t) texts)"

definition over_chars :: "nat \<Rightarrow> string list \<Rightarrow> nat" where
  "over_chars l texts = sum_list (map (\<lambda>t. str_len t - l) (filter (\<lambda>t. l < str_len t) texts))"

lemma texts_size_step:
  "sum_list (map (text_size l) texts) + over_count l texts + over_count l texts
     \<le> sum_list (map (text_size (Suc l)) texts) + over_count (Suc l) texts"
proof (induction texts)
  case (Cons t texts)
  then show ?case using text_size_step [of l t] by (auto simp: over_count_def split: if_splits)
qed (simp add: over_count_def)

lemma over_chars_step: "over_chars l texts = over_chars (Suc l) texts + over_count l texts"
  by (induction texts) (auto simp: over_chars_def over_count_def)

lemma over_count_step: "over_count (Suc l) texts \<le> over_count l texts"
  by (induction texts) (auto simp: over_count_def)

text \<open>The size of a payload that is clipped at a limit, with what does not depend on the limit set apart.\<close>

definition block_overhead :: "py_env \<Rightarrow> block_meta \<Rightarrow> nat" where
  "block_overhead env m = length (render (frepr env) (block_json \<lparr>cb_meta = m, cb_text = [], cb_clipped = True\<rparr>)) - 4"

lemma block_size:
  "length (render (frepr env) (block_json (clip_block (Some l) (m, t)))) = block_overhead env m + text_size l t"
  by (simp add: block_overhead_def block_json_def clip_block_def text_size_def length_quote esc_len_def)

lemma blocks_size:
  "length metas = length texts \<Longrightarrow>
   sum_list (map (length \<circ> (render (frepr env) \<circ> (block_json \<circ> clip_block (Some l)))) (zip metas texts))
     = sum_list (map (block_overhead env) metas) + sum_list (map (text_size l) texts)"
  by (induction metas texts rule: list_induct2) (simp_all add: block_size)

definition base_size :: "py_env \<Rightarrow> (string \<times> pvalue) list \<Rightarrow> block_meta list \<Rightarrow> nat" where
  "base_size env flds metas =
     sum_list (map (\<lambda>(k, v). length (quote_str k @ '':'' @ pvalue_text (frepr env) v)) flds) + length flds
     + sum_list (map (block_overhead env) metas) + (length metas - 1)
     + length (render (frepr env) (truncation_json \<lparr>tn_blocks = 0, tn_chars = 0, tn_limit = Some 0\<rparr>)) + 27"

lemma int_str_length: "length (int_str (int n)) = length (nat_str n)"
  by (simp add: int_str_def)

lemma clipped_size:
  assumes "length metas = length texts"
  shows "length (serialize_payload env (apply_limit flds metas texts (Some l))) + 3
    = base_size env flds metas + sum_list (map (text_size l) texts)
      + length (nat_str (over_count l texts)) + length (nat_str (over_chars l texts)) + length (nat_str l)"
proof -
  have "length (int_str 0) = 1" by (simp add: int_str_def nat_str_length)
  then show ?thesis
    using blocks_size [OF assms, of env l] assms
    by (simp add: serialize_payload_def apply_limit_def base_size_def length_join truncation_json_def jopt_def jnat_def
        int_str_length over_limit_def over_count_def over_chars_def length_quote esc_len_def esc_char_def comp_def
        case_prod_unfold byte_val_def)
qed

text \<open>A longer limit never makes the page shorter.\<close>

lemma clipped_size_step:
  assumes "length metas = length texts"
  shows "length (serialize_payload env (apply_limit flds metas texts (Some l)))
    \<le> length (serialize_payload env (apply_limit flds metas texts (Some (Suc l))))"
proof -
  let ?k = "over_count l texts" and ?c = "over_count (Suc l) texts"
  have "length (nat_str ?k) \<le> length (nat_str ?c) + (?k - ?c)"
    using nat_str_add [of ?c "?k - ?c"] over_count_step [of l texts] by simp
  moreover have "length (nat_str (over_chars l texts)) \<le> length (nat_str (over_chars (Suc l) texts)) + ?k"
    using nat_str_add [of "over_chars (Suc l) texts" ?k] over_chars_step [of l texts] by simp
  moreover have "length (nat_str l) \<le> length (nat_str (Suc l))" by (rule nat_str_mono) simp
  ultimately show ?thesis
    using texts_size_step [of l texts] over_count_step [of l texts] clipped_size [OF assms, of env flds l]
      clipped_size [OF assms, of env flds "Suc l"] by linarith
qed

lemma clipped_size_mono:
  assumes "length metas = length texts" "l \<le> l'"
  shows "length (serialize_payload env (apply_limit flds metas texts (Some l)))
    \<le> length (serialize_payload env (apply_limit flds metas texts (Some l')))"
  using assms(2) by (induction rule: dec_induct) (use clipped_size_step [OF assms(1)] order_trans in blast)+

lemma search_longest:
  assumes anti: "\<And>l l'. l \<le> l' \<Longrightarrow> fits l' \<Longrightarrow> fits l"
    and "\<And>l. high < int l \<Longrightarrow> int l \<le> H \<Longrightarrow> \<not> fits l" "low = 0 \<and> best = 0 \<or> fits best \<and> int best = low - 1"
  shows "(search fits low high best = 0 \<or> fits (search fits low high best))
    \<and> (\<forall>l. search fits low high best < l \<and> int l \<le> H \<longrightarrow> \<not> fits l)"
  using assms
proof (induction fits low high best rule: search.induct)
  case (1 fits low high best)
  let ?mid = "(low + high) div 2"
  show ?case
  proof (cases "low \<le> high")
    case False
    have "\<not> fits l" if "best < l" "int l \<le> H" for l
    proof -
      have "low \<le> int l" using that 1(5) by auto
      then show ?thesis using False that(2) 1(4) by force
    qed
    moreover have "best = 0 \<or> fits best" using 1(5) by auto
    ultimately show ?thesis using False by (subst (1 2 3) search.simps) simp
  next
    case True
    have mid: "low \<le> ?mid" "?mid \<le> high" "0 \<le> ?mid" using True 1(5) by auto
    show ?thesis
    proof (cases "fits (nat ?mid)")
      case fits: True
      have "(search fits (?mid + 1) high (nat ?mid) = 0 \<or> fits (search fits (?mid + 1) high (nat ?mid)))
        \<and> (\<forall>l. search fits (?mid + 1) high (nat ?mid) < l \<and> int l \<le> H \<longrightarrow> \<not> fits l)"
      proof (rule 1(1) [OF True refl fits])
        show "fits l" if "l \<le> l'" "fits l'" for l l' by (rule 1(3) [OF that])
        show "\<not> fits l" if "high < int l" "int l \<le> H" for l by (rule 1(4) [OF that])
        show "?mid + 1 = 0 \<and> nat ?mid = 0 \<or> fits (nat ?mid) \<and> int (nat ?mid) = ?mid + 1 - 1" using fits mid by simp
      qed
      then show ?thesis using True fits by (subst (1 2 3) search.simps) (simp add: Let_def)
    next
      case no: False
      have above: "\<not> fits l" if "?mid - 1 < int l" for l
      proof -
        have "nat ?mid \<le> l" using that mid by linarith
        then show ?thesis using no 1(3) by blast
      qed
      have "(search fits low (?mid - 1) best = 0 \<or> fits (search fits low (?mid - 1) best))
        \<and> (\<forall>l. search fits low (?mid - 1) best < l \<and> int l \<le> H \<longrightarrow> \<not> fits l)"
      proof (rule 1(2) [OF True refl no])
        show "fits l" if "l \<le> l'" "fits l'" for l l' by (rule 1(3) [OF that])
        show "\<not> fits l" if "?mid - 1 < int l" "int l \<le> H" for l by (rule above [OF that(1)])
      qed (rule 1(5))
      then show ?thesis using True no by (subst (1 2 3) search.simps) (simp add: Let_def)
    qed
  qed
qed

definition page_size ::
  "py_env \<Rightarrow> (string \<times> pvalue) list \<Rightarrow> block_meta list \<Rightarrow> string list \<Rightarrow> nat option \<Rightarrow> int" where
  "page_size env flds metas texts limit = int (length (serialize_payload env (apply_limit flds metas texts limit)))"

text \<open>
  C26. The budget is kept and no text is clipped more than it has to be: a payload that is returned fits; it is
  whole when the whole one fits, and otherwise it is clipped at the longest limit that does. When an
  error is raised, no limit fits.
\<close>

theorem fit_budget_longest:
  assumes "length metas = length texts"
  shows "case fit_budget env flds metas texts budget of
      Inl e \<Rightarrow> e = ValueError \<and> (\<forall>limit. budget < page_size env flds metas texts limit)
    | Inr p \<Rightarrow> \<exists>limit. p = apply_limit flds metas texts limit \<and> page_size env flds metas texts limit \<le> budget
        \<and> (case limit of None \<Rightarrow> True
           | Some l \<Rightarrow> budget < page_size env flds metas texts None
               \<and> (\<forall>l'. l < l' \<and> l' \<le> max_len texts \<longrightarrow> budget < page_size env flds metas texts (Some l')))"
proof -
  let ?size = "page_size env flds metas texts"
  define best where "best = search (\<lambda>l. ?size (Some l) \<le> budget) 0 (int (max_len texts)) 0"
  have mono: "?size (Some l) \<le> ?size (Some l')" if "l \<le> l'" for l l'
    using clipped_size_mono [OF assms that] by (simp add: page_size_def)
  have best: "(best = 0 \<or> ?size (Some best) \<le> budget) \<and> (\<forall>l. best < l \<and> int l \<le> int (max_len texts) \<longrightarrow> \<not> ?size (Some l) \<le> budget)"
    unfolding best_def
  proof (rule search_longest)
    show "?size (Some l) \<le> budget" if "l \<le> l'" "?size (Some l') \<le> budget" for l l' using mono [OF that(1)] that(2) by linarith
  qed auto
  have fit: "fit_budget env flds metas texts budget =
      (if ?size None \<le> budget then Inr (apply_limit flds metas texts None)
       else if ?size (Some best) > budget then Inl ValueError else Inr (apply_limit flds metas texts (Some best)))"
    using assms by (simp add: fit_budget_def page_size_def best_def Let_def)
  show ?thesis
  proof (cases "?size None \<le> budget \<or> ?size (Some best) \<le> budget")
    case False
    then have "best = 0" using best by auto
    have "budget < ?size limit" for limit
    proof (cases limit)
      case (Some l)
      then show ?thesis using False \<open>best = 0\<close> mono [of 0 l] by auto
    qed (use False in auto)
    then show ?thesis using False by (simp add: fit)
  next
    case True
    have "budget < ?size (Some l')" if "best < l'" "l' \<le> max_len texts" for l' using best that by auto
    then show ?thesis using True by (auto simp: fit)
  qed
qed

section \<open>The shared table\<close>

definition key_at :: "blocks \<Rightarrow> nat \<Rightarrow> string \<times> string \<times> string" where
  "key_at b i = (bk_kind (bl_meta b ! i), bk_provenance (bl_meta b ! i), bl_texts b ! i)"

definition blocks_ok :: "blocks \<Rightarrow> bool" where
  "blocks_ok b \<longleftrightarrow> length (bl_meta b) = length (bl_texts b)
     \<and> (\<forall>k i. bl_index b k = Some i \<longleftrightarrow> i < length (bl_texts b) \<and> key_at b i = k)"

definition extends :: "blocks \<Rightarrow> blocks \<Rightarrow> bool" where
  "extends b b' \<longleftrightarrow> length (bl_texts b) \<le> length (bl_texts b') \<and> (\<forall>i < length (bl_texts b). key_at b' i = key_at b i)"

lemma extends_refl: "extends b b"
  by (simp add: extends_def)

lemma extends_trans: "extends a b \<Longrightarrow> extends b c \<Longrightarrow> extends a c"
  by (simp add: extends_def)

lemma new_blocks_ok: "blocks_ok new_blocks"
  by (simp add: blocks_ok_def new_blocks_def)

lemma add_block_ok:
  assumes "add_block t kd prov b = (i, b')" "blocks_ok b"
  shows "blocks_ok b' \<and> extends b b' \<and> i < length (bl_texts b') \<and> key_at b' i = (kd, prov, t)"
proof (cases "bl_index b (kd, prov, t)")
  case (Some j)
  then show ?thesis using assms by (auto simp: add_block_def blocks_ok_def extends_refl)
next
  case None
  let ?n = "length (bl_texts b)"
  have b': "i = ?n" "bl_texts b' = bl_texts b @ [t]"
    "bl_meta b' = bl_meta b @ [\<lparr>bk_kind = kd, bk_provenance = prov, bk_chars = str_len t\<rparr>]"
    "bl_index b' = (bl_index b)((kd, prov, t) \<mapsto> ?n)"
    using assms(1) None by (auto simp: add_block_def Let_def)
  have len: "length (bl_meta b) = ?n" using assms(2) by (simp add: blocks_ok_def)
  have old: "key_at b' j = key_at b j" if "j < ?n" for j using that len by (simp add: key_at_def b' nth_append)
  have new: "key_at b' ?n = (kd, prov, t)" using len by (simp add: key_at_def b' nth_append)
  have fresh: "key_at b j \<noteq> (kd, prov, t)" if "j < ?n" for j
  proof
    assume "key_at b j = (kd, prov, t)"
    then have "bl_index b (kd, prov, t) = Some j" using assms(2) that by (simp add: blocks_ok_def)
    then show False using None by simp
  qed
  have idx: "bl_index b k = Some j \<longleftrightarrow> j < ?n \<and> key_at b j = k" for k j using assms(2) unfolding blocks_ok_def by blast
  have "bl_index b' k = Some j \<longleftrightarrow> j < length (bl_texts b') \<and> key_at b' j = k" for k j
    using idx [of k j] old [of j] fresh [of j] new by (cases "j = ?n") (auto simp: b')
  then show ?thesis using len old new by (auto simp: blocks_ok_def extends_def b')
qed

lemma add_messages_ok:
  "add_messages ms b = (is, b') \<Longrightarrow> blocks_ok b \<Longrightarrow>
   blocks_ok b' \<and> extends b b' \<and> list_all (\<lambda>i. i < length (bl_texts b')) is
   \<and> map (key_at b') is = map (\<lambda>m. (role_str (role m), or_str (provenance m) ''untagged'', msg_content m)) ms"
proof (induction ms arbitrary: b "is" b')
  case (Cons m ms)
  obtain i b1 where i: "add_block (msg_content m) (role_str (role m)) (or_str (provenance m) ''untagged'') b = (i, b1)" by force
  obtain rest b2 where r: "add_messages ms b1 = (rest, b2)" by force
  note ok = add_block_ok [OF i Cons.prems(2)]
  have ih: "blocks_ok b2 \<and> extends b1 b2 \<and> list_all (\<lambda>i. i < length (bl_texts b2)) rest
      \<and> map (key_at b2) rest = map (\<lambda>m. (role_str (role m), or_str (provenance m) ''untagged'', msg_content m)) ms"
    using Cons.IH [OF r] ok by blast
  have "is = i # rest" "b' = b2" using Cons.prems(1) by (simp_all add: i r)
  moreover have "i < length (bl_texts b2)" "key_at b2 i = key_at b1 i" using ih ok by (auto simp: extends_def)
  ultimately show ?case using ih ok extends_trans by auto
qed (auto simp: extends_refl)

text \<open>
  What the page shows of a tool call: what the call was and how it ended, its size and time, and, where the blob of its result can be
  read, the block that holds the start of it.
\<close>

definition shows_preview :: "blob_source option \<Rightarrow> blocks \<Rightarrow> string \<Rightarrow> nat option \<Rightarrow> bool" where
  "shows_preview bsrc b d pv \<longleftrightarrow>
     (case pv of
        None \<Rightarrow> (case bsrc of None \<Rightarrow> True | Some bs \<Rightarrow> \<not> bs_has bs d)
      | Some i \<Rightarrow> \<exists>bs data. bsrc = Some bs \<and> bs_has bs d \<and> bs_get bs d = Inr data \<and> i < length (bl_texts b)
          \<and> key_at b i = (''tool_result'', [], decode_replace (take RESULT_PREVIEW data)))"

definition shows_tool :: "py_env \<Rightarrow> blob_source option \<Rightarrow> blocks \<Rightarrow> tool_call_event \<Rightarrow> tool_detail \<Rightarrow> bool" where
  "shows_tool env bsrc b t d \<longleftrightarrow>
     td_name d = tc_name t \<and> td_target d = target_of env (tc_args t)
     \<and> td_args d = pretty (frepr env) (sort_keys (JObj (tc_args t))) 0
     \<and> td_status d = tc_status t \<and> td_error d = tc_error t \<and> td_size d = blob_size (tc_result t)
     \<and> td_duration d = duration_ms (tc_meta t) \<and> shows_preview bsrc b (digest (tc_result t)) (td_result d)"

lemma add_preview_ok:
  assumes "add_preview bsrc d b = Inr (pv, b')" "blocks_ok b"
  shows "blocks_ok b' \<and> extends b b' \<and> shows_preview bsrc b' d pv"
proof (cases "\<exists>bs. bsrc = Some bs \<and> bs_has bs d")
  case True
  then obtain bs data where bs: "bsrc = Some bs" "bs_has bs d" "bs_get bs d = Inr data"
    using assms(1) by (auto simp: add_preview_def bind_res_eq_Inr)
  obtain i b1 where i: "add_block (decode_replace (take RESULT_PREVIEW data)) ''tool_result'' [] b = (i, b1)" by force
  then have "pv = Some i" "b' = b1" using assms(1) bs by (simp_all add: add_preview_def)
  then show ?thesis using add_block_ok [OF i assms(2)] bs by (auto simp: shows_preview_def)
next
  case False
  then show ?thesis using assms by (auto simp: add_preview_def shows_preview_def extends_refl split: option.splits)
qed

lemma extends_key: "extends b b' \<Longrightarrow> i < length (bl_texts b) \<Longrightarrow> i < length (bl_texts b') \<and> key_at b' i = key_at b i"
  by (auto simp: extends_def)

lemma shows_tool_extends: "shows_tool env bsrc b t d \<Longrightarrow> extends b b' \<Longrightarrow> shows_tool env bsrc b' t d"
  using extends_key [of b b'] by (fastforce simp: shows_tool_def shows_preview_def split: option.splits)

lemma tools_extend: "list_all2 (shows_tool env bsrc b) ts ds \<Longrightarrow> extends b b' \<Longrightarrow> list_all2 (shows_tool env bsrc b') ts ds"
  by (erule list_all2_mono) (erule shows_tool_extends)

lemma add_tools_ok:
  "add_tools env bsrc ts b = Inr (ds, b') \<Longrightarrow> blocks_ok b \<Longrightarrow>
   blocks_ok b' \<and> extends b b' \<and> list_all2 (shows_tool env bsrc b') ts ds"
proof (induction ts arbitrary: b ds b')
  case (Cons t ts)
  obtain pv b1 rest where p: "add_preview bsrc (digest (tc_result t)) b = Inr (pv, b1)" "add_tools env bsrc ts b1 = Inr (rest, b')"
    and d: "ds = \<lparr>td_name = tc_name t, td_target = target_of env (tc_args t),
             td_args = pretty (frepr env) (sort_keys (JObj (tc_args t))) 0, td_status = tc_status t,
             td_error = tc_error t, td_result = pv, td_size = blob_size (tc_result t),
             td_duration = duration_ms (tc_meta t)\<rparr> # rest"
    using Cons.prems(1) by (auto simp: bind_res_eq_Inr simp del: pretty.simps sort_keys.simps)
  note pv = add_preview_ok [OF p(1) Cons.prems(2)]
  then have rest: "blocks_ok b' \<and> extends b1 b' \<and> list_all2 (shows_tool env bsrc b') ts rest" using Cons.IH [OF p(2)] by blast
  have "shows_tool env bsrc b1 t (hd ds)" using pv by (simp add: d shows_tool_def del: pretty.simps sort_keys.simps)
  then have "shows_tool env bsrc b' t (hd ds)" using rest shows_tool_extends by blast
  then show ?case using rest pv extends_trans d by auto
qed (auto simp: extends_refl)

text \<open>
  What a step of the page shows of its trace: its place and turn, what it did, the messages of its model call and its usage, its
  reasoning, its tools, and the files it changed and newly wrote.
\<close>

definition message_key :: "message \<Rightarrow> string \<times> string \<times> string" where
  "message_key m = (role_str (role m), or_str (provenance m) ''untagged'', msg_content m)"

definition trace_paths :: "step_trace \<Rightarrow> string set" where
  "trace_paths tr = fst ` changed_files (tr_step tr)"

definition shows_trace ::
  "py_env \<Rightarrow> any_event list \<Rightarrow> blob_source option \<Rightarrow> blocks \<Rightarrow> nat \<Rightarrow> string set \<Rightarrow> step_trace \<Rightarrow> step_detail \<Rightarrow> bool" where
  "shows_trace env es bsrc b k before tr d \<longleftrightarrow>
     sd_i d = k \<and> sd_turn d = turn_of es (tr_parent tr)
     \<and> sd_name d = step_name (tr_step tr) \<and> sd_target d = step_target (tr_step tr)
     \<and> sd_targets d = sorted_list_of_set (targets (tr_step tr)) \<and> sd_batch d = (batch_names (tr_step tr) \<noteq> [])
     \<and> list_all (\<lambda>i. i < length (bl_texts b)) (sd_context d)
     \<and> map (key_at b) (sd_context d)
       = (case model_calls_by_id es (tr_parent tr) of None \<Rightarrow> [] | Some c \<Rightarrow> map message_key (mc_messages c))
     \<and> sd_usage d
       = (case model_calls_by_id es (tr_parent tr) of None \<Rightarrow> (0, 0)
          | Some c \<Rightarrow> (input_tokens (resp_usage (mc_response c)), output_tokens (resp_usage (mc_response c))))
     \<and> (case sd_reasoning d of
          None \<Rightarrow> reasoning (tr_step tr) = []
        | Some r \<Rightarrow> r < length (bl_texts b) \<and> reasoning (tr_step tr) \<noteq> []
            \<and> key_at b r = (''reasoning'', [], reasoning (tr_step tr)))
     \<and> list_all2 (shows_tool env bsrc b) (tr_tools tr) (sd_tools d)
     \<and> sd_wrote d = sorted_list_of_set (trace_paths tr - before) \<and> sd_changed d = card (trace_paths tr)"

definition shows_traces ::
  "py_env \<Rightarrow> any_event list \<Rightarrow> blob_source option \<Rightarrow> blocks \<Rightarrow> nat \<Rightarrow> string set \<Rightarrow> step_trace list \<Rightarrow> step_detail list \<Rightarrow> bool" where
  "shows_traces env es bsrc b i before trs ds \<longleftrightarrow>
     length ds = length trs
     \<and> (\<forall>k < length trs. shows_trace env es bsrc b (i + k) (if k = 0 then before else trace_paths (trs ! (k - 1))) (trs ! k) (ds ! k))"

lemma extends_keys:
  assumes "list_all (\<lambda>i. i < length (bl_texts b)) is" "extends b b'"
  shows "list_all (\<lambda>i. i < length (bl_texts b')) is" "map (key_at b') is = map (key_at b) is"
  using assms by (auto simp: list_all_iff extends_def)

lemma shows_trace_extends:
  assumes "shows_trace env es bsrc b k before tr d" "extends b b'" shows "shows_trace env es bsrc b' k before tr d"
proof -
  have bound: "list_all (\<lambda>i. i < length (bl_texts b)) (sd_context d)" using assms(1) by (simp add: shows_trace_def)
  show ?thesis
    using assms(1) extends_keys [OF bound assms(2)] extends_key [OF assms(2)] tools_extend [OF _ assms(2)]
    unfolding shows_trace_def by (cases "sd_reasoning d") (simp_all del: map_eq_conv)
qed

lemma shows_traces_extends:
  "shows_traces env es bsrc b i before trs ds \<Longrightarrow> extends b b' \<Longrightarrow> shows_traces env es bsrc b' i before trs ds"
  using shows_trace_extends unfolding shows_traces_def by blast

lemma shows_traces_Cons:
  assumes "shows_trace env es bsrc b i before tr d" "shows_traces env es bsrc b (i + 1) (trace_paths tr) trs ds"
  shows "shows_traces env es bsrc b i before (tr # trs) (d # ds)"
proof -
  have "shows_trace env es bsrc b (i + k) (if k = 0 then before else trace_paths ((tr # trs) ! (k - 1))) ((tr # trs) ! k) ((d # ds) ! k)"
    if "k < Suc (length trs)" for k
    using assms that by (cases k) (auto simp: shows_traces_def nth_Cons split: nat.splits)
  then show ?thesis using assms(2) by (simp add: shows_traces_def)
qed

lemma details_loop_ok:
  "details_loop env es bsrc i before trs b = Inr (ds, b') \<Longrightarrow> blocks_ok b \<Longrightarrow>
   blocks_ok b' \<and> extends b b' \<and> shows_traces env es bsrc b' i before trs ds"
proof (induction trs arbitrary: i before b ds b')
  case (Cons tr trs)
  let ?call = "model_calls_by_id es (tr_parent tr)" and ?s = "tr_step tr"
  obtain ctxt b1 where ctx: "(case ?call of None \<Rightarrow> ([], b) | Some c \<Rightarrow> add_messages (mc_messages c) b) = (ctxt, b1)" by force
  have "\<exists>x. add_tools env bsrc (tr_tools tr) b1 = Inr x"
    using Cons.prems(1) by (cases "add_tools env bsrc (tr_tools tr) b1") (simp_all add: ctx Let_def)
  then obtain tools b2 where tl: "add_tools env bsrc (tr_tools tr) b1 = Inr (tools, b2)" by (metis surj_pair)
  obtain reason b3 where rs: "(if reasoning ?s = [] then (None, b2)
      else case add_block (reasoning ?s) ''reasoning'' [] b2 of (r, b') \<Rightarrow> (Some r, b')) = (reason, b3)" by force
  define d where "d = \<lparr>sd_i = i, sd_turn = turn_of es (tr_parent tr), sd_name = step_name ?s, sd_target = step_target ?s,
      sd_targets = sorted_list_of_set (targets ?s), sd_batch = (batch_names ?s \<noteq> []), sd_reasoning = reason,
      sd_context = ctxt, sd_usage = (case ?call of None \<Rightarrow> (0, 0)
         | Some c \<Rightarrow> (input_tokens (resp_usage (mc_response c)), output_tokens (resp_usage (mc_response c)))),
      sd_tools = tools, sd_wrote = sorted_list_of_set (trace_paths tr - before), sd_changed = card (trace_paths tr)\<rparr>"
  obtain rest where d: "details_loop env es bsrc (i + 1) (trace_paths tr) trs b3 = Inr (rest, b')" "ds = d # rest"
    using Cons.prems(1) ctx tl rs by (auto simp: bind_res_eq_Inr Let_def trace_paths_def d_def)
  have 1: "blocks_ok b1 \<and> extends b b1 \<and> list_all (\<lambda>i. i < length (bl_texts b1)) ctxt
      \<and> map (key_at b1) ctxt = (case ?call of None \<Rightarrow> [] | Some c \<Rightarrow> map message_key (mc_messages c))"
    using ctx Cons.prems(2) add_messages_ok [OF _ Cons.prems(2)]
    by (cases ?call) (auto simp: extends_refl message_key_def [abs_def])
  then have 2: "blocks_ok b2 \<and> extends b1 b2 \<and> list_all2 (shows_tool env bsrc b2) (tr_tools tr) tools" using add_tools_ok [OF tl] by blast
  have 3: "blocks_ok b3 \<and> extends b2 b3 \<and> (case reason of None \<Rightarrow> reasoning ?s = []
      | Some r \<Rightarrow> r < length (bl_texts b3) \<and> reasoning ?s \<noteq> [] \<and> key_at b3 r = (''reasoning'', [], reasoning ?s))"
  proof (cases "reasoning ?s = []")
    case False
    obtain r b4 where a: "add_block (reasoning ?s) ''reasoning'' [] b2 = (r, b4)" by force
    then show ?thesis using rs False add_block_ok [OF a] 2 by auto
  qed (use rs 2 in \<open>auto simp: extends_refl\<close>)
  have ih: "blocks_ok b' \<and> extends b3 b' \<and> shows_traces env es bsrc b' (i + 1) (trace_paths tr) trs rest" using Cons.IH [OF d(1)] 3 by blast
  have e: "extends b1 b3" using 2 3 extends_trans by blast
  then have "list_all (\<lambda>i. i < length (bl_texts b3)) ctxt \<and> map (key_at b3) ctxt = map (key_at b1) ctxt"
    using extends_keys 1 by blast
  moreover have "list_all2 (shows_tool env bsrc b3) (tr_tools tr) tools" using 2 3 tools_extend by blast
  ultimately have "shows_trace env es bsrc b3 i before tr d" using 1 3 by (simp add: shows_trace_def d_def)
  then have "shows_trace env es bsrc b' i before tr d" using ih shows_trace_extends by blast
  then show ?case using ih d(2) 1 e extends_trans shows_traces_Cons by blast
qed (auto simp: extends_refl shows_traces_def)

lemma blocks_distinct: "blocks_ok b \<Longrightarrow> distinct (map (key_at b) [0..<length (bl_texts b)])"
proof -
  assume ok: "blocks_ok b"
  have "bl_index b (key_at b i) = Some i" if "i < length (bl_texts b)" for i using ok that unfolding blocks_ok_def by blast
  then have "inj_on (key_at b) {0..<length (bl_texts b)}" by (intro inj_onI) (metis atLeastLessThan_iff option.inject)
  then show ?thesis by (simp add: distinct_map)
qed

text \<open>
  C27. The page shows the two runs the diff aligned: the steps of its data are the steps of the traces, in order and
  numbered, each with its turn, name, targets and usage, exactly the messages its model call was sent and its reasoning, its tool calls
  one by one with their names, targets, arguments, status, error, size, time and a preview where the result's
  blob is there, and the files it changed and wrote first; messages, reasoning and previews are found by index in one
  table of blocks that holds every block once; the blocks of the data are the
  table's texts, clipped at one common limit, and the data is within the budget.
\<close>

theorem report_shows_runs:
  assumes "build_payload env good bad r store store_b budget = Inr p"
  shows "\<exists>good_details bad_details b limit.
      shows_traces env (map event (rd_events good)) (rd_blobs good) b 0 {} (extract_traces env (rd_events good) False) good_details
    \<and> shows_traces env (map event (rd_events bad)) (case rd_blobs bad of None \<Rightarrow> rd_blobs good | Some s \<Rightarrow> Some s) b 0 {}
        (extract_traces env (rd_events bad) False) bad_details
    \<and> map tr_step (extract_traces env (rd_events good) False) = good_steps r
    \<and> map tr_step (extract_traces env (rd_events bad) False) = bad_steps r
    \<and> map_of (pl_fields p) ''steps'' = Some (Value (JObj [(''good'', JArr (map detail_json good_details)),
        (''bad'', JArr (map detail_json bad_details))]))
    \<and> distinct (map (key_at b) [0..<length (bl_texts b)])
    \<and> pl_blocks p = map (clip_block limit) (zip (bl_meta b) (bl_texts b))
    \<and> int (length (serialize_payload env p)) \<le> budget"
proof -
  let ?gt = "extract_traces env (rd_events good) False" and ?bt = "extract_traces env (rd_events bad) False"
  let ?bb = "case rd_blobs bad of None \<Rightarrow> rd_blobs good | Some s \<Rightarrow> Some s"
  obtain gd b1 bd b2 columns found gj bj where s: "map tr_step ?gt = good_steps r" "map tr_step ?bt = bad_steps r"
    "step_details env ?gt (rd_events good) new_blocks (rd_blobs good) = Inr (gd, b1)"
    "step_details env ?bt (rd_events bad) b1 ?bb = Inr (bd, b2)"
    "fit_budget env (payload_fields gj bj found r store (case store_b of None \<Rightarrow> store | Some s \<Rightarrow> s) columns gd bd)
      (bl_meta b2) (bl_texts b2) budget = Inr p"
    using assms unfolding build_payload_def check_same_steps_def
    by (simp add: bind_res_eq_Inr Let_def) blast
  note 1 = details_loop_ok [OF s(3) [unfolded step_details_def] new_blocks_ok]
  then have 2: "blocks_ok b2 \<and> extends b1 b2 \<and> shows_traces env (map event (rd_events bad)) ?bb b2 0 {} ?bt bd"
    using details_loop_ok [OF s(4) [unfolded step_details_def]] by blast
  have len: "length (bl_meta b2) = length (bl_texts b2)" using 2 by (simp add: blocks_ok_def)
  let ?flds = "payload_fields gj bj found r store (case store_b of None \<Rightarrow> store | Some s \<Rightarrow> s) columns gd bd"
  obtain limit where p: "p = apply_limit ?flds (bl_meta b2) (bl_texts b2) limit"
    "int (length (serialize_payload env p)) \<le> budget"
    using s(5) len by (auto simp: fit_budget_def Let_def split: if_splits)
  have "shows_traces env (map event (rd_events good)) (rd_blobs good) b2 0 {} ?gt gd" using 1 2 shows_traces_extends by blast
  moreover have "map_of ?flds ''steps'' = Some (Value (JObj [(''good'', JArr (map detail_json gd)), (''bad'', JArr (map detail_json bd))]))"
    by (simp add: payload_fields_def)
  ultimately show ?thesis using 2 s(1,2) blocks_distinct p unfolding apply_limit_def by auto
qed

section \<open>The page\<close>

lemma replace_char: "replace_str [c] new s = concat (map (\<lambda>x. if x = c then new else [x]) s)"
  by (induction s) auto

lemma replace_char_gone: "c \<notin> set new \<Longrightarrow> c \<notin> set (replace_str [c] new s)"
  by (auto simp: replace_char split: if_splits)

lemma replace_char_keeps: "d \<notin> set new \<Longrightarrow> d \<notin> set s \<Longrightarrow> d \<notin> set (replace_str [c] new s)"
  by (auto simp: replace_char split: if_splits)

lemma island_closed: "CHR ''<'' \<notin> set (data_island env p)"
  unfolding data_island_def by (rule replace_char_gone) simp

lemma title_closed: "CHR ''<'' \<notin> set (escape_html title)"
  unfolding escape_html_def by (rule replace_char_keeps, simp, rule replace_char_gone, simp)

text \<open>Replacing a mark that holds no \<open>c\<close> by a text that holds none works piece by piece between the \<open>c\<close>s.\<close>

lemma starts_with_clean: "c \<notin> set p \<Longrightarrow> starts_with p (s @ c # t) \<longleftrightarrow> starts_with p s"
proof (induction p s rule: starts_with.induct)
  case (2 p ps) then show ?case by auto
qed auto

lemma replace_str_match: "old \<noteq> [] \<Longrightarrow> replace_str old new (old @ r) = new @ replace_str old new r"
  using starts_with_iff [of old "old @ r"] by (cases old) simp_all

lemma replace_str_skip:
  "\<not> (old \<noteq> [] \<and> starts_with old (x # xs)) \<Longrightarrow> replace_str old new (x # xs) = x # replace_str old new xs"
  by auto

lemma replace_str_piece:
  assumes "c \<notin> set old"
  shows "replace_str old new (s @ c # t) = replace_str old new s @ c # replace_str old new t"
proof (induction s rule: length_induct)
  case (1 s)
  show ?case
  proof (cases s)
    case Nil
    then show ?thesis using assms by (cases old) auto
  next
    case (Cons x xs)
    show ?thesis
    proof (cases "old \<noteq> [] \<and> starts_with old s")
      case True
      then obtain r where r: "s = old @ r" by (auto simp: starts_with_iff)
      then have "replace_str old new (r @ c # t) = replace_str old new r @ c # replace_str old new t"
        using 1 True by simp
      then show ?thesis using True by (simp add: r replace_str_match)
    next
      case False
      then have "\<not> (old \<noteq> [] \<and> starts_with old (s @ c # t))" using starts_with_clean [OF assms] by blast
      then show ?thesis using False 1 Cons replace_str_skip [of old x xs new] replace_str_skip [of old x "xs @ c # t" new]
        by (simp del: starts_with.simps replace_str_simps)
    qed
  qed
qed

lemma split_char_ne [simp]: "split_char c s \<noteq> []"
  by (induction s) (auto split: list.split)

lemma replace_str_clean:
  assumes "c \<notin> set new" shows "c \<notin> set s \<Longrightarrow> c \<notin> set (replace_str old new s)"
proof (induction s rule: length_induct)
  case (1 s)
  show ?case
  proof (cases s)
    case (Cons x xs)
    have "c \<notin> set (drop n s)" for n using 1(2) by (meson in_set_dropD)
    then show ?thesis using Cons assms 1 by (auto simp del: starts_with.simps)
  qed simp
qed

lemma split_replace:
  assumes "c \<notin> set old" "c \<notin> set new"
  shows "split_char c (replace_str old new s) = map (replace_str old new) (split_char c s)"
proof (induction s rule: length_induct)
  case (1 s)
  show ?case
  proof (cases "c \<in> set s")
    case False
    then show ?thesis using replace_str_clean [OF assms(2)] by (simp add: split_char_clean)
  next
    case True
    then obtain a b where s: "s = a @ c # b" "c \<notin> set a" by (meson split_list_first)
    then show ?thesis
      using 1 replace_str_clean [OF assms(2) s(2)] by (simp add: replace_str_piece [OF assms(1)] split_char_append)
  qed
qed

lemma replace_absent: "\<not> in_str old s \<Longrightarrow> replace_str old new s = s"
  by (induction s) (auto simp del: starts_with.simps)

lemma replace_first:
  assumes "old \<noteq> []"
  shows "\<not> in_str old (a @ butlast old) \<Longrightarrow> replace_str old new (a @ old @ b) = a @ new @ replace_str old new b"
proof (induction a)
  case Nil
  show ?case using assms by (simp add: replace_str_match)
next
  case (Cons x a)
  have "\<not> starts_with old (x # a @ old @ b)"
  proof
    assume "starts_with old (x # a @ old @ b)"
    then have "take (length old) (x # a @ old @ b) = old" by (auto simp: starts_with_iff)
    moreover have "length old \<le> length (x # a @ butlast old)" using assms by (cases old) auto
    moreover have "x # a @ old @ b = (x # a @ butlast old) @ last old # b" using assms by (metis append.assoc append_Cons append_Nil append_butlast_last_id)
    ultimately have "take (length old) (x # a @ butlast old) = old" by (metis take_append append_self_conv diff_is_0_eq' take_0)
    then have "starts_with old (x # a @ butlast old)" by (metis append_take_drop_id starts_with_iff)
    then show False using Cons.prems by simp
  qed
  then show ?case using Cons by simp
qed

text \<open>
  C28. Nothing recorded can add a tag to the page or leave its place in it. For every template, title and payload, the page cut at its
  \<open><\<close>s is the template cut at its own, piece by piece, with the marks of each piece filled in; so the page has the template's tags
  and no other. A piece with the mark of the data alone holds the data there, and a piece with the mark of the title holds the escaped
  title there, provided the title does not bring up the mark of the data; a piece without marks is as in the template. The data,
  read by the rules of JSON strings, is the payload's text, whose \<open><\<close>s alone are written as escapes.
\<close>

theorem report_island_safe:
  "split_char (CHR ''<'') (render_page env template p title)
     = map (\<lambda>piece. render_page env piece p title) (split_char (CHR ''<'') template)
   \<and> (\<not> in_str TITLE_MARK piece \<longrightarrow> \<not> in_str PAYLOAD_MARK piece \<longrightarrow> render_page env piece p title = piece)
   \<and> (piece = a @ PAYLOAD_MARK @ b \<longrightarrow> \<not> in_str TITLE_MARK piece \<longrightarrow> \<not> in_str PAYLOAD_MARK (a @ butlast PAYLOAD_MARK) \<longrightarrow>
      \<not> in_str PAYLOAD_MARK b \<longrightarrow> render_page env piece p title = a @ data_island env p @ b)
   \<and> (piece = a @ TITLE_MARK @ b \<longrightarrow> \<not> in_str TITLE_MARK (a @ butlast TITLE_MARK) \<longrightarrow> \<not> in_str TITLE_MARK b \<longrightarrow>
      \<not> in_str PAYLOAD_MARK (a @ escape_html title @ b) \<longrightarrow> render_page env piece p title = a @ escape_html title @ b)
   \<and> data_island env p = concat (map (\<lambda>c. if c = CHR ''<'' then CHR 0x5C # ''u003c'' else [c]) (serialize_payload env p))
   \<and> unesc (CHR 0x5C # ''u003c'' @ rest) = (CHR ''<'', rest)"
proof (intro conjI impI)
  have marks: "CHR ''<'' \<notin> set TITLE_MARK" "CHR ''<'' \<notin> set PAYLOAD_MARK" "TITLE_MARK \<noteq> []" "PAYLOAD_MARK \<noteq> []"
    by (simp_all add: TITLE_MARK_def PAYLOAD_MARK_def)
  show "split_char (CHR ''<'') (render_page env template p title)
      = map (\<lambda>piece. render_page env piece p title) (split_char (CHR ''<'') template)"
    by (simp add: render_page_def split_replace marks island_closed title_closed comp_def)
  show "\<not> in_str TITLE_MARK piece \<Longrightarrow> \<not> in_str PAYLOAD_MARK piece \<Longrightarrow> render_page env piece p title = piece"
    by (simp add: render_page_def replace_absent)
  show "render_page env piece p title = a @ data_island env p @ b"
    if "piece = a @ PAYLOAD_MARK @ b" "\<not> in_str TITLE_MARK piece" "\<not> in_str PAYLOAD_MARK (a @ butlast PAYLOAD_MARK)" "\<not> in_str PAYLOAD_MARK b"
  proof -
    have "render_page env piece p title = replace_str PAYLOAD_MARK (data_island env p) (a @ PAYLOAD_MARK @ b)"
      using replace_absent [OF that(2)] that(1) by (simp add: render_page_def)
    then show ?thesis by (simp only: replace_first [OF marks(4) that(3)] replace_absent [OF that(4)])
  qed
  show "render_page env piece p title = a @ escape_html title @ b"
    if "piece = a @ TITLE_MARK @ b" "\<not> in_str TITLE_MARK (a @ butlast TITLE_MARK)" "\<not> in_str TITLE_MARK b"
      "\<not> in_str PAYLOAD_MARK (a @ escape_html title @ b)"
    by (simp only: that(1) render_page_def replace_first [OF marks(3) that(2)] replace_absent [OF that(3)] replace_absent [OF that(4)])
  show "data_island env p = concat (map (\<lambda>c. if c = CHR ''<'' then CHR 0x5C # ''u003c'' else [c]) (serialize_payload env p))"
    by (simp add: data_island_def replace_char)
  have "char_of (16 * hex_val (CHR ''3'') + hex_val (CHR ''c'')) = CHR ''<''" by code_simp
  then show "unesc (CHR 0x5C # ''u003c'' @ rest) = (CHR ''<'', rest)" by (simp add: unesc_def)
qed

text \<open>
  A recorded title that holds the mark of the data has it filled in as well: the data is written into the title of
  the page a second time, beyond the budget of the page.
\<close>

lemma title_takes_data:
  "render_page env (''<t>'' @ TITLE_MARK @ ''</t>'' @ PAYLOAD_MARK) p PAYLOAD_MARK
     = ''<t>'' @ data_island env p @ ''</t>'' @ data_island env p"
  by (simp add: render_page_def TITLE_MARK_def PAYLOAD_MARK_def escape_html_def)

text \<open>The places of the marks in the shipped template: the title element and a heading, then the script element of the data.\<close>

definition ex_template :: string where
  "ex_template = ''<title>Tracewake '' @ TITLE_MARK @ ''</title><h1>'' @ TITLE_MARK @ '' </h1><script>'' @ PAYLOAD_MARK @ ''</script>''"

text \<open>A run that recorded the end tag of a script.\<close>

definition ex_island :: payload where
  "ex_island = \<lparr>pl_fields = [(''name'', Value (JStr ''</script>''))], pl_blocks = [],
     pl_truncation = \<lparr>tn_blocks = 0, tn_chars = 0, tn_limit = None\<rparr>\<rparr>"

theorem report_island_safe_witness:
  "split_char (CHR ''<'') (render_page const_env ex_template ex_island ''a<b'')
     = [[], ''title>Tracewake a&lt;b'', ''/title>'', ''h1>a&lt;b '', ''/h1>'', ''script>'' @ data_island const_env ex_island, ''/script>'']"
proof -
  note clear = TITLE_MARK_def PAYLOAD_MARK_def
  have title: "escape_html ''a<b'' = ''a&lt;b''" by (simp add: escape_html_def)
  note safe = report_island_safe [where env = const_env and p = ex_island and title = "''a<b''"]
  have plain: "render_page const_env t ex_island ''a<b'' = t" if "\<not> in_str TITLE_MARK t" "\<not> in_str PAYLOAD_MARK t" for t
    using safe that by blast
  have "render_page const_env (''script>'' @ PAYLOAD_MARK @ []) ex_island ''a<b'' = ''script>'' @ data_island const_env ex_island @ []"
    by (rule safe [THEN conjunct2, THEN conjunct2, THEN conjunct1, rule_format, OF refl]) (simp_all add: clear)
  moreover have "render_page const_env (''title>Tracewake '' @ TITLE_MARK @ []) ex_island ''a<b'' = ''title>Tracewake '' @ escape_html ''a<b'' @ []"
    by (rule safe [THEN conjunct2, THEN conjunct2, THEN conjunct2, THEN conjunct1, rule_format, OF refl]) (simp_all add: clear title)
  moreover have "render_page const_env (''h1>'' @ TITLE_MARK @ '' '') ex_island ''a<b'' = ''h1>'' @ escape_html ''a<b'' @ '' ''"
    by (rule safe [THEN conjunct2, THEN conjunct2, THEN conjunct2, THEN conjunct1, rule_format, OF refl]) (simp_all add: clear title)
  moreover have "render_page const_env t ex_island ''a<b'' = t" if "t \<in> {[], ''/title>'', ''/h1>'', ''/script>''}" for t
    using that by (intro plain) (auto simp: clear)
  moreover have "split_char (CHR ''<'') ex_template
      = [[], ''title>Tracewake '' @ TITLE_MARK @ [], ''/title>'', ''h1>'' @ TITLE_MARK @ '' '', ''/h1>'', ''script>'' @ PAYLOAD_MARK @ [], ''/script>'']"
    by (simp add: ex_template_def clear)
  ultimately show ?thesis using safe [of ex_template, THEN conjunct1] by (simp add: title)
qed

text \<open>
  The page of a diff whose two runs have no step, or have one on one side only, is not JSON: its length ratio is the
  text \<open>Infinity\<close>.
\<close>

lemma infinite_ratio_field:
  "dr_length_ratio r = Infinite_Ratio \<Longrightarrow>
   map_of (payload_fields gj bj found r store store_b columns gd bd) ''length_ratio'' = Some Infinity"
  by (simp add: payload_fields_def)

section \<open>Examples\<close>

definition ex_report_log :: "stored_event list" where
  "ex_report_log = [\<lparr>se_run_id = ''a'', seq = 0, event = ModelCall ex_call\<rparr>,
     \<lparr>se_run_id = ''a'', seq = 1, event = ToolCall (ex_tool ''t'' 0)\<rparr>]"

definition ex_run_data :: run_data where
  "ex_run_data = \<lparr>rd_header = ex_header ''a'' 1, rd_events = ex_report_log, rd_blobs = None\<rparr>"

definition ex_silent_data :: run_data where
  "ex_silent_data = \<lparr>rd_header = ex_header ''b'' 1, rd_events = [], rd_blobs = None\<rparr>"

definition ex_diff :: diff_result where
  "ex_diff = \<lparr>good_steps = map tr_step (extract_traces const_env ex_report_log False), bad_steps = [], dr_alignment = [(Some 0, None)],
     dr_score = -1, dr_divergence = None, dr_length_ratio = Infinite_Ratio, embedding_model = None, embedding_revision = None,
     dr_scores = []\<rparr>"

lemma fit_budget_whole:
  "length metas = length texts \<Longrightarrow>
   fit_budget env flds metas texts (page_size env flds metas texts None) = Inr (apply_limit flds metas texts None)"
  by (simp add: fit_budget_def page_size_def Let_def)

lemma not_isl: "isl x = False \<Longrightarrow> \<exists>y. x = Inr y"
  by (cases x) auto

lemma run_summary_total: "attribute_tokens header es = Inr shares \<Longrightarrow> \<exists>v. run_summary header es n store = Inr v"
  by (simp add: run_summary_def spend_def Let_def)

lemma ex_payload: "\<exists>budget p. build_payload const_env ex_run_data ex_silent_data ex_diff ''s'' None budget = Inr p"
proof -
  let ?t = "extract_traces const_env ex_report_log False"
  have steps: "good_steps ex_diff = map tr_step ?t" "bad_steps ex_diff = []" by (simp_all add: ex_diff_def)
  have data: "rd_events ex_run_data = ex_report_log" "rd_blobs ex_run_data = None" "rd_events ex_silent_data = []"
    "rd_blobs ex_silent_data = None" by (simp_all add: ex_run_data_def ex_silent_data_def)
  have silent: "extract_traces const_env [] False = []"
    by (simp add: extract_traces_def group_events_def empty_grouping_def)
  have "isl (step_details const_env ?t ex_report_log new_blocks None) = False"
    "isl (attribute_tokens (rd_header ex_run_data) ex_report_log) = False" "isl (attribute_tokens (rd_header ex_silent_data) []) = False"
    by code_simp+
  from this [THEN not_isl] obtain gd b1 s1 s2 where gd: "step_details const_env ?t ex_report_log new_blocks None = Inr (gd, b1)"
    and spent: "attribute_tokens (rd_header ex_run_data) ex_report_log = Inr s1" "attribute_tokens (rd_header ex_silent_data) [] = Inr s2"
    by (metis surj_pair)
  have len: "length (bl_meta b1) = length (bl_texts b1)"
    using details_loop_ok [OF gd [unfolded step_details_def] new_blocks_ok] by (simp add: blocks_ok_def)
  have bd: "step_details const_env [] [] b1 None = Inr ([], b1)" by (simp add: step_details_def)
  obtain columns where columns: "map_res (column_json ex_diff) (dr_alignment ex_diff) = Inr columns"
    by (simp add: ex_diff_def column_json_def column_similarity_def)
  have found: "run_localize (bad_steps ex_diff) = Inr None" by (simp add: run_localize_def steps)
  obtain gj bj where "run_summary (rd_header ex_run_data) ex_report_log (length ?t) ''s'' = Inr gj"
    "run_summary (rd_header ex_silent_data) [] 0 ''s'' = Inr bj" using spent run_summary_total by blast
  then show ?thesis
    using fit_budget_whole [OF len, of const_env] columns found gd bd
    by (simp add: build_payload_def check_same_steps_def data steps silent Let_def) blast
qed

theorem report_shows_runs_witness:
  "\<exists>budget p. build_payload const_env ex_run_data ex_silent_data ex_diff ''s'' None budget = Inr p
     \<and> int (length (serialize_payload const_env p)) \<le> budget"
proof -
  obtain budget p where p: "build_payload const_env ex_run_data ex_silent_data ex_diff ''s'' None budget = Inr p"
    using ex_payload by blast
  with report_shows_runs [OF p] show ?thesis by blast
qed

theorem fit_budget_longest_witness:
  "case fit_budget const_env [] [\<lparr>bk_kind = [], bk_provenance = [], bk_chars = 2\<rparr>] [''ab''] 0 of
     Inl e \<Rightarrow> 0 < page_size const_env [] [\<lparr>bk_kind = [], bk_provenance = [], bk_chars = 2\<rparr>] [''ab''] (Some 1)
   | Inr p \<Rightarrow> int (length (serialize_payload const_env p)) \<le> 0"
  using fit_budget_longest [where metas = "[\<lparr>bk_kind = [], bk_provenance = [], bk_chars = 2\<rparr>]" and texts = "[''ab'']"
      and env = const_env and flds = "[]" and budget = 0]
  by (auto simp: page_size_def split: sum.splits)

end
