(* ===== verification/Otel.thy ===== *)
theory Otel
  imports Encoding Steps
begin

text \<open>
  The OTLP/JSON export of a run (\<open>src/tracewake/otel.py\<close>): a root span, a span per model call and a span per tool
  call, with ids derived from the run and call ids by hash.
\<close>

definition SCOPE :: string where "SCOPE = ''tracewake''"
definition SPAN_KIND_CLIENT :: int where "SPAN_KIND_CLIENT = 3"
definition SPAN_KIND_INTERNAL :: int where "SPAN_KIND_INTERNAL = 1"
definition STATUS_OK :: int where "STATUS_OK = 1"
definition STATUS_ERROR :: int where "STATUS_ERROR = 2"

definition trace_id :: "py_env \<Rightarrow> string \<Rightarrow> string" where
  "trace_id env run_id = take 32 (sha256_hex env (''trace:'' @ run_id))"

definition span_id :: "py_env \<Rightarrow> string \<Rightarrow> string \<Rightarrow> string" where
  "span_id env run_id key = take 16 (sha256_hex env (''span:'' @ run_id @ '':'' @ key))"

primrec otel_value :: "py_env \<Rightarrow> json \<Rightarrow> json" where
  "otel_value env (JBool b) = JObj [(''boolValue'', JBool b)]"
| "otel_value env (JInt n) = JObj [(''intValue'', JStr (int_str n))]"
| "otel_value env (JFloat x) = JObj [(''doubleValue'', JFloat x)]"
| "otel_value env (JArr vs) = JObj [(''arrayValue'', JObj [(''values'', JArr (map (otel_value env) vs))])]"
| "otel_value env (JStr s) = JObj [(''stringValue'', JStr s)]"
| "otel_value env JNull = JObj [(''stringValue'', JStr (py_str env JNull))]"
| "otel_value env (JObj kvs) = JObj [(''stringValue'', JStr (py_str env (JObj kvs)))]"

definition attributes :: "py_env \<Rightarrow> (string \<times> json) list \<Rightarrow> json" where
  "attributes env pairs =
     JArr (map (\<lambda>(k, v). JObj [(''key'', JStr k), (''value'', otel_value env v)]) (filter (\<lambda>(k, v). v \<noteq> JNull) pairs))"

definition nanos :: "real \<Rightarrow> string" where
  "nanos seconds = int_str (trunc (seconds * 1000000000))"

text \<open>A span: its own fields and what its JSON object is written from.\<close>

record span =
  sp_key :: string
  sp_parent :: "string option"
  sp_name :: string
  sp_kind :: int
  sp_start :: real
  sp_end :: real
  sp_attributes :: "(string \<times> json) list"
  sp_error :: "string option"

definition span_json :: "py_env \<Rightarrow> string \<Rightarrow> span \<Rightarrow> json" where
  "span_json env run_id s =
     JObj ([(''traceId'', JStr (trace_id env run_id)), (''spanId'', JStr (span_id env run_id (sp_key s))),
            (''name'', JStr (sp_name s)), (''kind'', JInt (sp_kind s)), (''startTimeUnixNano'', JStr (nanos (sp_start s))),
            (''endTimeUnixNano'', JStr (nanos (sp_end s))), (''attributes'', attributes env (sp_attributes s)),
            (''status'', JObj ((''code'', JInt (if truthy (sp_error s) then STATUS_ERROR else STATUS_OK))
               # (if truthy (sp_error s) then [(''message'', JStr (the (sp_error s)))] else [])))]
           @ (case sp_parent s of None \<Rightarrow> [] | Some p \<Rightarrow> [(''parentSpanId'', JStr (span_id env run_id p))]))"

text \<open>The time an event took and when it began; a missing or zero duration is no time.\<close>

definition event_start :: "any_event \<Rightarrow> real" where
  "event_start e =
     recorded_at (meta_of e) - (case duration_ms (meta_of e) of None \<Rightarrow> 0 | Some d \<Rightarrow> d) / 1000"

definition call_span :: "string \<Rightarrow> model_call_event \<Rightarrow> span" where
  "call_span run_id e =
     \<lparr>sp_key = call_id e, sp_parent = Some ''run'', sp_name = ''chat '' @ mc_model_id e, sp_kind = SPAN_KIND_CLIENT,
      sp_start = event_start (ModelCall e), sp_end = recorded_at (mc_meta e),
      sp_attributes =
        [(''gen_ai.operation.name'', JStr ''chat''), (''gen_ai.system'', JStr (mc_provider e)),
         (''gen_ai.request.model'', JStr (mc_model_id e)), (''gen_ai.request.temperature'', jopt JFloat (temperature (mc_params e))),
         (''gen_ai.request.top_p'', jopt JFloat (top_p (mc_params e))),
         (''gen_ai.request.max_tokens'', jopt JInt (max_tokens (mc_params e))),
         (''gen_ai.request.seed'', jopt JInt (seed (mc_params e))),
         (''gen_ai.response.finish_reasons'', JArr [JStr (finish_reason (mc_response e))]),
         (''gen_ai.usage.input_tokens'', JInt (input_tokens (resp_usage (mc_response e)))),
         (''gen_ai.usage.output_tokens'', JInt (output_tokens (resp_usage (mc_response e)))),
         (''tracewake.messages_hash'', JStr (messages_hash e)), (''tracewake.run_id'', JStr run_id)],
      sp_error = None\<rparr>"

definition tool_span :: "tool_call_event \<Rightarrow> span" where
  "tool_span e =
     \<lparr>sp_key = tc_parent e @ ''/'' @ tc_tool e, sp_parent = Some (tc_parent e), sp_name = ''execute_tool '' @ tc_name e,
      sp_kind = SPAN_KIND_INTERNAL, sp_start = event_start (ToolCall e), sp_end = recorded_at (tc_meta e),
      sp_attributes =
        [(''gen_ai.operation.name'', JStr ''execute_tool''), (''gen_ai.tool.name'', JStr (tc_name e)),
         (''gen_ai.tool.call.id'', JStr (tc_tool e)), (''tracewake.tool.batch_index'', JInt (tc_batch_index e)),
         (''tracewake.tool.result_bytes'', JInt (blob_size (tc_result e)))],
      sp_error = tc_error e\<rparr>"

fun event_spans :: "string \<Rightarrow> any_event list \<Rightarrow> span list" where
  "event_spans run_id [] = []"
| "event_spans run_id (ModelCall e # es) = call_span run_id e # event_spans run_id es"
| "event_spans run_id (ToolCall e # es) = tool_span e # event_spans run_id es"
| "event_spans run_id (_ # es) = event_spans run_id es"

definition root_end :: "run_header \<Rightarrow> any_event list \<Rightarrow> real" where
  "root_end header es =
     (case finished_at header of
        Some t \<Rightarrow> if t \<noteq> 0 then t else if es = [] then started_at header else Max (set (map (recorded_at \<circ> meta_of) es))
      | None \<Rightarrow> if es = [] then started_at header else Max (set (map (recorded_at \<circ> meta_of) es)))"

definition root_span :: "run_header \<Rightarrow> any_event list \<Rightarrow> span" where
  "root_span header es =
     \<lparr>sp_key = ''run'', sp_parent = None, sp_name = ''agent run '' @ hdr_name header, sp_kind = SPAN_KIND_INTERNAL,
      sp_start = started_at header, sp_end = root_end header es,
      sp_attributes =
        [(''tracewake.run_id'', JStr (hdr_run_id header)), (''tracewake.cassette'', JStr (hdr_name header)),
         (''tracewake.task_id'', jopt JStr (task_id header)),
         (''gen_ai.request.model'', (case hdr_models header of [] \<Rightarrow> JNull | m # _ \<Rightarrow> JStr (id_model_id m))),
         (''gen_ai.system'', (case hdr_models header of [] \<Rightarrow> JNull | m # _ \<Rightarrow> JStr (id_provider m)))],
      sp_error = (if hdr_status header \<noteq> Ended StError then None else Some ''run ended in error'')\<rparr>"

definition run_spans :: "run_header \<Rightarrow> stored_event list \<Rightarrow> span list" where
  "run_spans header es = root_span header (map event es) # event_spans (hdr_run_id header) (map event es)"

definition build_spans :: "py_env \<Rightarrow> run_header \<Rightarrow> stored_event list \<Rightarrow> json" where
  "build_spans env header es =
     JObj [(''resourceSpans'', JArr [JObj
       [(''resource'', JObj [(''attributes'',
            attributes env [(''service.name'', JStr SCOPE), (''tracewake.run_id'', JStr (hdr_run_id header))])]),
        (''scopeSpans'', JArr [JObj
          [(''scope'', JObj [(''name'', JStr SCOPE)]),
           (''spans'', JArr (map (span_json env (hdr_run_id header)) (run_spans header es)))]])]])]"

definition encode_spans :: "py_env \<Rightarrow> run_header \<Rightarrow> stored_event list \<Rightarrow> string \<times> nat" where
  "encode_spans env header es = (pretty (frepr env) (build_spans env header es) 0, length (run_spans header es))"

section \<open>The spans of a run\<close>

fun is_action :: "any_event \<Rightarrow> bool" where
  "is_action (ModelCall _) = True"
| "is_action (ToolCall _) = True"
| "is_action _ = False"

lemma length_event_spans: "length (event_spans run_id es) = length (filter is_action es)"
  by (induction es rule: event_spans.induct) auto

lemma in_event_spans:
  "s \<in> set (event_spans run_id es) \<longleftrightarrow>
     (\<exists>e. ModelCall e \<in> set es \<and> s = call_span run_id e) \<or> (\<exists>e. ToolCall e \<in> set es \<and> s = tool_span e)"
  by (induction es rule: event_spans.induct) auto

lemma max_recorded: "e \<in> set es \<Longrightarrow> recorded_at (meta_of e) \<le> Max (set (map (recorded_at \<circ> meta_of) es))"
  by (intro Max_ge) auto

text \<open>An action of the log that takes no negative time, within the time of its run.\<close>

definition timely :: "run_header \<Rightarrow> any_event \<Rightarrow> bool" where
  "timely header e \<longleftrightarrow>
     started_at header \<le> event_start e
     \<and> (case finished_at header of None \<Rightarrow> True | Some t \<Rightarrow> t \<noteq> 0 \<longrightarrow> recorded_at (meta_of e) \<le> t)
     \<and> (case duration_ms (meta_of e) of None \<Rightarrow> True | Some d \<Rightarrow> 0 \<le> d)"

text \<open>
  The ids a log is written with: model calls have ids of their own, which are not the key of the root and have no slash
  (they are hexadecimal), and a tool call names a logged model call and has an id of its own within it.
\<close>

fun tool_ids :: "any_event list \<Rightarrow> (string \<times> string) list" where
  "tool_ids [] = []"
| "tool_ids (ToolCall e # es) = (tc_parent e, tc_tool e) # tool_ids es"
| "tool_ids (_ # es) = tool_ids es"

fun model_ids :: "any_event list \<Rightarrow> string list" where
  "model_ids [] = []"
| "model_ids (ModelCall e # es) = call_id e # model_ids es"
| "model_ids (_ # es) = model_ids es"

definition ids_ok :: "any_event list \<Rightarrow> bool" where
  "ids_ok es \<longleftrightarrow> distinct (model_ids es) \<and> distinct (tool_ids es) \<and> ''run'' \<notin> set (model_ids es)
     \<and> (\<forall>c \<in> set (model_ids es). CHR ''/'' \<notin> set c) \<and> fst ` set (tool_ids es) \<subseteq> set (model_ids es)"

text \<open>The ids and the parents of the document: each span with the span its \<open>parentSpanId\<close> names.\<close>

definition doc_id :: "py_env \<Rightarrow> run_header \<Rightarrow> span \<Rightarrow> string" where
  "doc_id env header s = span_id env (hdr_run_id header) (sp_key s)"

definition child_of :: "py_env \<Rightarrow> run_header \<Rightarrow> span list \<Rightarrow> (string \<times> string) set" where
  "child_of env header spans =
     {(doc_id env header s, span_id env (hdr_run_id header) p) | s p. s \<in> set spans \<and> sp_parent s = Some p}"

text \<open>The key of a tool span, which holds a slash.\<close>

definition slashed :: "string \<times> string \<Rightarrow> string" where
  "slashed p = fst p @ ''/'' @ snd p"

lemma slash_in: "CHR ''/'' \<in> set (slashed p)"
  by (simp add: slashed_def)

lemma slashed_eq:
  assumes "CHR ''/'' \<notin> set (fst p)" "CHR ''/'' \<notin> set (fst q)" "slashed p = slashed q" shows "p = q"
proof -
  have "a = b \<and> x = y" if "CHR ''/'' \<notin> set a" "CHR ''/'' \<notin> set b" "a @ CHR ''/'' # x = b @ CHR ''/'' # y" for a b x y :: string
    using that
  proof (induction a arbitrary: b)
    case Nil
    then show ?case by (cases b) auto
  next
    case (Cons c a)
    then show ?case by (cases b) auto
  qed
  from this [of "fst p" "fst q" "snd p" "snd q"] show ?thesis using assms by (simp add: slashed_def prod_eq_iff)
qed

lemma tool_span_key: "sp_key (tool_span e) = slashed (tc_parent e, tc_tool e)"
  by (simp add: tool_span_def slashed_def)

lemma model_key: "c \<in> set (model_ids es) \<longleftrightarrow> (\<exists>e. ModelCall e \<in> set es \<and> call_id e = c)"
  by (induction es rule: model_ids.induct) auto

lemma tool_key: "p \<in> set (tool_ids es) \<longleftrightarrow> (\<exists>e. ToolCall e \<in> set es \<and> (tc_parent e, tc_tool e) = p)"
  by (induction es rule: tool_ids.induct) auto

lemma event_span_keys:
  "sp_key ` set (event_spans rid es) = set (model_ids es) \<union> slashed ` set (tool_ids es)"
  by (induction rid es rule: event_spans.induct) (auto simp: call_span_def tool_span_key)

lemma distinct_event_keys:
  "distinct (model_ids es) \<Longrightarrow> distinct (tool_ids es) \<Longrightarrow> \<forall>c \<in> set (model_ids es) \<union> fst ` set (tool_ids es). CHR ''/'' \<notin> set c \<Longrightarrow>
   distinct (map sp_key (event_spans rid es))"
proof (induction rid es rule: event_spans.induct)
  case (2 rid e es)
  have "call_id e \<noteq> slashed p" for p using 2(4) slash_in [of p] by auto
  then have "call_id e \<notin> sp_key ` set (event_spans rid es)" using 2(2) unfolding event_span_keys by auto
  then show ?case using 2 by (simp add: call_span_def)
next
  case (3 rid e es)
  let ?p = "(tc_parent e, tc_tool e)"
  have "slashed ?p \<noteq> slashed q" if "q \<in> set (tool_ids es)" for q
    using 3(3,4) that slashed_eq [of ?p q] by auto
  moreover have "slashed ?p \<notin> set (model_ids es)" using 3(4) slash_in [of ?p] by auto
  ultimately have "slashed ?p \<notin> sp_key ` set (event_spans rid es)" unfolding event_span_keys by blast
  then show ?case using 3 by (simp add: tool_span_key)
qed simp_all

lemma distinct_keys:
  assumes "ids_ok es" shows "distinct (''run'' # map sp_key (event_spans rid es))"
proof -
  have "CHR ''/'' \<notin> set ''run''" by simp
  then have "''run'' \<noteq> slashed p" for p using slash_in by metis
  then have "''run'' \<notin> sp_key ` set (event_spans rid es)" using assms unfolding event_span_keys ids_ok_def by blast
  moreover have "distinct (map sp_key (event_spans rid es))" using assms by (intro distinct_event_keys) (auto simp: ids_ok_def)
  ultimately show ?thesis by simp
qed

text \<open>How far a key is below the root: every parent is one level up, and is the key of a span.\<close>

definition level :: "any_event list \<Rightarrow> string \<Rightarrow> nat" where
  "level es k = (if k = ''run'' then 0 else if k \<in> set (model_ids es) then 1 else 2)"

lemma span_parent:
  assumes "ids_ok es" "s \<in> set (event_spans rid es)"
  obtains (call) "sp_parent s = Some ''run''" "level es (sp_key s) = 1"
    | (tool) q where "sp_kind s \<noteq> SPAN_KIND_CLIENT" "level es (sp_key s) = 2" "q \<in> set (event_spans rid es)"
        "sp_parent s = Some (sp_key q)" "sp_parent q = Some ''run''" "level es (sp_key q) = 1"
proof -
  have calls: "level es c = 1" if "c \<in> set (model_ids es)" for c using that assms(1) by (auto simp: level_def ids_ok_def)
  show thesis using assms(2) unfolding in_event_spans
  proof (elim disjE exE conjE)
    fix e assume e: "ModelCall e \<in> set es" "s = call_span rid e"
    then have "call_id e \<in> set (model_ids es)" using model_key by blast
    then show thesis using call e(2) calls by (simp add: call_span_def)
  next
    fix e assume e: "ToolCall e \<in> set es" "s = tool_span e"
    have "CHR ''/'' \<in> set (sp_key s)" using e(2) slash_in by (simp add: tool_span_key)
    then have "sp_key s \<notin> set (model_ids es)" "sp_key s \<noteq> ''run''" using assms(1) by (auto simp: ids_ok_def)
    then have two: "level es (sp_key s) = 2" by (simp add: level_def)
    have "tc_parent e \<in> set (model_ids es)" using e(1) assms(1) tool_key [of "(tc_parent e, tc_tool e)" es] by (force simp: ids_ok_def)
    then obtain m where m: "ModelCall m \<in> set es" "call_id m = tc_parent e" unfolding model_key by blast
    then have "call_span rid m \<in> set (event_spans rid es)" using in_event_spans by blast
    then show thesis
      using tool [OF _ two, of "call_span rid m"] e(2) m(2) calls [OF \<open>tc_parent e \<in> set (model_ids es)\<close>]
      by (simp add: tool_span_def call_span_def SPAN_KIND_CLIENT_def SPAN_KIND_INTERNAL_def)
  qed
qed

lemma in_time:
  assumes "list_all (timely header) es" "s \<in> set (event_spans rid es)"
  shows "started_at header \<le> sp_start s \<and> sp_start s \<le> sp_end s \<and> sp_end s \<le> root_end header es"
proof -
  have "started_at header \<le> event_start e \<and> event_start e \<le> recorded_at (meta_of e) \<and> recorded_at (meta_of e) \<le> root_end header es"
    if e: "e \<in> set es" for e
  proof -
    have "es \<noteq> []" "timely header e" using e assms(1) by (auto simp: list_all_iff)
    then show ?thesis
      using max_recorded [OF e] by (auto simp: root_end_def timely_def event_start_def split: option.splits)
  qed
  note time = this
  obtain e where "e \<in> set es" "sp_start s = event_start e" "sp_end s = recorded_at (meta_of e)"
    using assms(2) unfolding in_event_spans by (auto simp: call_span_def tool_span_def)
  then show ?thesis using time by simp
qed

lemma acyclic_measure:
  fixes f :: "'a \<Rightarrow> nat"
  assumes "\<And>x y. (x, y) \<in> r \<Longrightarrow> f y < f x" shows "acyclic r"
proof -
  have "r\<inverse> \<subseteq> measure f" using assms by auto
  then have "acyclic (r\<inverse>)" using wf_acyclic wf_subset wf_measure by metis
  then show ?thesis by (simp add: acyclic_converse)
qed


text \<open>A hash that keeps the first sixteen characters of the key apart.\<close>

definition ex_hash :: py_env where
  "ex_hash = \<lparr>sha256 = drop 7, frepr = (\<lambda>_. ''0.0''), crepr = (\<lambda>_. []), udigit = Map.empty\<rparr>"


end
