(* ===== verification/Advisory.thy ===== *)
theory Advisory
  imports Report
begin

text \<open>
  The model-assisted localisation, \<open>tracewake/llm.py\<close>: the bounded evidence drawn from a recording, the request made of a provider,
  and the checks an answer passes before it is returned beside the deterministic result.

  The provider, the JSON parser and the schema text of the answer are arguments; the two clock readings of a result are left out. A failure of the module is an
  \<open>LLMError\<close>; pydantic's strict mode takes each value only at its own type. Python's \<open>round\<close> of a quotient is that
  of the exact quotient.
\<close>

section \<open>Clipping\<close>

definition LLMError :: exn where "LLMError = Raised ''LLMError''"

definition MAX_PROMPT_BYTES :: nat where "MAX_PROMPT_BYTES = 65536"
definition MAX_EVIDENCE_BYTES :: nat where "MAX_EVIDENCE_BYTES = 1048576"
definition MAX_EVIDENCE_STEPS :: nat where "MAX_EVIDENCE_STEPS = 160"

text \<open>\<open>" ... [truncated]"\<close> with the one-character ellipsis.\<close>

definition clip_mark :: string where
  "clip_mark = '' '' @ [CHR 0xE2, CHR 0x80, CHR 0xA6] @ '' [truncated]''"

definition normal_text :: "string \<Rightarrow> string" where
  "normal_text t = join_str '' '' (split_ws t)"

definition clip :: "string \<Rightarrow> int \<Rightarrow> string \<times> bool" where
  "clip t limit =
     (let normalized = normal_text t
      in if limit \<le> 0 then ([], normalized \<noteq> [])
         else if int (str_len normalized) \<le> limit then (normalized, False)
         else if limit \<le> int (str_len clip_mark) then (take_chars (nat limit) clip_mark, True)
         else (take_chars (nat (limit - int (str_len clip_mark))) normalized @ clip_mark, True))"

section \<open>Which steps are shown\<close>

text \<open>\<open>round(a / b)\<close>, half to even.\<close>

definition round_div :: "int \<Rightarrow> int \<Rightarrow> int" where
  "round_div a b =
     (let q = a div b; r = a mod b
      in if 2 * r < b then q else if 2 * r > b then q + 1 else if even q then q else q + 1)"

text \<open>The last branch of the code, which trims a selection that is too long.\<close>

definition trim_key :: "int \<Rightarrow> int \<Rightarrow> int \<Rightarrow> int \<times> int" where
  "trim_key cnt candidate v = (min (min (v - 1) (cnt - v)) \<bar>v - candidate\<bar>, v)"

definition chosen_indices :: "int \<Rightarrow> int \<Rightarrow> int list" where
  "chosen_indices cnt candidate =
     (if cnt \<le> int MAX_EVIDENCE_STEPS then [1..cnt]
      else
        let selected = remdups ([1..min cnt 20] @ [max 1 (cnt - 19)..cnt]
              @ [max 1 (candidate - 50)..min cnt (candidate + 50)]);
            remaining = int MAX_EVIDENCE_STEPS - int (length selected);
            spread = (if remaining > 0
                      then map (\<lambda>offset. 1 + round_div (offset * (cnt - 1)) (max (remaining - 1) 1)) [0..remaining - 1]
                      else []);
            ordered = sort (remdups (selected @ spread))
        in if length ordered > MAX_EVIDENCE_STEPS
           then sort (take MAX_EVIDENCE_STEPS (sort_key (trim_key cnt candidate) ordered))
           else ordered)"

text \<open>The gaps of what was chosen, as texts \<open>"7"\<close> or \<open>"3-5"\<close>.\<close>

fun gaps_loop :: "int \<Rightarrow> int \<Rightarrow> int list \<Rightarrow> (int \<times> int) list" where
  "gaps_loop start previous [] = [(start, previous)]"
| "gaps_loop start previous (v # vs) =
     (if v = previous + 1 then gaps_loop start v vs else (start, previous) # gaps_loop v v vs)"

definition gap_list :: "int \<Rightarrow> int list \<Rightarrow> (int \<times> int) list" where
  "gap_list cnt included =
     (case filter (\<lambda>v. v \<notin> set included) [1..cnt] of [] \<Rightarrow> [] | m # ms \<Rightarrow> gaps_loop m m ms)"

definition gap_text :: "int \<times> int \<Rightarrow> string" where
  "gap_text g = (case g of (a, b) \<Rightarrow> if a = b then int_str a else int_str a @ ''-'' @ int_str b)"

definition omitted_ranges :: "int \<Rightarrow> int list \<Rightarrow> string list" where
  "omitted_ranges cnt included = map gap_text (gap_list cnt included)"

section \<open>Evidence\<close>

record observation_evidence =
  ob_name :: string
  ob_status :: status
  ob_content :: string

record step_evidence =
  ev_index :: int
  ev_actions :: "string list"
  ev_targets :: "string list"
  ev_writes :: "string list"
  ev_arguments :: string
  ev_reasoning :: string
  ev_observations :: "observation_evidence list"
  ev_truncated :: bool

text \<open>The observations of a step share a budget; the loop stops with an omission once it is spent.\<close>

definition observed_text :: "string \<Rightarrow> string option \<Rightarrow> string" where
  "observed_text content err =
     (case err of
        None \<Rightarrow> content
      | Some e \<Rightarrow>
          if e = [] then content
          else if content \<noteq> [] then content @ [CHR 0x0A] @ ''error: '' @ e else ''error: '' @ e)"

fun observe_tools :: "blob_source \<Rightarrow> int \<Rightarrow> tool_call_event list \<Rightarrow> (observation_evidence list \<times> bool) res" where
  "observe_tools bs remaining [] = Inr ([], False)"
| "observe_tools bs remaining (t # ts) =
     (if remaining \<le> 0 then Inr ([], True)
      else
        bind_res (bs_get bs (digest (tc_result t))) (\<lambda>data.
          let content = (if utf8_valid data then data else ''[binary tool result omitted]'');
              (clipped, cut) = clip (observed_text content (tc_error t)) remaining
          in bind_res (observe_tools bs (remaining - int (str_len clipped)) ts) (\<lambda>(rest, cut_rest).
               Inr (\<lparr>ob_name = tc_name t, ob_status = tc_status t, ob_content = clipped\<rparr> # rest, cut \<or> cut_rest))))"

definition sorted_strings :: "string set \<Rightarrow> string list" where
  "sorted_strings A = sorted_list_of_set A"

definition evidence_of_step :: "py_env \<Rightarrow> blob_source \<Rightarrow> step_trace \<Rightarrow> int \<Rightarrow> step_evidence res" where
  "evidence_of_step env bs tr index =
     (let s = tr_step tr;
          (arguments, args_cut) = clip (canonical_json (frepr env) (JObj (step_args s))) 1000;
          (reason, reason_cut) = clip (reasoning s) 1200
      in bind_res (observe_tools bs 1600 (tr_tools tr)) (\<lambda>(obs, obs_cut).
           Inr \<lparr>ev_index = index, ev_actions = sorted_strings (names s), ev_targets = sorted_strings (targets s),
                ev_writes = sorted_strings (step_writes s), ev_arguments = arguments, ev_reasoning = reason,
                ev_observations = obs, ev_truncated = args_cut \<or> reason_cut \<or> obs_cut\<rparr>))"

record context_message =
  cx_system :: bool
  cx_provenance :: "string option"
  cx_content :: string
  cx_truncated :: bool

text \<open>The task as the first model call was given it: user messages first in line for the budget, then in message order.\<close>

fun first_call :: "any_event list \<Rightarrow> model_call_event option" where
  "first_call [] = None"
| "first_call (e # es) = (case e of ModelCall m \<Rightarrow> Some m | _ \<Rightarrow> first_call es)"

fun select_context :: "int \<Rightarrow> (nat \<times> message) list \<Rightarrow> (nat \<times> context_message) list" where
  "select_context remaining [] = []"
| "select_context remaining ((i, m) # ms) =
     (if remaining \<le> 0 then []
      else
        let (content, cut) = clip (msg_content m) (min 4000 remaining)
        in (i, \<lparr>cx_system = (role m = RSystem), cx_provenance = provenance m, cx_content = content, cx_truncated = cut\<rparr>)
           # select_context (remaining - int (str_len content)) ms)"

definition task_context :: "any_event list \<Rightarrow> context_message list" where
  "task_context es =
     (case first_call es of
        None \<Rightarrow> []
      | Some c \<Rightarrow>
          let candidates = filter (\<lambda>(i, m). role m = RSystem \<or> role m = RUser)
                (zip [0..<length (mc_messages c)] (mc_messages c));
              priority = sort_key (\<lambda>(i, m). (role m \<noteq> RUser, i)) candidates
          in map snd (sort_key fst (select_context 12000 priority)))"

record outcome_evidence =
  oe_status :: status
  oe_error :: "string option"
  oe_coverage :: "bool option"
  oe_resolve :: "bool option"
  oe_test_summary :: "string option"
  oe_truncated :: bool

definition non_empty :: "string \<Rightarrow> string option" where
  "non_empty s = (if s = [] then None else Some s)"

definition recorded_outcome :: "any_event list \<Rightarrow> outcome_evidence option" where
  "recorded_outcome es =
     (case first_outcome (rev es) of
        None \<Rightarrow> None
      | Some o' \<Rightarrow>
          let (err, err_cut) = clip (or_str (oc_error o') []) 1000;
              (summary, summary_cut) = clip (or_str (oc_test_summary o') []) 2000
          in Some \<lparr>oe_status = oc_status o', oe_error = non_empty err, oe_coverage = oc_coverage o',
                   oe_resolve = oc_resolve o', oe_test_summary = non_empty summary, oe_truncated = err_cut \<or> summary_cut\<rparr>)"

record evidence =
  le_step :: nat
  le_class :: reliability_class
  le_context :: "context_message list"
  le_failing_outcome :: "outcome_evidence option"
  le_failing_count :: int
  le_failing :: "step_evidence list"
  le_reference_count :: "int option"
  le_reference :: "step_evidence list option"
  le_reference_outcome :: "outcome_evidence option"
  le_alignment :: "(int option \<times> int option) list option"
  le_truncated :: bool
  le_failing_omitted :: "int \<times> string list"
  le_reference_omitted :: "int \<times> string list"

text \<open>The reference run: its events, its blobs and its alignment with the failing run.\<close>

type_synonym reference_run = "stored_event list \<times> blob_source option \<times> aligned option"

definition shift_column :: "nat option \<times> nat option \<Rightarrow> int option \<times> int option" where
  "shift_column c = (map_option (\<lambda>i. int i + 1) (fst c), map_option (\<lambda>i. int i + 1) (snd c))"

definition shown_column :: "int list \<Rightarrow> int list \<Rightarrow> int option \<times> int option \<Rightarrow> bool" where
  "shown_column failing reference c \<longleftrightarrow>
     (case snd c of None \<Rightarrow> True | Some b \<Rightarrow> b \<in> set failing) \<and> (case fst c of None \<Rightarrow> True | Some g \<Rightarrow> g \<in> set reference)"

fun counterpart :: "aligned \<Rightarrow> nat \<Rightarrow> int option" where
  "counterpart [] step = None"
| "counterpart ((good, bad) # cs) step =
     (case good of
        Some g \<Rightarrow> if bad = Some (step - 1) then Some (int g + 1) else counterpart cs step
      | None \<Rightarrow> counterpart cs step)"

definition evidence_of_steps :: "py_env \<Rightarrow> blob_source \<Rightarrow> step_trace list \<Rightarrow> int list \<Rightarrow> step_evidence list res" where
  "evidence_of_steps env bs trs indices = map_res (\<lambda>i. evidence_of_step env bs (trs ! nat (i - 1)) i) indices"

text \<open>What a reference run adds: its length, the indices shown, the evidence and the columns.\<close>

definition reference_evidence ::
  "py_env \<Rightarrow> nat \<Rightarrow> int list \<Rightarrow> reference_run \<Rightarrow> (int \<times> int list \<times> step_evidence list \<times> (int option \<times> int option) list) res" where
  "reference_evidence env step failing_indices r =
     (case r of
        (es, Some bs, Some cols) \<Rightarrow>
          let trs = extract_traces env es False; cnt = int (length trs)
          in if trs = [] then Inl LLMError
             else
               let mapped = (case counterpart cols step of Some g \<Rightarrow> g | None \<Rightarrow> max 1 (cnt div 2));
                   indices = chosen_indices cnt mapped
               in bind_res (evidence_of_steps env bs trs indices) (\<lambda>steps.
                    bind_res (guard_res ((None, None) \<notin> set cols) ValidationError) (\<lambda>_.
                      Inr (cnt, indices, steps, filter (shown_column failing_indices indices) (map shift_column cols))))
      | _ \<Rightarrow> Inl LLMError)"

definition outcome_cut :: "outcome_evidence option \<Rightarrow> bool" where
  "outcome_cut v = (case v of None \<Rightarrow> False | Some e \<Rightarrow> oe_truncated e)"

definition build_evidence ::
  "py_env \<Rightarrow> stored_event list \<Rightarrow> blob_source \<Rightarrow> nat \<Rightarrow> reliability_class \<Rightarrow> reference_run option \<Rightarrow> evidence res" where
  "build_evidence env es bs step klass ref =
     (let trs = extract_traces env es False; cnt = int (length trs)
      in if trs = [] \<or> step < 1 \<or> step > length trs then Inl LLMError
         else
           let indices = chosen_indices cnt (int step)
           in bind_res (evidence_of_steps env bs trs indices) (\<lambda>failing.
              bind_res (case ref of None \<Rightarrow> Inr None
                  | Some r \<Rightarrow> bind_res (reference_evidence env step indices r) (\<lambda>x. Inr (Some x))) (\<lambda>found.
                let context = task_context (map event es);
                    outcome = recorded_outcome (map event es);
                    ref_outcome = (case ref of None \<Rightarrow> None | Some r \<Rightarrow> recorded_outcome (map event (fst r)));
                    ref_steps = (case found of None \<Rightarrow> [] | Some (_, _, steps, _) \<Rightarrow> steps);
                    cut = (list_ex cx_truncated context \<or> list_ex ev_truncated failing \<or> list_ex ev_truncated ref_steps
                           \<or> outcome_cut outcome \<or> outcome_cut ref_outcome)
                in Inr
                  \<lparr>le_step = step, le_class = klass, le_context = context, le_failing_outcome = outcome,
                   le_failing_count = cnt, le_failing = failing,
                   le_reference_count = map_option fst found, le_reference = map_option (fst \<circ> snd \<circ> snd) found,
                   le_reference_outcome = ref_outcome, le_alignment = map_option (snd \<circ> snd \<circ> snd) found,
                   le_truncated = (cut \<or> int (length indices) < cnt
                     \<or> (case found of None \<Rightarrow> False | Some (n, is, _) \<Rightarrow> int (length is) < n)),
                   le_failing_omitted = (cnt - int (length indices), omitted_ranges cnt indices),
                   le_reference_omitted = (case found of None \<Rightarrow> (0, [])
                     | Some (n, is, _) \<Rightarrow> (n - int (length is), omitted_ranges n is))\<rparr>)))"

section \<open>The evidence as bytes\<close>

definition jmaybe :: "('a \<Rightarrow> json) \<Rightarrow> 'a option \<Rightarrow> json" where
  "jmaybe f v = (case v of None \<Rightarrow> JNull | Some x \<Rightarrow> f x)"

definition jtexts :: "string list \<Rightarrow> json" where
  "jtexts ts = JArr (map JStr ts)"

definition dump_observation :: "observation_evidence \<Rightarrow> json" where
  "dump_observation o' = JObj [(''name'', JStr (ob_name o')), (''status'', JStr (status_str (ob_status o'))), (''content'', JStr (ob_content o'))]"

definition dump_step :: "step_evidence \<Rightarrow> json" where
  "dump_step s = JObj [(''index'', JInt (ev_index s)), (''actions'', jtexts (ev_actions s)), (''targets'', jtexts (ev_targets s)),
     (''writes'', jtexts (ev_writes s)), (''arguments_json'', JStr (ev_arguments s)), (''reasoning'', JStr (ev_reasoning s)),
     (''observations'', JArr (map dump_observation (ev_observations s))), (''truncated'', JBool (ev_truncated s))]"

definition dump_context :: "context_message \<Rightarrow> json" where
  "dump_context m = JObj [(''role'', JStr (if cx_system m then ''system'' else ''user'')), (''provenance'', jmaybe JStr (cx_provenance m)),
     (''content'', JStr (cx_content m)), (''truncated'', JBool (cx_truncated m))]"

definition dump_outcome :: "outcome_evidence \<Rightarrow> json" where
  "dump_outcome o' = JObj [(''status'', JStr (status_str (oe_status o'))), (''error'', jmaybe JStr (oe_error o')),
     (''coverage'', jmaybe JBool (oe_coverage o')), (''resolve'', jmaybe JBool (oe_resolve o')),
     (''test_summary'', jmaybe JStr (oe_test_summary o')), (''truncated'', JBool (oe_truncated o'))]"

definition dump_column :: "int option \<times> int option \<Rightarrow> json" where
  "dump_column c = JObj [(''reference_step'', jmaybe JInt (fst c)), (''failing_step'', jmaybe JInt (snd c))]"

definition dump_deterministic :: "evidence \<Rightarrow> json" where
  "dump_deterministic e = JObj [(''profile'', JStr ''localize-v1''), (''step'', JInt (int (le_step e))),
     (''reliability'', JStr (class_str (le_class e))), (''confidence'', JStr (band_str (RELIABILITY_BAND (le_class e))))]"

definition evidence_mode :: "evidence \<Rightarrow> string" where
  "evidence_mode e = (if le_reference e = None then ''single-run'' else ''reference-assisted'')"

definition dump_evidence :: "evidence \<Rightarrow> json" where
  "dump_evidence e = JObj [(''schema_version'', JInt 1), (''mode'', JStr (evidence_mode e)), (''deterministic'', dump_deterministic e),
     (''task_context'', JArr (map dump_context (le_context e))), (''failing_outcome'', jmaybe dump_outcome (le_failing_outcome e)),
     (''failing_step_count'', JInt (le_failing_count e)), (''failing_steps'', JArr (map dump_step (le_failing e))),
     (''reference_step_count'', jmaybe JInt (le_reference_count e)),
     (''reference_steps'', jmaybe (\<lambda>ss. JArr (map dump_step ss)) (le_reference e)),
     (''reference_outcome'', jmaybe dump_outcome (le_reference_outcome e)),
     (''alignment'', jmaybe (\<lambda>cs. JArr (map dump_column cs)) (le_alignment e)),
     (''truncation'', JObj [(''truncated'', JBool (le_truncated e)), (''failing_steps_omitted'', JInt (fst (le_failing_omitted e))),
        (''reference_steps_omitted'', JInt (fst (le_reference_omitted e))),
        (''failing_omitted_ranges'', jtexts (snd (le_failing_omitted e))),
        (''reference_omitted_ranges'', jtexts (snd (le_reference_omitted e)))])]"

definition evidence_bytes :: "py_env \<Rightarrow> evidence \<Rightarrow> string" where
  "evidence_bytes env e = canonical_json (frepr env) (dump_evidence e) @ [CHR 0x0A]"

definition bounded_evidence ::
  "py_env \<Rightarrow> stored_event list \<Rightarrow> blob_source \<Rightarrow> nat \<Rightarrow> reliability_class \<Rightarrow> reference_run option \<Rightarrow> evidence res" where
  "bounded_evidence env es bs step klass ref =
     bind_res (build_evidence env es bs step klass ref) (\<lambda>e.
       if length (evidence_bytes env e) > MAX_EVIDENCE_BYTES then Inl LLMError else Inr e)"

section \<open>The decision\<close>

datatype advice_confidence = AdviceHigh | AdviceModerate | AdviceLow

record decision =
  de_step :: "int option"
  de_confidence :: advice_confidence
  de_evidence :: "int list"
  de_abstain :: bool
  de_explanation :: string

text \<open>The fields in strict mode.\<close>

definition positive_field :: "json \<Rightarrow> int option res" where
  "positive_field j =
     (case j of JNull \<Rightarrow> Inr None | JInt n \<Rightarrow> if 1 \<le> n then Inr (Some n) else Inl ValidationError | _ \<Rightarrow> Inl ValidationError)"

definition int_items :: "json \<Rightarrow> int list res" where
  "int_items j =
     (case j of
        JArr vs \<Rightarrow> map_res (\<lambda>v. case v of JInt n \<Rightarrow> Inr n | _ \<Rightarrow> Inl ValidationError) vs
      | _ \<Rightarrow> Inl ValidationError)"

definition confidence_field :: "json \<Rightarrow> advice_confidence res" where
  "confidence_field j =
     (if j = JStr ''high'' then Inr AdviceHigh else if j = JStr ''moderate'' then Inr AdviceModerate
      else if j = JStr ''low'' then Inr AdviceLow else Inl ValidationError)"

text \<open>
  \<open>_safe_terminal_text\<close> after the length constraint. A surrogate cannot occur in text that has UTF-8 bytes.
\<close>

definition unsafe_char :: "char \<Rightarrow> bool" where
  "unsafe_char c \<longleftrightarrow> byte_val c < 32 \<and> byte_val c \<notin> {10, 13, 9}"

definition explanation_field :: "json \<Rightarrow> string res" where
  "explanation_field j =
     (case j of
        JStr s \<Rightarrow>
          if str_len s < 1 \<or> str_len s > 2000 then Inl ValidationError
          else if list_ex unsafe_char s then Inl ValidationError
          else if normal_text s = [] then Inl ValidationError
          else Inr (normal_text s)
      | _ \<Rightarrow> Inl ValidationError)"

definition consistent_abstention :: "decision \<Rightarrow> decision res" where
  "consistent_abstention d =
     (if de_abstain d \<and> de_step d \<noteq> None then Inl ValueError
      else if \<not> de_abstain d \<and> de_step d = None then Inl ValueError
      else if \<not> de_abstain d \<and> de_evidence d = [] then Inl ValueError
      else if \<not> distinct (de_evidence d) then Inl ValueError
      else Inr (d\<lparr>de_evidence := sort (de_evidence d)\<rparr>))"

definition decision_fields :: "string list" where
  "decision_fields = [''suggested_step'', ''confidence'', ''evidence_steps'', ''abstain'', ''explanation'']"

definition field_or :: "(string \<times> json) list \<Rightarrow> string \<Rightarrow> json \<Rightarrow> json" where
  "field_or kvs k d = (case map_of kvs k of None \<Rightarrow> d | Some v \<Rightarrow> v)"

definition required :: "(string \<times> json) list \<Rightarrow> string \<Rightarrow> json res" where
  "required kvs k = (case map_of kvs k of None \<Rightarrow> Inl ValidationError | Some v \<Rightarrow> Inr v)"

definition parse_decision :: "json \<Rightarrow> decision res" where
  "parse_decision j =
     (case j of
        JObj kvs \<Rightarrow>
          if \<not> set (map fst kvs) \<subseteq> set decision_fields then Inl ValidationError
          else
            bind_res (positive_field (field_or kvs ''suggested_step'' JNull)) (\<lambda>step.
            bind_res (bind_res (required kvs ''confidence'') confidence_field) (\<lambda>conf.
            bind_res (int_items (field_or kvs ''evidence_steps'' (JArr []))) (\<lambda>cited.
            bind_res (bind_res (required kvs ''abstain'') (\<lambda>v. case v of JBool b \<Rightarrow> Inr b | _ \<Rightarrow> Inl ValidationError)) (\<lambda>abstain.
            bind_res (bind_res (required kvs ''explanation'') explanation_field) (\<lambda>expl.
              consistent_abstention \<lparr>de_step = step, de_confidence = conf, de_evidence = cited, de_abstain = abstain,
                de_explanation = expl\<rparr>)))))
      | _ \<Rightarrow> Inl ValidationError)"

section \<open>A request and its answer\<close>

record llm_message =
  lm_system :: bool
  lm_content :: string

record llm_request =
  lq_model :: string
  lq_messages :: "llm_message list"
  lq_temperature :: real

record llm_response =
  ls_content :: string
  ls_model :: "string option"
  ls_request_id :: "string option"
  ls_usage :: "int option \<times> int option \<times> int option"
  ls_raw_sha256 :: string

record llm_provider =
  lp_name :: string
  lp_endpoint :: "string option"
  lp_complete :: "llm_request \<Rightarrow> real \<Rightarrow> llm_response res"

record llm_result =
  lr_evidence_mode :: string
  lr_deterministic :: json
  lr_advisory :: decision
  lr_provider :: string
  lr_endpoint :: "string option"
  lr_requested_model :: string
  lr_reported_model :: "string option"
  lr_request_id :: "string option"
  lr_prompt_sha256 :: string
  lr_evidence_sha256 :: string
  lr_response_sha256 :: string
  lr_failing_digest :: string
  lr_reference_digest :: "string option"
  lr_timeout :: real
  lr_usage :: "int option \<times> int option \<times> int option"
  lr_truncated :: bool
  lr_omitted :: "(int \<times> string list) \<times> (int \<times> string list)"

definition llm_user_message :: "py_env \<Rightarrow> json \<Rightarrow> evidence \<Rightarrow> string" where
  "llm_user_message env schema e =
     ''Return one JSON object matching this schema:'' @ [CHR 0x0A] @ canonical_json (frepr env) schema
     @ [CHR 0x0A, CHR 0x0A] @ ''Recorded evidence:'' @ [CHR 0x0A] @ evidence_bytes env e"

definition check_grounded :: "evidence \<Rightarrow> decision \<Rightarrow> unit res" where
  "check_grounded e d =
     (let included = set (map ev_index (le_failing e))
      in if (case de_step d of None \<Rightarrow> False | Some s \<Rightarrow> s \<notin> included) then Inl LLMError
         else guard_res (set (de_evidence d) \<subseteq> included) LLMError)"

definition decision_of :: "(string \<Rightarrow> json res) \<Rightarrow> string \<Rightarrow> decision res" where
  "decision_of loads content =
     (case bind_res (loads content) parse_decision of Inl _ \<Rightarrow> Inl LLMError | Inr d \<Rightarrow> Inr d)"

definition localize_with_llm ::
  "py_env \<Rightarrow> (string \<Rightarrow> json res) \<Rightarrow> json \<Rightarrow> llm_provider \<Rightarrow> string \<Rightarrow> stored_event list \<Rightarrow> blob_source \<Rightarrow> nat \<Rightarrow> reliability_class
    \<Rightarrow> real \<Rightarrow> string \<Rightarrow> reference_run option \<Rightarrow> llm_result res" where
  "localize_with_llm env loads schema provider model es bs step klass timeout prompt ref =
     (if split_ws model = [] \<or> \<not> (0 < timeout \<and> timeout \<le> 300) \<or> split_ws prompt = [] \<or> length prompt > MAX_PROMPT_BYTES
      then Inl LLMError
      else
        bind_res (bounded_evidence env es bs step klass ref) (\<lambda>e.
        let request = \<lparr>lq_model = model, lq_messages = [\<lparr>lm_system = True, lm_content = prompt\<rparr>,
              \<lparr>lm_system = False, lm_content = llm_user_message env schema e\<rparr>], lq_temperature = 0\<rparr>
        in bind_res (lp_complete provider request timeout) (\<lambda>response.
           bind_res (decision_of loads (ls_content response)) (\<lambda>d.
               bind_res (check_grounded e d) (\<lambda>_.
                 Inr \<lparr>lr_evidence_mode = evidence_mode e, lr_deterministic = dump_deterministic e, lr_advisory = d,
                      lr_provider = lp_name provider, lr_endpoint = lp_endpoint provider, lr_requested_model = model, lr_reported_model = ls_model response,
                      lr_request_id = ls_request_id response,
                      lr_prompt_sha256 = sha256_hex env prompt, lr_evidence_sha256 = sha256_hex env (evidence_bytes env e),
                      lr_response_sha256 = or_str (non_empty (ls_raw_sha256 response)) (sha256_hex env (ls_content response)),
                      lr_failing_digest = run_digest env es,
                      lr_reference_digest = map_option (run_digest env \<circ> fst) ref,
                      lr_timeout = timeout, lr_usage = ls_usage response, lr_truncated = le_truncated e,
                      lr_omitted = (le_failing_omitted e, le_reference_omitted e)\<rparr>)))))"

section \<open>Characters of clipped texts\<close>

lemma hd_concat_chars: "concat (take n (utf8_chars s)) = [] \<or> hd (concat (take n (utf8_chars s))) = hd s"
  by (cases s; cases n) auto

lemma utf8_chars_take: "utf8_chars (take_chars n s) = take n (utf8_chars s)"
proof (induction s arbitrary: n rule: utf8_chars.induct)
  case (2 c cs)
  let ?xs = "dropWhile is_cont cs"
  have xs: "?xs = [] \<or> \<not> is_cont (hd ?xs)" using hd_dropWhile by blast
  show ?case
  proof (cases n)
    case (Suc m)
    let ?rest = "concat (take m (utf8_chars ?xs))"
    have rest: "?rest = [] \<or> \<not> is_cont (hd ?rest)"
      using hd_concat_chars [of m ?xs] xs by (metis concat.simps(1) take_Nil utf8_chars.simps(1))
    have one: "utf8_chars (c # takeWhile is_cont cs) = [c # takeWhile is_cont cs]"
    proof -
      have "dropWhile is_cont (takeWhile is_cont cs) = []" by (auto dest: set_takeWhileD)
      moreover have "takeWhile is_cont (takeWhile is_cont cs) = takeWhile is_cont cs" by (rule takeWhile_idem)
      ultimately show ?thesis by (simp only: utf8_chars.simps)
    qed
    have "take_chars n (c # cs) = (c # takeWhile is_cont cs) @ ?rest" by (simp add: take_chars_def Suc)
    then have "utf8_chars (take_chars n (c # cs)) = [c # takeWhile is_cont cs] @ utf8_chars ?rest"
      using utf8_chars_append [OF rest, of "c # takeWhile is_cont cs"] one by simp
    then show ?thesis using 2 [of m] by (simp add: Suc take_chars_def)
  qed (simp add: take_chars_def)
qed (simp add: take_chars_def)

lemma str_len_take [simp]: "str_len (take_chars n s) = min n (str_len s)"
  by (simp add: str_len_def utf8_chars_take)

lemma str_len_mark [simp]: "str_len clip_mark = 14"
  by code_simp

lemma str_len_marked: "str_len (s @ clip_mark) = str_len s + 14"
proof -
  have "clip_mark \<noteq> [] \<and> \<not> is_cont (hd clip_mark)" by code_simp
  then show ?thesis using str_len_mark by (simp add: str_len_def utf8_chars_append)
qed

text \<open>A clipped text is within its limit, and one that is not cut is the normalised text.\<close>

lemma clip_length: "int (str_len (fst (clip t limit))) \<le> max limit 0"
  by (auto simp: clip_def Let_def str_len_marked) (simp_all add: str_len_def)

lemma clip_whole: "\<not> snd (clip t limit) \<Longrightarrow> fst (clip t limit) = normal_text t"
  by (auto simp: clip_def Let_def split: if_splits)

section \<open>The window of steps\<close>

lemma round_div_range:
  assumes "0 < b" "0 \<le> a" "a \<le> b * m"
  shows "0 \<le> round_div a b \<and> round_div a b \<le> m"
proof -
  have q: "0 \<le> a div b" "a div b \<le> m"
    using assms(1,2) zdiv_mono1 [OF assms(3,1)] by (simp_all add: pos_imp_zdiv_nonneg_iff)
  show ?thesis
  proof (cases "a div b = m")
    case True
    then have "a mod b = 0" using assms by (smt (verit) mult_div_mod_eq pos_mod_sign mult.commute)
    then show ?thesis using True q assms(1) by (simp add: round_div_def)
  next
    case False
    then show ?thesis using q by (auto simp: round_div_def Let_def)
  qed
qed

lemma chosen_small: "n \<le> 160 \<Longrightarrow> chosen_indices n cand = [1..n]"
  by (simp add: chosen_indices_def MAX_EVIDENCE_STEPS_def)

lemma chosen_large:
  assumes "160 < n" "1 \<le> cand" "cand \<le> n"
  obtains spread where "chosen_indices n cand
      = sort (remdups ([1..20] @ [n - 19..n] @ [max 1 (cand - 50)..min n (cand + 50)] @ spread))"
    and "set spread \<subseteq> {1..n}"
    and "length (chosen_indices n cand) \<le> 160"
proof -
  let ?sel = "remdups ([1..min n 20] @ [max 1 (n - 19)..n] @ [max 1 (cand - 50)..min n (cand + 50)])"
  define r where "r = 160 - int (length ?sel)"
  define spread where "spread = map (\<lambda>offset. 1 + round_div (offset * (n - 1)) (max (r - 1) 1)) [0..r - 1]"
  have "length ?sel \<le> length ([1..min n 20] @ [max 1 (n - 19)..n] @ [max 1 (cand - 50)..min n (cand + 50)])"
    by (rule length_remdups_leq)
  also have "\<dots> \<le> 141" using assms by simp
  finally have r: "19 \<le> r" by (simp add: r_def)
  have "1 + round_div (offset * (n - 1)) (max (r - 1) 1) \<in> {1..n}" if "offset \<in> {0..r - 1}" for offset
  proof -
    have "offset * (n - 1) \<le> max (r - 1) 1 * (n - 1)" using that assms(1) by (intro mult_right_mono) auto
    moreover have "0 \<le> offset * (n - 1)" "0 < max (r - 1) 1" using that assms(1) by simp_all
    ultimately show ?thesis using round_div_range [of "max (r - 1) 1" "offset * (n - 1)" "n - 1"] by simp
  qed
  then have sp: "set spread \<subseteq> {1..n}" by (auto simp: spread_def)
  let ?ordered = "sort (remdups (?sel @ spread))"
  have "length ?ordered = length (remdups (?sel @ spread))" by (rule length_sort)
  also have "\<dots> \<le> length (?sel @ spread)" by (rule length_remdups_leq)
  also have "\<dots> = length ?sel + length spread" by (rule length_append)
  also have "\<dots> = 160"
  proof -
    have "length spread = nat r" by (simp add: spread_def)
    moreover have "int (length ?sel) = 160 - r" by (simp only: r_def)
    ultimately show ?thesis using r by linarith
  qed
  finally have len: "length ?ordered \<le> 160" .
  have "chosen_indices n cand = ?ordered"
    using assms(1) r len by (simp add: chosen_indices_def MAX_EVIDENCE_STEPS_def Let_def r_def spread_def)
  moreover have "?ordered = sort (remdups ([1..20] @ [n - 19..n] @ [max 1 (cand - 50)..min n (cand + 50)] @ spread))"
    using assms(1) by (intro sorted_distinct_set_unique) (auto simp: min_def max_def)
  ultimately show thesis using that sp len by metis
qed

lemma gaps_loop_spec:
  assumes "start \<le> previous" "sorted_wrt (<) (previous # vs)"
  shows "(\<Union>(a, b)\<in>set (gaps_loop start previous vs). {a..b}) = {start..previous} \<union> set vs"
    and "sorted_wrt (\<lambda>g g'. snd g + 1 < fst g') (gaps_loop start previous vs)"
    and "\<forall>(a, b)\<in>set (gaps_loop start previous vs). start \<le> a \<and> a \<le> b"
    and "sum_list (map (\<lambda>(a, b). b - a + 1) (gaps_loop start previous vs)) = previous - start + 1 + int (length vs)"
  using assms
proof (induction start previous vs rule: gaps_loop.induct)
  case (2 start previous v vs)
  {
    case 1
    then show ?case using 2 by (cases "v = previous + 1") auto
  next
    case 2
    have "previous + 1 < a" if "(a, b) \<in> set (gaps_loop v v vs)" "v \<noteq> previous + 1" for a b
      using "2.IH"(7) [OF that(2)] that 2 by fastforce
    then show ?case using 2 "2.IH"(2,6) by (cases "v = previous + 1") fastforce+
  next
    case 3
    then show ?case using "2.IH"(3,7) by (cases "v = previous + 1") fastforce+
  next
    case 4
    then show ?case using "2.IH"(4,8) by (cases "v = previous + 1") auto
  }
qed auto

lemma sorted_upto: "sorted_wrt (<) [i..j]"
  by (simp add: sorted_wrt_iff_nth_less)

lemma chosen_spec:
  assumes "1 \<le> cand" "cand \<le> n"
  shows "sorted_wrt (<) (chosen_indices n cand)" "set (chosen_indices n cand) \<subseteq> {1..n}"
    "length (chosen_indices n cand) \<le> MAX_EVIDENCE_STEPS"
    "n \<le> 160 \<Longrightarrow> chosen_indices n cand = [1..n]"
    "{1..min n 20} \<union> {max 1 (n - 19)..n} \<union> {max 1 (cand - 50)..min n (cand + 50)} \<subseteq> set (chosen_indices n cand)"
proof -
  have "sorted_wrt (<) (chosen_indices n cand) \<and> set (chosen_indices n cand) \<subseteq> {1..n}
    \<and> length (chosen_indices n cand) \<le> MAX_EVIDENCE_STEPS
    \<and> {1..min n 20} \<union> {max 1 (n - 19)..n} \<union> {max 1 (cand - 50)..min n (cand + 50)} \<subseteq> set (chosen_indices n cand)"
  proof (cases "n \<le> 160")
    case True
    then show ?thesis using assms by (auto simp: chosen_small sorted_upto MAX_EVIDENCE_STEPS_def)
  next
    case False
    then have n: "160 < n" by simp
    from n assms show ?thesis
    proof (rule chosen_large)
      fix spread
      assume c: "chosen_indices n cand = sort (remdups ([1..20] @ [n - 19..n] @ [max 1 (cand - 50)..min n (cand + 50)] @ spread))"
        and "set spread \<subseteq> {1..n}" "length (chosen_indices n cand) \<le> 160"
      moreover have "sorted_wrt (<) (chosen_indices n cand)"
        unfolding c by (simp add: strict_sorted_iff del: remdups_append)
      ultimately show ?thesis using n assms by (auto simp: MAX_EVIDENCE_STEPS_def)
    qed
  qed
  then show "sorted_wrt (<) (chosen_indices n cand)" "set (chosen_indices n cand) \<subseteq> {1..n}"
    "length (chosen_indices n cand) \<le> MAX_EVIDENCE_STEPS"
    "{1..min n 20} \<union> {max 1 (n - 19)..n} \<union> {max 1 (cand - 50)..min n (cand + 50)} \<subseteq> set (chosen_indices n cand)"
    by blast+
  show "n \<le> 160 \<Longrightarrow> chosen_indices n cand = [1..n]" by (rule chosen_small)
qed

text \<open>
  C37. The window of steps a model is shown: for any run and any candidate step of it, at most 160 distinct steps of the
  run in order, all of them when the run is that short, and otherwise at least its first and last twenty and the fifty on
  either side of the candidate. The ranges reported as omitted are maximal, in order, and cover exactly what is not shown.
\<close>

theorem evidence_window:
  assumes "1 \<le> cand" "cand \<le> n"
  shows "let shown = chosen_indices n cand; gaps = gap_list n shown
    in sorted_wrt (<) shown \<and> set shown \<subseteq> {1..n} \<and> length shown \<le> MAX_EVIDENCE_STEPS \<and> (160 < n \<or> shown = [1..n])
     \<and> {1..min n 20} \<union> {max 1 (n - 19)..n} \<union> {max 1 (cand - 50)..min n (cand + 50)} \<subseteq> set shown
     \<and> omitted_ranges n shown = map gap_text gaps \<and> sorted_wrt (\<lambda>g g'. snd g + 1 < fst g') gaps
     \<and> (\<Union>(a, b)\<in>set gaps. {a..b}) = {1..n} - set shown
     \<and> sum_list (map (\<lambda>(a, b). b - a + 1) gaps) = n - int (length shown)"
proof -
  let ?shown = "chosen_indices n cand"
  note spec = chosen_spec [OF assms]
  let ?missing = "filter (\<lambda>v. v \<notin> set ?shown) [1..n]"
  have sorted: "sorted_wrt (<) ?missing" by (rule sorted_wrt_filter [OF sorted_upto])
  have "distinct ?shown" using spec(1) by (simp add: strict_sorted_iff)
  then have "int (length ?missing) = n - int (length ?shown)"
  proof -
    have "set ?missing = {1..n} - set ?shown" by auto
    moreover have "distinct ?missing" by simp
    ultimately have "length ?missing = card ({1..n} - set ?shown)" by (metis distinct_card)
    also have "\<dots> = card {1..n} - card (set ?shown)" using spec(2) by (simp add: card_Diff_subset)
    also have "card (set ?shown) = length ?shown" using \<open>distinct ?shown\<close> by (rule distinct_card)
    finally show ?thesis using assms card_mono [OF _ spec(2)] distinct_card [OF \<open>distinct ?shown\<close>] by simp
  qed
  moreover have "(\<Union>(a, b)\<in>set (gap_list n ?shown). {a..b}) = set ?missing \<and> sorted_wrt (\<lambda>g g'. snd g + 1 < fst g') (gap_list n ?shown)
      \<and> sum_list (map (\<lambda>(a, b). b - a + 1) (gap_list n ?shown)) = int (length ?missing)"
  proof (cases ?missing)
    case (Cons m ms)
    then show ?thesis
      using gaps_loop_spec [of m m ms] sorted by (simp add: gap_list_def insert_is_Un [symmetric])
  qed (simp add: gap_list_def)
  moreover have "160 < n \<or> ?shown = [1..n]" using spec(4) by (cases "n \<le> 160") auto
  moreover have "set ?missing = {1..n} - set ?shown" by auto
  ultimately show ?thesis
    using spec(1,2,3,5) by (simp add: Let_def omitted_ranges_def)
qed

theorem evidence_window_witness:
  "gap_list 300 (chosen_indices 300 150) \<noteq> [] \<and> length (chosen_indices 300 150) \<le> 160 \<and> 150 \<in> set (chosen_indices 300 150)"
proof -
  have "sum_list (map (\<lambda>(a, b). b - a + 1) (gap_list 300 (chosen_indices 300 150))) = 300 - int (length (chosen_indices 300 150))"
    "length (chosen_indices 300 150) \<le> 160" "150 \<in> set (chosen_indices 300 150)"
    using evidence_window [of 150 300] by (auto simp: Let_def MAX_EVIDENCE_STEPS_def)
  then show ?thesis by auto
qed


section \<open>An answer stays within what was shown\<close>

lemma evidence_of_step_index: "evidence_of_step env bs tr i = Inr s \<Longrightarrow> ev_index s = i"
  by (auto simp: evidence_of_step_def Let_def bind_res_eq_Inr split: prod.splits)

lemma evidence_of_steps_indices:
  assumes "evidence_of_steps env bs trs is = Inr ss"
  shows "map ev_index ss = is"
proof -
  note m = assms [unfolded evidence_of_steps_def]
  have "ev_index (ss ! i) = is ! i" if "i < length is" for i
    using evidence_of_step_index map_res_eq_Inr_nth [OF m that] by blast
  then show ?thesis using map_res_eq_Inr_length [OF m] by (simp add: list_eq_iff_nth_eq)
qed

lemma build_evidence_shown:
  assumes "build_evidence env es bs step klass ref = Inr e"
  defines "n \<equiv> length (extract_traces env es False)"
  shows "1 \<le> step \<and> step \<le> n \<and> map ev_index (le_failing e) = chosen_indices (int n) (int step)
    \<and> le_step e = step \<and> le_class e = klass"
  using assms(1) evidence_of_steps_indices
  by (auto simp: build_evidence_def Let_def bind_res_eq_Inr n_def split: if_splits)

lemma consistent_abstention_ok:
  "consistent_abstention d = Inr d' \<Longrightarrow> sorted_wrt (<) (de_evidence d') \<and> set (de_evidence d') = set (de_evidence d)
    \<and> (de_abstain d' \<longleftrightarrow> de_step d' = None) \<and> (de_abstain d' \<or> de_evidence d' \<noteq> [])"
  using length_sort [where xs = "de_evidence d" and f = "\<lambda>x. x"]
  by (auto simp: consistent_abstention_def strict_sorted_iff simp del: length_sort split: if_splits)

lemma parse_decision_ok:
  assumes "parse_decision j = Inr d"
  shows "sorted_wrt (<) (de_evidence d) \<and> (de_abstain d \<longleftrightarrow> de_step d = None) \<and> (de_abstain d \<or> de_evidence d \<noteq> [])"
proof -
  obtain d' where "consistent_abstention d' = Inr d"
    using assms by (auto simp: parse_decision_def bind_res_eq_Inr split: json.splits if_splits)
  then show ?thesis using consistent_abstention_ok by blast
qed

text \<open>
  C19. A model cannot move the deterministic answer nor cite what it was not shown. Whatever the provider and the parser do, a
  result carries the step and class it was asked about as its authoritative part; the suggested step, if any, and
  every cited step are steps of the window in the evidence; the citations are in order without repetition; the answer
  abstains exactly when it suggests nothing, and one that does not abstain cites something. The evidence sent is
  within its byte limit.
\<close>

theorem advice_grounded:
  assumes "localize_with_llm env loads schema provider model es bs step klass timeout prompt ref = Inr r"
  shows "\<exists>e. bounded_evidence env es bs step klass ref = Inr e \<and> length (evidence_bytes env e) \<le> MAX_EVIDENCE_BYTES
    \<and> lr_deterministic r = JObj [(''profile'', JStr ''localize-v1''), (''step'', JInt (int step)),
        (''reliability'', JStr (class_str klass)), (''confidence'', JStr (band_str (RELIABILITY_BAND klass)))]
    \<and> (let shown = chosen_indices (int (length (extract_traces env es False))) (int step); d = lr_advisory r
       in map ev_index (le_failing e) = shown \<and> set_option (de_step d) \<union> set (de_evidence d) \<subseteq> set shown
        \<and> sorted_wrt (<) (de_evidence d) \<and> (de_abstain d \<longleftrightarrow> de_step d = None) \<and> (de_abstain d \<or> de_evidence d \<noteq> []))"
proof -
  obtain e c d where e: "bounded_evidence env es bs step klass ref = Inr e"
    and d: "decision_of loads c = Inr d" "check_grounded e d = Inr ()"
    and r: "lr_deterministic r = dump_deterministic e" "lr_advisory r = d"
    using assms by (fastforce simp: localize_with_llm_def Let_def bind_res_eq_Inr split: if_splits)
  have b: "build_evidence env es bs step klass ref = Inr e" "length (evidence_bytes env e) \<le> MAX_EVIDENCE_BYTES"
    using e by (auto simp: bounded_evidence_def bind_res_eq_Inr split: if_splits)
  note shown = build_evidence_shown [OF b(1)]
  obtain j where "parse_decision j = Inr d" using d(1) by (auto simp: decision_of_def bind_res_eq_Inr split: sum.splits)
  note decided = parse_decision_ok [OF this]
  have "set_option (de_step d) \<union> set (de_evidence d) \<subseteq> set (map ev_index (le_failing e))"
    using d(2) by (auto simp: check_grounded_def Let_def guard_res_def split: if_splits option.splits)
  then have "set_option (de_step d) \<union> set (de_evidence d)
      \<subseteq> set (chosen_indices (int (length (extract_traces env es False))) (int step))"
    using shown by (simp only:)
  then show ?thesis using e b(2) r decided shown by (auto simp: Let_def dump_deterministic_def)
qed

definition ex_advised :: "stored_event list" where
  "ex_advised = [ex_stored 1 (ToolCall (ex_tool ''t1'' 0))]"

definition ex_advice :: json where
  "ex_advice = JObj [(''suggested_step'', JInt 1), (''confidence'', JStr ''low''), (''evidence_steps'', JArr [JInt 1]),
     (''abstain'', JBool False), (''explanation'', JStr ''the edit'')]"

definition ex_provider :: llm_provider where
  "ex_provider = \<lparr>lp_name = ''fixed'', lp_endpoint = None, lp_complete = (\<lambda>_ _. Inr \<lparr>ls_content = ''{}'', ls_model = None,
     ls_request_id = None, ls_usage = (None, None, None), ls_raw_sha256 = []\<rparr>)\<rparr>"

definition ex_blobs :: blob_source where
  "ex_blobs = \<lparr>bs_has = (\<lambda>_. True), bs_get = (\<lambda>_. Inr [])\<rparr>"

lemma length_evidence: "int (length (evidence_bytes env e)) \<le> json_weight (frepr env) (dump_evidence e) + 1"
  using length_render [THEN conjunct1, of "frepr env" "sort_keys (dump_evidence e)"]
  by (simp add: evidence_bytes_def canonical_json_def weight_sort_keys)

lemma ex_evidence:
  "\<exists>e. build_evidence const_env ex_advised ex_blobs 1 CommitShort None = Inr e \<and> map ev_index (le_failing e) = [1]
    \<and> json_weight (frepr const_env) (dump_evidence e) < 10000"
proof -
  obtain tr where tr: "extract_traces const_env ex_advised False = [tr]" "step_args (tr_step tr) = []"
    "reasoning (tr_step tr) = []" "tr_tools tr = [ex_tool ''t1'' 0]" "names (tr_step tr) = {''read''}"
    "targets (tr_step tr) = {}" "step_writes (tr_step tr) = {}"
    by (simp add: ex_advised_def ex_stored_def extract_traces_def group_events_def empty_grouping_def list_at_def Let_def
        build_step_def ex_tool_def targets_def names_def target_of_def step_reasoning_def model_calls_by_id_def map_filter_def)
  have valid: "utf8_valid []" by code_simp
  have "clip ''{}'' 1000 = (''{}'', False)" "clip [] 1200 = ([], False)" "clip [] 1600 = ([], False)"
    by (simp_all add: clip_def normal_text_def split_ws_def byte_val_def is_cont_def str_len_def)
  then have "evidence_of_step const_env ex_blobs tr 1 = Inr
      \<lparr>ev_index = 1, ev_actions = [''read''], ev_targets = [], ev_writes = [], ev_arguments = ''{}'', ev_reasoning = [],
       ev_observations = [\<lparr>ob_name = ''read'', ob_status = StOk, ob_content = []\<rparr>], ev_truncated = False\<rparr>"
    using tr valid by (simp add: evidence_of_step_def canonical_json_def sorted_strings_def ex_tool_def ex_blobs_def observed_text_def)
  moreover have "length (int_str 0) = 1" "length (int_str 1) = 1" by code_simp+
  ultimately show ?thesis
    using tr by (simp add: build_evidence_def evidence_of_steps_def chosen_small task_context_def recorded_outcome_def
        ex_advised_def ex_stored_def omitted_ranges_def gap_list_def dump_evidence_def evidence_mode_def dump_deterministic_def
        dump_step_def dump_observation_def jtexts_def jmaybe_def outcome_cut_def)
qed

theorem advice_grounded_witness:
  "\<exists>r. localize_with_llm const_env (\<lambda>_. Inr ex_advice) JNull ex_provider ''m'' ex_advised ex_blobs 1 CommitShort 30 ''p'' None = Inr r
    \<and> de_step (lr_advisory r) = Some 1 \<and> set (de_evidence (lr_advisory r)) \<subseteq> {1}"
proof -
  obtain e where "build_evidence const_env ex_advised ex_blobs 1 CommitShort None = Inr e"
    and shown: "map ev_index (le_failing e) = [1]" and "json_weight (frepr const_env) (dump_evidence e) < 10000"
    by (rule ex_evidence [THEN exE]) (elim conjE)
  then have e: "bounded_evidence const_env ex_advised ex_blobs 1 CommitShort None = Inr e"
    using length_evidence [of const_env e] by (simp add: bounded_evidence_def MAX_EVIDENCE_BYTES_def)
  have d: "parse_decision ex_advice = Inr \<lparr>de_step = Some 1, de_confidence = AdviceLow, de_evidence = [1], de_abstain = False,
      de_explanation = ''the edit''\<rparr>"
  proof -
    have "str_len ''the edit'' = 8" "\<not> list_ex unsafe_char ''the edit''" by code_simp+
    moreover have "normal_text ''the edit'' = ''the edit''"
      by (simp add: normal_text_def split_ws_def byte_val_def is_cont_def)
    ultimately have "explanation_field (JStr ''the edit'') = Inr ''the edit''" by (simp add: explanation_field_def)
    moreover have "set (map fst (case ex_advice of JObj kvs \<Rightarrow> kvs)) \<subseteq> set decision_fields" by code_simp
    ultimately show ?thesis
      by (simp add: parse_decision_def ex_advice_def field_or_def required_def positive_field_def confidence_field_def
          int_items_def consistent_abstention_def)
  qed
  have ok: "split_ws ''m'' \<noteq> []" "split_ws ''p'' \<noteq> []" by (simp_all add: split_ws_def byte_val_def)
  have size: "\<not> length ''p'' > MAX_PROMPT_BYTES" by (simp add: MAX_PROMPT_BYTES_def)
  obtain r where r: "localize_with_llm const_env (\<lambda>_. Inr ex_advice) JNull ex_provider ''m'' ex_advised ex_blobs 1 CommitShort 30 ''p'' None
      = Inr r" "de_step (lr_advisory r) = Some 1"
    using e shown ok size d by (auto simp: localize_with_llm_def Let_def decision_of_def check_grounded_def ex_provider_def)
  obtain e' where "bounded_evidence const_env ex_advised ex_blobs 1 CommitShort None = Inr e'"
    "set (de_evidence (lr_advisory r)) \<subseteq> set (map ev_index (le_failing e'))"
    using advice_grounded [OF r(1)] unfolding Let_def Un_subset_iff by metis
  then show ?thesis using r e shown by auto
qed

end
