(* ===== verification/Contracts.thy ===== *)
theory Contracts
  imports Report
begin

text \<open>
  The wire contracts of the hosted system, \<open>tracewake/contracts.py\<close>: the records the control plane, the
  workers and the clients exchange, the constraints their fields carry and the checks that span fields.

  Each pydantic model is a record and a predicate \<open>..._ok\<close>, which holds of the values the model accepts; \<open>model_of\<close>
  is the constructor, which raises \<open>ValidationError\<close> otherwise. A field pinned by \<open>Literal\<close> to one value is kept as a
  field when the check of that value matters and is left out when the code only ever writes the constant. A
  \<open>UUID\<close> field holds the canonical text of the identifier, and parsing one is the argument \<open>uuid\<close>, which gives the
  canonical text or \<open>None\<close>. An \<open>AwareDatetime\<close> holds its ISO text.
\<close>

section \<open>Fields\<close>

definition CONTRACT_SCHEMA_VERSION :: int where "CONTRACT_SCHEMA_VERSION = 1"
definition WORKER_PROTOCOL_VERSION :: int where "WORKER_PROTOCOL_VERSION = 1"

definition model_of :: "('a \<Rightarrow> bool) \<Rightarrow> 'a \<Rightarrow> 'a res" where
  "model_of ok x = (if ok x then Inr x else Inl ValidationError)"

definition uuid_field :: "(string \<Rightarrow> string option) \<Rightarrow> json \<Rightarrow> string res" where
  "uuid_field uuid j =
     (case j of JStr s \<Rightarrow> (case uuid s of None \<Rightarrow> Inl ValidationError | Some u \<Rightarrow> Inr u) | _ \<Rightarrow> Inl ValidationError)"

definition str_field :: "json \<Rightarrow> string res" where
  "str_field j = (case j of JStr s \<Rightarrow> Inr s | _ \<Rightarrow> Inl ValidationError)"

definition bounded :: "nat \<Rightarrow> string \<Rightarrow> bool" where
  "bounded n s \<longleftrightarrow> 1 \<le> str_len s \<and> str_len s \<le> n"

definition ge_opt :: "int \<Rightarrow> int option \<Rightarrow> bool" where
  "ge_opt n v = (case v of None \<Rightarrow> True | Some i \<Rightarrow> n \<le> i)"

lemma model_of_eq_Inr [simp, res_simps]: "model_of ok x = Inr y \<longleftrightarrow> ok x \<and> y = x"
  by (auto simp: model_of_def)

lemma uuid_field_JStr [simp]: "uuid s = Some u \<Longrightarrow> uuid_field uuid (JStr s) = Inr u"
  by (simp add: uuid_field_def)

lemma str_field_JStr [simp]: "str_field (JStr s) = Inr s"
  by (simp add: str_field_def)

section \<open>Failures and artifacts\<close>

datatype failure_code =
    InvalidBundle | UnsupportedVersion | InvalidResult | UnauthorizedInput | Cancelled | LeaseLostCode
  | ArtifactCommitFailed | TransientDependency | Internal | RetryExhausted

fun failure_code_str :: "failure_code \<Rightarrow> string" where
  "failure_code_str InvalidBundle = ''invalid_bundle''"
| "failure_code_str UnsupportedVersion = ''unsupported_version''"
| "failure_code_str InvalidResult = ''invalid_result''"
| "failure_code_str UnauthorizedInput = ''unauthorized_input''"
| "failure_code_str Cancelled = ''cancelled''"
| "failure_code_str LeaseLostCode = ''lease_lost''"
| "failure_code_str ArtifactCommitFailed = ''artifact_commit_failed''"
| "failure_code_str TransientDependency = ''transient_dependency''"
| "failure_code_str Internal = ''internal''"
| "failure_code_str RetryExhausted = ''retry_exhausted''"

record failure =
  fl_schema_version :: int
  fl_code :: failure_code
  fl_message :: string
  fl_retryable :: bool

definition failure_ok :: "failure \<Rightarrow> bool" where
  "failure_ok f \<longleftrightarrow> fl_schema_version f = CONTRACT_SCHEMA_VERSION \<and> bounded 512 (fl_message f)"

record artifact_ref =
  artifact_id :: string
  object_key :: string
  object_version :: string
  art_digest :: string
  art_size :: int
  media_type :: string
  schema_name :: "string option"
  art_schema_version :: "int option"

definition artifact_ref_ok :: "'a artifact_ref_scheme \<Rightarrow> bool" where
  "artifact_ref_ok a \<longleftrightarrow>
     bounded 512 (object_key a) \<and> bounded 256 (object_version a) \<and> is_digest (art_digest a) \<and> 0 \<le> art_size a
     \<and> bounded 128 (media_type a) \<and> (case schema_name a of None \<Rightarrow> True | Some n \<Rightarrow> bounded 64 n)
     \<and> ge_opt 1 (art_schema_version a)"

section \<open>Provenance\<close>

record run_provenance =
  rp_run_id :: string
  rp_logical_run_digest :: string
  rp_bundle_digest :: string
  rp_object_key :: string
  rp_object_version :: string
  rp_event_schema_version :: int
  rp_cassette_format_version :: int
  rp_bundle_format_version :: int

definition run_provenance_ok :: "run_provenance \<Rightarrow> bool" where
  "run_provenance_ok p \<longleftrightarrow>
     is_digest (rp_logical_run_digest p) \<and> is_digest (rp_bundle_digest p) \<and> bounded 512 (rp_object_key p)
     \<and> bounded 256 (rp_object_version p) \<and> 1 \<le> rp_event_schema_version p \<and> 1 \<le> rp_cassette_format_version p
     \<and> 1 \<le> rp_bundle_format_version p"

record result_provenance =
  rv_inputs :: "run_provenance list"
  rv_analysis_profile :: string
  rv_tracewake_version :: string
  rv_worker_build :: string
  rv_produced_at :: string

definition result_provenance_ok :: "result_provenance \<Rightarrow> bool" where
  "result_provenance_ok p \<longleftrightarrow>
     1 \<le> length (rv_inputs p) \<and> length (rv_inputs p) \<le> 2 \<and> (\<forall>r\<in>set (rv_inputs p). run_provenance_ok r)
     \<and> bounded 64 (rv_analysis_profile p) \<and> bounded 64 (rv_tracewake_version p) \<and> bounded 128 (rv_worker_build p)"

section \<open>Results\<close>

record validation_result =
  vr_run_id :: string
  vr_event_count :: int
  vr_logical_run_digest :: string
  vr_bundle_digest :: string
  vr_provenance :: result_provenance

definition validation_result_ok :: "validation_result \<Rightarrow> bool" where
  "validation_result_ok r \<longleftrightarrow>
     0 \<le> vr_event_count r \<and> is_digest (vr_logical_run_digest r) \<and> is_digest (vr_bundle_digest r)
     \<and> result_provenance_ok (vr_provenance r)"

record alignment_column =
  good_index :: "int option"
  bad_index :: "int option"
  similarity :: "real option"

definition alignment_column_ok :: "alignment_column \<Rightarrow> bool" where
  "alignment_column_ok c \<longleftrightarrow>
     ge_opt 0 (good_index c) \<and> ge_opt 0 (bad_index c)
     \<and> (case similarity c of None \<Rightarrow> True | Some s \<Rightarrow> 0 \<le> s \<and> s \<le> 1)
     \<and> \<not> (good_index c = None \<and> bad_index c = None)"

record contract_diff =
  cd_profile :: string
  cd_score :: real
  cd_divergence :: "int option"
  cd_reliability :: "reliability_class option"
  cd_confidence :: "confidence option"
  cd_good_step_count :: int
  cd_bad_step_count :: int
  cd_alignment :: "alignment_column list"
  cd_provenance :: result_provenance
  cd_html :: artifact_ref

definition contract_diff_ok :: "contract_diff \<Rightarrow> bool" where
  "contract_diff_ok r \<longleftrightarrow>
     cd_profile r = ''align-v2'' \<and> ge_opt 1 (cd_divergence r) \<and> 0 \<le> cd_good_step_count r \<and> 1 \<le> cd_bad_step_count r
     \<and> (\<forall>c\<in>set (cd_alignment r). alignment_column_ok c) \<and> result_provenance_ok (cd_provenance r) \<and> artifact_ref_ok (cd_html r)
     \<and> (cd_divergence r = None) = (cd_reliability r = None) \<and> (cd_reliability r = None) = (cd_confidence r = None)"

record localize_result =
  lr_profile :: string
  lr_step :: int
  lr_step_count :: int
  lr_reliability :: reliability_class
  lr_confidence :: confidence
  lr_provenance :: result_provenance
  lr_artifact :: artifact_ref

definition localize_result_ok :: "localize_result \<Rightarrow> bool" where
  "localize_result_ok r \<longleftrightarrow>
     lr_profile r = ''localize-v1'' \<and> 1 \<le> lr_step r \<and> 1 \<le> lr_step_count r
     \<and> result_provenance_ok (lr_provenance r) \<and> artifact_ref_ok (lr_artifact r) \<and> lr_step r \<le> lr_step_count r"

record otlp_result =
  ot_span_count :: int
  ot_provenance :: result_provenance
  ot_artifact :: artifact_ref

definition otlp_result_ok :: "otlp_result \<Rightarrow> bool" where
  "otlp_result_ok r \<longleftrightarrow> 1 \<le> ot_span_count r \<and> result_provenance_ok (ot_provenance r) \<and> artifact_ref_ok (ot_artifact r)"

record pprof_result =
  pp_sample_count :: int
  pp_provenance :: result_provenance
  pp_artifact :: artifact_ref

definition pprof_result_ok :: "pprof_result \<Rightarrow> bool" where
  "pprof_result_ok r \<longleftrightarrow> 0 \<le> pp_sample_count r \<and> result_provenance_ok (pp_provenance r) \<and> artifact_ref_ok (pp_artifact r)"

datatype semantic_result =
    ValidationR validation_result | DiffR contract_diff | LocalizeR localize_result | OtlpR otlp_result | PprofR pprof_result

fun semantic_result_ok :: "semantic_result \<Rightarrow> bool" where
  "semantic_result_ok (ValidationR r) = validation_result_ok r"
| "semantic_result_ok (DiffR r) = contract_diff_ok r"
| "semantic_result_ok (LocalizeR r) = localize_result_ok r"
| "semantic_result_ok (OtlpR r) = otlp_result_ok r"
| "semantic_result_ok (PprofR r) = pprof_result_ok r"

text \<open>\<open>ResultEnvelope\<close>; \<open>_one_outcome\<close> ties the status to the one part it requires.\<close>

record result_envelope =
  env_succeeded :: bool
  env_result :: "semantic_result option"
  env_failure :: "failure option"

definition one_outcome :: "result_envelope \<Rightarrow> bool" where
  "one_outcome e \<longleftrightarrow>
     \<not> (env_succeeded e \<and> (env_result e = None \<or> env_failure e \<noteq> None))
     \<and> \<not> (\<not> env_succeeded e \<and> (env_failure e = None \<or> env_result e \<noteq> None))"

definition result_envelope_ok :: "result_envelope \<Rightarrow> bool" where
  "result_envelope_ok e \<longleftrightarrow>
     (case env_result e of None \<Rightarrow> True | Some r \<Rightarrow> semantic_result_ok r)
     \<and> (case env_failure e of None \<Rightarrow> True | Some f \<Rightarrow> failure_ok f) \<and> one_outcome e"

section \<open>Dumping\<close>

text \<open>\<open>model_dump(mode="json")\<close>: every field, defaults included, in the order of the class.\<close>

definition jopt :: "('a \<Rightarrow> json) \<Rightarrow> 'a option \<Rightarrow> json" where
  "jopt f v = (case v of None \<Rightarrow> JNull | Some x \<Rightarrow> f x)"

definition dump_failure :: "failure \<Rightarrow> json" where
  "dump_failure f = JObj [(''schema_version'', JInt (fl_schema_version f)), (''code'', JStr (failure_code_str (fl_code f))),
     (''message'', JStr (fl_message f)), (''retryable'', JBool (fl_retryable f))]"

definition dump_artifact_ref :: "artifact_ref \<Rightarrow> json" where
  "dump_artifact_ref a = JObj [(''artifact_id'', JStr (artifact_id a)), (''object_key'', JStr (object_key a)),
     (''object_version'', JStr (object_version a)), (''digest'', JStr (art_digest a)), (''size'', JInt (art_size a)),
     (''media_type'', JStr (media_type a)), (''schema_name'', jopt JStr (schema_name a)),
     (''schema_version'', jopt JInt (art_schema_version a))]"

definition dump_run_provenance :: "run_provenance \<Rightarrow> json" where
  "dump_run_provenance p = JObj [(''run_id'', JStr (rp_run_id p)), (''logical_run_digest'', JStr (rp_logical_run_digest p)),
     (''bundle_digest'', JStr (rp_bundle_digest p)), (''bundle_object_key'', JStr (rp_object_key p)),
     (''bundle_object_version'', JStr (rp_object_version p)), (''event_schema_version'', JInt (rp_event_schema_version p)),
     (''cassette_format_version'', JInt (rp_cassette_format_version p)), (''bundle_format_version'', JInt (rp_bundle_format_version p))]"

definition dump_result_provenance :: "result_provenance \<Rightarrow> json" where
  "dump_result_provenance p = JObj [(''inputs'', JArr (map dump_run_provenance (rv_inputs p))),
     (''analysis_profile'', JStr (rv_analysis_profile p)), (''tracewake_version'', JStr (rv_tracewake_version p)),
     (''worker_build'', JStr (rv_worker_build p)), (''produced_at'', JStr (rv_produced_at p))]"

definition dump_alignment_column :: "alignment_column \<Rightarrow> json" where
  "dump_alignment_column c = JObj [(''good_index'', jopt JInt (good_index c)), (''bad_index'', jopt JInt (bad_index c)),
     (''similarity'', jopt JFloat (similarity c))]"

definition semantic_head :: "string \<Rightarrow> (string \<times> json) list" where
  "semantic_head k = [(''kind'', JStr k), (''schema_version'', JInt CONTRACT_SCHEMA_VERSION)]"

fun dump_semantic :: "semantic_result \<Rightarrow> json" where
  "dump_semantic (ValidationR r) = JObj (semantic_head ''validation'' @ [(''valid'', JBool True), (''run_id'', JStr (vr_run_id r)),
     (''event_count'', JInt (vr_event_count r)), (''logical_run_digest'', JStr (vr_logical_run_digest r)),
     (''bundle_digest'', JStr (vr_bundle_digest r)), (''provenance'', dump_result_provenance (vr_provenance r))])"
| "dump_semantic (DiffR r) = JObj (semantic_head ''diff'' @ [(''profile'', JStr (cd_profile r)), (''score'', JFloat (cd_score r)),
     (''divergence'', jopt JInt (cd_divergence r)), (''reliability'', jopt (JStr \<circ> class_str) (cd_reliability r)),
     (''confidence'', jopt (JStr \<circ> band_str) (cd_confidence r)), (''good_step_count'', JInt (cd_good_step_count r)),
     (''bad_step_count'', JInt (cd_bad_step_count r)), (''alignment'', JArr (map dump_alignment_column (cd_alignment r))),
     (''provenance'', dump_result_provenance (cd_provenance r)), (''html'', dump_artifact_ref (cd_html r))])"
| "dump_semantic (LocalizeR r) = JObj (semantic_head ''localize'' @ [(''profile'', JStr (lr_profile r)), (''step'', JInt (lr_step r)),
     (''step_count'', JInt (lr_step_count r)), (''reliability'', JStr (class_str (lr_reliability r))),
     (''confidence'', JStr (band_str (lr_confidence r))), (''provenance'', dump_result_provenance (lr_provenance r)),
     (''artifact'', dump_artifact_ref (lr_artifact r))])"
| "dump_semantic (OtlpR r) = JObj (semantic_head ''otlp'' @ [(''span_count'', JInt (ot_span_count r)),
     (''provenance'', dump_result_provenance (ot_provenance r)), (''artifact'', dump_artifact_ref (ot_artifact r))])"
| "dump_semantic (PprofR r) = JObj (semantic_head ''pprof'' @ [(''sample_count'', JInt (pp_sample_count r)),
     (''provenance'', dump_result_provenance (pp_provenance r)), (''artifact'', dump_artifact_ref (pp_artifact r))])"

definition dump_envelope :: "result_envelope \<Rightarrow> json" where
  "dump_envelope e = JObj [(''protocol_version'', JInt WORKER_PROTOCOL_VERSION),
     (''status'', JStr (if env_succeeded e then ''succeeded'' else ''failed'')),
     (''result'', jopt dump_semantic (env_result e)), (''failure'', jopt dump_failure (env_failure e))]"

section \<open>Operations and their profiles\<close>

datatype operation = OpValidate | OpDiff | OpLocalize | OpOtlp | OpPprof
datatype profile_name = AlignV2 | LocalizeV1

fun operation_str :: "operation \<Rightarrow> string" where
  "operation_str OpValidate = ''validate''"
| "operation_str OpDiff = ''diff''"
| "operation_str OpLocalize = ''localize''"
| "operation_str OpOtlp = ''otlp''"
| "operation_str OpPprof = ''pprof''"

fun profile_str :: "profile_name \<Rightarrow> string" where
  "profile_str AlignV2 = ''align-v2''"
| "profile_str LocalizeV1 = ''localize-v1''"

definition REQUIRED_PROFILE :: "(string \<times> string option) list" where
  "REQUIRED_PROFILE = [(''diff'', Some ''align-v2''), (''localize'', Some ''localize-v1''), (''otlp'', None), (''pprof'', None)]"

definition REQUIRED_RUNS :: "(string \<times> nat) list" where
  "REQUIRED_RUNS = [(''diff'', 2), (''localize'', 1), (''otlp'', 1), (''pprof'', 1)]"

text \<open>\<open>PublicOperation\<close> leaves out \<open>validate\<close>.\<close>

record public_job_request =
  pj_operation :: operation
  pj_run_ids :: "string list"
  pj_profile :: "profile_name option"

definition job_shape :: "public_job_request \<Rightarrow> unit res" where
  "job_shape r =
     (case map_of REQUIRED_RUNS (operation_str (pj_operation r)) of
        None \<Rightarrow> Inl KeyError
      | Some expected \<Rightarrow>
          bind_res (guard_res (length (pj_run_ids r) = expected) ValueError) (\<lambda>_.
          bind_res (guard_res (distinct (pj_run_ids r)) ValueError) (\<lambda>_.
            case map_of REQUIRED_PROFILE (operation_str (pj_operation r)) of
              None \<Rightarrow> Inl KeyError
            | Some required \<Rightarrow>
                bind_res (guard_res (\<not> (required = None \<and> pj_profile r \<noteq> None)) ValueError) (\<lambda>_.
                  guard_res (\<not> (required \<noteq> None \<and> map_option profile_str (pj_profile r) \<noteq> required)) ValueError))))"

definition public_job_request_ok :: "public_job_request \<Rightarrow> bool" where
  "public_job_request_ok r \<longleftrightarrow>
     pj_operation r \<noteq> OpValidate \<and> 1 \<le> length (pj_run_ids r) \<and> length (pj_run_ids r) \<le> 2 \<and> job_shape r = Inr ()"

lemma public_job_request_cases:
  assumes "public_job_request_ok r"
  obtains "pj_operation r = OpDiff" "pj_profile r = Some AlignV2" "length (pj_run_ids r) = 2" "distinct (pj_run_ids r)"
  | "pj_operation r = OpLocalize" "pj_profile r = Some LocalizeV1" "length (pj_run_ids r) = 1"
  | "pj_operation r \<in> {OpOtlp, OpPprof}" "pj_profile r = None" "length (pj_run_ids r) = 1"
proof -
  have prof: "profile_str p = ''align-v2'' \<longleftrightarrow> p = AlignV2" "profile_str p = ''localize-v1'' \<longleftrightarrow> p = LocalizeV1" for p
    by (cases p; simp)+
  show ?thesis
    using assms that
    by (cases "pj_operation r"; cases "pj_profile r")
       (auto simp: public_job_request_ok_def job_shape_def REQUIRED_RUNS_def REQUIRED_PROFILE_def guard_res_def bind_res_def prof
         split: if_splits)
qed

section \<open>The worker protocol\<close>

definition is_hex_of :: "nat \<Rightarrow> string \<Rightarrow> bool" where
  "is_hex_of n s \<longleftrightarrow> length s = n \<and> (\<forall>c\<in>set s. c \<in> set ''0123456789abcdef'')"

text \<open>\<open>^00-[0-9a-f]{32}-[0-9a-f]{16}-[0-9a-f]{2}$\<close>\<close>

definition traceparent_ok :: "string \<Rightarrow> bool" where
  "traceparent_ok s \<longleftrightarrow>
     length s = 55 \<and> take 3 s = ''00-'' \<and> is_hex_of 32 (take 32 (drop 3 s)) \<and> s ! 35 = CHR ''-''
     \<and> is_hex_of 16 (take 16 (drop 36 s)) \<and> s ! 52 = CHR ''-'' \<and> is_hex_of 2 (drop 53 s)"

record job_notification =
  jn_job_id :: string
  jn_job_version :: int
  jn_operation :: operation
  jn_traceparent :: "string option"

definition job_notification_ok :: "job_notification \<Rightarrow> bool" where
  "job_notification_ok n \<longleftrightarrow>
     1 \<le> jn_job_version n \<and> (case jn_traceparent n of None \<Rightarrow> True | Some t \<Rightarrow> traceparent_ok t)"

definition attempt_ok :: "int \<Rightarrow> bool" where
  "attempt_ok n \<longleftrightarrow> 1 \<le> n \<and> n \<le> 3"

record claim_reply =
  cl_job_id :: string
  cl_attempt_number :: int
  cl_attempt_token :: string
  cl_lease_expires_at :: string
  cl_input_artifacts :: "artifact_ref list"
  cl_operation :: operation
  cl_profile :: "profile_name option"

definition claim_ok :: "claim_reply \<Rightarrow> bool" where
  "claim_ok c \<longleftrightarrow>
     attempt_ok (cl_attempt_number c) \<and> 43 \<le> str_len (cl_attempt_token c) \<and> str_len (cl_attempt_token c) \<le> 256
     \<and> 1 \<le> length (cl_input_artifacts c) \<and> length (cl_input_artifacts c) \<le> 2
     \<and> (\<forall>a\<in>set (cl_input_artifacts c). artifact_ref_ok a)"

definition dump_claim :: "claim_reply \<Rightarrow> json" where
  "dump_claim c = JObj [(''protocol_version'', JInt WORKER_PROTOCOL_VERSION), (''job_id'', JStr (cl_job_id c)),
     (''attempt_number'', JInt (cl_attempt_number c)), (''attempt_token'', JStr (cl_attempt_token c)),
     (''lease_expires_at'', JStr (cl_lease_expires_at c)),
     (''input_artifacts'', JArr (map dump_artifact_ref (cl_input_artifacts c))),
     (''operation'', JStr (operation_str (cl_operation c))), (''profile'', jopt (JStr \<circ> profile_str) (cl_profile c))]"

datatype progress_stage = Claiming | Downloading | Validating | Analyzing | Uploading | Committing

fun stage_str :: "progress_stage \<Rightarrow> string" where
  "stage_str Claiming = ''claiming''"
| "stage_str Downloading = ''downloading''"
| "stage_str Validating = ''validating''"
| "stage_str Analyzing = ''analyzing''"
| "stage_str Uploading = ''uploading''"
| "stage_str Committing = ''committing''"

record progress =
  pg_attempt_number :: int
  pg_sequence :: int
  pg_stage :: progress_stage
  pg_message :: string

definition progress_ok :: "progress \<Rightarrow> bool" where
  "progress_ok p \<longleftrightarrow> attempt_ok (pg_attempt_number p) \<and> 1 \<le> pg_sequence p \<and> bounded 512 (pg_message p)"

definition dump_progress :: "progress \<Rightarrow> json" where
  "dump_progress p = JObj [(''protocol_version'', JInt WORKER_PROTOCOL_VERSION), (''attempt_number'', JInt (pg_attempt_number p)),
     (''sequence'', JInt (pg_sequence p)), (''stage'', JStr (stage_str (pg_stage p))), (''message'', JStr (pg_message p))]"

section \<open>Committing an attempt\<close>

datatype companion_kind = DiffHtml | LocalizeJson | OtlpJson | PprofFile
datatype result_kind = ValidationJson | DiffJson | LocalizeResultJson | OtlpResultJson | PprofResultJson

fun companion_str :: "companion_kind \<Rightarrow> string" where
  "companion_str DiffHtml = ''diff_html''"
| "companion_str LocalizeJson = ''localize_json''"
| "companion_str OtlpJson = ''otlp_json''"
| "companion_str PprofFile = ''pprof''"

fun result_kind_str :: "result_kind \<Rightarrow> string" where
  "result_kind_str ValidationJson = ''validation_json''"
| "result_kind_str DiffJson = ''diff_json''"
| "result_kind_str LocalizeResultJson = ''localize_result_json''"
| "result_kind_str OtlpResultJson = ''otlp_result_json''"
| "result_kind_str PprofResultJson = ''pprof_result_json''"

fun expected_companion :: "result_kind \<Rightarrow> companion_kind option" where
  "expected_companion ValidationJson = None"
| "expected_companion DiffJson = Some DiffHtml"
| "expected_companion LocalizeResultJson = Some LocalizeJson"
| "expected_companion OtlpResultJson = Some OtlpJson"
| "expected_companion PprofResultJson = Some PprofFile"

fun expected_media_type :: "companion_kind \<Rightarrow> string" where
  "expected_media_type DiffHtml = ''text/html; charset=utf-8''"
| "expected_media_type LocalizeJson = ''application/json''"
| "expected_media_type OtlpJson = ''application/json''"
| "expected_media_type PprofFile = ''application/octet-stream''"

record committed_companion = artifact_ref +
  cc_kind :: companion_kind

record artifact_commit = artifact_ref +
  ac_attempt_number :: int
  ac_kind :: result_kind
  ac_logical_run_digest :: string
  ac_bundle_digest :: string
  ac_event_count :: int
  ac_bundle_format_version :: int
  ac_cassette_format_version :: int
  ac_event_schema_version :: int
  ac_companions :: "committed_companion list"

definition companion_shape :: "committed_companion \<Rightarrow> unit res" where
  "companion_shape c =
     bind_res (guard_res (schema_name c = None \<and> art_schema_version c = None) ValueError) (\<lambda>_.
       guard_res (media_type c = expected_media_type (cc_kind c)) ValueError)"

definition commit_shape :: "artifact_commit \<Rightarrow> unit res" where
  "commit_shape c =
     bind_res
       (case expected_companion (ac_kind c) of
          None \<Rightarrow>
            bind_res (guard_res (ac_companions c = []) ValueError) (\<lambda>_.
            bind_res (guard_res (ac_logical_run_digest c \<noteq> [] \<and> ac_bundle_digest c \<noteq> []) ValueError) (\<lambda>_.
              guard_res (\<not> min (min (ac_bundle_format_version c) (ac_cassette_format_version c)) (ac_event_schema_version c) < 1)
                ValueError))
        | Some k \<Rightarrow>
            bind_res (guard_res (length (ac_companions c) = 1 \<and> cc_kind (ac_companions c ! 0) = k) ValueError) (\<lambda>_.
              guard_res (\<not> (ac_logical_run_digest c \<noteq> [] \<or> ac_bundle_digest c \<noteq> [] \<or> ac_event_count c \<noteq> 0
                  \<or> ac_bundle_format_version c \<noteq> 0 \<or> ac_cassette_format_version c \<noteq> 0 \<or> ac_event_schema_version c \<noteq> 0))
                ValueError))
       (\<lambda>_. bind_res (map_res companion_shape (ac_companions c)) (\<lambda>_. Inr ()))"

definition artifact_commit_ok :: "artifact_commit \<Rightarrow> bool" where
  "artifact_commit_ok c \<longleftrightarrow>
     artifact_ref_ok c \<and> attempt_ok (ac_attempt_number c) \<and> art_size c \<le> 64 * 1024 * 1024
     \<and> media_type c = ''application/json'' \<and> schema_name c = Some ''result-envelope''
     \<and> art_schema_version c = Some CONTRACT_SCHEMA_VERSION
     \<and> (is_digest (ac_logical_run_digest c) \<or> ac_logical_run_digest c = [])
     \<and> (is_digest (ac_bundle_digest c) \<or> ac_bundle_digest c = [])
     \<and> 0 \<le> ac_event_count c \<and> ac_event_count c \<le> 100000 \<and> 0 \<le> ac_bundle_format_version c
     \<and> 0 \<le> ac_cassette_format_version c \<and> 0 \<le> ac_event_schema_version c
     \<and> length (ac_companions c) \<le> 1 \<and> (\<forall>a\<in>set (ac_companions c). artifact_ref_ok a) \<and> commit_shape c = Inr ()"

section \<open>Uploads and views\<close>

record upload_declaration =
  ud_bundle_format_version :: int
  ud_bundle_digest :: string
  ud_bundle_size :: int

definition upload_declaration_ok :: "upload_declaration \<Rightarrow> bool" where
  "upload_declaration_ok u \<longleftrightarrow>
     ud_bundle_format_version u = 1 \<and> is_digest (ud_bundle_digest u) \<and> 0 \<le> ud_bundle_size u
     \<and> ud_bundle_size u \<le> 256 * 1024 * 1024"

definition dump_declaration :: "upload_declaration \<Rightarrow> json" where
  "dump_declaration u = JObj [(''bundle_format_version'', JInt (ud_bundle_format_version u)),
     (''bundle_digest'', JStr (ud_bundle_digest u)), (''bundle_size'', JInt (ud_bundle_size u))]"

record upload_grant =
  ug_upload_id :: string
  ug_run_id :: string
  ug_required_digest :: string
  ug_required_size :: int
  ug_upload_url :: string
  ug_upload_headers :: "(string \<times> string) list"
  ug_expires_at :: string

definition upload_grant_ok :: "upload_grant \<Rightarrow> bool" where
  "upload_grant_ok g \<longleftrightarrow>
     is_digest (ug_required_digest g) \<and> 0 \<le> ug_required_size g \<and> ug_required_size g \<le> 256 * 1024 * 1024
     \<and> bounded 4096 (ug_upload_url g) \<and> length (ug_upload_headers g) \<le> 8
     \<and> (\<forall>(k, v)\<in>set (ug_upload_headers g). bounded 64 k \<and> bounded 256 v)"

definition dump_grant :: "upload_grant \<Rightarrow> json" where
  "dump_grant g = JObj [(''upload_id'', JStr (ug_upload_id g)), (''run_id'', JStr (ug_run_id g)),
     (''required_digest'', JStr (ug_required_digest g)), (''required_size'', JInt (ug_required_size g)),
     (''upload_url'', JStr (ug_upload_url g)),
     (''upload_headers'', JObj (map (\<lambda>(k, v). (k, JStr v)) (ug_upload_headers g))),
     (''expires_at'', JStr (ug_expires_at g))]"

record upload_completion =
  uc_object_version :: string
  uc_digest :: string
  uc_size :: int

definition upload_completion_ok :: "upload_completion \<Rightarrow> bool" where
  "upload_completion_ok u \<longleftrightarrow>
     bounded 256 (uc_object_version u) \<and> is_digest (uc_digest u) \<and> 0 \<le> uc_size u \<and> uc_size u \<le> 256 * 1024 * 1024"

definition dump_completion :: "upload_completion \<Rightarrow> json" where
  "dump_completion u = JObj [(''object_version'', JStr (uc_object_version u)), (''digest'', JStr (uc_digest u)),
     (''size'', JInt (uc_size u))]"

datatype run_state = RPending | RValidating | RReady | RInvalid | RDeleted

record run_view =
  rw_run_id :: string
  rw_state :: run_state
  rw_bundle_format_version :: int
  rw_bundle_digest :: string
  rw_logical_run_digest :: "string option"
  rw_cassette_format_version :: "int option"
  rw_event_schema_version :: "int option"
  rw_event_count :: "int option"
  rw_failure :: "failure option"
  rw_ready_at :: "string option"

definition ready_shape :: "run_view \<Rightarrow> unit res" where
  "ready_shape v =
     bind_res (guard_res (\<not> (rw_state v = RReady
         \<and> (rw_logical_run_digest v = None \<or> rw_cassette_format_version v = None \<or> rw_event_schema_version v = None
            \<or> rw_event_count v = None \<or> rw_ready_at v = None \<or> rw_failure v \<noteq> None))) ValueError) (\<lambda>_.
       guard_res (\<not> (rw_state v = RInvalid \<and> rw_failure v = None)) ValueError)"

definition run_view_ok :: "run_view \<Rightarrow> bool" where
  "run_view_ok v \<longleftrightarrow>
     1 \<le> rw_bundle_format_version v \<and> is_digest (rw_bundle_digest v)
     \<and> (case rw_logical_run_digest v of None \<Rightarrow> True | Some d \<Rightarrow> is_digest d)
     \<and> ge_opt 1 (rw_cassette_format_version v) \<and> ge_opt 1 (rw_event_schema_version v)
     \<and> (case rw_event_count v of None \<Rightarrow> True | Some n \<Rightarrow> 0 \<le> n \<and> n \<le> 100000)
     \<and> (case rw_failure v of None \<Rightarrow> True | Some f \<Rightarrow> failure_ok f) \<and> ready_shape v = Inr ()"

end
