(* ===== verification/Wire.thy ===== *)
theory Wire
  imports Contracts
begin

text \<open>
  Actions: computations that call the outside world and may raise, and the calls the hosted clients make of it.

  The world is a record of functions, each of which answers a call from the calls made before it, so an answer
  can depend on everything the program has done; nothing is assumed of it. An action maps the calls made so far to its
  result and the calls made after it. A call that raises has been made: it is in the list. JSON is parsed by the
  argument \<open>loads\<close>.

  The second half is a calculus of such computations: \<open>wp\<close> states what holds after an action, whether it returns or
  raises, and \<open>wp_rules\<close> collects one rule for each way of composing them.
\<close>

section \<open>Calls\<close>

record http_request =
  rq_method :: string
  rq_url :: string
  rq_headers :: "(string \<times> string) list"
  rq_body :: "string option"

text \<open>What \<open>urlopen\<close> does: a response, an \<open>HTTPError\<close> with its status and body, or another exception.\<close>

datatype http_reply = Reply nat string | HttpErr nat string | NetErr exn

record put_request =
  pr_url :: json
  pr_headers :: json
  pr_method :: json
  pr_data :: string

text \<open>A call of the network, a message deleted from the queue or kept invisible for longer, or an outcome written to telemetry.\<close>

datatype effect = Http http_request | Fetch json | Put put_request | DeleteMessage string | ExtendMessage string nat | Outcome_Metric json string

record world =
  w_http :: "effect list \<Rightarrow> http_request \<Rightarrow> http_reply"
  w_fetch :: "effect list \<Rightarrow> json \<Rightarrow> string res"
  w_put :: "effect list \<Rightarrow> put_request \<Rightarrow> (string option \<times> string option) res"
  w_delete :: "effect list \<Rightarrow> string \<Rightarrow> unit res"
  w_extend :: "effect list \<Rightarrow> string \<Rightarrow> unit res"
  w_uuid4 :: "effect list \<Rightarrow> string"
  w_now :: "effect list \<Rightarrow> string"
  w_stopped :: "effect list \<Rightarrow> bool"
  w_reasons :: "effect list \<Rightarrow> string list"

section \<open>Actions\<close>

type_synonym 'a act = "effect list \<Rightarrow> 'a res \<times> effect list"

definition return_act :: "'a \<Rightarrow> 'a act" where
  "return_act x h = (Inr x, h)"

definition raise_act :: "exn \<Rightarrow> 'a act" where
  "raise_act e h = (Inl e, h)"

definition lift_res :: "'a res \<Rightarrow> 'a act" where
  "lift_res r h = (r, h)"

definition bind_act :: "'a act \<Rightarrow> ('a \<Rightarrow> 'b act) \<Rightarrow> 'b act" where
  "bind_act m f h = (case m h of (Inl e, h') \<Rightarrow> (Inl e, h') | (Inr x, h') \<Rightarrow> f x h')"

text \<open>\<open>try: m except ...: f\<close>, where \<open>f\<close> raises again what no clause names.\<close>

definition catch_act :: "'a act \<Rightarrow> (exn \<Rightarrow> 'a act) \<Rightarrow> 'a act" where
  "catch_act m f h = (case m h of (Inl e, h') \<Rightarrow> f e h' | (Inr x, h') \<Rightarrow> (Inr x, h'))"

definition ask :: "(effect list \<Rightarrow> 'a) \<Rightarrow> 'a act" where
  "ask f h = (Inr (f h), h)"

definition perform :: "effect \<Rightarrow> (effect list \<Rightarrow> 'a res) \<Rightarrow> 'a act" where
  "perform c answer h = (answer h, h @ [c])"

fun map_act :: "('a \<Rightarrow> 'b act) \<Rightarrow> 'a list \<Rightarrow> 'b list act" where
  "map_act f [] = return_act []"
| "map_act f (x # xs) = bind_act (f x) (\<lambda>y. bind_act (map_act f xs) (\<lambda>ys. return_act (y # ys)))"

section \<open>Exceptions\<close>

definition LeaseLost :: exn where "LeaseLost = Raised ''LeaseLost''"
definition UnsupportedAnalysis :: exn where "UnsupportedAnalysis = Raised ''UnsupportedAnalysis''"
definition KeyboardInterrupt :: exn where "KeyboardInterrupt = Raised ''KeyboardInterrupt''"
definition BadParameter :: exn where "BadParameter = Raised ''BadParameter''"

text \<open>
  What \<open>except ValueError\<close> and \<open>except Exception\<close> catch: a pydantic \<open>ValidationError\<close>, a \<open>UnicodeDecodeError\<close>
  and a \<open>JSONDecodeError\<close> are \<open>ValueError\<close>s; \<open>KeyboardInterrupt\<close>, \<open>SystemExit\<close> and \<open>GeneratorExit\<close> are no
  \<open>Exception\<close>s.
\<close>

definition is_value_error :: "exn \<Rightarrow> bool" where
  "is_value_error e \<longleftrightarrow> e \<in> {ValueError, ValidationError, UnicodeDecodeError, Raised ''JSONDecodeError''}"

definition is_exception :: "exn \<Rightarrow> bool" where
  "is_exception e \<longleftrightarrow> e \<notin> {KeyboardInterrupt, Raised ''SystemExit'', Raised ''GeneratorExit''}"

section \<open>JSON as Python reads it\<close>

text \<open>\<open>value["key"]\<close>, \<open>value[0]\<close>, \<open>for x in value\<close>, \<open>value.get("key")\<close> and \<open>f"{value}"\<close>.\<close>

definition jget :: "json \<Rightarrow> string \<Rightarrow> json res" where
  "jget j k =
     (case j of
        JObj kvs \<Rightarrow> (case map_of kvs k of None \<Rightarrow> Inl KeyError | Some v \<Rightarrow> Inr v)
      | _ \<Rightarrow> Inl TypeError)"

definition jfirst :: "json \<Rightarrow> json res" where
  "jfirst j =
     (case j of
        JArr vs \<Rightarrow> (case vs of [] \<Rightarrow> Inl IndexError | v # _ \<Rightarrow> Inr v)
      | JStr s \<Rightarrow> (case utf8_chars s of [] \<Rightarrow> Inl IndexError | c # _ \<Rightarrow> Inr (JStr c))
      | JObj kvs \<Rightarrow> Inl KeyError
      | _ \<Rightarrow> Inl TypeError)"

definition jiter :: "json \<Rightarrow> json list res" where
  "jiter j =
     (case j of
        JArr vs \<Rightarrow> Inr vs
      | JStr s \<Rightarrow> Inr (map JStr (utf8_chars s))
      | JObj kvs \<Rightarrow> Inr (map (JStr \<circ> fst) kvs)
      | _ \<Rightarrow> Inl TypeError)"

definition jget_or :: "json \<Rightarrow> string \<Rightarrow> json \<Rightarrow> json res" where
  "jget_or j k d =
     (case j of JObj kvs \<Rightarrow> Inr (case map_of kvs k of None \<Rightarrow> d | Some v \<Rightarrow> v) | _ \<Rightarrow> Inl (Raised ''AttributeError''))"

fun jtruthy :: "json \<Rightarrow> bool" where
  "jtruthy JNull = False"
| "jtruthy (JBool b) = b"
| "jtruthy (JInt n) = (n \<noteq> 0)"
| "jtruthy (JFloat x) = (x \<noteq> 0)"
| "jtruthy (JStr s) = (s \<noteq> [])"
| "jtruthy (JArr vs) = (vs \<noteq> [])"
| "jtruthy (JObj kvs) = (kvs \<noteq> [])"

definition py_str :: "py_env \<Rightarrow> json \<Rightarrow> string" where
  "py_str env j = (case j of JStr s \<Rightarrow> s | _ \<Rightarrow> crepr env j)"

text \<open>\<open>n == value\<close> for an \<open>int\<close>.\<close>

definition int_eq :: "int \<Rightarrow> json \<Rightarrow> bool" where
  "int_eq n j =
     (case j of JInt m \<Rightarrow> n = m | JFloat x \<Rightarrow> real_of_int n = x | JBool b \<Rightarrow> n = (if b then 1 else 0) | _ \<Rightarrow> False)"

lemma jget_JObj [simp]: "map_of kvs k = Some v \<Longrightarrow> jget (JObj kvs) k = Inr v"
  by (simp add: jget_def)

section \<open>Reasoning about actions\<close>

definition wp :: "'a act \<Rightarrow> ('a \<Rightarrow> effect list \<Rightarrow> bool) \<Rightarrow> (exn \<Rightarrow> effect list \<Rightarrow> bool) \<Rightarrow> effect list \<Rightarrow> bool" where
  "wp m N E h \<longleftrightarrow> (case m h of (Inr x, h') \<Rightarrow> N x h' | (Inl e, h') \<Rightarrow> E e h')"

named_theorems wp_rules \<open>introduction rules of wp, one for each combinator\<close>

lemma wp_return [wp_rules]: "N x h \<Longrightarrow> wp (return_act x) N E h"
  by (simp add: wp_def return_act_def)

lemma wp_raise [wp_rules]: "E e h \<Longrightarrow> wp (raise_act e) N E h"
  by (simp add: wp_def raise_act_def)

lemma wp_lift [wp_rules]: "(\<And>x. r = Inr x \<Longrightarrow> N x h) \<Longrightarrow> (\<And>e. r = Inl e \<Longrightarrow> E e h) \<Longrightarrow> wp (lift_res r) N E h"
  by (cases r) (simp_all add: wp_def lift_res_def)

lemma wp_bind [wp_rules]: "wp m (\<lambda>x. wp (f x) N E) E h \<Longrightarrow> wp (bind_act m f) N E h"
  by (auto simp: wp_def bind_act_def split: prod.splits sum.splits)

lemma wp_catch [wp_rules]: "wp m N (\<lambda>e. wp (f e) N E) h \<Longrightarrow> wp (catch_act m f) N E h"
  by (auto simp: wp_def catch_act_def split: prod.splits sum.splits)

lemma wp_ask [wp_rules]: "N (f h) h \<Longrightarrow> wp (ask f) N E h"
  by (simp add: wp_def ask_def)

lemma wp_perform [wp_rules]:
  "(\<And>x. answer h = Inr x \<Longrightarrow> N x (h @ [c])) \<Longrightarrow> (\<And>e. answer h = Inl e \<Longrightarrow> E e (h @ [c])) \<Longrightarrow> wp (perform c answer) N E h"
  by (cases "answer h") (simp_all add: wp_def perform_def)

lemma wp_if [wp_rules]: "(c \<Longrightarrow> wp m N E h) \<Longrightarrow> (\<not> c \<Longrightarrow> wp n N E h) \<Longrightarrow> wp (if c then m else n) N E h"
  by simp

lemma wp_mono:
  "wp m N E h \<Longrightarrow> (\<And>x h'. N x h' \<Longrightarrow> N' x h') \<Longrightarrow> (\<And>e h'. E e h' \<Longrightarrow> E' e h') \<Longrightarrow> wp m N' E' h"
  by (auto simp: wp_def split: prod.splits sum.splits)

lemma wp_conj: "wp m N E h \<Longrightarrow> wp m N' E' h \<Longrightarrow> wp m (\<lambda>x h'. N x h' \<and> N' x h') (\<lambda>e h'. E e h' \<and> E' e h') h"
  by (auto simp: wp_def split: prod.splits sum.splits)

lemma wp_map:
  assumes "I 0 h" "\<And>k g. k < length xs \<Longrightarrow> I k g \<Longrightarrow> wp (f (xs ! k)) (\<lambda>_. I (Suc k)) E g"
  shows "wp (map_act f xs) (\<lambda>_. I (length xs)) E h"
  using assms
proof (induction xs arbitrary: I h)
  case Nil
  then show ?case by (simp add: wp_return)
next
  case (Cons x xs)
  have first: "wp (f x) (\<lambda>_. I 1) E h" using Cons.prems(2) [of 0 h] Cons.prems(1) by simp
  have rest: "wp (map_act f xs) (\<lambda>_. I (Suc (length xs))) E g" if "I 1 g" for g
    using that Cons.prems(2) [of "Suc _"] by (intro Cons.IH [of "\<lambda>k. I (Suc k)"]) simp_all
  have "wp (bind_act (map_act f xs) (\<lambda>ys. return_act (y # ys))) (\<lambda>_. I (Suc (length xs))) E g" if "I 1 g" for y g
    by (rule wp_bind, rule wp_mono [OF rest [OF that]]) (auto intro: wp_return)
  then have "wp (map_act f (x # xs)) (\<lambda>_. I (Suc (length xs))) E h"
    unfolding map_act.simps by - (rule wp_bind, rule wp_mono [OF first])
  then show ?case by simp
qed

end
