(* ===== verification/Worker.thy ===== *)
theory Worker
  imports Wire Otel Profile Bundle
begin

text \<open>
  The hosted worker, \<open>tracewake/worker.py\<close>: its client of the control plane, the five operations it performs on
  uploaded bundles, and one attempt from claim to acknowledgement with every exception it handles.

  The handlers are the code's composition of the components modelled elsewhere: \<open>validate_bundle\<close>, \<open>diff_runs\<close> and
  \<open>write_report\<close>, \<open>localize\<close>, \<open>encode_spans\<close>, \<open>build_token_profile\<close>. An interrupt of the main thread, by a lost lease,
  a cancellation or a signal, is a \<open>KeyboardInterrupt\<close> raised by a call; \<open>w_stopped\<close> and \<open>w_reasons\<close> are what the
  heartbeat and cancellation threads have left for the main thread to read. The temporary directory is a place where what
  is written is read back; timing and tracing spans are left out.
\<close>

section \<open>The client\<close>

record worker_host =
  wk_base_url :: string
  wk_worker_id :: string
  wk_token :: string
  wk_traceparent :: "string option"
  wk_loads :: "string \<Rightarrow> json res"
  wk_uuid :: "string \<Rightarrow> string option"
  wk_version :: string
  wk_build :: string
  wk_template :: string
  wk_gzip :: "string \<Rightarrow> string"
  wk_env :: py_env
  wk_codec :: bundle_codec

definition rstrip_char :: "char \<Rightarrow> string \<Rightarrow> string" where
  "rstrip_char c s = rev (dropWhile (\<lambda>d. d = c) (rev s))"

text \<open>The attempt token as a header: an absent one is left out, and a header must be text or an integer.\<close>

definition token_header :: "json \<Rightarrow> string option res" where
  "token_header j =
     (case j of
        JNull \<Rightarrow> Inr None
      | JStr s \<Rightarrow> Inr (Some s)
      | JInt n \<Rightarrow> Inr (Some (int_str n))
      | JBool b \<Rightarrow> Inr (Some (if b then ''True'' else ''False''))
      | _ \<Rightarrow> Inl TypeError)"

definition request_headers :: "worker_host \<Rightarrow> string option \<Rightarrow> string option \<Rightarrow> (string \<times> string) list" where
  "request_headers k body token =
     [(''Authorization'', ''Bearer '' @ wk_token k)]
     @ (case wk_traceparent k of None \<Rightarrow> [] | Some t \<Rightarrow> if t = [] then [] else [(''traceparent'', t)])
     @ (case body of None \<Rightarrow> [] | Some _ \<Rightarrow> [(''Content-Type'', ''application/json'')])
     @ (case token of None \<Rightarrow> [] | Some t \<Rightarrow> [(''Tracewake-Attempt-Token'', t)])"

definition worker_request :: "worker_host \<Rightarrow> string \<Rightarrow> string \<Rightarrow> string option \<Rightarrow> string option \<Rightarrow> http_request" where
  "worker_request k verb path body token =
     \<lparr>rq_method = verb, rq_url = rstrip_char CHR ''/'' (wk_base_url k) @ path,
      rq_headers = request_headers k body token, rq_body = body\<rparr>"

definition http_result :: "http_reply \<Rightarrow> (nat \<times> string) res" where
  "http_result r =
     (case r of
        Reply status raw \<Rightarrow> Inr (status, raw)
      | HttpErr code _ \<Rightarrow> Inl (if code = 409 then LeaseLost else RuntimeError)
      | NetErr e \<Rightarrow> Inl e)"

definition client_request :: "worker_host \<Rightarrow> world \<Rightarrow> string \<Rightarrow> string \<Rightarrow> string option \<Rightarrow> json \<Rightarrow> (nat \<times> string) act" where
  "client_request k w verb path body token =
     bind_act (lift_res (token_header token)) (\<lambda>t.
       let rq = worker_request k verb path body t
       in perform (Http rq) (\<lambda>h. http_result (w_http w h rq)))"

definition client_json :: "worker_host \<Rightarrow> world \<Rightarrow> string \<Rightarrow> string \<Rightarrow> json option \<Rightarrow> json \<Rightarrow> json act" where
  "client_json k w verb path val token =
     bind_act (client_request k w verb path (map_option (render_ascii (frepr (wk_env k))) val) token) (\<lambda>(status, raw).
       if status = 204 \<or> raw = [] then return_act JNull else lift_res (wk_loads k raw))"

section \<open>Notifications\<close>

datatype transport = ControlPlane string | SqsQueue string

record delivery =
  dl_notification :: json
  dl_transport :: transport

definition ack_path :: "string \<Rightarrow> string" where
  "ack_path identifier = ''/internal/v1/notifications/'' @ identifier @ ''/ack''"

definition acknowledge :: "worker_host \<Rightarrow> world \<Rightarrow> delivery \<Rightarrow> unit act" where
  "acknowledge k w d =
     (case dl_transport d of
        ControlPlane identifier \<Rightarrow>
          bind_act (client_request k w ''POST'' (ack_path identifier) None JNull) (\<lambda>_. return_act ())
      | SqsQueue handle \<Rightarrow> perform (DeleteMessage handle) (\<lambda>h. w_delete w h handle))"

definition next_notification :: "worker_host \<Rightarrow> world \<Rightarrow> delivery option act" where
  "next_notification k w =
     bind_act (client_request k w ''GET'' ''/internal/v1/notifications/next'' None JNull) (\<lambda>(status, raw).
       if status = 204 then return_act None
       else
         bind_act (lift_res (wk_loads k raw)) (\<lambda>message.
         bind_act (lift_res (jget message ''notification_id'')) (\<lambda>identifier.
         bind_act (lift_res (jget message ''notification'')) (\<lambda>notification.
           return_act (Some \<lparr>dl_notification = notification,
             dl_transport = ControlPlane (py_str (wk_env k) identifier)\<rparr>)))))"

section \<open>Objects\<close>

definition MAX_ARTIFACT_BYTES :: nat where "MAX_ARTIFACT_BYTES = 67108864"

definition canonical_bytes_of :: "py_env \<Rightarrow> json \<Rightarrow> string" where
  "canonical_bytes_of env j = render_ascii (frepr env) (sort_keys j) @ [CHR 0x0A]"

text \<open>The reading loop: chunks of at most a mebibyte until the body ends or exceeds the limit by a byte.\<close>

function read_capped :: "nat \<Rightarrow> string \<Rightarrow> string \<Rightarrow> string" where
  "read_capped limit data body =
     (if length data \<le> limit then
        let chunk = take (min 1048576 (limit + 1 - length data)) body
        in if chunk = [] then data else read_capped limit (data @ chunk) (drop (length chunk) body)
      else data)"
  by pat_completeness auto
termination
  by (relation "measure (\<lambda>(limit, data, body). length body)") (auto simp: Let_def)

definition fetch_object :: "world \<Rightarrow> json \<Rightarrow> string act" where
  "fetch_object w url =
     bind_act (perform (Fetch url) (\<lambda>h. w_fetch w h url)) (\<lambda>body.
       let data = read_capped (nat MAX_BUNDLE_BYTES) [] body
       in if length data > nat MAX_BUNDLE_BYTES then raise_act ValueError else return_act data)"

text \<open>The version is the first non-empty one of the two headers a store may report it in.\<close>

definition store_object :: "world \<Rightarrow> json \<Rightarrow> string \<Rightarrow> string act" where
  "store_object w grant data =
     bind_act (lift_res (jget grant ''upload_url'')) (\<lambda>url.
     bind_act (lift_res (jget_or grant ''upload_headers'' JNull)) (\<lambda>headers.
     bind_act (lift_res (jget_or grant ''upload_method'' (JStr ''PUT''))) (\<lambda>verb.
       let pr = \<lparr>pr_url = url, pr_headers = (if jtruthy headers then headers else JObj []), pr_method = verb, pr_data = data\<rparr>
       in bind_act (perform (Put pr) (\<lambda>h. w_put w h pr)) (\<lambda>(amz, own).
            let version = (case amz of Some v \<Rightarrow> if v \<noteq> [] then Some v else own | None \<Rightarrow> own)
            in case version of
                 None \<Rightarrow> raise_act RuntimeError
               | Some v \<Rightarrow> if v = [] then raise_act RuntimeError else return_act v))))"

record identity =
  id_artifact_id :: string
  id_kind :: string
  id_media_type :: string
  id_object_key :: json
  id_object_version :: string
  id_digest :: string
  id_size :: int

definition attempt_path :: "py_env \<Rightarrow> json \<Rightarrow> json \<Rightarrow> string \<Rightarrow> string" where
  "attempt_path env job attempt leaf =
     ''/internal/v1/jobs/'' @ py_str env job @ ''/attempts/'' @ py_str env attempt @ ''/'' @ leaf"

definition grant_request :: "json \<Rightarrow> string \<Rightarrow> string \<Rightarrow> string \<Rightarrow> nat \<Rightarrow> json" where
  "grant_request attempt knd media digst n =
     JObj [(''protocol_version'', JInt 1), (''attempt_number'', attempt), (''kind'', JStr knd), (''media_type'', JStr media),
       (''digest'', JStr digst), (''size'', JInt (int n))]"

definition upload :: "worker_host \<Rightarrow> world \<Rightarrow> json \<Rightarrow> string \<Rightarrow> string \<Rightarrow> string \<Rightarrow> identity act" where
  "upload k w claim knd data media =
     (if length data > MAX_ARTIFACT_BYTES then raise_act ValueError
      else
        let digst = sha256_hex (wk_env k) data
        in bind_act (lift_res (jget claim ''job_id'')) (\<lambda>job.
           bind_act (lift_res (jget claim ''attempt_number'')) (\<lambda>attempt.
           bind_act (lift_res (jget claim ''attempt_token'')) (\<lambda>token.
           bind_act (client_json k w ''POST'' (attempt_path (wk_env k) job attempt ''artifacts'')
               (Some (grant_request attempt knd media digst (length data))) token) (\<lambda>grant.
           bind_act (ask (w_uuid4 w)) (\<lambda>fresh.
           bind_act (lift_res (jget grant ''object_key'')) (\<lambda>okey.
           bind_act (store_object w grant data) (\<lambda>version.
             return_act \<lparr>id_artifact_id = fresh, id_kind = knd, id_media_type = media, id_object_key = okey,
               id_object_version = version, id_digest = digst, id_size = int (length data)\<rparr>))))))))"

definition reference_of :: "(string \<Rightarrow> string option) \<Rightarrow> identity \<Rightarrow> artifact_ref res" where
  "reference_of uuid i =
     bind_res (uuid_field uuid (JStr (id_artifact_id i))) (\<lambda>aid.
     bind_res (str_field (id_object_key i)) (\<lambda>okey.
       model_of artifact_ref_ok
         \<lparr>artifact_id = aid, object_key = okey, object_version = id_object_version i, art_digest = id_digest i,
          art_size = id_size i, media_type = id_media_type i, schema_name = None, art_schema_version = None\<rparr>))"

section \<open>Inputs and provenance\<close>

definition download_input :: "worker_host \<Rightarrow> world \<Rightarrow> json \<Rightarrow> json \<Rightarrow> validated_bundle act" where
  "download_input k w claim artifact =
     bind_act (lift_res (jget claim ''job_id'')) (\<lambda>job.
     bind_act (lift_res (jget claim ''attempt_number'')) (\<lambda>attempt.
     bind_act (lift_res (jget artifact ''artifact_id'')) (\<lambda>aid.
     bind_act (lift_res (jget claim ''attempt_token'')) (\<lambda>token.
     bind_act (client_json k w ''GET'' (attempt_path (wk_env k) job attempt (''inputs/'' @ py_str (wk_env k) aid)) None token)
       (\<lambda>ref.
     bind_act (lift_res (jget ref ''download_url'')) (\<lambda>url.
     bind_act (fetch_object w url) (\<lambda>data.
     bind_act (lift_res (jget artifact ''size'')) (\<lambda>sz.
       if \<not> int_eq (int (length data)) sz then raise_act ValueError
       else bind_act (lift_res (jget artifact ''digest'')) (\<lambda>digst.
         if JStr (sha256_hex (wk_env k) data) \<noteq> digst then raise_act ValueError
         else lift_res (validate_bundle (wk_env k) (wk_codec k) data))))))))))"

definition run_provenance_of :: "(string \<Rightarrow> string option) \<Rightarrow> json \<Rightarrow> validated_bundle \<Rightarrow> run_provenance res" where
  "run_provenance_of uuid artifact b =
     bind_res (jget artifact ''artifact_id'') (\<lambda>aid.
     bind_res (jget artifact ''object_key'') (\<lambda>okey.
     bind_res (jget artifact ''object_version'') (\<lambda>version.
     bind_res (uuid_field uuid aid) (\<lambda>aid.
     bind_res (str_field okey) (\<lambda>okey.
     bind_res (str_field version) (\<lambda>version.
       model_of run_provenance_ok
         \<lparr>rp_run_id = aid, rp_logical_run_digest = vb_logical_run_digest b, rp_bundle_digest = vb_bundle_digest b,
          rp_object_key = okey, rp_object_version = version,
          rp_event_schema_version = bm_event_schema_version (vb_manifest b),
          rp_cassette_format_version = bm_cassette_format_version (vb_manifest b),
          rp_bundle_format_version = bm_bundle_format_version (vb_manifest b)\<rparr>))))))"

text \<open>\<open>zip(..., strict=True)\<close> raises when one side ends before the other.\<close>

fun provenances :: "(string \<Rightarrow> string option) \<Rightarrow> json list \<Rightarrow> validated_bundle list \<Rightarrow> run_provenance list res" where
  "provenances uuid [] [] = Inr []"
| "provenances uuid (a # as) (b # bs) =
     bind_res (run_provenance_of uuid a b) (\<lambda>p. bind_res (provenances uuid as bs) (\<lambda>ps. Inr (p # ps)))"
| "provenances uuid _ _ = Inl ValueError"

definition result_provenance_of :: "worker_host \<Rightarrow> world \<Rightarrow> json \<Rightarrow> validated_bundle list \<Rightarrow> string \<Rightarrow> result_provenance act" where
  "result_provenance_of k w claim bs profile =
     bind_act (lift_res (bind_res (jget claim ''input_artifacts'') jiter)) (\<lambda>artifacts.
     bind_act (lift_res (provenances (wk_uuid k) artifacts bs)) (\<lambda>inputs.
     bind_act (ask (w_now w)) (\<lambda>now.
       lift_res (model_of result_provenance_ok
         \<lparr>rv_inputs = inputs, rv_analysis_profile = profile, rv_tracewake_version = wk_version k, rv_worker_build = wk_build k,
          rv_produced_at = now\<rparr>))))"

section \<open>The operations\<close>

record job_output =
  out_envelope :: json
  out_kind :: string
  out_logical_run_digest :: string
  out_event_count :: int
  out_bundle_digest :: string
  out_bundle_format_version :: int
  out_cassette_format_version :: int
  out_event_schema_version :: int
  out_companions :: "json list"

definition succeeded :: "semantic_result \<Rightarrow> result_envelope res" where
  "succeeded r = bind_res (model_of semantic_result_ok r) (\<lambda>r.
     model_of result_envelope_ok \<lparr>env_succeeded = True, env_result = Some r, env_failure = None\<rparr>)"

definition validate_op :: "worker_host \<Rightarrow> world \<Rightarrow> json \<Rightarrow> job_output act" where
  "validate_op k w claim =
     bind_act (lift_res (bind_res (jget claim ''input_artifacts'') jfirst)) (\<lambda>artifact.
     bind_act (download_input k w claim artifact) (\<lambda>b.
     bind_act (lift_res (run_provenance_of (wk_uuid k) artifact b)) (\<lambda>input.
     bind_act (ask (w_now w)) (\<lambda>now.
     bind_act (lift_res (model_of result_provenance_ok
         \<lparr>rv_inputs = [input], rv_analysis_profile = ''bundle-validation-v1'', rv_tracewake_version = wk_version k,
          rv_worker_build = wk_build k, rv_produced_at = now\<rparr>)) (\<lambda>prov.
     bind_act (lift_res (bind_res (jget artifact ''artifact_id'') (uuid_field (wk_uuid k)))) (\<lambda>rid.
     bind_act (lift_res (succeeded (ValidationR
         \<lparr>vr_run_id = rid, vr_event_count = int (length (vb_events b)), vr_logical_run_digest = vb_logical_run_digest b,
          vr_bundle_digest = vb_bundle_digest b, vr_provenance = prov\<rparr>))) (\<lambda>envelope.
       return_act
         \<lparr>out_envelope = dump_envelope envelope, out_kind = ''validation_json'',
          out_logical_run_digest = vb_logical_run_digest b, out_event_count = int (length (vb_events b)),
          out_bundle_digest = vb_bundle_digest b,
          out_bundle_format_version = bm_bundle_format_version (vb_manifest b),
          out_cassette_format_version = bm_cassette_format_version (vb_manifest b),
          out_event_schema_version = bm_event_schema_version (vb_manifest b), out_companions = []\<rparr>)))))))"

definition identity_fields :: "identity \<Rightarrow> (string \<times> json) list" where
  "identity_fields i =
     [(''artifact_id'', JStr (id_artifact_id i)), (''kind'', JStr (id_kind i)), (''media_type'', JStr (id_media_type i)),
      (''object_key'', id_object_key i), (''object_version'', JStr (id_object_version i)), (''digest'', JStr (id_digest i)),
      (''size'', JInt (id_size i))]"

definition analysis :: "result_envelope \<Rightarrow> string \<Rightarrow> identity \<Rightarrow> job_output" where
  "analysis envelope knd companion =
     \<lparr>out_envelope = dump_envelope envelope, out_kind = knd, out_logical_run_digest = [], out_event_count = 0,
      out_bundle_digest = [], out_bundle_format_version = 0, out_cassette_format_version = 0,
      out_event_schema_version = 0,
      out_companions = [JObj (identity_fields companion @ [(''schema_name'', JNull), (''schema_version'', JNull)])]\<rparr>"

definition bundle_blobs :: "validated_bundle \<Rightarrow> blob_source" where
  "bundle_blobs b =
     \<lparr>bs_has = (\<lambda>d. map_of (vb_blobs b) d \<noteq> None),
      bs_get = (\<lambda>d. case map_of (vb_blobs b) d of None \<Rightarrow> Inl KeyError | Some data \<Rightarrow> Inr data)\<rparr>"

definition bundle_run :: "validated_bundle \<Rightarrow> run_data" where
  "bundle_run b = \<lparr>rd_header = bundle_header b, rd_events = vb_events b, rd_blobs = Some (bundle_blobs b)\<rparr>"

definition download_all :: "worker_host \<Rightarrow> world \<Rightarrow> json \<Rightarrow> validated_bundle list act" where
  "download_all k w claim =
     bind_act (lift_res (bind_res (jget claim ''input_artifacts'') jiter)) (map_act (download_input k w claim))"

definition HOSTED_PROFILE :: string where "HOSTED_PROFILE = ''align-v2''"
definition LOCALIZE_PROFILE :: string where "LOCALIZE_PROFILE = ''localize-v1''"
definition PAYLOAD_BUDGET :: int where "PAYLOAD_BUDGET = 5000000"

definition contract_column :: "diff_result \<Rightarrow> nat option \<times> nat option \<Rightarrow> alignment_column res" where
  "contract_column r c =
     (case c of (i, j) \<Rightarrow>
        bind_res (column_similarity r i j) (\<lambda>s.
          model_of alignment_column_ok \<lparr>good_index = map_option int i, bad_index = map_option int j, similarity = s\<rparr>))"

definition contract_diff_of ::
  "diff_result \<Rightarrow> alignment_column list \<Rightarrow> (nat \<times> reliability_class) option \<Rightarrow> result_provenance \<Rightarrow> artifact_ref \<Rightarrow> contract_diff" where
  "contract_diff_of r columns found prov html =
     \<lparr>cd_profile = HOSTED_PROFILE, cd_score = dr_score r, cd_divergence = map_option (int \<circ> fst) found,
      cd_reliability = map_option snd found, cd_confidence = map_option (RELIABILITY_BAND \<circ> snd) found,
      cd_good_step_count = int (length (good_steps r)), cd_bad_step_count = int (length (bad_steps r)),
      cd_alignment = columns, cd_provenance = prov, cd_html = html\<rparr>"

definition diff_op :: "worker_host \<Rightarrow> world \<Rightarrow> json \<Rightarrow> job_output act" where
  "diff_op k w claim =
     bind_act (download_all k w claim) (\<lambda>bs.
       if length bs < 2 then raise_act IndexError
       else
         let good = bundle_run (bs ! 0); bad = bundle_run (bs ! 1)
         in bind_act (lift_res (diff_runs (wk_env k) (rd_events good) (rd_events bad) (Some lexical_embed) False False
                (Some HOSTED_PROFILE) None)) (\<lambda>r.
            bind_act (lift_res (write_report (wk_env k) (wk_template k) good bad r [] None PAYLOAD_BUDGET)) (\<lambda>(_, page).
            bind_act (upload k w claim ''diff_html'' page ''text/html; charset=utf-8'') (\<lambda>companion.
            bind_act (lift_res (map_res (contract_column r) (dr_alignment r))) (\<lambda>columns.
            bind_act (lift_res (run_localize (bad_steps r))) (\<lambda>found.
            bind_act (result_provenance_of k w claim bs HOSTED_PROFILE) (\<lambda>prov.
            bind_act (lift_res (reference_of (wk_uuid k) companion)) (\<lambda>html.
            bind_act (lift_res (succeeded (DiffR (contract_diff_of r columns found prov html)))) (\<lambda>envelope.
              return_act (analysis envelope ''diff_json'' companion))))))))))"

text \<open>\<open>str.rstrip()\<close>.\<close>

definition rstrip_ws :: "string \<Rightarrow> string" where
  "rstrip_ws s = concat (rev (dropWhile is_space (rev (utf8_chars s))))"

definition localize_document :: "py_env \<Rightarrow> step list \<Rightarrow> nat \<Rightarrow> reliability_class \<Rightarrow> string" where
  "localize_document env steps n r =
     render_ascii (frepr env) (sort_keys (JObj
       [(''profile'', JStr LOCALIZE_PROFILE), (''step'', JInt (int n)), (''step_count'', JInt (int (length steps))),
        (''reliability'', JStr (class_str r)), (''confidence'', JStr (band_str (RELIABILITY_BAND r))),
        (''action'', JStr (rstrip_ws (step_name (steps ! (n - 1)) @ '' '' @ step_target (steps ! (n - 1)))))]))"

definition localize_op :: "worker_host \<Rightarrow> world \<Rightarrow> json \<Rightarrow> job_output act" where
  "localize_op k w claim =
     bind_act (lift_res (bind_res (jget claim ''input_artifacts'') jfirst)) (\<lambda>artifact.
     bind_act (download_input k w claim artifact) (\<lambda>b.
       let steps = extract_steps (wk_env k) (vb_events b) False
       in if steps = [] then raise_act ValueError
          else
            bind_act (lift_res (localize steps)) (\<lambda>(n, r).
            bind_act (lift_res (guard_res (n - 1 < length steps) IndexError)) (\<lambda>_.
            bind_act (upload k w claim ''localize_json'' (localize_document (wk_env k) steps n r) ''application/json'')
              (\<lambda>companion.
            bind_act (result_provenance_of k w claim [b] LOCALIZE_PROFILE) (\<lambda>prov.
            bind_act (lift_res (reference_of (wk_uuid k) companion)) (\<lambda>ref.
            bind_act (lift_res (succeeded (LocalizeR
                \<lparr>lr_profile = LOCALIZE_PROFILE, lr_step = int n, lr_step_count = int (length steps), lr_reliability = r,
                 lr_confidence = RELIABILITY_BAND r, lr_provenance = prov, lr_artifact = ref\<rparr>))) (\<lambda>envelope.
              return_act (analysis envelope ''localize_result_json'' companion)))))))))"

definition otlp_op :: "worker_host \<Rightarrow> world \<Rightarrow> json \<Rightarrow> job_output act" where
  "otlp_op k w claim =
     bind_act (lift_res (bind_res (jget claim ''input_artifacts'') jfirst)) (\<lambda>artifact.
     bind_act (download_input k w claim artifact) (\<lambda>b.
       case encode_spans (wk_env k) (bundle_header b) (vb_events b) of (document, spans) \<Rightarrow>
         bind_act (upload k w claim ''otlp_json'' document ''application/json'') (\<lambda>companion.
         bind_act (result_provenance_of k w claim [b] ''otlp-spans-v1'') (\<lambda>prov.
         bind_act (lift_res (reference_of (wk_uuid k) companion)) (\<lambda>ref.
         bind_act (lift_res (succeeded (OtlpR
             \<lparr>ot_span_count = int spans, ot_provenance = prov, ot_artifact = ref\<rparr>))) (\<lambda>envelope.
           return_act (analysis envelope ''otlp_result_json'' companion)))))))"

text \<open>\<open>pprof.gzip_profile\<close>: the byte of the header that names the operating system is overwritten.\<close>

definition gzip_profile :: "(string \<Rightarrow> string) \<Rightarrow> string \<Rightarrow> string res" where
  "gzip_profile gz raw = (let out = gz raw in if length out \<le> 9 then Inl IndexError else Inr (out[9 := CHR 0xFF]))"

definition pprof_op :: "worker_host \<Rightarrow> world \<Rightarrow> json \<Rightarrow> job_output act" where
  "pprof_op k w claim =
     bind_act (lift_res (bind_res (jget claim ''input_artifacts'') jfirst)) (\<lambda>artifact.
     bind_act (download_input k w claim artifact) (\<lambda>b.
     bind_act (lift_res (bind_res (build_token_profile (bundle_header b) (vb_events b)) (gzip_profile (wk_gzip k)))) (\<lambda>data.
     bind_act (upload k w claim ''pprof'' data ''application/octet-stream'') (\<lambda>companion.
     bind_act (lift_res (attribute_tokens (bundle_header b) (vb_events b))) (\<lambda>shares.
     bind_act (result_provenance_of k w claim [b] ''pprof-tokens-v1'') (\<lambda>prov.
     bind_act (lift_res (reference_of (wk_uuid k) companion)) (\<lambda>ref.
     bind_act (lift_res (succeeded (PprofR
         \<lparr>pp_sample_count = int (length shares), pp_provenance = prov, pp_artifact = ref\<rparr>))) (\<lambda>envelope.
       return_act (analysis envelope ''pprof_result_json'' companion)))))))))"

text \<open>\<open>_operation\<close>: the handler of a claim this worker performs exactly as the job asked.\<close>

definition handler_of :: "string \<Rightarrow> (worker_host \<Rightarrow> world \<Rightarrow> json \<Rightarrow> job_output act) option" where
  "handler_of name = map_of [(''validate'', validate_op), (''diff'', diff_op), (''localize'', localize_op),
     (''otlp'', otlp_op), (''pprof'', pprof_op)] name"

definition profile_json :: "string \<Rightarrow> json" where
  "profile_json name = (case map_of REQUIRED_PROFILE name of Some (Some p) \<Rightarrow> JStr p | _ \<Rightarrow> JNull)"

definition operation_of :: "json \<Rightarrow> (worker_host \<Rightarrow> world \<Rightarrow> json \<Rightarrow> job_output act) res" where
  "operation_of claim =
     bind_res (jget claim ''operation'') (\<lambda>name.
       case name of
         JStr name \<Rightarrow>
           (case handler_of name of
              None \<Rightarrow> Inl UnsupportedAnalysis
            | Some handler \<Rightarrow>
                bind_res (jget_or claim ''profile'' JNull) (\<lambda>profile.
                  if profile \<noteq> profile_json name then Inl UnsupportedAnalysis else Inr handler))
       | JArr _ \<Rightarrow> Inl TypeError
       | JObj _ \<Rightarrow> Inl TypeError
       | _ \<Rightarrow> Inl UnsupportedAnalysis)"

section \<open>An attempt\<close>

definition LEASE_SECONDS :: nat where "LEASE_SECONDS = 60"

definition progress_request :: "json \<Rightarrow> int \<Rightarrow> string \<Rightarrow> string \<Rightarrow> json" where
  "progress_request attempt n stage message =
     JObj [(''protocol_version'', JInt 1), (''attempt_number'', attempt), (''sequence'', JInt n), (''stage'', JStr stage),
       (''message'', JStr message)]"

definition post_progress :: "worker_host \<Rightarrow> world \<Rightarrow> json \<Rightarrow> json \<Rightarrow> json \<Rightarrow> int \<Rightarrow> string \<Rightarrow> string \<Rightarrow> json act" where
  "post_progress k w job attempt token n stage message =
     client_json k w ''PUT'' (attempt_path (wk_env k) job attempt ''progress'')
       (Some (progress_request attempt n stage message)) token"

definition failure_request :: "string \<Rightarrow> string \<Rightarrow> bool \<Rightarrow> json" where
  "failure_request code message retryable =
     JObj [(''schema_version'', JInt 1), (''code'', JStr code), (''message'', JStr message), (''retryable'', JBool retryable)]"

definition post_failure :: "worker_host \<Rightarrow> world \<Rightarrow> json \<Rightarrow> json \<Rightarrow> json \<Rightarrow> string \<Rightarrow> string \<Rightarrow> bool \<Rightarrow> json act" where
  "post_failure k w job attempt token code message retryable =
     client_json k w ''POST'' (attempt_path (wk_env k) job attempt ''fail'') (Some (failure_request code message retryable)) token"

definition commit_request :: "json \<Rightarrow> identity \<Rightarrow> job_output \<Rightarrow> json" where
  "commit_request attempt i out =
     JObj ([(''protocol_version'', JInt 1), (''attempt_number'', attempt)] @ identity_fields i
       @ [(''schema_name'', JStr ''result-envelope''), (''schema_version'', JInt 1),
          (''logical_run_digest'', JStr (out_logical_run_digest out)), (''event_count'', JInt (out_event_count out)),
          (''bundle_digest'', JStr (out_bundle_digest out)),
          (''bundle_format_version'', JInt (out_bundle_format_version out)),
          (''cassette_format_version'', JInt (out_cassette_format_version out)),
          (''event_schema_version'', JInt (out_event_schema_version out)), (''companions'', JArr (out_companions out))])"

definition report_outcome :: "json \<Rightarrow> string \<Rightarrow> unit act" where
  "report_outcome name outcome = perform (Outcome_Metric name outcome) (\<lambda>_. Inr ())"

text \<open>The attempt up to its acknowledgement.\<close>

definition produce :: "worker_host \<Rightarrow> world \<Rightarrow> json \<Rightarrow> json \<Rightarrow> json \<Rightarrow> json \<Rightarrow> json \<Rightarrow> (identity \<times> job_output) act" where
  "produce k w claim job attempt token name =
     bind_act (post_progress k w job attempt token 1 ''downloading'' ''downloading immutable inputs'') (\<lambda>_.
     bind_act (lift_res (operation_of claim)) (\<lambda>handler.
       let stage = (if name = JStr ''validate'' then ''validating'' else ''analyzing'')
       in bind_act (post_progress k w job attempt token 2 stage (stage @ '' recorded runs'')) (\<lambda>_.
          bind_act (handler k w claim) (\<lambda>out.
          bind_act (ask (w_stopped w)) (\<lambda>stopped.
            if stopped then raise_act LeaseLost
            else
              bind_act (post_progress k w job attempt token 3 ''uploading'' ''uploading immutable results'') (\<lambda>_.
              bind_act (upload k w claim (out_kind out) (canonical_bytes_of (wk_env k) (out_envelope out)) ''application/json'')
                (\<lambda>i.
              bind_act (post_progress k w job attempt token 4 ''committing'' ''committing authoritative result'') (\<lambda>_.
                return_act (i, out)))))))))"

definition attempt_body :: "worker_host \<Rightarrow> world \<Rightarrow> delivery \<Rightarrow> json \<Rightarrow> json \<Rightarrow> json \<Rightarrow> json \<Rightarrow> json \<Rightarrow> bool act" where
  "attempt_body k w d claim job attempt token name =
     bind_act (produce k w claim job attempt token name) (\<lambda>(i, out).
     bind_act (client_json k w ''POST'' (attempt_path (wk_env k) job attempt ''complete'')
         (Some (commit_request attempt i out)) token) (\<lambda>_.
     bind_act (acknowledge k w d) (\<lambda>_.
     bind_act (report_outcome name ''succeeded'') (\<lambda>_. return_act True))))"

definition settle_failure :: "worker_host \<Rightarrow> world \<Rightarrow> delivery \<Rightarrow> json \<Rightarrow> json \<Rightarrow> json \<Rightarrow> json \<Rightarrow> string \<Rightarrow> string \<Rightarrow> string \<Rightarrow> bool \<Rightarrow> bool act" where
  "settle_failure k w d job attempt token name outcome code message retryable =
     bind_act (report_outcome name outcome) (\<lambda>_.
     bind_act (post_failure k w job attempt token code message retryable) (\<lambda>_.
     bind_act (acknowledge k w d) (\<lambda>_. return_act True)))"

definition interrupted :: "worker_host \<Rightarrow> world \<Rightarrow> delivery \<Rightarrow> json \<Rightarrow> json \<Rightarrow> json \<Rightarrow> json \<Rightarrow> bool act" where
  "interrupted k w d job attempt token name =
     bind_act (ask (w_reasons w)) (\<lambda>reasons.
       case reasons of
         reason # _ \<Rightarrow>
           bind_act (report_outcome name ''fenced'') (\<lambda>_.
             if reason = ''cancelled'' then bind_act (acknowledge k w d) (\<lambda>_. return_act True) else return_act True)
       | [] \<Rightarrow>
           bind_act (report_outcome name ''failed'') (\<lambda>_.
           bind_act (catch_act
               (bind_act (post_failure k w job attempt token ''internal'' ''worker is shutting down'' True) (\<lambda>_. acknowledge k w d))
               (\<lambda>e. if is_exception e then return_act () else raise_act e)) (\<lambda>_.
             raise_act KeyboardInterrupt)))"

text \<open>The \<open>except\<close> clauses, in their order.\<close>

definition handle_failure :: "worker_host \<Rightarrow> world \<Rightarrow> delivery \<Rightarrow> json \<Rightarrow> json \<Rightarrow> json \<Rightarrow> json \<Rightarrow> exn \<Rightarrow> bool act" where
  "handle_failure k w d job attempt token name e =
     (if e = KeyboardInterrupt then interrupted k w d job attempt token name
      else if e = LeaseLost then bind_act (report_outcome name ''fenced'') (\<lambda>_. return_act True)
      else if e = UnsupportedAnalysis then
        settle_failure k w d job attempt token name ''refused'' ''unsupported_version''
          ''requested analysis is not supported by this worker'' False
      else if is_value_error e then
        settle_failure k w d job attempt token name ''failed''
          (if name = JStr ''validate'' then ''invalid_bundle'' else ''invalid_result'') ''worker operation failed'' False
      else if is_exception e then
        settle_failure k w d job attempt token name ''failed'' ''internal'' ''worker operation failed'' True
      else raise_act e)"

definition claim_job :: "worker_host \<Rightarrow> world \<Rightarrow> delivery \<Rightarrow> json option act" where
  "claim_job k w d =
     catch_act
       (bind_act (client_json k w ''POST'' ''/internal/v1/claims''
           (Some (JObj [(''protocol_version'', JInt 1), (''notification'', dl_notification d), (''worker_id'', JStr (wk_worker_id k))]))
           JNull) (\<lambda>claim. return_act (Some claim)))
       (\<lambda>e. if e = LeaseLost then bind_act (acknowledge k w d) (\<lambda>_. return_act None) else raise_act e)"

definition attempt :: "worker_host \<Rightarrow> world \<Rightarrow> delivery \<Rightarrow> bool act" where
  "attempt k w d =
     bind_act (claim_job k w d) (\<lambda>c.
       case c of
         None \<Rightarrow> return_act True
       | Some claim \<Rightarrow>
           bind_act (lift_res (jget claim ''job_id'')) (\<lambda>job.
           bind_act (lift_res (jget claim ''attempt_number'')) (\<lambda>number.
           bind_act (lift_res (jget claim ''attempt_token'')) (\<lambda>token.
           bind_act (lift_res (jget claim ''operation'')) (\<lambda>name.
             catch_act (attempt_body k w d claim job number token name)
               (handle_failure k w d job number token name))))))"

definition run_once :: "worker_host \<Rightarrow> world \<Rightarrow> string \<Rightarrow> bool act" where
  "run_once k w tp =
     bind_act (next_notification k w) (\<lambda>d.
       case d of None \<Rightarrow> return_act False | Some d \<Rightarrow> attempt (k\<lparr>wk_traceparent := Some tp\<rparr>) w d)"

fun resolve_identity :: "worker_host \<Rightarrow> world \<Rightarrow> nat \<Rightarrow> string act" where
  "resolve_identity k w 0 = raise_act RuntimeError"
| "resolve_identity k w (Suc remaining) =
     catch_act
       (bind_act (client_json k w ''GET'' ''/internal/v1/identity'' None JNull) (\<lambda>reply.
        bind_act (lift_res (jget reply ''worker_id'')) (\<lambda>v. return_act (py_str (wk_env k) v))))
       (\<lambda>e. if e \<in> {RuntimeError, LeaseLost, FileNotFoundError, Raised ''OSError'', Raised ''URLError''} then
              if remaining = 0 then raise_act e else resolve_identity k w remaining
            else raise_act e)"

section \<open>The threads beside an attempt\<close>

record interrupt_state =
  is_stopped :: bool
  is_reasons :: "string list"

definition interrupt :: "string \<Rightarrow> interrupt_state \<Rightarrow> interrupt_state" where
  "interrupt reason s = (if is_stopped s then s else s\<lparr>is_stopped := True, is_reasons := is_reasons s @ [reason]\<rparr>)"

datatype thread = Running | Finished | Interrupts string

definition heartbeat_request :: "json \<Rightarrow> json" where
  "heartbeat_request number =
     JObj [(''protocol_version'', JInt 1), (''attempt_number'', number), (''observed_lease_expires_at'', JStr ''1970-01-01T00:00:00Z'')]"

definition extend_visibility :: "world \<Rightarrow> delivery \<Rightarrow> unit act" where
  "extend_visibility w d =
     (case dl_transport d of
        ControlPlane _ \<Rightarrow> return_act ()
      | SqsQueue handle \<Rightarrow> perform (ExtendMessage handle LEASE_SECONDS) (\<lambda>h. w_extend w h handle))"

text \<open>A thread after a number of ticks of its timer.\<close>

fun heartbeat :: "worker_host \<Rightarrow> world \<Rightarrow> delivery \<Rightarrow> json \<Rightarrow> json \<Rightarrow> json \<Rightarrow> nat \<Rightarrow> thread act" where
  "heartbeat k w d job number token 0 = return_act Running"
| "heartbeat k w d job number token (Suc ticks) =
     bind_act (ask (w_stopped w)) (\<lambda>stopped.
       if stopped then return_act Finished
       else
         bind_act (catch_act
             (bind_act (client_request k w ''PUT'' (attempt_path (wk_env k) job number ''heartbeat'')
                 (Some (canonical_bytes_of (wk_env k) (heartbeat_request number))) token) (\<lambda>_.
              bind_act (extend_visibility w d) (\<lambda>_. return_act Running)))
             (\<lambda>e. if is_exception e then return_act (Interrupts ''lease_lost'') else raise_act e)) (\<lambda>state.
           if state = Running then heartbeat k w d job number token ticks else return_act state))"

fun watch_cancellation :: "worker_host \<Rightarrow> world \<Rightarrow> json \<Rightarrow> json \<Rightarrow> json \<Rightarrow> nat \<Rightarrow> thread act" where
  "watch_cancellation k w job number token 0 = return_act Running"
| "watch_cancellation k w job number token (Suc ticks) =
     bind_act (ask (w_stopped w)) (\<lambda>stopped.
       if stopped then return_act Finished
       else
         bind_act (catch_act
             (bind_act (client_json k w ''GET'' (attempt_path (wk_env k) job number ''cancellation'') None token) (\<lambda>response.
              bind_act (lift_res (jget response ''cancel_requested'')) (\<lambda>requested.
                return_act (if jtruthy requested then Interrupts ''cancelled'' else Running))))
             (\<lambda>e. if e = LeaseLost then return_act (Interrupts ''lease_lost'')
                  else if is_exception e then return_act Running else raise_act e)) (\<lambda>state.
           if state = Running then watch_cancellation k w job number token ticks else return_act state))"

end
