(* ===== verification/Attempt.thy ===== *)
theory Attempt
  imports Worker
begin

text \<open>
  What the worker's attempts guarantee: which calls an attempt makes and in which order, when a notification may be
  acknowledged, what a lost lease ends, and that what is committed satisfies the contracts.
\<close>

section \<open>Answers\<close>

text \<open>Whether the world, after the calls \<open>h\<close>, accepts a call, and whether it says the lease is no longer current.\<close>

definition accepted :: "world \<Rightarrow> effect list \<Rightarrow> effect \<Rightarrow> bool" where
  "accepted w h c =
     (case c of
        Http rq \<Rightarrow> (case w_http w h rq of Reply _ _ \<Rightarrow> True | _ \<Rightarrow> False)
      | DeleteMessage handle \<Rightarrow> w_delete w h handle = Inr ()
      | _ \<Rightarrow> True)"

definition fenced :: "world \<Rightarrow> effect list \<Rightarrow> effect \<Rightarrow> bool" where
  "fenced w h c =
     (case c of
        Http rq \<Rightarrow> (case w_http w h rq of HttpErr code _ \<Rightarrow> code = 409 | _ \<Rightarrow> False)
      | _ \<Rightarrow> False)"

lemma exn_names [simp]:
  "LeaseLost \<noteq> KeyboardInterrupt" "KeyboardInterrupt \<noteq> LeaseLost" "LeaseLost \<noteq> UnsupportedAnalysis" "UnsupportedAnalysis \<noteq> LeaseLost"
  "UnsupportedAnalysis \<noteq> KeyboardInterrupt" "KeyboardInterrupt \<noteq> UnsupportedAnalysis" "RuntimeError \<noteq> LeaseLost" "LeaseLost \<noteq> RuntimeError"
  "is_exception LeaseLost" "is_exception UnsupportedAnalysis" "is_exception RuntimeError" "is_exception ValueError"
  "\<not> is_exception KeyboardInterrupt"
  by (simp_all add: LeaseLost_def KeyboardInterrupt_def UnsupportedAnalysis_def is_exception_def)

lemma fenced_simps [simp]:
  "\<not> fenced w h (Fetch u)" "\<not> fenced w h (Put p)" "\<not> fenced w h (DeleteMessage m)" "\<not> fenced w h (Outcome_Metric n s)"
  "\<not> fenced w h (ExtendMessage m i)"
  by (simp_all add: fenced_def)

lemma http_result_accepted: "http_result (w_http w h rq) = Inr v \<Longrightarrow> accepted w h (Http rq) \<and> \<not> fenced w h (Http rq)"
  by (auto simp: http_result_def accepted_def fenced_def split: http_reply.splits)

lemma http_result_fenced: "http_result (w_http w h rq) = Inl e \<Longrightarrow> fenced w h (Http rq) \<Longrightarrow> e = LeaseLost"
  by (auto simp: http_result_def fenced_def split: http_reply.splits)

text \<open>The call a request of the client is, for a token that can be sent.\<close>

definition api_call :: "worker_host \<Rightarrow> string \<Rightarrow> string \<Rightarrow> string option \<Rightarrow> string option \<Rightarrow> effect" where
  "api_call k verb path body token = Http (worker_request k verb path body token)"

lemma wp_client_request:
  assumes "\<And>t v. token_header token = Inr t \<Longrightarrow> accepted w h (api_call k verb path body t) \<Longrightarrow> \<not> fenced w h (api_call k verb path body t)
      \<Longrightarrow> N v (h @ [api_call k verb path body t])"
    and "\<And>t e. token_header token = Inr t \<Longrightarrow> (fenced w h (api_call k verb path body t) \<Longrightarrow> e = LeaseLost)
      \<Longrightarrow> E e (h @ [api_call k verb path body t])"
    and "\<And>e. token_header token = Inl e \<Longrightarrow> E e h"
  shows "wp (client_request k w verb path body token) N E h"
  unfolding client_request_def Let_def
  by (intro wp_rules) (use assms http_result_accepted http_result_fenced in \<open>fastforce simp: api_call_def\<close>)+

lemma wp_client_json:
  assumes "\<And>t v. token_header token = Inr t \<Longrightarrow>
      accepted w h (api_call k verb path (map_option (render_ascii (frepr (wk_env k))) val) t) \<Longrightarrow>
      \<not> fenced w h (api_call k verb path (map_option (render_ascii (frepr (wk_env k))) val) t) \<Longrightarrow>
      N v (h @ [api_call k verb path (map_option (render_ascii (frepr (wk_env k))) val) t])"
    and "\<And>t e. token_header token = Inr t \<Longrightarrow>
      (fenced w h (api_call k verb path (map_option (render_ascii (frepr (wk_env k))) val) t) \<Longrightarrow> e = LeaseLost)
      \<Longrightarrow> E e (h @ [api_call k verb path (map_option (render_ascii (frepr (wk_env k))) val) t])"
    and "\<And>e. token_header token = Inl e \<Longrightarrow> E e h"
  shows "wp (client_json k w verb path val token) N E h"
  unfolding client_json_def
  by (intro wp_bind wp_client_request)
     (use assms in \<open>auto intro!: wp_return wp_lift split: prod.split\<close>)

section \<open>Quiet stretches\<close>

text \<open>
  A stretch of calls of one kind, none of which is answered by a conflict; and how such a stretch may end in an
  exception: anywhere, or at a conflict, which is then the last call and raises \<open>LeaseLost\<close>.
\<close>

inductive stretch :: "world \<Rightarrow> (effect \<Rightarrow> bool) \<Rightarrow> effect list \<Rightarrow> effect list \<Rightarrow> bool" for w P h where
  stretch_refl: "stretch w P h h"
| stretch_step: "stretch w P h g \<Longrightarrow> P c \<Longrightarrow> \<not> fenced w g c \<Longrightarrow> stretch w P h (g @ [c])"

definition cut_off :: "world \<Rightarrow> (effect \<Rightarrow> bool) \<Rightarrow> exn \<Rightarrow> effect list \<Rightarrow> effect list \<Rightarrow> bool" where
  "cut_off w P e h h' \<longleftrightarrow>
     stretch w P h h' \<or> (e = LeaseLost \<and> (\<exists>g c. stretch w P h g \<and> P c \<and> fenced w g c \<and> h' = g @ [c]))"

definition quietly :: "world \<Rightarrow> (effect \<Rightarrow> bool) \<Rightarrow> 'a act \<Rightarrow> bool" where
  "quietly w P m \<longleftrightarrow> (\<forall>h. wp m (\<lambda>_. stretch w P h) (\<lambda>e. cut_off w P e h) h)"

lemma stretch_trans: "stretch w P g g' \<Longrightarrow> stretch w P h g \<Longrightarrow> stretch w P h g'"
  by (induction rule: stretch.induct) (auto intro: stretch.intros)

lemma cut_off_trans: "stretch w P h g \<Longrightarrow> cut_off w P e g g' \<Longrightarrow> cut_off w P e h g'"
  by (auto simp: cut_off_def intro: stretch_trans)

lemma stretch_prefix: "stretch w P h g \<Longrightarrow> \<exists>qs. g = h @ qs \<and> (\<forall>c\<in>set qs. P c)"
  by (induction rule: stretch.induct) auto

named_theorems quiet_rules \<open>one rule of quietly for each combinator\<close>

lemma quiet_return [quiet_rules]: "quietly w P (return_act x)"
  by (simp add: quietly_def wp_return stretch_refl)

lemma quiet_raise [quiet_rules]: "quietly w P (raise_act e)"
  by (simp add: quietly_def wp_raise stretch_refl cut_off_def)

lemma quiet_lift: "quietly w P (lift_res r)"
  by (simp add: quietly_def wp_lift stretch_refl cut_off_def)

lemma quiet_ask: "quietly w P (ask f)"
  by (simp add: quietly_def wp_ask stretch_refl)

lemma quiet_bind: "quietly w P m \<Longrightarrow> (\<And>x. quietly w P (f x)) \<Longrightarrow> quietly w P (bind_act m f)"
  unfolding quietly_def
  by (intro allI wp_bind) (blast intro: wp_mono stretch_trans cut_off_trans)

text \<open>What is read from a value is known in the rest.\<close>

lemma quiet_bind_lift [quiet_rules]: "(\<And>x. r = Inr x \<Longrightarrow> quietly w P (f x)) \<Longrightarrow> quietly w P (bind_act (lift_res r) f)"
  by (cases r) (auto simp: quietly_def bind_act_def lift_res_def wp_def stretch_refl cut_off_def)

lemma quiet_bind_ask [quiet_rules]: "(\<And>x. quietly w P (f x)) \<Longrightarrow> quietly w P (bind_act (ask g) f)"
  by (rule quiet_bind [OF quiet_ask])

lemma quiet_if [quiet_rules]: "(c \<Longrightarrow> quietly w P m) \<Longrightarrow> (\<not> c \<Longrightarrow> quietly w P n) \<Longrightarrow> quietly w P (if c then m else n)"
  by simp

lemma quiet_let: "quietly w P (f x) \<Longrightarrow> quietly w P (let y = x in f y)"
  by simp

lemma quiet_pair: "(\<And>a b. quietly w P (f a b)) \<Longrightarrow> quietly w P (case x of (a, b) \<Rightarrow> f a b)"
  by (cases x) simp

lemma quiet_map: "(\<And>x. x \<in> set xs \<Longrightarrow> quietly w P (f x)) \<Longrightarrow> quietly w P (map_act f xs)"
  by (induction xs) (auto intro!: quiet_return quiet_bind)

lemma quiet_perform: "P c \<Longrightarrow> (\<And>h. \<not> fenced w h c) \<Longrightarrow> quietly w P (perform c answer)"
  unfolding quietly_def by (auto intro!: wp_perform stretch_step [OF stretch_refl] simp: cut_off_def)

lemma quiet_client_request:
  assumes "\<And>body t. P (api_call k verb path body t)"
  shows "quietly w P (client_request k w verb path body token)"
  unfolding quietly_def
proof (intro allI wp_client_request)
  fix h t e
  assume lost: "fenced w h (api_call k verb path body t) \<Longrightarrow> e = LeaseLost"
  show "cut_off w P e h (h @ [api_call k verb path body t])"
    by (cases "fenced w h (api_call k verb path body t)")
       (use assms lost in \<open>auto simp: cut_off_def intro: stretch.intros\<close>)
qed (use assms in \<open>auto simp: cut_off_def intro: stretch.intros\<close>)

lemma quiet_client_json:
  assumes "\<And>body t. P (api_call k verb path body t)"
  shows "quietly w P (client_json k w verb path val token)"
  unfolding client_json_def
  by (intro quiet_bind quiet_client_request quiet_pair quiet_rules) (use assms in \<open>auto intro: quiet_return quiet_lift\<close>)


section \<open>The calls of a job\<close>

definition job_url :: "worker_host \<Rightarrow> json \<Rightarrow> json \<Rightarrow> string \<Rightarrow> string" where
  "job_url k job number leaf = rstrip_char CHR ''/'' (wk_base_url k) @ attempt_path (wk_env k) job number leaf"

text \<open>The two calls that settle a job.\<close>

definition settles :: "worker_host \<Rightarrow> json \<Rightarrow> json \<Rightarrow> effect \<Rightarrow> bool" where
  "settles k job number c \<longleftrightarrow>
     (\<exists>rq. c = Http rq \<and> rq_method rq = ''POST''
        \<and> (rq_url rq = job_url k job number ''complete'' \<or> rq_url rq = job_url k job number ''fail''))"

text \<open>The call that acknowledges a notification.\<close>

definition ack_call :: "worker_host \<Rightarrow> delivery \<Rightarrow> effect" where
  "ack_call k d =
     (case dl_transport d of
        ControlPlane identifier \<Rightarrow> api_call k ''POST'' (ack_path identifier) None None
      | SqsQueue handle \<Rightarrow> DeleteMessage handle)"

text \<open>The calls a handler makes: the objects, and what the job's attempt offers beside its end.\<close>

definition working :: "worker_host \<Rightarrow> json \<Rightarrow> json \<Rightarrow> effect \<Rightarrow> bool" where
  "working k job number c \<longleftrightarrow>
     (case c of
        Http rq \<Rightarrow> \<exists>leaf. rq_url rq = job_url k job number leaf \<and> leaf \<noteq> ''complete'' \<and> leaf \<noteq> ''fail''
      | Fetch _ \<Rightarrow> True
      | Put _ \<Rightarrow> True
      | _ \<Rightarrow> False)"

lemma working_api:
  "leaf \<noteq> ''complete'' \<Longrightarrow> leaf \<noteq> ''fail'' \<Longrightarrow> working k job number (api_call k verb (attempt_path (wk_env k) job number leaf) body t)"
  by (auto simp: working_def api_call_def worker_request_def job_url_def)

lemma job_url_eq [simp]: "job_url k job number leaf = job_url k job number leaf' \<longleftrightarrow> leaf = leaf'"
  by (simp add: job_url_def attempt_path_def)

lemma working_not_settling: "working k job number c \<Longrightarrow> \<not> settles k job number c"
  by (auto simp: working_def settles_def)

lemma ack_path_ne_attempt [simp]: "ack_path i \<noteq> attempt_path env job number leaf" "attempt_path env job number leaf \<noteq> ack_path i"
  by (auto simp: ack_path_def attempt_path_def)

lemma working_not_ack: "working k job number c \<Longrightarrow> c \<noteq> ack_call k d"
  by (auto simp: working_def ack_call_def api_call_def worker_request_def job_url_def split: transport.splits)

lemma settles_not_ack: "settles k job number c \<Longrightarrow> c \<noteq> ack_call k d"
  by (auto simp: settles_def ack_call_def api_call_def worker_request_def job_url_def split: transport.splits)

lemma settles_api:
  "leaf \<in> {''complete'', ''fail''} \<Longrightarrow> settles k job number (api_call k ''POST'' (attempt_path (wk_env k) job number leaf) body t)"
  by (auto simp: settles_def api_call_def worker_request_def job_url_def)

section \<open>The handlers work quietly\<close>

definition claimed :: "json \<Rightarrow> json \<Rightarrow> json \<Rightarrow> bool" where
  "claimed claim job number \<longleftrightarrow> jget claim ''job_id'' = Inr job \<and> jget claim ''attempt_number'' = Inr number"

lemma quiet_fetch: "quietly w (working k job number) (fetch_object w url)"
  unfolding fetch_object_def Let_def
  by (intro quiet_bind quiet_perform quiet_rules) (simp_all add: working_def)

lemma quiet_store: "quietly w (working k job number) (store_object w grant data)"
  unfolding store_object_def Let_def
  by (intro quiet_rules quiet_bind quiet_perform quiet_pair)
     (auto simp: working_def intro: quiet_rules split: option.split)

lemma quiet_job_json:
  assumes "leaf \<noteq> ''complete''" "leaf \<noteq> ''fail''"
  shows "quietly w (working k job number) (client_json k w verb (attempt_path (wk_env k) job number leaf) val token)"
  by (rule quiet_client_json, rule working_api [OF assms])

lemma quiet_upload:
  assumes "claimed claim job number"
  shows "quietly w (working k job number) (upload k w claim knd data media)"
  unfolding upload_def Let_def
  using assms by (intro quiet_rules) (auto simp: claimed_def intro!: quiet_rules quiet_job_json quiet_store intro: quiet_bind)

lemma quiet_download:
  assumes "claimed claim job number"
  shows "quietly w (working k job number) (download_input k w claim artifact)"
  unfolding download_input_def
  using assms by (intro quiet_rules) (auto simp: claimed_def intro!: quiet_rules quiet_job_json quiet_fetch quiet_lift intro: quiet_bind)

lemma quiet_result_provenance: "quietly w P (result_provenance_of k w claim bs profile)"
  unfolding result_provenance_of_def by (intro quiet_rules quiet_lift)

lemma quiet_validate: "claimed claim job number \<Longrightarrow> quietly w (working k job number) (validate_op k w claim)"
  unfolding validate_op_def by (intro quiet_rules quiet_bind quiet_download quiet_lift)

lemma quiet_diff: "claimed claim job number \<Longrightarrow> quietly w (working k job number) (diff_op k w claim)"
  unfolding diff_op_def download_all_def Let_def
  by (intro quiet_rules quiet_bind quiet_map quiet_download quiet_upload quiet_result_provenance
      quiet_pair quiet_lift)

lemma quiet_localize: "claimed claim job number \<Longrightarrow> quietly w (working k job number) (localize_op k w claim)"
  unfolding localize_op_def Let_def
  by (intro quiet_rules quiet_bind quiet_download quiet_upload quiet_result_provenance
      quiet_pair quiet_lift)

lemma quiet_otlp: "claimed claim job number \<Longrightarrow> quietly w (working k job number) (otlp_op k w claim)"
  unfolding otlp_op_def Let_def
  by (intro quiet_rules quiet_bind quiet_download quiet_upload quiet_result_provenance
      quiet_pair quiet_lift)

lemma quiet_pprof: "claimed claim job number \<Longrightarrow> quietly w (working k job number) (pprof_op k w claim)"
  unfolding pprof_op_def Let_def
  by (intro quiet_rules quiet_bind quiet_download quiet_upload quiet_result_provenance
      quiet_pair quiet_lift)

lemma handler_of_cases:
  assumes "handler_of name = Some handler"
  shows "(name, handler) \<in> {(''validate'', validate_op), (''diff'', diff_op), (''localize'', localize_op),
     (''otlp'', otlp_op), (''pprof'', pprof_op)}"
  using map_of_SomeD [OF assms [unfolded handler_of_def]] by simp

lemma operation_of_Inr:
  assumes "operation_of claim = Inr handler"
  obtains name where "jget claim ''operation'' = Inr (JStr name)" "handler_of name = Some handler"
    "jget_or claim ''profile'' JNull = Inr (profile_json name)"
proof -
  from assms obtain j where j: "jget claim ''operation'' = Inr j"
    unfolding operation_of_def by (auto simp: bind_res_eq_Inr)
  with assms obtain name where name: "j = JStr name" unfolding operation_of_def by (cases j) simp_all
  with assms j show thesis
    using that [of name] unfolding operation_of_def by (auto simp: bind_res_eq_Inr split: option.splits if_splits)
qed

lemma quiet_handler:
  assumes "claimed claim job number" "operation_of claim = Inr handler"
  shows "quietly w (working k job number) (handler k w claim)"
  using assms(2)
proof (rule operation_of_Inr)
  fix name
  assume "handler_of name = Some handler"
  then show ?thesis
    using handler_of_cases quiet_validate quiet_diff quiet_localize quiet_otlp quiet_pprof assms(1) by fastforce
qed

lemma quiet_progress: "quietly w (working k job number) (post_progress k w job number token n stage message)"
  unfolding post_progress_def by (rule quiet_job_json) simp_all

lemma quiet_produce: "claimed claim job number \<Longrightarrow> quietly w (working k job number) (produce k w claim job number token name)"
  unfolding produce_def Let_def
  by (intro quiet_rules quiet_bind quiet_progress quiet_handler quiet_upload)


section \<open>The calls of an attempt in order\<close>

lemma wp_quietly:
  assumes "quietly w P m" "\<And>x h'. stretch w P h h' \<Longrightarrow> N x h'" "\<And>e h'. cut_off w P e h h' \<Longrightarrow> E e h'"
  shows "wp m N E h"
  using assms(1) unfolding quietly_def by (blast intro: wp_mono assms(2,3))

lemma wp_acknowledge:
  assumes "accepted w h (ack_call k d) \<Longrightarrow> \<not> fenced w h (ack_call k d) \<Longrightarrow> N () (h @ [ack_call k d])"
    and "\<And>e. (fenced w h (ack_call k d) \<Longrightarrow> e = LeaseLost) \<Longrightarrow> E e (h @ [ack_call k d])"
  shows "wp (acknowledge k w d) N E h"
proof (cases "dl_transport d")
  case (ControlPlane i)
  then show ?thesis
    unfolding acknowledge_def transport.case
    using assms
    by (auto intro!: wp_bind wp_client_request wp_return simp: ack_call_def token_header_def)
next
  case (SqsQueue m)
  then show ?thesis
    unfolding acknowledge_def transport.case
    using assms
    by (auto intro!: wp_perform simp: ack_call_def accepted_def)
qed

lemma wp_report: "N () (h @ [Outcome_Metric name outcome]) \<Longrightarrow> wp (report_outcome name outcome) N E h"
  unfolding report_outcome_def by (rule wp_perform) simp_all

text \<open>A call that may settle the job, whichever it is.\<close>

lemma wp_settling:
  assumes leaf: "leaf \<in> {''complete'', ''fail''}"
    and N: "\<And>v c. settles k job number c \<Longrightarrow> accepted w h c \<Longrightarrow> \<not> fenced w h c \<Longrightarrow> N v (h @ [c])"
    and E: "\<And>e c. settles k job number c \<Longrightarrow> (fenced w h c \<Longrightarrow> e = LeaseLost) \<Longrightarrow> E e (h @ [c])"
    and U: "\<And>e. E e h"
  shows "wp (client_json k w ''POST'' (attempt_path (wk_env k) job number leaf) val token) N E h"
  by (rule wp_client_json) (use settles_api [OF leaf] N E U in auto)

definition settled :: "worker_host \<Rightarrow> world \<Rightarrow> json \<Rightarrow> json \<Rightarrow> effect list \<Rightarrow> effect list \<Rightarrow> bool" where
  "settled k w job number h0 h \<longleftrightarrow>
     (\<exists>pre c post. h = h0 @ pre @ c # post \<and> settles k job number c \<and> accepted w (h0 @ pre) c)"

definition cancelled :: "world \<Rightarrow> effect list \<Rightarrow> bool" where
  "cancelled w h \<longleftrightarrow> (\<exists>g c rs. h = g @ [c] \<and> w_reasons w g = ''cancelled'' # rs)"

text \<open>Every acknowledgement since \<open>h0\<close> has its reason before it.\<close>

definition acks_justified :: "worker_host \<Rightarrow> world \<Rightarrow> delivery \<Rightarrow> json \<Rightarrow> json \<Rightarrow> effect list \<Rightarrow> effect list \<Rightarrow> bool" where
  "acks_justified k w d job number h0 h \<longleftrightarrow>
     (\<exists>es. h = h0 @ es)
     \<and> (\<forall>pre post. h = h0 @ pre @ ack_call k d # post \<longrightarrow> settled k w job number h0 (h0 @ pre) \<or> cancelled w (h0 @ pre))"

lemma acks_refl: "acks_justified k w d job number h0 h0"
  by (simp add: acks_justified_def)

lemma snoc_split: "xs @ [x] = ys @ y # zs \<longleftrightarrow> (zs = [] \<and> xs = ys \<and> x = y) \<or> (\<exists>us. zs = us @ [x] \<and> xs = ys @ y # us)"
  by (cases zs rule: rev_cases) auto

lemma acks_snoc:
  assumes "acks_justified k w d job number h0 h"
    and "c = ack_call k d \<Longrightarrow> settled k w job number h0 h \<or> cancelled w h"
  shows "acks_justified k w d job number h0 (h @ [c])"
proof -
  obtain es where es: "h = h0 @ es" using assms(1) by (auto simp: acks_justified_def)
  have "settled k w job number h0 (h0 @ pre) \<or> cancelled w (h0 @ pre)" if "h @ [c] = h0 @ pre @ ack_call k d # post" for pre post
  proof -
    from that have "es @ [c] = pre @ ack_call k d # post" by (simp add: es)
    then consider "pre = es" "c = ack_call k d" | us where "es = pre @ ack_call k d # us" by (auto simp: snoc_split)
    then show ?thesis using assms by cases (auto simp: acks_justified_def es)
  qed
  then show ?thesis by (auto simp: acks_justified_def es)
qed

lemma acks_stretch:
  "stretch w (working k job number) h g \<Longrightarrow> acks_justified k w d job number h0 h \<Longrightarrow> acks_justified k w d job number h0 g"
  by (induction rule: stretch.induct) (auto intro!: acks_snoc dest: working_not_ack)

lemma acks_cut_off:
  "cut_off w (working k job number) e h g \<Longrightarrow> acks_justified k w d job number h0 h \<Longrightarrow> acks_justified k w d job number h0 g"
  by (auto simp: cut_off_def intro!: acks_snoc dest: working_not_ack acks_stretch)

lemma acks_settling:
  assumes "acks_justified k w d job number h0 h" "settles k job number c"
  shows "acks_justified k w d job number h0 (h @ [c])"
    and "accepted w h c \<Longrightarrow> settled k w job number h0 (h @ [c])"
proof -
  show "acks_justified k w d job number h0 (h @ [c])" using assms by (auto intro!: acks_snoc dest: settles_not_ack)
  assume "accepted w h c"
  moreover obtain es where "h = h0 @ es" using assms(1) by (auto simp: acks_justified_def)
  ultimately show "settled k w job number h0 (h @ [c])" using assms(2) unfolding settled_def by fastforce
qed

lemma acks_report: "acks_justified k w d job number h0 h \<Longrightarrow> acks_justified k w d job number h0 (h @ [Outcome_Metric n s])"
  by (rule acks_snoc) (auto simp: ack_call_def api_call_def split: transport.splits)

lemma settling_acks:
  assumes "acks_justified k w d job number h0 h" "leaf \<in> {''complete'', ''fail''}"
    and N: "\<And>g. acks_justified k w d job number h0 g \<Longrightarrow> wp m N E g" and E: "\<And>e g. acks_justified k w d job number h0 g \<Longrightarrow> E e g"
  shows "wp (bind_act (client_json k w ''POST'' (attempt_path (wk_env k) job number leaf) val token)
    (\<lambda>_. bind_act (acknowledge k w d) (\<lambda>_. m))) N E h"
proof (intro wp_bind wp_settling [OF assms(2)])
  fix v c
  assume c: "settles k job number c" "accepted w h c"
  note s = acks_settling [OF assms(1) c(1)] and settled = acks_settling(2) [OF assms(1) c]
  have "acks_justified k w d job number h0 ((h @ [c]) @ [ack_call k d])"
    by (rule acks_snoc [OF s(1)]) (use settled in blast)
  then show "wp (acknowledge k w d) (\<lambda>_. wp m N E) E (h @ [c])"
    by (intro wp_acknowledge N E)
next
  fix e c
  assume "settles k job number c"
  then show "E e (h @ [c])" by (intro E acks_settling(1) [OF assms(1)])
qed (rule E [OF assms(1)])

lemma body_acks:
  assumes "claimed claim job number" "acks_justified k w d job number h0 h"
  shows "wp (attempt_body k w d claim job number token name) (\<lambda>_. acks_justified k w d job number h0)
    (\<lambda>_. acks_justified k w d job number h0) h"
  unfolding attempt_body_def
proof (rule wp_bind, rule wp_quietly [OF quiet_produce [OF assms(1)]])
  fix x g
  assume "stretch w (working k job number) h g"
  then have "acks_justified k w d job number h0 g" using assms(2) by (rule acks_stretch)
  then show "wp (case x of (i, out) \<Rightarrow>
      bind_act (client_json k w ''POST'' (attempt_path (wk_env k) job number ''complete'') (Some (commit_request number i out)) token)
        (\<lambda>_. bind_act (acknowledge k w d) (\<lambda>_. bind_act (report_outcome name ''succeeded'') (\<lambda>_. return_act True))))
      (\<lambda>_. acks_justified k w d job number h0) (\<lambda>_. acks_justified k w d job number h0) g"
    unfolding case_prod_beta
    by (rule settling_acks) (auto intro!: wp_bind wp_report wp_return acks_report)
qed (use assms(2) acks_cut_off in blast)

lemma settle_acks:
  assumes "acks_justified k w d job number h0 h"
  shows "wp (settle_failure k w d job number token name outcome code message retryable)
    (\<lambda>_. acks_justified k w d job number h0) (\<lambda>_. acks_justified k w d job number h0) h"
  unfolding settle_failure_def post_failure_def
  by (rule wp_bind, rule wp_report, rule settling_acks [OF acks_report [OF assms]]) (auto intro: wp_return)

lemma interrupted_acks:
  assumes "acks_justified k w d job number h0 h"
  shows "wp (interrupted k w d job number token name)
    (\<lambda>_. acks_justified k w d job number h0) (\<lambda>_. acks_justified k w d job number h0) h"
proof (cases "w_reasons w h")
  case Nil
  let ?h = "h @ [Outcome_Metric name ''failed'']"
  have "wp (bind_act (client_json k w ''POST'' (attempt_path (wk_env k) job number ''fail'')
        (Some (failure_request ''internal'' ''worker is shutting down'' True)) token)
      (\<lambda>_. bind_act (acknowledge k w d) (\<lambda>_. return_act ())))
      (\<lambda>_. acks_justified k w d job number h0) (\<lambda>_. acks_justified k w d job number h0) ?h"
    by (rule settling_acks [OF acks_report [OF assms]]) (auto intro: wp_return)
  moreover have "bind_act (acknowledge k w d) (\<lambda>_. return_act ()) = acknowledge k w d"
    by (rule ext) (auto simp: bind_act_def return_act_def split: prod.splits sum.splits)
  ultimately have shut: "wp (bind_act (client_json k w ''POST'' (attempt_path (wk_env k) job number ''fail'')
        (Some (failure_request ''internal'' ''worker is shutting down'' True)) token) (\<lambda>_. acknowledge k w d))
      (\<lambda>_. acks_justified k w d job number h0) (\<lambda>_. acks_justified k w d job number h0) ?h"
    by simp
  show ?thesis
    unfolding interrupted_def post_failure_def
    by (rule wp_bind, rule wp_ask, simp only: Nil list.case, rule wp_bind, rule wp_report, rule wp_bind, rule wp_catch,
        rule wp_mono [OF shut]) (auto intro: wp_raise wp_return)
next
  case (Cons reason rs)
  have "cancelled w (h @ [Outcome_Metric name ''fenced''])" if "reason = ''cancelled''"
    using Cons that by (auto simp: cancelled_def)
  then have "acks_justified k w d job number h0 ((h @ [Outcome_Metric name ''fenced'']) @ [ack_call k d])" if "reason = ''cancelled''"
    by (intro acks_snoc [OF acks_report [OF assms]]) (use that in blast)
  then show ?thesis
    unfolding interrupted_def
    using acks_report [OF assms] Cons
    by (auto intro!: wp_bind wp_ask wp_report wp_acknowledge wp_return)
qed

lemma failure_acks:
  assumes "acks_justified k w d job number h0 h"
  shows "wp (handle_failure k w d job number token name e)
    (\<lambda>_. acks_justified k w d job number h0) (\<lambda>_. acks_justified k w d job number h0) h"
  unfolding handle_failure_def
  by (intro wp_if interrupted_acks settle_acks wp_bind wp_report wp_return wp_raise acks_report assms)

section \<open>The claim\<close>

definition claim_call :: "worker_host \<Rightarrow> delivery \<Rightarrow> effect" where
  "claim_call k d = api_call k ''POST'' ''/internal/v1/claims''
     (Some (render_ascii (frepr (wk_env k)) (JObj [(''protocol_version'', JInt 1), (''notification'', dl_notification d),
        (''worker_id'', JStr (wk_worker_id k))]))) None"

text \<open>\<open>LeaseLost\<close> is the worker's own exception: neither the network nor the JSON parser raises it.\<close>

definition only_conflicts_fence :: "worker_host \<Rightarrow> world \<Rightarrow> bool" where
  "only_conflicts_fence k w \<longleftrightarrow> (\<forall>raw. wk_loads k raw \<noteq> Inl LeaseLost) \<and> (\<forall>h rq. w_http w h rq \<noteq> NetErr LeaseLost)"

lemma claim_call_ne_ack: "claim_call k d \<noteq> ack_call k d'"
  by (auto simp: claim_call_def ack_call_def api_call_def worker_request_def ack_path_def split: transport.splits)

lemma claim_job_cases:
  assumes "claim_job k w d h = (r, h1)" "only_conflicts_fence k w"
  obtains claim where "r = Inr (Some claim)" "h1 = h @ [claim_call k d]"
  | "r \<noteq> Inr None" "\<forall>claim. r \<noteq> Inr (Some claim)" "h1 = h @ [claim_call k d]"
  | "\<forall>claim. r \<noteq> Inr (Some claim)" "fenced w h (claim_call k d)" "h1 = h @ [claim_call k d, ack_call k d]"
proof -
  let ?c = "claim_call k d" and ?rq = "worker_request k ''POST'' ''/internal/v1/claims''
     (Some (render_ascii (frepr (wk_env k)) (JObj [(''protocol_version'', JInt 1), (''notification'', dl_notification d),
        (''worker_id'', JStr (wk_worker_id k))]))) None"
  have ack: "snd (acknowledge k w d g) = g @ [ack_call k d]" for g
    by (auto simp: acknowledge_def client_request_def bind_act_def lift_res_def token_header_def perform_def ack_call_def api_call_def
        return_act_def Let_def split: transport.splits sum.splits)
  let ?m = "client_json k w ''POST'' ''/internal/v1/claims'' (Some (JObj [(''protocol_version'', JInt 1),
     (''notification'', dl_notification d), (''worker_id'', JStr (wk_worker_id k))])) JNull"
  have snd: "snd (?m h) = h @ [?c]"
    by (auto simp: client_json_def client_request_def bind_act_def lift_res_def token_header_def perform_def claim_call_def api_call_def
        return_act_def Let_def split: sum.splits prod.splits)
  have lost: "fenced w h ?c" if "fst (?m h) = Inl LeaseLost"
    using that assms(2)
    by (auto simp: client_json_def client_request_def bind_act_def lift_res_def token_header_def perform_def claim_call_def api_call_def
        return_act_def Let_def only_conflicts_fence_def http_result_def fenced_def split: sum.splits prod.splits http_reply.splits if_splits)
  show thesis
  proof (cases "fst (?m h)")
    case (Inr claim)
    then show thesis using assms(1) snd that(1) [of claim]
      by (auto simp: claim_job_def catch_act_def bind_act_def return_act_def split: prod.splits)
  next
    case (Inl e)
    show thesis
    proof (cases "e = LeaseLost")
      case True
      have "h1 = h @ [?c, ack_call k d]" "\<forall>claim. r \<noteq> Inr (Some claim)"
        using assms(1) snd Inl True ack [of "h @ [?c]"]
        by (auto simp: claim_job_def catch_act_def bind_act_def return_act_def split: prod.splits sum.splits)
      then show thesis using that(3) lost Inl True by blast
    next
      case False
      then show thesis using assms(1) snd Inl that(2)
        by (auto simp: claim_job_def catch_act_def bind_act_def raise_act_def return_act_def split: prod.splits)
    qed
  qed
qed

lemma wp_result: "wp m N E h \<Longrightarrow> m h = (r, h') \<Longrightarrow> (\<exists>x. r = Inr x \<and> N x h') \<or> (\<exists>e. r = Inl e \<and> E e h')"
  by (auto simp: wp_def split: sum.splits)

text \<open>An attempt is its claim, followed by the job the claim names.\<close>

definition run_job :: "worker_host \<Rightarrow> world \<Rightarrow> delivery \<Rightarrow> json \<Rightarrow> json \<Rightarrow> json \<Rightarrow> json \<Rightarrow> json \<Rightarrow> bool act" where
  "run_job k w d claim job number token name =
     catch_act (attempt_body k w d claim job number token name) (handle_failure k w d job number token name)"

lemma attempt_cases:
  assumes "attempt k w d h = (r, h')" "only_conflicts_fence k w"
  obtains "h' = h @ [claim_call k d]"
  | "fenced w h (claim_call k d)" "h' = h @ [claim_call k d, ack_call k d]"
  | claim job number token name where
      "claim_job k w d h = (Inr (Some claim), h @ [claim_call k d])" "claimed claim job number"
      "jget claim ''attempt_token'' = Inr token" "jget claim ''operation'' = Inr name"
      "run_job k w d claim job number token name (h @ [claim_call k d]) = (r, h')"
proof -
  obtain c h1 where c: "claim_job k w d h = (c, h1)" by fastforce
  from c assms(2) show thesis
  proof (rule claim_job_cases)
    fix claim
    assume claim: "c = Inr (Some claim)" "h1 = h @ [claim_call k d]"
    then have a: "bind_act (lift_res (jget claim ''job_id'')) (\<lambda>job. bind_act (lift_res (jget claim ''attempt_number'')) (\<lambda>number.
        bind_act (lift_res (jget claim ''attempt_token'')) (\<lambda>token. bind_act (lift_res (jget claim ''operation'')) (\<lambda>name.
          run_job k w d claim job number token name)))) h1 = (r, h')"
      using assms(1) c unfolding attempt_def run_job_def by (simp add: bind_act_def)
    show thesis
    proof (cases "h' = h1")
      case True
      then show thesis using that(1) claim(2) by blast
    next
      case False
      have step: "\<exists>v. jget claim key = Inr v \<and> f v h1 = (r, h')"
        if "bind_act (lift_res (jget claim key)) f h1 = (r, h')" for key and f :: "json \<Rightarrow> bool act"
        using that False by (auto simp: bind_act_def lift_res_def split: sum.splits)
      from step [OF a] obtain job where "jget claim ''job_id'' = Inr job"
        and a: "bind_act (lift_res (jget claim ''attempt_number'')) (\<lambda>number.
        bind_act (lift_res (jget claim ''attempt_token'')) (\<lambda>token. bind_act (lift_res (jget claim ''operation'')) (\<lambda>name.
          run_job k w d claim job number token name))) h1 = (r, h')" by blast
      moreover from step [OF a] obtain number where "jget claim ''attempt_number'' = Inr number"
        and a: "bind_act (lift_res (jget claim ''attempt_token'')) (\<lambda>token. bind_act (lift_res (jget claim ''operation'')) (\<lambda>name.
          run_job k w d claim job number token name)) h1 = (r, h')" by blast
      moreover from step [OF a] obtain token where "jget claim ''attempt_token'' = Inr token"
        and a: "bind_act (lift_res (jget claim ''operation'')) (\<lambda>name. run_job k w d claim job number token name) h1 = (r, h')" by blast
      moreover from step [OF a] obtain name where "jget claim ''operation'' = Inr name"
        "run_job k w d claim job number token name h1 = (r, h')" by blast
      ultimately show thesis using that(3) [of claim job number token name] claim c by (simp add: claimed_def)
    qed
  next
    assume "c \<noteq> Inr None" "\<forall>claim. c \<noteq> Inr (Some claim)" "h1 = h @ [claim_call k d]"
    then show thesis using assms(1) c that(1)
      by (cases c) (auto simp: attempt_def bind_act_def split: option.splits)
  next
    assume "\<forall>claim. c \<noteq> Inr (Some claim)" "fenced w h (claim_call k d)" "h1 = h @ [claim_call k d, ack_call k d]"
    then show thesis using assms(1) c that(2)
      by (cases c) (auto simp: attempt_def bind_act_def return_act_def split: option.splits)
  qed
qed

text \<open>
  C21. A notification is only deleted when its work is over: whenever the worker acknowledges, the control plane has refused the claim
  because the job is no longer this delivery's, or has accepted the completion or the failure of the claimed attempt, or
  has cancelled it.
\<close>

theorem acknowledged_after_settling:
  assumes "only_conflicts_fence k w" "attempt k w d h = (r, h @ c # pre @ ack_call k d # post)"
  shows "(pre = [] \<and> fenced w h c) \<or> cancelled w (h @ c # pre)
    \<or> (\<exists>claim job number. claim_job k w d h = (Inr (Some claim), h @ [c]) \<and> claimed claim job number
         \<and> settled k w job number (h @ [c]) (h @ c # pre))"
  using assms(2,1)
proof (rule attempt_cases)
  assume "fenced w h (claim_call k d)" "h @ c # pre @ ack_call k d # post = h @ [claim_call k d, ack_call k d]"
  then show ?thesis by (cases pre) auto
next
  fix claim job number token name
  assume claim: "claim_job k w d h = (Inr (Some claim), h @ [claim_call k d])" "claimed claim job number"
    and run: "run_job k w d claim job number token name (h @ [claim_call k d]) = (r, h @ c # pre @ ack_call k d # post)"
  let ?h = "h @ [claim_call k d]"
  have "wp (run_job k w d claim job number token name) (\<lambda>_. acks_justified k w d job number ?h) (\<lambda>_. acks_justified k w d job number ?h) ?h"
    unfolding run_job_def
    by (rule wp_catch, rule wp_mono [OF body_acks [OF claim(2) acks_refl]]) (auto intro: failure_acks)
  from wp_result [OF this run] have acks: "acks_justified k w d job number ?h (h @ c # pre @ ack_call k d # post)" by blast
  then obtain es where "h @ c # pre @ ack_call k d # post = ?h @ es" by (auto simp: acks_justified_def)
  then have c: "c = claim_call k d" by simp
  then have "settled k w job number ?h (?h @ pre) \<or> cancelled w (?h @ pre)"
    using acks unfolding acks_justified_def by (metis append.assoc append_Cons append_Nil)
  then show ?thesis using claim c by auto
qed simp

section \<open>After a lost lease\<close>

abbreviation any_call :: "effect \<Rightarrow> bool" where
  "any_call c \<equiv> True"

text \<open>A conflict is the last call since \<open>h0\<close>, but for the outcome that reports it.\<close>

definition fence_last :: "world \<Rightarrow> effect list \<Rightarrow> effect list \<Rightarrow> bool" where
  "fence_last w h0 h \<longleftrightarrow>
     (\<exists>es. h = h0 @ es)
     \<and> (\<forall>pre c post. h = h0 @ pre @ c # post \<longrightarrow> fenced w (h0 @ pre) c \<longrightarrow>
        post = [] \<or> (\<exists>name. post = [Outcome_Metric name ''fenced'']))"

lemma stretch_unfenced: "stretch w P h0 h \<Longrightarrow> \<exists>es. h = h0 @ es \<and> (\<forall>pre c post. es = pre @ c # post \<longrightarrow> \<not> fenced w (h0 @ pre) c)"
proof (induction rule: stretch.induct)
  case (stretch_step g c)
  then obtain es where es: "g = h0 @ es" "\<forall>pre c post. es = pre @ c # post \<longrightarrow> \<not> fenced w (h0 @ pre) c" by blast
  have "\<not> fenced w (h0 @ pre) c'" if "es @ [c] = pre @ c' # post" for pre c' post
    using that es stretch_step.hyps(3) by (auto simp: snoc_split)
  then show ?case using es(1) by auto
qed simp

lemma stretch_fence_last: "stretch w P h0 h \<Longrightarrow> fence_last w h0 h"
  by (drule stretch_unfenced) (auto simp: fence_last_def)

lemma stretch_snoc_fence_last:
  assumes "stretch w P h0 h"
  shows "fence_last w h0 (h @ [c])" and "fence_last w h0 (h @ [c, Outcome_Metric name ''fenced''])"
proof -
  obtain es where es: "h = h0 @ es" "\<forall>pre c post. es = pre @ c # post \<longrightarrow> \<not> fenced w (h0 @ pre) c"
    using stretch_unfenced [OF assms] by blast
  show "fence_last w h0 (h @ [c])" using es by (auto simp: fence_last_def snoc_split)
  have "post = [] \<or> post = [Outcome_Metric name ''fenced'']"
    if "(es @ [c]) @ [Outcome_Metric name ''fenced''] = pre @ x # post" "fenced w (h0 @ pre) x" for pre x post
    using that es unfolding snoc_split by auto
  then show "fence_last w h0 (h @ [c, Outcome_Metric name ''fenced''])" using es(1) by (auto simp: fence_last_def)
qed

lemma cut_off_fence_last: "cut_off w P e h0 h \<Longrightarrow> fence_last w h0 h"
  by (auto simp: cut_off_def intro: stretch_fence_last stretch_snoc_fence_last)

lemma stretch_mono: "stretch w P h0 h \<Longrightarrow> (\<And>c. P c \<Longrightarrow> Q c) \<Longrightarrow> stretch w Q h0 h"
  by (induction rule: stretch.induct) (auto intro: stretch.intros)

lemma quietly_mono: "quietly w P m \<Longrightarrow> (\<And>c. P c \<Longrightarrow> Q c) \<Longrightarrow> quietly w Q m"
  unfolding quietly_def cut_off_def by (blast intro: wp_mono stretch_mono)

lemma quiet_acknowledge: "quietly w any_call (acknowledge k w d)"
  unfolding quietly_def
proof (intro allI wp_acknowledge)
  fix h e
  assume "fenced w h (ack_call k d) \<Longrightarrow> e = LeaseLost"
  then show "cut_off w any_call e h (h @ [ack_call k d])"
    by (cases "fenced w h (ack_call k d)") (auto simp: cut_off_def intro: stretch.intros)
qed (auto intro: stretch.intros)

lemma quiet_report: "quietly w any_call (report_outcome name outcome)"
  unfolding report_outcome_def by (rule quiet_perform) simp_all

lemma quiet_any_json: "quietly w any_call (client_json k w verb path val token)"
  by (rule quiet_client_json) simp

lemma quiet_body: "claimed claim job number \<Longrightarrow> quietly w any_call (attempt_body k w d claim job number token name)"
  unfolding attempt_body_def
  by (intro quiet_bind quiet_pair quiet_any_json quiet_acknowledge quiet_report quiet_return
      quietly_mono [OF quiet_produce]) simp_all

lemma quiet_settle: "quietly w any_call (settle_failure k w d job number token name outcome code message retryable)"
  unfolding settle_failure_def post_failure_def
  by (intro quiet_bind quiet_any_json quiet_acknowledge quiet_report quiet_return)

lemma wp_quiet_last:
  assumes "quietly w any_call m" "stretch w any_call h0 h"
  shows "wp m (\<lambda>_. fence_last w h0) (\<lambda>_. fence_last w h0) h"
  by (rule wp_quietly [OF assms(1)])
     (use assms(2) in \<open>blast intro: stretch_fence_last stretch_trans cut_off_fence_last cut_off_trans\<close>)+

lemma interrupted_last:
  assumes "stretch w any_call h0 h"
  shows "wp (interrupted k w d job number token name) (\<lambda>_. fence_last w h0) (\<lambda>_. fence_last w h0) h"
proof (cases "w_reasons w h")
  case Nil
  have "quietly w any_call (bind_act (report_outcome name ''failed'') (\<lambda>_. bind_act (post_failure k w job number token ''internal''
      ''worker is shutting down'' True) (\<lambda>_. acknowledge k w d)))"
    unfolding post_failure_def by (intro quiet_bind quiet_report quiet_any_json quiet_acknowledge)
  from wp_quiet_last [OF this assms] show ?thesis
    unfolding interrupted_def
    by (auto simp: Nil wp_def bind_act_def ask_def catch_act_def raise_act_def return_act_def split: prod.splits sum.splits)
next
  case (Cons reason rs)
  have "quietly w any_call (bind_act (report_outcome name ''fenced'') (\<lambda>_.
      if reason = ''cancelled'' then bind_act (acknowledge k w d) (\<lambda>_. return_act True) else return_act True))"
    by (intro quiet_bind quiet_report quiet_acknowledge quiet_return quiet_if)
  from wp_quiet_last [OF this assms] show ?thesis
    unfolding interrupted_def by (simp add: Cons wp_def bind_act_def ask_def)
qed

lemma failure_last:
  assumes "cut_off w any_call e h0 h"
  shows "wp (handle_failure k w d job number token name e) (\<lambda>_. fence_last w h0) (\<lambda>_. fence_last w h0) h"
proof (cases "e = LeaseLost")
  case True
  have "fence_last w h0 (h @ [Outcome_Metric name ''fenced''])"
    using assms by (auto simp: cut_off_def intro: stretch_snoc_fence_last)
  then show ?thesis unfolding handle_failure_def by (auto simp: True intro!: wp_bind wp_report wp_return)
next
  case False
  then have "stretch w any_call h0 h" using assms by (simp add: cut_off_def)
  then show ?thesis
    unfolding handle_failure_def using False
    by (auto intro: interrupted_last wp_quiet_last [OF quiet_settle] wp_raise stretch_fence_last)
qed

text \<open>
  C22. A lost lease is final: when the control plane answers any request of a running attempt with a conflict, the
  worker makes no further call for it, neither a completion, a failure nor an acknowledgement; the only trace is the
  outcome it reports.
\<close>

theorem lost_lease_final:
  assumes "only_conflicts_fence k w" "attempt k w d h = (r, h @ c # pre @ x # post)" "fenced w (h @ c # pre) x"
  shows "post = [] \<or> (\<exists>name. post = [Outcome_Metric name ''fenced''])"
  using assms(2,1)
proof (rule attempt_cases)
  fix claim job number token name
  assume claim: "claimed claim job number"
    and run: "run_job k w d claim job number token name (h @ [claim_call k d]) = (r, h @ c # pre @ x # post)"
  let ?h = "h @ [claim_call k d]"
  have "wp (run_job k w d claim job number token name) (\<lambda>_. fence_last w ?h) (\<lambda>_. fence_last w ?h) ?h"
    unfolding run_job_def
    by (rule wp_catch, rule wp_quietly [OF quiet_body [OF claim]]) (auto intro: stretch_fence_last failure_last)
  from wp_result [OF this run] have last: "fence_last w ?h (h @ c # pre @ x # post)" by blast
  then have c: "c = claim_call k d" by (auto simp: fence_last_def)
  have "h @ c # pre @ x # post = ?h @ pre @ x # post" "fenced w (?h @ pre) x" using c assms(3) by simp_all
  with last show ?thesis unfolding fence_last_def by blast
qed (auto simp: append_eq_Cons_conv)

section \<open>Every claimed job is settled\<close>

text \<open>A control plane and a queue that answer every request, with nothing or with JSON.\<close>

definition responsive :: "worker_host \<Rightarrow> world \<Rightarrow> bool" where
  "responsive k w \<longleftrightarrow>
     (\<forall>h rq. \<exists>status raw. w_http w h rq = Reply status raw \<and> (status = 204 \<or> raw = [] \<or> (\<exists>j. wk_loads k raw = Inr j)))
     \<and> (\<forall>h handle. w_delete w h handle = Inr ())"

definition complete_call :: "worker_host \<Rightarrow> json \<Rightarrow> json \<Rightarrow> string option \<Rightarrow> identity \<Rightarrow> job_output \<Rightarrow> effect" where
  "complete_call k job number t i out = api_call k ''POST'' (attempt_path (wk_env k) job number ''complete'')
     (Some (render_ascii (frepr (wk_env k)) (commit_request number i out))) t"

definition fail_call :: "worker_host \<Rightarrow> json \<Rightarrow> json \<Rightarrow> string option \<Rightarrow> string \<Rightarrow> string \<Rightarrow> bool \<Rightarrow> effect" where
  "fail_call k job number t code message retryable = api_call k ''POST'' (attempt_path (wk_env k) job number ''fail'')
     (Some (render_ascii (frepr (wk_env k)) (failure_request code message retryable))) t"

lemma responsive_json:
  assumes "responsive k w" "token_header token = Inr t"
  shows "\<exists>j. client_json k w verb path val token h = (Inr j, h @ [api_call k verb path (map_option (render_ascii (frepr (wk_env k))) val) t])"
proof -
  let ?rq = "worker_request k verb path (map_option (render_ascii (frepr (wk_env k))) val) t"
  obtain status raw where "w_http w h ?rq = Reply status raw" "status = 204 \<or> raw = [] \<or> (\<exists>j. wk_loads k raw = Inr j)"
    using assms(1) unfolding responsive_def by metis
  then show ?thesis
    using assms(2)
    by (auto simp: client_json_def client_request_def bind_act_def lift_res_def perform_def http_result_def api_call_def return_act_def Let_def)
qed

lemma responsive_acknowledge:
  assumes "responsive k w"
  shows "acknowledge k w d h = (Inr (), h @ [ack_call k d])"
proof (cases "dl_transport d")
  case (ControlPlane i)
  obtain status raw where "w_http w h (worker_request k ''POST'' (ack_path i) None None) = Reply status raw"
    using assms unfolding responsive_def by metis
  then show ?thesis
    by (simp add: ControlPlane acknowledge_def client_request_def bind_act_def lift_res_def token_header_def perform_def
        http_result_def api_call_def ack_call_def return_act_def Let_def)
next
  case (SqsQueue m)
  then show ?thesis using assms by (simp add: acknowledge_def perform_def ack_call_def responsive_def)
qed

lemma responsive_settle:
  assumes "responsive k w" "token_header token = Inr t"
  shows "settle_failure k w d job number token name outcome code message retryable h
    = (Inr True, h @ [Outcome_Metric name outcome, fail_call k job number t code message retryable, ack_call k d])"
proof -
  obtain j where "client_json k w ''POST'' (attempt_path (wk_env k) job number ''fail'') (Some (failure_request code message retryable)) token
      (h @ [Outcome_Metric name outcome])
    = (Inr j, (h @ [Outcome_Metric name outcome]) @ [fail_call k job number t code message retryable])"
    using responsive_json [OF assms] unfolding fail_call_def by (metis option.map(2))
  then show ?thesis
    by (simp add: settle_failure_def post_failure_def report_outcome_def perform_def bind_act_def return_act_def
        responsive_acknowledge [OF assms(1)])
qed


section \<open>Examples\<close>

definition ex_claim :: "string \<Rightarrow> json" where
  "ex_claim name = JObj [(''job_id'', JStr ''j''), (''attempt_number'', JInt 1), (''attempt_token'', JStr ''t''), (''operation'', JStr name),
     (''input_artifacts'', JArr [])]"

definition ex_host :: "string \<Rightarrow> worker_host" where
  "ex_host name = \<lparr>wk_base_url = ''http://c/'', wk_worker_id = ''w'', wk_token = ''k'', wk_traceparent = None,
     wk_loads = (\<lambda>raw. Inr (ex_claim name)), wk_uuid = Some, wk_version = ''1'', wk_build = ''local'', wk_template = [],
     wk_gzip = (\<lambda>raw. raw), wk_env = const_env, wk_codec = ex_bc []\<rparr>"

definition ex_delivery :: delivery where
  "ex_delivery = \<lparr>dl_notification = JNull, dl_transport = SqsQueue ''m''\<rparr>"

text \<open>A control plane that answers everything, and one that answers the claim and then refuses.\<close>

definition ex_world :: world where
  "ex_world = \<lparr>w_http = (\<lambda>h rq. Reply 200 ''{}''), w_fetch = (\<lambda>h url. Inr []), w_put = (\<lambda>h pr. Inr (Some ''v'', None)),
     w_delete = (\<lambda>h m. Inr ()), w_extend = (\<lambda>h m. Inr ()), w_uuid4 = (\<lambda>h. ''u''), w_now = (\<lambda>h. ''n''), w_stopped = (\<lambda>h. False),
     w_reasons = (\<lambda>h. [])\<rparr>"

definition ex_fencing :: world where
  "ex_fencing = ex_world\<lparr>w_http := (\<lambda>h rq. if h = [] then Reply 200 ''{}'' else HttpErr 409 [])\<rparr>"

lemma ex_responsive: "responsive (ex_host name) ex_world"
  by (simp add: responsive_def ex_host_def ex_world_def)

lemma ex_conflicts: "only_conflicts_fence (ex_host name) ex_world" "only_conflicts_fence (ex_host name) ex_fencing"
  by (simp_all add: only_conflicts_fence_def ex_host_def ex_world_def ex_fencing_def)

lemma ex_claimed:
  "claim_job (ex_host name) ex_world ex_delivery [] = (Inr (Some (ex_claim name)), [claim_call (ex_host name) ex_delivery])"
  "claim_job (ex_host name) ex_fencing ex_delivery [] = (Inr (Some (ex_claim name)), [claim_call (ex_host name) ex_delivery])"
  by (simp_all add: claim_job_def catch_act_def bind_act_def client_json_def client_request_def lift_res_def token_header_def perform_def
      http_result_def ex_world_def ex_fencing_def ex_host_def return_act_def claim_call_def api_call_def Let_def)

lemma ex_claim_fields:
  "claimed (ex_claim name) (JStr ''j'') (JInt 1)" "jget (ex_claim name) ''attempt_token'' = Inr (JStr ''t'')"
  "jget (ex_claim name) ''operation'' = Inr (JStr name)"
  by (simp_all add: claimed_def ex_claim_def)

lemma ex_unsupported: "operation_of (ex_claim ''dance'') = Inl UnsupportedAnalysis"
  by (simp add: operation_of_def ex_claim_fields(3) handler_of_def)

definition ex_progress :: effect where
  "ex_progress = api_call (ex_host ''dance'') ''PUT'' (attempt_path const_env (JStr ''j'') (JInt 1) ''progress'')
     (Some (render_ascii (frepr const_env) (progress_request (JInt 1) 1 ''downloading'' ''downloading immutable inputs''))) (Some ''t'')"

lemma ex_produce:
  "produce (ex_host ''dance'') ex_world (ex_claim ''dance'') (JStr ''j'') (JInt 1) (JStr ''t'') (JStr ''dance'') h
     = (Inl UnsupportedAnalysis, h @ [ex_progress])"
  by (simp add: produce_def post_progress_def bind_act_def client_json_def client_request_def lift_res_def token_header_def perform_def
      http_result_def ex_world_def ex_host_def return_act_def api_call_def Let_def ex_progress_def ex_unsupported)

lemma ex_refused:
  "attempt (ex_host ''dance'') ex_world ex_delivery [] = (Inr True,
     [] @ claim_call (ex_host ''dance'') ex_delivery # [ex_progress, Outcome_Metric (JStr ''dance'') ''refused'',
       fail_call (ex_host ''dance'') (JStr ''j'') (JInt 1) (Some ''t'') ''unsupported_version''
         ''requested analysis is not supported by this worker'' False] @ ack_call (ex_host ''dance'') ex_delivery # [])"
proof -
  have "token_header (JStr ''t'') = Inr (Some ''t'')" by (simp add: token_header_def)
  from responsive_settle [OF ex_responsive this] show ?thesis
    using ex_claim_fields [of "''dance''"]
    by (simp add: attempt_def bind_act_def ex_claimed lift_res_def claimed_def catch_act_def attempt_body_def ex_produce handle_failure_def)
qed


theorem acknowledged_after_settling_witness:
  "\<exists>c pre. attempt (ex_host ''dance'') ex_world ex_delivery [] = (Inr True, [] @ c # pre @ [ack_call (ex_host ''dance'') ex_delivery])
     \<and> (\<exists>job number. settled (ex_host ''dance'') ex_world job number ([] @ [c]) ([] @ c # pre))"
proof -
  have "\<not> fenced ex_world h c" for h c by (simp add: fenced_def ex_world_def split: effect.splits)
  moreover have "\<not> cancelled ex_world h" for h by (simp add: cancelled_def ex_world_def)
  ultimately show ?thesis
    using acknowledged_after_settling [OF ex_conflicts(1) ex_refused] ex_refused by blast
qed

lemma ex_fenced_produce:
  "h \<noteq> [] \<Longrightarrow> produce (ex_host ''dance'') ex_fencing (ex_claim ''dance'') (JStr ''j'') (JInt 1) (JStr ''t'') (JStr ''dance'') h
     = (Inl LeaseLost, h @ [ex_progress])"
  by (simp add: produce_def post_progress_def bind_act_def client_json_def client_request_def lift_res_def token_header_def perform_def
      http_result_def ex_fencing_def ex_host_def api_call_def Let_def ex_progress_def)

lemma ex_fenced_run:
  "attempt (ex_host ''dance'') ex_fencing ex_delivery [] = (Inr True,
     [] @ claim_call (ex_host ''dance'') ex_delivery # [] @ ex_progress # [Outcome_Metric (JStr ''dance'') ''fenced''])"
  using ex_claim_fields [of "''dance''"]
  by (simp add: attempt_def bind_act_def ex_claimed lift_res_def claimed_def catch_act_def attempt_body_def ex_fenced_produce
      handle_failure_def report_outcome_def perform_def return_act_def)

theorem lost_lease_final_witness:
  "\<exists>c x post. attempt (ex_host ''dance'') ex_fencing ex_delivery [] = (Inr True, [] @ c # [] @ x # post) \<and> fenced ex_fencing ([] @ c # []) x
     \<and> (post = [] \<or> (\<exists>name. post = [Outcome_Metric name ''fenced'']))"
proof -
  have "fenced ex_fencing ([] @ claim_call (ex_host ''dance'') ex_delivery # []) ex_progress"
    by (simp add: fenced_def ex_fencing_def ex_progress_def api_call_def)
  with lost_lease_final [OF ex_conflicts(2) ex_fenced_run this] ex_fenced_run show ?thesis by blast
qed

end
