(* ===== verification/Conform.thy ===== *)
theory Conform
  imports Attempt
begin

text \<open>
  The worker and its contracts agree: it dispatches exactly the operations and profiles a job request may
  name, every commit it posts is one \<open>ArtifactCommit\<close> accepts, and a hosted diff of a run with steps is one its contract accepts.
\<close>

section \<open>Parsing a commit\<close>

text \<open>
  \<open>ArtifactCommit.model_validate\<close> on a JSON object: unknown keys are refused, each field is read by its name and
  takes a value of its own JSON type; what pydantic converts from other types is outside the model.
\<close>

definition int_field :: "json \<Rightarrow> int res" where
  "int_field j =
     (case j of JInt n \<Rightarrow> Inr n | _ \<Rightarrow> Inl ValidationError)"

definition opt_field :: "(json \<Rightarrow> 'a res) \<Rightarrow> json \<Rightarrow> 'a option res" where
  "opt_field f j = (if j = JNull then Inr None else bind_res (f j) (\<lambda>x. Inr (Some x)))"

definition enum_field :: "('a \<Rightarrow> string) \<Rightarrow> 'a list \<Rightarrow> json \<Rightarrow> 'a res" where
  "enum_field str vals j =
     (case j of
        JStr s \<Rightarrow> (case filter (\<lambda>v. str v = s) vals of [] \<Rightarrow> Inl ValidationError | v # _ \<Rightarrow> Inr v)
      | _ \<Rightarrow> Inl ValidationError)"

definition field :: "(string \<times> json) list \<Rightarrow> string \<Rightarrow> json res" where
  "field kvs name = (case map_of kvs name of None \<Rightarrow> Inl ValidationError | Some j \<Rightarrow> Inr j)"

definition optional :: "(string \<times> json) list \<Rightarrow> string \<Rightarrow> json" where
  "optional kvs name = (case map_of kvs name of None \<Rightarrow> JNull | Some j \<Rightarrow> j)"

definition list_field :: "(json \<Rightarrow> 'a res) \<Rightarrow> json \<Rightarrow> 'a list res" where
  "list_field f j = (case j of JArr js \<Rightarrow> map_res f js | _ \<Rightarrow> Inl ValidationError)"

text \<open>The fields of \<open>ArtifactRef\<close>, which the other two models extend.\<close>

definition ref_fields :: "string list" where
  "ref_fields = [''artifact_id'', ''object_key'', ''object_version'', ''digest'', ''size'', ''media_type'', ''schema_name'', ''schema_version'']"

definition parse_ref :: "(string \<Rightarrow> string option) \<Rightarrow> (string \<times> json) list \<Rightarrow> artifact_ref res" where
  "parse_ref uuid kvs =
     bind_res (bind_res (field kvs ''artifact_id'') (uuid_field uuid)) (\<lambda>aid.
     bind_res (bind_res (field kvs ''object_key'') str_field) (\<lambda>okey.
     bind_res (bind_res (field kvs ''object_version'') str_field) (\<lambda>version.
     bind_res (bind_res (field kvs ''digest'') str_field) (\<lambda>digst.
     bind_res (bind_res (field kvs ''size'') int_field) (\<lambda>sz.
     bind_res (bind_res (field kvs ''media_type'') str_field) (\<lambda>media.
     bind_res (opt_field str_field (optional kvs ''schema_name'')) (\<lambda>sname.
     bind_res (opt_field int_field (optional kvs ''schema_version'')) (\<lambda>sversion.
       Inr \<lparr>artifact_id = aid, object_key = okey, object_version = version, art_digest = digst, art_size = sz,
            media_type = media, schema_name = sname, art_schema_version = sversion\<rparr>))))))))"

definition companion_kinds :: "companion_kind list" where
  "companion_kinds = [DiffHtml, LocalizeJson, OtlpJson, PprofFile]"

definition result_kinds :: "result_kind list" where
  "result_kinds = [ValidationJson, DiffJson, LocalizeResultJson, OtlpResultJson, PprofResultJson]"

definition parse_companion :: "(string \<Rightarrow> string option) \<Rightarrow> json \<Rightarrow> committed_companion res" where
  "parse_companion uuid j =
     (case j of
        JObj kvs \<Rightarrow>
          if \<not> set (map fst kvs) \<subseteq> set (''kind'' # ref_fields) then Inl ValidationError
          else
            bind_res (parse_ref uuid kvs) (\<lambda>a.
            bind_res (bind_res (field kvs ''kind'') (enum_field companion_str companion_kinds)) (\<lambda>knd.
              model_of artifact_ref_ok (artifact_ref.extend a \<lparr>cc_kind = knd\<rparr>)))
      | _ \<Rightarrow> Inl ValidationError)"

definition commit_fields :: "string list" where
  "commit_fields = [''protocol_version'', ''attempt_number'', ''kind'', ''logical_run_digest'', ''bundle_digest'', ''event_count'',
     ''bundle_format_version'', ''cassette_format_version'', ''event_schema_version'', ''companions''] @ ref_fields"

definition parse_commit :: "(string \<Rightarrow> string option) \<Rightarrow> json \<Rightarrow> artifact_commit res" where
  "parse_commit uuid j =
     (case j of
        JObj kvs \<Rightarrow>
          if \<not> set (map fst kvs) \<subseteq> set commit_fields then Inl ValidationError
          else
            bind_res (parse_ref uuid kvs) (\<lambda>a.
            bind_res (bind_res (field kvs ''protocol_version'') (\<lambda>v. guard_res (v = JInt WORKER_PROTOCOL_VERSION) ValidationError)) (\<lambda>_.
            bind_res (bind_res (field kvs ''attempt_number'') int_field) (\<lambda>number.
            bind_res (bind_res (field kvs ''kind'') (enum_field result_kind_str result_kinds)) (\<lambda>knd.
            bind_res (bind_res (field kvs ''logical_run_digest'') str_field) (\<lambda>run.
            bind_res (bind_res (field kvs ''bundle_digest'') str_field) (\<lambda>bundle.
            bind_res (bind_res (field kvs ''event_count'') int_field) (\<lambda>count.
            bind_res (bind_res (field kvs ''bundle_format_version'') int_field) (\<lambda>bfv.
            bind_res (bind_res (field kvs ''cassette_format_version'') int_field) (\<lambda>cfv.
            bind_res (bind_res (field kvs ''event_schema_version'') int_field) (\<lambda>esv.
            bind_res (bind_res (field kvs ''companions'') (list_field (parse_companion uuid))) (\<lambda>comps.
              model_of artifact_commit_ok (artifact_ref.extend a
                \<lparr>ac_attempt_number = number, ac_kind = knd, ac_logical_run_digest = run, ac_bundle_digest = bundle,
                 ac_event_count = count, ac_bundle_format_version = bfv, ac_cassette_format_version = cfv,
                 ac_event_schema_version = esv, ac_companions = comps\<rparr>))))))))))))
      | _ \<Rightarrow> Inl ValidationError)"

section \<open>What a stored object is\<close>

text \<open>
  The control plane grants object keys within their bound, the store reports versions within theirs, \<open>uuid4\<close>
  makes identifiers that parse, SHA-256 is a digest, and the manifest model enforces its constraints.
\<close>

definition honest :: "worker_host \<Rightarrow> world \<Rightarrow> bool" where
  "honest k w \<longleftrightarrow>
     (\<forall>raw grant okey. wk_loads k raw = Inr grant \<longrightarrow> jget grant ''object_key'' = Inr okey \<longrightarrow> (\<exists>s. okey = JStr s \<and> bounded 512 s))
     \<and> (\<forall>h pr a b v. w_put w h pr = Inr (a, b) \<longrightarrow> (a = Some v \<or> b = Some v) \<longrightarrow> str_len v \<le> 256)
     \<and> (\<forall>h. wk_uuid k (w_uuid4 w h) \<noteq> None) \<and> (\<forall>data. is_digest (sha256_hex (wk_env k) data))
     \<and> (\<forall>raw m. load_manifest (wk_codec k) raw = Inr m \<longrightarrow> manifest_ok m)"

definition stored_as :: "worker_host \<Rightarrow> string \<Rightarrow> string \<Rightarrow> identity \<Rightarrow> bool" where
  "stored_as k knd media i \<longleftrightarrow>
     id_kind i = knd \<and> id_media_type i = media \<and> wk_uuid k (id_artifact_id i) \<noteq> None
     \<and> (\<exists>s. id_object_key i = JStr s \<and> bounded 512 s) \<and> bounded 256 (id_object_version i) \<and> is_digest (id_digest i)
     \<and> 0 \<le> id_size i \<and> id_size i \<le> 67108864"

text \<open>What every value an action can return satisfies.\<close>

definition yields :: "'a act \<Rightarrow> ('a \<Rightarrow> bool) \<Rightarrow> bool" where
  "yields m Q \<longleftrightarrow> (\<forall>h. wp m (\<lambda>x _. Q x) (\<lambda>_ _. True) h)"

lemma yields_bind: "yields m R \<Longrightarrow> (\<And>x. R x \<Longrightarrow> yields (f x) Q) \<Longrightarrow> yields (bind_act m f) Q"
  unfolding yields_def by (blast intro: wp_bind wp_mono)

lemma yields_any: "yields m (\<lambda>_. True)"
  by (auto simp: yields_def wp_def split: prod.splits sum.splits)

lemma yields_skip: "(\<And>x. yields (f x) Q) \<Longrightarrow> yields (bind_act m f) Q"
  by (rule yields_bind [OF yields_any])

lemma yields_return: "Q x \<Longrightarrow> yields (return_act x) Q"
  by (simp add: yields_def wp_return)

lemma yields_raise: "yields (raise_act e) Q"
  by (simp add: yields_def wp_raise)

lemma yields_lift: "(\<And>x. r = Inr x \<Longrightarrow> Q x) \<Longrightarrow> yields (lift_res r) Q"
  by (simp add: yields_def wp_lift)

lemma yields_known: "(\<And>x. r = Inr x \<Longrightarrow> yields (f x) Q) \<Longrightarrow> yields (bind_act (lift_res r) f) Q"
  by (rule yields_bind [OF yields_lift])

lemma yields_if: "(c \<Longrightarrow> yields m Q) \<Longrightarrow> (\<not> c \<Longrightarrow> yields n Q) \<Longrightarrow> yields (if c then m else n) Q"
  by simp

lemma yields_pair: "(\<And>a b. x = (a, b) \<Longrightarrow> yields (f a b) Q) \<Longrightarrow> yields (case x of (a, b) \<Rightarrow> f a b) Q"
  by (cases x) simp

lemma yields_mono: "yields m Q \<Longrightarrow> (\<And>x. Q x \<Longrightarrow> R x) \<Longrightarrow> yields m R"
  unfolding yields_def by (blast intro: wp_mono)

lemma yields_json: "yields (client_json k w verb path val token) (\<lambda>j. j = JNull \<or> (\<exists>raw. wk_loads k raw = Inr j))"
  unfolding client_json_def
  by (rule yields_skip, rule yields_pair) (auto intro!: yields_if yields_return yields_lift)

lemma yields_store:
  assumes "honest k w"
  shows "yields (store_object w grant data) (bounded 256)"
  unfolding store_object_def Let_def
proof (intro yields_known)
  fix url headers verb
  let ?pr = "\<lparr>pr_url = url, pr_headers = (if jtruthy headers then headers else JObj []), pr_method = verb, pr_data = data\<rparr>"
  have "yields (perform (Put ?pr) (\<lambda>h. w_put w h ?pr)) (\<lambda>(a, b). \<forall>v. a = Some v \<or> b = Some v \<longrightarrow> str_len v \<le> 256)"
    unfolding yields_def using assms by (auto intro!: wp_perform simp: honest_def)
  then show "yields (bind_act (perform (Put ?pr) (\<lambda>h. w_put w h ?pr)) (\<lambda>(amz, own).
      case case amz of None \<Rightarrow> own | Some v \<Rightarrow> if v \<noteq> [] then Some v else own of
        None \<Rightarrow> raise_act RuntimeError | Some v \<Rightarrow> if v = [] then raise_act RuntimeError else return_act v)) (bounded 256)"
  proof (rule yields_bind)
    fix x :: "string option \<times> string option"
    assume x: "case x of (a, b) \<Rightarrow> \<forall>v. a = Some v \<or> b = Some v \<longrightarrow> str_len v \<le> 256"
    have "1 \<le> str_len v" if "v \<noteq> []" for v using that by (cases v) (simp_all add: str_len_def)
    then show "yields (case x of (amz, own) \<Rightarrow>
      case case amz of None \<Rightarrow> own | Some v \<Rightarrow> if v \<noteq> [] then Some v else own of
        None \<Rightarrow> raise_act RuntimeError | Some v \<Rightarrow> if v = [] then raise_act RuntimeError else return_act v) (bounded 256)"
      using x by (auto intro!: yields_raise yields_return simp: bounded_def split: option.splits)
  qed
qed

lemma yields_upload:
  assumes "honest k w"
  shows "yields (upload k w claim knd data media) (stored_as k knd media)"
  unfolding upload_def Let_def
proof (intro yields_if yields_raise yields_known)
  fix job number token
  assume size: "\<not> length data > MAX_ARTIFACT_BYTES"
  show "yields (bind_act (client_json k w ''POST'' (attempt_path (wk_env k) job number ''artifacts'')
      (Some (grant_request number knd media (sha256_hex (wk_env k) data) (length data))) token) (\<lambda>grant.
      bind_act (ask (w_uuid4 w)) (\<lambda>fresh. bind_act (lift_res (jget grant ''object_key'')) (\<lambda>okey.
      bind_act (store_object w grant data) (\<lambda>version. return_act \<lparr>id_artifact_id = fresh, id_kind = knd, id_media_type = media,
        id_object_key = okey, id_object_version = version, id_digest = sha256_hex (wk_env k) data,
        id_size = int (length data)\<rparr>))))) (stored_as k knd media)"
  proof (rule yields_bind [OF yields_json], rule yields_bind [where R = "\<lambda>u. wk_uuid k u \<noteq> None"], goal_cases)
    case 1
    show ?case using assms by (auto simp: yields_def honest_def intro!: wp_ask)
  next
    case (2 grant fresh)
    then have "\<exists>s. okey = JStr s \<and> bounded 512 s" if "jget grant ''object_key'' = Inr okey" for okey
      using that assms by (auto simp: honest_def jget_def)
    moreover have "is_digest (sha256_hex (wk_env k) data)" using assms by (simp add: honest_def)
    ultimately show ?case
      using 2 size
      by (intro yields_known yields_bind [OF yields_store [OF assms]] yields_return) (auto simp: stored_as_def MAX_ARTIFACT_BYTES_def)
  qed
qed

section \<open>A stored object parses\<close>

lemma bounded_media [simp]: "bounded 128 (expected_media_type c)" "bounded 128 ''application/json''"
proof -
  have "str_len ''text/html; charset=utf-8'' = 24" "str_len ''application/json'' = 16" "str_len ''application/octet-stream'' = 24"
    by code_simp+
  then show "bounded 128 (expected_media_type c)" "bounded 128 ''application/json''" by (cases c; simp add: bounded_def)+
qed

lemma enum_companion [simp]: "enum_field companion_str companion_kinds (JStr (companion_str c)) = Inr c"
  by (cases c) (simp_all add: enum_field_def companion_kinds_def)

lemma enum_result [simp]: "enum_field result_kind_str result_kinds (JStr (result_kind_str c)) = Inr c"
  by (cases c) (simp_all add: enum_field_def result_kinds_def)

lemma enum_operands [simp]:
  "int_field (JInt n) = Inr n" "opt_field f JNull = Inr None" "j \<noteq> JNull \<Longrightarrow> opt_field f j = bind_res (f j) (\<lambda>x. Inr (Some x))"
  by (simp_all add: int_field_def opt_field_def)

definition plain_json :: "identity \<Rightarrow> json" where
  "plain_json i = JObj (identity_fields i @ [(''schema_name'', JNull), (''schema_version'', JNull)])"

lemma companion_parses:
  assumes "stored_as k (companion_str ck) (expected_media_type ck) i"
  obtains c where "parse_companion (wk_uuid k) (plain_json i) = Inr c" "cc_kind c = ck" "artifact_ref_ok c"
    "companion_shape c = Inr ()"
proof -
  obtain aid okey where *: "wk_uuid k (id_artifact_id i) = Some aid" "id_object_key i = JStr okey" "bounded 512 okey"
    using assms by (auto simp: stored_as_def)
  let ?c = "\<lparr>artifact_id = aid, object_key = okey, object_version = id_object_version i, art_digest = id_digest i,
    art_size = id_size i, media_type = id_media_type i, schema_name = None, art_schema_version = None, cc_kind = ck\<rparr>"
  have ok: "artifact_ref_ok ?c" using assms * by (simp add: artifact_ref_ok_def stored_as_def ge_opt_def)
  moreover have "parse_companion (wk_uuid k) (plain_json i) = Inr ?c"
    using assms * ok
    by (simp add: parse_companion_def plain_json_def identity_fields_def ref_fields_def parse_ref_def field_def optional_def
        stored_as_def artifact_ref.extend_def model_of_def)
  moreover have "companion_shape ?c = Inr ()" using assms by (simp add: companion_shape_def stored_as_def)
  ultimately show thesis using that by simp
qed

section \<open>What the handlers return\<close>

text \<open>The output of an analysis names its one companion, that of a validation describes the bundle.\<close>

definition analysis_output :: "worker_host \<Rightarrow> result_kind \<Rightarrow> job_output \<Rightarrow> bool" where
  "analysis_output k rk out \<longleftrightarrow>
     (\<exists>ck i envelope. expected_companion rk = Some ck \<and> stored_as k (companion_str ck) (expected_media_type ck) i
        \<and> out = analysis envelope (result_kind_str rk) i)"

definition validation_output :: "job_output \<Rightarrow> bool" where
  "validation_output out \<longleftrightarrow>
     out_kind out = ''validation_json'' \<and> is_digest (out_logical_run_digest out) \<and> is_digest (out_bundle_digest out)
     \<and> 0 \<le> out_event_count out \<and> out_event_count out \<le> 100000 \<and> 1 \<le> out_bundle_format_version out
     \<and> 1 \<le> out_cassette_format_version out \<and> 1 \<le> out_event_schema_version out \<and> out_companions out = []"

definition output_ok :: "worker_host \<Rightarrow> job_output \<Rightarrow> bool" where
  "output_ok k out \<longleftrightarrow> validation_output out \<or> (\<exists>rk. analysis_output k rk out)"

lemma parse_lines_count: "parse_lines env cc rid n ls = Inr es \<Longrightarrow> length es = length ls"
  by (induction ls arbitrary: n es) (auto simp: bind_res_eq_Inr)

lemma validated_parts:
  assumes "validate_bundle env bc raw = Inr b"
  obtains man data where "load_manifest bc man = Inr (vb_manifest b)"
    and "parse_events env (bundle_cc bc) (vb_manifest b) data = Inr (vb_events b)"
    and "vb_logical_run_digest b = run_digest env (vb_events b)" "vb_bundle_digest b = sha256_hex env raw"
    and "int (length raw) \<le> MAX_BUNDLE_BYTES" "bm_bundle_format_version (vb_manifest b) = BUNDLE_FORMAT_VERSION"
    "bm_cassette_format_version (vb_manifest b) = CASSETTE_FORMAT_VERSION"
    "bm_event_schema_version (vb_manifest b) = EVENT_SCHEMA_VERSION"
proof -
  obtain entries where r: "read_entries bc raw = Inr entries"
    using assms by (cases "read_entries bc raw") (auto simp: validate_bundle_def split: if_splits)
  obtain mraw data where two: "map_of entries MANIFEST_PATH = Some mraw" "map_of entries EVENTS_PATH = Some data"
    using assms r by (cases "map_of entries MANIFEST_PATH"; cases "map_of entries EVENTS_PATH")
      (auto simp: validate_bundle_def split: if_splits)
  have "read_manifest env bc mraw = Inr (vb_manifest b)"
    and p: "parse_events env (bundle_cc bc) (vb_manifest b) data = Inr (vb_events b)"
    "vb_logical_run_digest b = run_digest env (vb_events b)" "vb_bundle_digest b = sha256_hex env raw"
    "int (length raw) \<le> MAX_BUNDLE_BYTES"
    using assms(1) r two by (auto simp: validate_bundle_def bind_res_eq_Inr Let_def split: if_splits)
  then have "load_manifest bc mraw = Inr (vb_manifest b)"
    "bm_bundle_format_version (vb_manifest b) = BUNDLE_FORMAT_VERSION"
    "bm_cassette_format_version (vb_manifest b) = CASSETTE_FORMAT_VERSION"
    "bm_event_schema_version (vb_manifest b) = EVENT_SCHEMA_VERSION"
    by (auto simp: read_manifest_def split: sum.splits if_splits)
  with p show thesis using that by blast
qed

lemma validated_count:
  assumes "validate_bundle env bc raw = Inr b" "\<And>raw m. load_manifest bc raw = Inr m \<Longrightarrow> manifest_ok m"
  shows "int (length (vb_events b)) \<le> 100000"
proof -
  obtain mraw data where m: "load_manifest bc mraw = Inr (vb_manifest b)"
    and p: "parse_events env (bundle_cc bc) (vb_manifest b) data = Inr (vb_events b)"
    using validated_parts [OF assms(1)] by blast
  have "int (length (vb_events b)) = bm_event_count (vb_manifest b)"
    using p parse_lines_count by (fastforce simp: parse_events_def split: if_splits sum.splits)
  then show ?thesis using assms(2) [OF m] by (simp add: manifest_ok_def MAX_EVENTS_def)
qed

lemma yields_download:
  "yields (download_input k w claim artifact) (\<lambda>b. \<exists>raw. validate_bundle (wk_env k) (wk_codec k) raw = Inr b)"
  unfolding download_input_def by (intro yields_skip yields_if yields_raise yields_lift) blast

lemma yields_validate:
  assumes "honest k w"
  shows "yields (validate_op k w claim) (output_ok k)"
  unfolding validate_op_def
proof (rule yields_skip, rule yields_bind [OF yields_download], intro yields_known yields_skip yields_return)
  fix artifact b input rid prov envelope
  assume b: "\<exists>raw. validate_bundle (wk_env k) (wk_codec k) raw = Inr b"
    and input: "run_provenance_of (wk_uuid k) artifact b = Inr input"
  have "int (length (vb_events b)) \<le> 100000" using b assms validated_count by (auto simp: honest_def)
  moreover have "run_provenance_ok input" "rp_logical_run_digest input = vb_logical_run_digest b"
    "rp_bundle_digest input = vb_bundle_digest b" "rp_event_schema_version input = bm_event_schema_version (vb_manifest b)"
    "rp_cassette_format_version input = bm_cassette_format_version (vb_manifest b)"
    "rp_bundle_format_version input = bm_bundle_format_version (vb_manifest b)"
    using input by (auto simp: run_provenance_of_def bind_res_eq_Inr)
  ultimately show "output_ok k
         \<lparr>out_envelope = dump_envelope envelope, out_kind = ''validation_json'',
          out_logical_run_digest = vb_logical_run_digest b, out_event_count = int (length (vb_events b)),
          out_bundle_digest = vb_bundle_digest b,
          out_bundle_format_version = bm_bundle_format_version (vb_manifest b),
          out_cassette_format_version = bm_cassette_format_version (vb_manifest b),
          out_event_schema_version = bm_event_schema_version (vb_manifest b), out_companions = []\<rparr>"
    by (simp add: output_ok_def validation_output_def run_provenance_ok_def)
qed

lemma analysis_ok:
  "stored_as k (companion_str ck) (expected_media_type ck) i \<Longrightarrow> expected_companion rk = Some ck
    \<Longrightarrow> output_ok k (analysis envelope (result_kind_str rk) i)"
  unfolding output_ok_def analysis_output_def by blast

lemma yields_diff:
  assumes "honest k w"
  shows "yields (diff_op k w claim) (output_ok k)"
  unfolding diff_op_def Let_def
  by (intro yields_skip yields_if yields_raise yields_pair yields_bind [OF yields_upload [OF assms]] yields_return)
    (use analysis_ok [of k DiffHtml _ DiffJson] in simp)

lemma yields_localize:
  assumes "honest k w"
  shows "yields (localize_op k w claim) (output_ok k)"
  unfolding localize_op_def Let_def
  by (intro yields_skip yields_if yields_raise yields_pair yields_bind [OF yields_upload [OF assms]] yields_return)
    (use analysis_ok [of k LocalizeJson _ LocalizeResultJson] in simp)

lemma yields_otlp:
  assumes "honest k w"
  shows "yields (otlp_op k w claim) (output_ok k)"
  unfolding otlp_op_def
  by (intro yields_skip yields_pair yields_bind [OF yields_upload [OF assms]] yields_return)
    (use analysis_ok [of k OtlpJson _ OtlpResultJson] in simp)

lemma yields_pprof:
  assumes "honest k w"
  shows "yields (pprof_op k w claim) (output_ok k)"
  unfolding pprof_op_def
  by (intro yields_skip yields_bind [OF yields_upload [OF assms]] yields_return)
    (use analysis_ok [of k PprofFile _ PprofResultJson] in simp)


section \<open>The commit of an attempt\<close>

lemma yields_produce:
  assumes "honest k w"
  shows "yields (produce k w claim job num token name)
    (\<lambda>(i, out). output_ok k out \<and> stored_as k (out_kind out) ''application/json'' i)"
proof -
  have handler: "yields (handler k w claim) (output_ok k)" if op: "operation_of claim = Inr handler" for handler
  proof -
    obtain j where "jget claim ''operation'' = Inr j" using op by (auto simp: operation_of_def bind_res_eq_Inr)
    then obtain nm where "handler_of nm = Some handler"
      using op by (cases j) (auto simp: operation_of_def bind_res_eq_Inr split: if_splits option.splits)
    then have "handler \<in> {validate_op, diff_op, localize_op, otlp_op, pprof_op}"
      unfolding handler_of_def by (auto split: if_splits)
    then show ?thesis
      by (elim insertE emptyE) (simp_all only: yields_validate [OF assms] yields_diff [OF assms] yields_localize [OF assms]
          yields_otlp [OF assms] yields_pprof [OF assms])
  qed
  show ?thesis
    unfolding produce_def Let_def
    by (rule yields_skip, rule yields_known, rule yields_skip, rule yields_bind [OF handler], assumption, rule yields_skip,
        rule yields_if, rule yields_raise, rule yields_skip, rule yields_bind [OF yields_upload [OF assms]], rule yields_skip,
        rule yields_return) simp
qed

lemma digest_not_empty: "is_digest s \<Longrightarrow> s \<noteq> []"
  by (auto simp: is_digest_def)

lemma commit_parses:
  assumes "output_ok k out" "stored_as k (out_kind out) ''application/json'' i" "attempt_ok n"
  shows "\<exists>c. parse_commit (wk_uuid k) (commit_request (JInt n) i out) = Inr c \<and> ac_attempt_number c = n
    \<and> result_kind_str (ac_kind c) = out_kind out \<and> art_digest c = id_digest i \<and> art_size c = id_size i"
proof -
  obtain aid okey where i: "wk_uuid k (id_artifact_id i) = Some aid" "id_object_key i = JStr okey" "bounded 512 okey"
    using assms(2) by (auto simp: stored_as_def)
  obtain rk comps where rk: "out_kind out = result_kind_str rk"
    and comps: "map_res (parse_companion (wk_uuid k)) (out_companions out) = Inr comps"
    and shape: "\<And>c. ac_kind c = rk \<Longrightarrow> ac_companions c = comps \<Longrightarrow> ac_logical_run_digest c = out_logical_run_digest out
      \<Longrightarrow> ac_bundle_digest c = out_bundle_digest out \<Longrightarrow> ac_event_count c = out_event_count out
      \<Longrightarrow> ac_bundle_format_version c = out_bundle_format_version out
      \<Longrightarrow> ac_cassette_format_version c = out_cassette_format_version out
      \<Longrightarrow> ac_event_schema_version c = out_event_schema_version out \<Longrightarrow> commit_shape c = Inr ()"
    and small: "length comps \<le> 1" "\<forall>a\<in>set comps. artifact_ref_ok a"
    and dig: "is_digest (out_logical_run_digest out) \<or> out_logical_run_digest out = []"
      "is_digest (out_bundle_digest out) \<or> out_bundle_digest out = []"
      "0 \<le> out_event_count out" "out_event_count out \<le> 100000" "0 \<le> out_bundle_format_version out"
      "0 \<le> out_cassette_format_version out" "0 \<le> out_event_schema_version out"
  proof (cases "validation_output out")
    case True
    then show ?thesis
      by (intro that [of ValidationJson "[]"])
        (auto simp: validation_output_def commit_shape_def digest_not_empty min_less_iff_disj)
  next
    case False
    then obtain rk ck j envelope where out: "expected_companion rk = Some ck"
      "stored_as k (companion_str ck) (expected_media_type ck) j" "out = analysis envelope (result_kind_str rk) j"
      using assms(1) by (auto simp: output_ok_def analysis_output_def)
    obtain c where c: "parse_companion (wk_uuid k) (plain_json j) = Inr c" "cc_kind c = ck" "artifact_ref_ok c"
      "companion_shape c = Inr ()" using companion_parses [OF out(2)] by blast
    show ?thesis
      using c out(1) by (intro that [of rk "[c]"]) (simp_all add: out(3) analysis_def plain_json_def commit_shape_def)
  qed
  let ?c = "\<lparr>artifact_id = aid, object_key = okey, object_version = id_object_version i, art_digest = id_digest i,
    art_size = id_size i, media_type = id_media_type i, schema_name = Some ''result-envelope'', art_schema_version = Some 1,
    ac_attempt_number = n, ac_kind = rk, ac_logical_run_digest = out_logical_run_digest out,
    ac_bundle_digest = out_bundle_digest out, ac_event_count = out_event_count out,
    ac_bundle_format_version = out_bundle_format_version out, ac_cassette_format_version = out_cassette_format_version out,
    ac_event_schema_version = out_event_schema_version out, ac_companions = comps\<rparr>"
  have "str_len ''result-envelope'' = 15" by code_simp
  then have "bounded 64 ''result-envelope''" by (simp add: bounded_def)
  then have ok: "artifact_commit_ok ?c"
    using assms i small dig shape [of ?c]
    by (simp add: artifact_commit_ok_def artifact_ref_ok_def stored_as_def CONTRACT_SCHEMA_VERSION_def ge_opt_def)
  have "parse_commit (wk_uuid k) (commit_request (JInt n) i out) = Inr ?c"
    using assms(2) i ok comps rk
    by (simp add: parse_commit_def commit_request_def identity_fields_def commit_fields_def ref_fields_def parse_ref_def field_def
        optional_def stored_as_def list_field_def artifact_ref.extend_def model_of_def WORKER_PROTOCOL_VERSION_def)
  then show ?thesis using rk by simp
qed

text \<open>
  C23. Every commit the worker posts is one the contract accepts. Against a control plane that grants object keys and a
  store that reports versions within their bounds, whenever the production of a job's result returns, for any of
  the five operations, the body of the completing call parses as an \<open>ArtifactCommit\<close>: digests, versions and the event count of a
  validation, or the one companion of the right kind and media type with all of those empty for an analysis. The parsed commit
  names the attempt, the kind, the digest and the size of what was uploaded.
\<close>

theorem commit_conforms:
  assumes "honest k w" "attempt_ok n" "produce k w claim job (JInt n) token name h = (Inr (i, out), h')"
  shows "\<exists>c. parse_commit (wk_uuid k) (commit_request (JInt n) i out) = Inr c \<and> ac_attempt_number c = n
    \<and> result_kind_str (ac_kind c) = out_kind out \<and> art_digest c = id_digest i \<and> art_size c = id_size i"
proof -
  have "output_ok k out \<and> stored_as k (out_kind out) ''application/json'' i"
    using yields_produce [OF assms(1), of claim job "JInt n" token name, unfolded yields_def, rule_format, of h] assms(3)
    by (simp add: wp_def)
  then show ?thesis using commit_parses assms(2) by blast
qed

section \<open>A validation that returns\<close>

definition returns :: "'a act \<Rightarrow> 'a \<Rightarrow> bool" where
  "returns m x \<longleftrightarrow> (\<forall>h. \<exists>h'. m h = (Inr x, h'))"

lemma returns_bind:
  assumes "returns m x" "returns (f x) y"
  shows "returns (bind_act m f) y"
  unfolding returns_def
proof
  fix h
  obtain h1 where "m h = (Inr x, h1)" using assms(1) by (auto simp: returns_def)
  moreover obtain h2 where "f x h1 = (Inr y, h2)" using assms(2) unfolding returns_def by blast
  ultimately show "\<exists>h'. bind_act m f h = (Inr y, h')" by (simp add: bind_act_def)
qed

lemma returns_return: "returns (return_act x) x"
  by (simp add: returns_def return_act_def)

lemma returns_lift: "r = Inr x \<Longrightarrow> returns (lift_res r) x"
  by (simp add: returns_def lift_res_def)

lemma returns_ask: "(\<And>h. f h = x) \<Longrightarrow> returns (ask f) x"
  by (simp add: returns_def ask_def)

lemma returns_perform: "(\<And>h. answer h = Inr x) \<Longrightarrow> returns (perform c answer) x"
  by (simp add: returns_def perform_def)

lemma read_capped_all: "length data + length body \<le> limit \<Longrightarrow> read_capped limit data body = data @ body"
proof (induction limit data body rule: read_capped.induct)
  case (1 limit data body)
  show ?case
  proof (cases "body = []")
    case True
    then show ?thesis using 1(2) by simp
  next
    case False
    let ?n = "min 1048576 (limit + 1 - length data)"
    have ne: "take ?n body \<noteq> []" and l: "length data \<le> limit" using False 1(2) by simp_all
    have "length (data @ take ?n body) + length (drop (length (take ?n body)) body) \<le> limit" using 1(2) by simp
    from 1(1) [OF l refl ne this]
    have "read_capped limit data body = (data @ take ?n body) @ drop (length (take ?n body)) body"
      using ne l by (subst read_capped.simps) (simp only: Let_def if_True if_False refl)
    also have "drop (length (take n body)) body = drop n body" for n by (cases "length body \<le> n") simp_all
    finally show ?thesis by (simp only: append_assoc append_take_drop_id)
  qed
qed

definition ex_artifact :: "string \<Rightarrow> json" where
  "ex_artifact raw = JObj [(''artifact_id'', JStr ''a''), (''object_key'', JStr ''k''), (''object_version'', JStr ''v''),
     (''size'', JInt (int (length raw))), (''digest'', JStr (sha256_hex const_env raw))]"

definition ex_job :: "string \<Rightarrow> json" where
  "ex_job raw = JObj [(''job_id'', JStr ''j''), (''attempt_number'', JInt 1), (''attempt_token'', JStr ''t''),
     (''operation'', JStr ''validate''), (''input_artifacts'', JArr [ex_artifact raw])]"

definition ex_grant :: json where
  "ex_grant = JObj [(''object_key'', JStr ''k''), (''upload_url'', JStr ''u''), (''download_url'', JStr ''d'')]"

definition ex_validator :: worker_host where
  "ex_validator = (ex_host ''validate'')\<lparr>wk_loads := (\<lambda>_. Inr ex_grant), wk_codec := ex_bc ''f''\<rparr>"

definition ex_serving :: "string \<Rightarrow> world" where
  "ex_serving raw = ex_world\<lparr>w_fetch := (\<lambda>_ _. Inr raw)\<rparr>"

lemma ex_str_len: "str_len ''k'' = 1" "str_len ''v'' = 1" "str_len ''1'' = 1" "str_len ''local'' = 5" "str_len ''bundle-validation-v1'' = 20"
  "str_len ''application/json'' = 16"
  by code_simp+

lemma const_digest: "is_digest (sha256_hex const_env d)"
  by (simp add: is_digest_def hex_char_def list_all_iff sha256_hex_def const_env_def)

lemma ex_honest:
  assumes "build_bundle const_env (ex_bc ''f'') (ex_source ''f'') = Inr raw"
  shows "honest ex_validator (ex_serving raw)"
proof -
  have "manifest_ok (manifest_of const_env (ex_validated ''f''))"
    using assms by (auto simp: build_bundle_def ex_built_f(2) bind_res_eq_Inr)
  then show ?thesis
    using const_digest ex_str_len
    by (auto simp: honest_def ex_validator_def ex_serving_def ex_host_def ex_world_def ex_grant_def bounded_def ex_bc_def jget_def)
qed

lemma ex_client: "returns (client_json ex_validator (ex_serving raw) verb path val (JStr ''t'')) ex_grant"
  unfolding client_json_def client_request_def Let_def
  by (intro returns_bind [OF returns_bind [OF returns_lift returns_perform]])
    (auto simp: token_header_def ex_validator_def ex_serving_def ex_host_def ex_world_def http_result_def returns_lift)

lemma ex_stores: "returns (store_object (ex_serving raw) ex_grant data) ''v''"
  unfolding store_object_def Let_def
  by (intro returns_bind [OF returns_lift] returns_bind [OF returns_perform])
    (auto simp: ex_grant_def jget_or_def ex_serving_def ex_world_def returns_return)

lemma ex_claim_parts [simp]:
  "jget (ex_job raw) ''job_id'' = Inr (JStr ''j'')" "jget (ex_job raw) ''attempt_number'' = Inr (JInt 1)"
  "jget (ex_job raw) ''attempt_token'' = Inr (JStr ''t'')" "jget (ex_job raw) ''operation'' = Inr (JStr ''validate'')"
  "jget (ex_job raw) ''input_artifacts'' = Inr (JArr [ex_artifact raw])" "jget ex_grant ''object_key'' = Inr (JStr ''k'')"
  "jget ex_grant ''download_url'' = Inr (JStr ''d'')" "jget (ex_artifact raw) ''artifact_id'' = Inr (JStr ''a'')"
  "jget (ex_artifact raw) ''object_key'' = Inr (JStr ''k'')" "jget (ex_artifact raw) ''object_version'' = Inr (JStr ''v'')"
  "jget (ex_artifact raw) ''size'' = Inr (JInt (int (length raw)))"
  "jget (ex_artifact raw) ''digest'' = Inr (JStr (sha256_hex const_env raw))"
  by (simp_all add: ex_job_def ex_grant_def ex_artifact_def)

lemma ex_host_parts [simp]:
  "wk_env ex_validator = const_env" "wk_codec ex_validator = ex_bc ''f''" "wk_uuid ex_validator = Some"
  "wk_version ex_validator = ''1''" "wk_build ex_validator = ''local''"
  by (simp_all add: ex_validator_def ex_host_def)

lemma ex_world_parts [simp]:
  "w_uuid4 (ex_serving raw) = (\<lambda>_. ''u'')" "w_now (ex_serving raw) = (\<lambda>_. ''n'')" "w_stopped (ex_serving raw) = (\<lambda>_. False)"
  "w_fetch (ex_serving raw) = (\<lambda>_ _. Inr raw)"
  by (simp_all add: ex_serving_def ex_world_def)

lemma ex_uploads:
  assumes "length data \<le> MAX_ARTIFACT_BYTES"
  shows "\<exists>i. returns (upload ex_validator (ex_serving raw) (ex_job raw) knd data media) i"
proof -
  have "\<not> length data > MAX_ARTIFACT_BYTES" using assms by simp
  then show ?thesis
    unfolding upload_def Let_def if_not_P [OF \<open>\<not> length data > MAX_ARTIFACT_BYTES\<close>]
    by (intro exI) (rule returns_bind [OF returns_lift], simp, rule returns_bind [OF returns_lift], simp,
        rule returns_bind [OF returns_lift], simp, rule returns_bind [OF ex_client], rule returns_bind [OF returns_ask], simp,
        rule returns_bind [OF returns_lift], simp, rule returns_bind [OF ex_stores], rule returns_return)
qed

lemma ex_downloads:
  assumes "validate_bundle const_env (ex_bc ''f'') raw = Inr b" "int (length raw) \<le> MAX_BUNDLE_BYTES"
  shows "returns (download_input ex_validator (ex_serving raw) (ex_job raw) (ex_artifact raw)) b"
proof -
  have "returns (fetch_object (ex_serving raw) (JStr ''d'')) raw"
    unfolding fetch_object_def Let_def
    by (rule returns_bind [OF returns_perform], simp)
      (use assms(2) in \<open>simp add: read_capped_all returns_return MAX_BUNDLE_BYTES_def del: read_capped.simps\<close>)
  note fetched = returns_bind [OF this]
  show ?thesis
    unfolding download_input_def
    by (rule returns_bind [OF returns_lift], simp, rule returns_bind [OF returns_lift], simp,
        rule returns_bind [OF returns_lift], simp, rule returns_bind [OF returns_lift], simp,
        rule returns_bind [OF ex_client], rule returns_bind [OF returns_lift], simp, rule fetched,
        rule returns_bind [OF returns_lift], simp)
      (simp add: int_eq_def, rule returns_bind [OF returns_lift], simp, simp add: returns_lift assms(1))
qed

lemma ex_validated_bundle:
  assumes "build_bundle const_env (ex_bc ''f'') (ex_source ''f'') = Inr raw"
  obtains b where "validate_bundle const_env (ex_bc ''f'') raw = Inr b" "vb_events b = [ex_writes ''f'']"
  using validate_built [OF assms ex_built_f(2) ex_tar ex_built_f(3) ex_laws(1-3)] by (simp add: ex_validated_def)

lemma ex_run_validates:
  assumes "validate_bundle const_env (ex_bc ''f'') raw = Inr b" "vb_events b = [ex_writes ''f'']"
  shows "\<exists>out. returns (validate_op ex_validator (ex_serving raw) (ex_job raw)) out
    \<and> length (canonical_bytes_of const_env (out_envelope out)) \<le> MAX_ARTIFACT_BYTES"
proof -
  have b: "is_digest (vb_logical_run_digest b)" "is_digest (vb_bundle_digest b)" "int (length raw) \<le> MAX_BUNDLE_BYTES"
    "bm_bundle_format_version (vb_manifest b) = 1" "bm_cassette_format_version (vb_manifest b) = CASSETTE_FORMAT_VERSION"
    "bm_event_schema_version (vb_manifest b) = EVENT_SCHEMA_VERSION"
    using validated_parts [OF assms(1)] const_digest by (metis run_digest_def BUNDLE_FORMAT_VERSION_def)+
  let ?input = "\<lparr>rp_run_id = ''a'', rp_logical_run_digest = vb_logical_run_digest b, rp_bundle_digest = vb_bundle_digest b,
    rp_object_key = ''k'', rp_object_version = ''v'', rp_event_schema_version = EVENT_SCHEMA_VERSION,
    rp_cassette_format_version = CASSETTE_FORMAT_VERSION, rp_bundle_format_version = 1\<rparr>"
  let ?prov = "\<lparr>rv_inputs = [?input], rv_analysis_profile = ''bundle-validation-v1'', rv_tracewake_version = ''1'',
    rv_worker_build = ''local'', rv_produced_at = ''n''\<rparr>"
  let ?result = "ValidationR \<lparr>vr_run_id = ''a'', vr_event_count = 1, vr_logical_run_digest = vb_logical_run_digest b,
    vr_bundle_digest = vb_bundle_digest b, vr_provenance = ?prov\<rparr>"
  let ?envelope = "\<lparr>env_succeeded = True, env_result = Some ?result, env_failure = None\<rparr>"
  let ?out = "\<lparr>out_envelope = dump_envelope ?envelope, out_kind = ''validation_json'',
    out_logical_run_digest = vb_logical_run_digest b, out_event_count = 1, out_bundle_digest = vb_bundle_digest b,
    out_bundle_format_version = 1, out_cassette_format_version = CASSETTE_FORMAT_VERSION,
    out_event_schema_version = EVENT_SCHEMA_VERSION, out_companions = []\<rparr>"
  have input: "run_provenance_ok ?input"
    using b ex_str_len by (simp add: run_provenance_ok_def bounded_def EVENT_SCHEMA_VERSION_def CASSETTE_FORMAT_VERSION_def)
  then have prov: "result_provenance_ok ?prov" using ex_str_len by (simp add: result_provenance_ok_def bounded_def)
  then have ok: "semantic_result_ok ?result" using b by (simp add: validation_result_ok_def)
  have envelope: "succeeded ?result = Inr ?envelope"
    using ok by (simp add: succeeded_def model_of_def result_envelope_ok_def one_outcome_def)
  have "returns (validate_op ex_validator (ex_serving raw) (ex_job raw)) ?out"
    unfolding validate_op_def
    by (rule returns_bind [OF returns_lift], simp add: jfirst_def, rule returns_bind [OF ex_downloads], rule assms, rule b,
        rule returns_bind [OF returns_lift], simp add: run_provenance_of_def uuid_field_def b input model_of_def,
        rule returns_bind [OF returns_ask], simp, rule returns_bind [OF returns_lift], simp add: model_of_def prov,
        rule returns_bind [OF returns_lift], simp add: uuid_field_def, rule returns_bind [OF returns_lift],
        simp add: assms(2) envelope)
      (simp add: assms(2) b returns_return)
  moreover have "length (vb_logical_run_digest b) = 64" "length (vb_bundle_digest b) = 64" using b by (simp_all add: is_digest_def)
  moreover have "length (int_str 1) = 1" "length (int_str 3) = 1" by code_simp+
  moreover have "json_weight (frepr const_env) (dump_envelope ?envelope) \<le> 20000"
    using \<open>length (vb_logical_run_digest b) = 64\<close> \<open>length (vb_bundle_digest b) = 64\<close> \<open>length (int_str 1) = 1\<close> \<open>length (int_str 3) = 1\<close>
    by (simp add: dump_envelope_def jopt_def semantic_head_def dump_result_provenance_def dump_run_provenance_def
        WORKER_PROTOCOL_VERSION_def CONTRACT_SCHEMA_VERSION_def EVENT_SCHEMA_VERSION_def CASSETTE_FORMAT_VERSION_def)
  then have "length (canonical_bytes_of const_env (dump_envelope ?envelope)) \<le> MAX_ARTIFACT_BYTES"
    using length_render [THEN conjunct2, of "frepr const_env" "sort_keys (dump_envelope ?envelope)"]
    by (simp add: canonical_bytes_of_def weight_sort_keys MAX_ARTIFACT_BYTES_def)
  ultimately show ?thesis by (intro exI [of _ ?out]) simp
qed

lemma ex_production:
  assumes "returns (validate_op ex_validator (ex_serving raw) (ex_job raw)) out"
    and "length (canonical_bytes_of const_env (out_envelope out)) \<le> MAX_ARTIFACT_BYTES"
  shows "\<exists>i. returns (produce ex_validator (ex_serving raw) (ex_job raw) (JStr ''j'') (JInt 1) (JStr ''t'') (JStr ''validate'')) (i, out)"
proof -
  have op: "operation_of (ex_job raw) = Inr validate_op"
    by (simp add: operation_of_def handler_of_def) (simp add: ex_job_def jget_or_def profile_json_def REQUIRED_PROFILE_def)
  obtain i where "returns (upload ex_validator (ex_serving raw) (ex_job raw) (out_kind out)
      (canonical_bytes_of const_env (out_envelope out)) ''application/json'') i"
    using ex_uploads [OF assms(2)] by blast
  note up = returns_bind [OF this]
  show ?thesis
    unfolding produce_def post_progress_def Let_def
    by (intro exI) (rule returns_bind [OF ex_client], rule returns_bind [OF returns_lift], rule op, rule returns_bind [OF ex_client],
        rule returns_bind [OF assms(1)], rule returns_bind [OF returns_ask [where x = False]], simp, simp only: if_False,
        rule returns_bind [OF ex_client], simp only: ex_host_parts, rule up, rule returns_bind [OF ex_client], rule returns_return)
qed

theorem commit_conforms_witness:
  "\<exists>raw i out h c. produce ex_validator (ex_serving raw) (ex_job raw) (JStr ''j'') (JInt 1) (JStr ''t'') (JStr ''validate'') []
      = (Inr (i, out), h) \<and> parse_commit Some (commit_request (JInt 1) i out) = Inr c \<and> ac_attempt_number c = 1"
proof -
  obtain raw where raw: "build_bundle const_env (ex_bc ''f'') (ex_source ''f'') = Inr raw" using ex_built_f(1) by blast
  obtain b where "validate_bundle const_env (ex_bc ''f'') raw = Inr b" "vb_events b = [ex_writes ''f'']"
    using ex_validated_bundle [OF raw] by blast
  then obtain out i where
    "returns (produce ex_validator (ex_serving raw) (ex_job raw) (JStr ''j'') (JInt 1) (JStr ''t'') (JStr ''validate'')) (i, out)"
    using ex_run_validates ex_production by blast
  then obtain h where p: "produce ex_validator (ex_serving raw) (ex_job raw) (JStr ''j'') (JInt 1) (JStr ''t'') (JStr ''validate'') []
      = (Inr (i, out), h)" unfolding returns_def by blast
  have "attempt_ok 1" by (simp add: attempt_ok_def)
  from commit_conforms [OF ex_honest [OF raw] this p] show ?thesis using p by auto
qed

section \<open>The result of a hosted diff\<close>

lemma nonscratch_range: "nonscratch_loop i rd scratch ss = Inr (Some k) \<Longrightarrow> i \<le> k \<and> k < i + length ss"
proof (induction i rd scratch ss rule: nonscratch_loop.induct)
  case (2 i rd scratch s ss)
  then obtain w where w: "written_paths s = Inr w" by (auto simp: bind_res_eq_Inr)
  show ?case
  proof (cases "\<exists>path\<in>w. path \<in> rd \<or> (scratch \<noteq> None \<and> path \<noteq> the scratch)")
    case True
    then have "k = i" using 2(2) by (simp only: nonscratch_loop.simps w bind_res_Inr if_True sum.inject option.inject)
    then show ?thesis by simp
  next
    case False
    have "i + 1 \<le> k \<and> k < i + 1 + length ss"
      using 2(1) [OF False] 2(2) False by (simp only: nonscratch_loop.simps w bind_res_Inr if_False)
    then show ?thesis by simp
  qed
qed simp

lemma localize_range: "localize bad = Inr (k, c) \<Longrightarrow> 1 \<le> k \<and> k \<le> length bad"
  using nonscratch_range [of 1 "{}" None bad]
  by (auto simp: localize_def first_nonscratch_write_def bind_res_eq_Inr SCRATCH_FALLBACK_def Suc_le_eq split: if_splits option.splits)

lemma covers_indices:
  assumes "covers n m cols" "c \<in> set cols"
  shows "(\<forall>i. fst c = Some i \<longrightarrow> i < n) \<and> (\<forall>j. snd c = Some j \<longrightarrow> j < m) \<and> c \<noteq> (None, None)"
proof -
  have mem: "f c = Some i \<Longrightarrow> i \<in> set (List.map_filter f cols)" for f i
    using assms(2) by (force simp: map_filter_def)
  show ?thesis
    using mem [of fst] mem [of snd] assms by (cases "fst c"; cases "snd c"; cases c) (auto simp: covers_def)
qed

text \<open>Every column of a diff passes its contract: indices of the runs, and a similarity between 0 and 1.\<close>

lemma diff_columns:
  assumes "diff_runs env good bad (Some lexical_embed) False False model revision = Inr r"
    and "real (length (good_steps r) + length (bad_steps r) + 1) < 10 ^ 29"
  shows "\<exists>columns. map_res (contract_column r) (dr_alignment r) = Inr columns \<and> (\<forall>c\<in>set columns. alignment_column_ok c)"
proof -
  let ?a = "good_steps r" and ?b = "bad_steps r"
  obtain total where al: "align env ?a ?b (Some lexical_embed) DEFAULT_CONFIG = Inr (total, dr_alignment r, dr_scores r)"
    and steps: "list_all step_ok ?a" "list_all step_ok ?b"
    using assms(1) extract_steps_ok by (auto simp: diff_runs_def Let_def bind_res_eq_Inr)
  have cov: "covers (length ?a) (length ?b) (dr_alignment r)"
    using lexical.align_best [OF al configs_ok(1) default_gaps steps assms(2)] by (auto simp: best_alignment_def)
  have scores: "dims (length ?a) (length ?b) (dr_scores r) \<and> (\<forall>i < length ?a. \<forall>j < length ?b. \<bar>dr_scores r ! i ! j\<bar> \<le> 1)"
    if "?a \<noteq> []" "?b \<noteq> []"
    using lexical.align_best [OF al configs_ok(1) default_gaps steps assms(2)]
      lexical.score_matrix_Inr [OF configs_ok(1) steps that, of env] that by auto
  have column: "\<exists>y. contract_column r c = Inr y \<and> alignment_column_ok y" if "c \<in> set (dr_alignment r)" for c
  proof (cases c)
    case (Pair i j)
    note bounds = covers_indices [OF cov that, unfolded Pair]
    show ?thesis
    proof (cases "i \<noteq> None \<and> j \<noteq> None")
      case True
      then obtain i' j' where ij: "i = Some i'" "j = Some j'" "i' < length ?a" "j' < length ?b" using bounds by auto
      then have "dims (length ?a) (length ?b) (dr_scores r)" "\<bar>dr_scores r ! i' ! j'\<bar> \<le> 1" using scores by fastforce+
      then show ?thesis using ij
        by (auto simp: Pair contract_column_def column_similarity_def dims_def alignment_column_ok_def ge_opt_def model_of_def abs_le_iff)
    next
      case False
      then show ?thesis
        using bounds
        by (auto simp: Pair contract_column_def column_similarity_def alignment_column_ok_def ge_opt_def model_of_def split: option.splits)
    qed
  qed
  then obtain columns where c: "map_res (contract_column r) (dr_alignment r) = Inr columns" using map_res_total by metis
  have "alignment_column_ok y" if y: "y \<in> set columns" for y
  proof -
    obtain i where "i < length columns" "y = columns ! i" using y by (auto simp: in_set_conv_nth)
    then show ?thesis
      using map_res_eq_Inr_nth [OF c, of i] map_res_eq_Inr_length [OF c] column [of "dr_alignment r ! i"] by force
  qed
  with c show ?thesis by blast
qed

text \<open>
  C24. The result of a hosted diff meets its contract exactly when the failing run has a step. For the runs of
  any two bundles with a comparison and a localisation, every column of the alignment is one the contract accepts, with indices of the
  two runs and similarities between 0 and 1, and the result with its divergence, class and
  confidence is an \<open>Inr\<close> of the validated envelope; without a failing step it is refused.
\<close>

theorem diff_meets_contract:
  assumes "diff_runs env good bad (Some lexical_embed) False False (Some HOSTED_PROFILE) None = Inr r"
    and "real (length (good_steps r) + length (bad_steps r) + 1) < 10 ^ 29" "run_localize (bad_steps r) = Inr found"
    and "result_provenance_ok prov" "artifact_ref_ok html"
  shows "\<exists>columns. map_res (contract_column r) (dr_alignment r) = Inr columns \<and> (\<forall>c\<in>set columns. alignment_column_ok c)
    \<and> succeeded (DiffR (contract_diff_of r columns found prov html))
      = (if bad_steps r = [] then Inl ValidationError
         else Inr \<lparr>env_succeeded = True, env_result = Some (DiffR (contract_diff_of r columns found prov html)), env_failure = None\<rparr>)"
proof -
  obtain columns where c: "map_res (contract_column r) (dr_alignment r) = Inr columns" "\<forall>c\<in>set columns. alignment_column_ok c"
    using diff_columns [OF assms(1,2)] by blast
  have "contract_diff_ok (contract_diff_of r columns found prov html)" if "bad_steps r \<noteq> []"
    using assms(3-5) c(2) that localize_range
    by (auto simp: contract_diff_ok_def contract_diff_of_def run_localize_def HOSTED_PROFILE_def ge_opt_def bind_res_eq_Inr
        Suc_le_eq split: prod.splits)
  moreover have "\<not> contract_diff_ok (contract_diff_of r columns found prov html)" if "bad_steps r = []"
    using that by (simp add: contract_diff_ok_def contract_diff_of_def)
  ultimately show ?thesis
    using c by (auto simp: succeeded_def model_of_def result_envelope_ok_def one_outcome_def)
qed

definition ex_turn :: "stored_event list" where
  "ex_turn = [ex_stored 1 (ToolCall (ex_tool ''t1'' 0))]"

lemma ex_turn_steps:
  obtains s where "extract_steps ex_env ex_turn False = [s]" "reasoning s = []" "written_paths s = Inr {}" "sized s"
  by (simp add: ex_turn_def sized_def extract_steps_def extract_traces_def group_events_def empty_grouping_def list_at_def Let_def
      ex_stored_def ex_tool_def build_step_def step_reasoning_def model_calls_by_id_def map_filter_def target_of_def
      written_paths_def name_targets_def tail_of_def)

lemma ex_turn_diff:
  obtains r where "diff_runs ex_env ex_turn ex_turn (Some lexical_embed) False False (Some HOSTED_PROFILE) None = Inr r"
    "length (good_steps r) = 1" "length (bad_steps r) = 1" "run_localize (bad_steps r) = Inr (Some (1, SilentShort))"
proof -
  obtain s where s: "extract_steps ex_env ex_turn False = [s]" "reasoning s = []" "written_paths s = Inr {}" "sized s" by (rule ex_turn_steps)
  have "has_token []" by (rule has_token_blank) (simp add: strip_def)
  then obtain scores where "align ex_env [s] [s] (Some lexical_embed) DEFAULT_CONFIG = Inr (1, diagonal 1, scores)"
    using align_self_diagonal [of "[s]" ex_env] extract_steps_ok [of ex_env ex_turn False] s by auto
  moreover obtain d where "divergence_step (diagonal 1) [s] [s] = Inr d" using divergence_diagonal [of "[s]"] s by auto
  moreover have "localize [s] = Inr (1, SilentShort)"
    using s by (simp add: localize_def first_nonscratch_write_def reliability_def commitments_def SCRATCH_FALLBACK_def LONG_TRACE_def)
  ultimately show thesis
    using that s by (auto simp: diff_runs_def Let_def run_localize_def)
qed

definition ex_input :: run_provenance where
  "ex_input = \<lparr>rp_run_id = ''a'', rp_logical_run_digest = ex_digest, rp_bundle_digest = ex_digest, rp_object_key = ''k'',
     rp_object_version = ''v'', rp_event_schema_version = 3, rp_cassette_format_version = 1, rp_bundle_format_version = 1\<rparr>"

definition ex_prov :: result_provenance where
  "ex_prov = \<lparr>rv_inputs = [ex_input], rv_analysis_profile = ''bundle-validation-v1'', rv_tracewake_version = ''1'',
     rv_worker_build = ''local'', rv_produced_at = ''n''\<rparr>"

definition ex_html :: artifact_ref where
  "ex_html = \<lparr>artifact_id = ''a'', object_key = ''k'', object_version = ''v'', art_digest = ex_digest, art_size = 0,
     media_type = ''application/json'', schema_name = None, art_schema_version = None\<rparr>"

lemma ex_parts_ok: "result_provenance_ok ex_prov" "artifact_ref_ok ex_html"
proof -
  have "is_digest ex_digest" by (simp add: ex_digest_def is_digest_def hex_char_def list_all_iff)
  then show "result_provenance_ok ex_prov" "artifact_ref_ok ex_html"
    using ex_str_len
    by (simp_all add: result_provenance_ok_def run_provenance_ok_def artifact_ref_ok_def ex_prov_def ex_input_def ex_html_def
        bounded_def ge_opt_def)
qed

theorem diff_meets_contract_witness:
  "\<exists>r columns envelope. diff_runs ex_env ex_turn ex_turn (Some lexical_embed) False False (Some HOSTED_PROFILE) None = Inr r
     \<and> map_res (contract_column r) (dr_alignment r) = Inr columns
     \<and> succeeded (DiffR (contract_diff_of r columns (Some (1, SilentShort)) ex_prov ex_html)) = Inr envelope"
proof -
  obtain r where r: "diff_runs ex_env ex_turn ex_turn (Some lexical_embed) False False (Some HOSTED_PROFILE) None = Inr r"
    "length (good_steps r) = 1" "length (bad_steps r) = 1" "run_localize (bad_steps r) = Inr (Some (1, SilentShort))"
    by (rule ex_turn_diff)
  have "real (length (good_steps r) + length (bad_steps r) + 1) < 10 ^ 29" using r by simp
  from diff_meets_contract [OF r(1) this r(4) ex_parts_ok] show ?thesis using r by (auto split: if_splits)
qed

section \<open>Requests and dispatch\<close>

lemma accepted_request:
  "(\<exists>ids. public_job_request_ok \<lparr>pj_operation = op, pj_run_ids = ids, pj_profile = p\<rparr>)
    \<longleftrightarrow> op = OpDiff \<and> p = Some AlignV2 \<or> op = OpLocalize \<and> p = Some LocalizeV1 \<or> op \<in> {OpOtlp, OpPprof} \<and> p = None"
    (is "?lhs \<longleftrightarrow> ?rhs")
proof
  assume ?lhs
  then show ?rhs by (auto elim: public_job_request_cases)
next
  assume ?rhs
  then have "public_job_request_ok \<lparr>pj_operation = op, pj_run_ids = (if op = OpDiff then [''a'', ''b''] else [''a'']), pj_profile = p\<rparr>"
    by (auto simp: public_job_request_ok_def job_shape_def REQUIRED_RUNS_def REQUIRED_PROFILE_def)
  then show ?lhs by blast
qed

text \<open>
  C25. The worker's dispatch and the public contract agree. For a claim that names a public operation and carries a
  profile or none, the worker has a handler exactly when some job request with that operation and profile is one the contract
  accepts, and then it is the handler of that operation; otherwise the claim is refused as unsupported.
\<close>

theorem dispatch_agrees:
  assumes "op \<noteq> OpValidate" "jget claim ''operation'' = Inr (JStr (operation_str op))"
    and "jget_or claim ''profile'' JNull = Inr (jopt (JStr \<circ> profile_str) p)"
  shows "operation_of claim =
    (if \<exists>ids. public_job_request_ok \<lparr>pj_operation = op, pj_run_ids = ids, pj_profile = p\<rparr>
     then Inr (case op of OpDiff \<Rightarrow> diff_op | OpLocalize \<Rightarrow> localize_op | OpOtlp \<Rightarrow> otlp_op | OpPprof \<Rightarrow> pprof_op | OpValidate \<Rightarrow> validate_op)
     else Inl UnsupportedAnalysis)"
proof -
  have "jopt (JStr \<circ> profile_str) p = profile_json (operation_str op)
      \<longleftrightarrow> op = OpDiff \<and> p = Some AlignV2 \<or> op = OpLocalize \<and> p = Some LocalizeV1 \<or> op \<in> {OpOtlp, OpPprof} \<and> p = None"
    using assms(1) by (cases op; cases p rule: option.exhaust; (cases "the p")?)
      (simp_all add: jopt_def profile_json_def REQUIRED_PROFILE_def)
  moreover have "handler_of (operation_str op) =
      Some (case op of OpDiff \<Rightarrow> diff_op | OpLocalize \<Rightarrow> localize_op | OpOtlp \<Rightarrow> otlp_op | OpPprof \<Rightarrow> pprof_op | OpValidate \<Rightarrow> validate_op)"
    by (cases op) (simp_all add: handler_of_def)
  ultimately show ?thesis
    using assms(2,3) unfolding accepted_request by (simp add: operation_of_def)
qed

theorem dispatch_agrees_witness:
  "operation_of (JObj [(''operation'', JStr ''diff''), (''profile'', JStr ''align-v2'')]) = Inr diff_op
   \<and> operation_of (JObj [(''operation'', JStr ''pprof''), (''profile'', JStr ''align-v2'')]) = Inl UnsupportedAnalysis"
  using dispatch_agrees [of OpDiff "JObj [(''operation'', JStr ''diff''), (''profile'', JStr ''align-v2'')]" "Some AlignV2"]
    dispatch_agrees [of OpPprof "JObj [(''operation'', JStr ''pprof''), (''profile'', JStr ''align-v2'')]" "Some AlignV2"]
  by (simp add: accepted_request jget_or_def jopt_def)

end
