(* ===== verification/Spec2Isabelle.thy ===== *)
theory Spec2Isabelle
  imports Align Diverge Redaction Store Profile Opening Bundle Report Otel Advisory Conform
begin

text \<open>
  \<^bold>\<open>Verification of tracewake.\<close>

  Tracewake records the runs of an AI agent and replays them without the world. A session sits between the agent
  and its model, tools, clock, randomness and files: while it records, every answer becomes an event in a store,
  with large contents as blobs named by their SHA-256; while it replays, every request is answered from the log of a recorded
  run. On the recorded runs work the analyses: two runs are reduced to steps and aligned, a failing run is localised to a
  step, tokens are attributed to what caused them, and runs are exported as cassettes, bundles, span documents, profiles
  and a report page. A hosted worker performs the analyses on uploaded bundles for a control plane.

  \<^bold>\<open>Theories and the code they model\<close> (files under src/tracewake):

  \<^item> Prelude: results and exceptions, Python strings as UTF-8 bytes, dictionaries, sorting, shared lemmas.
  \<^item> Json, Events (events.py): JSON values and the canonical writer; the event models, their dumps, hashes, the order of a
    log and the digest of a run. Equal canonical texts mean equal values, and the digest ignores the completion order
    of a parallel batch of tools.
  \<^item> Matching (config.py, matching.py): configurations, requests, matchers and the replay report. A request is
    answered by the first unused recorded call every configured matcher accepts; replaying the recorded requests gives the recorded calls.
  \<^item> Redaction (redaction.py): no collected secret survives scrubbing, and scrubbing twice is scrubbing once, for secrets that
    share nothing with the placeholders; a secret that is part of a placeholder survives, which the code does not exclude.
  \<^item> Store (store.py): rows and blobs with the constraints of the SQL schema; a step relation over the store's operations with its
    invariant, and interleaved appends of several runs refine one counter per run.
  \<^item> Session, Files (session.py, fs.py): the session's state and operations, in recording, replaying, mixed and forked
    modes. Replay and Runs prove what they are for: an agent run again on its own log gets exactly the answers it
    got, in every world; a session that can only replay touches neither store nor disk; a stream is recorded at most once however its
    handle is used; an intervention changes what it planned and nothing else.
  \<^item> Opening (__init__.py): which run each mode opens or starts, forks, the checks before the block, what closing writes, and the
    entry points. A session settles its own run and touches no other; what a record block does, a replay block of a later process
    repeats; a fork refused for its hash seed leaves its run behind as running.
  \<^item> Cassette, Bundle (cassette.py, bundle.py): exchange formats. Export and import lose nothing, a
    failed import changes nothing, an accepted bundle is canonical and consistent.
  \<^item> Steps, Gotoh, Difflib, Similarity, Align (align.py): steps of a run, the affine alignment with three tables,
    the similarities with difflib's longest-match recursion, the divergence read from an alignment. The traceback is optimal; an
    alignment fails only for an integer argument that no float can hold, with the \<open>OverflowError\<close> of the code.
  \<^item> Diverge (diverge.py, profiles.py): commitments, the first write that matters, the reliability class; which runs are answered and which error the others raise.
  \<^item> Tokens, Protobuf, Profile (pprof.py): attribution by largest remainders, the wire format and the profile; shares
    add up to the measured usage and survive the encoding.
  \<^item> Encoding, Report, Otel (report.py, otel.py): the text functions of the standard library the exporters use, the report's blocks, budget and
    page, and the span document. The clipping is the longest that fits the budget; the details are the steps of the runs; the rendered page has
    only the template's tags; the spans form one tree within the time of its root.
  \<^item> Advisory (llm.py): the bounded evidence drawn from a run for a model, and the checks of its answer. An accepted answer leaves
    the deterministic one as it is and cites only steps it was shown.
  \<^item> Contracts (contracts.py): the wire records with their constraints, as predicates.
  \<^item> Wire, Worker, Attempt (worker.py): actions over a world that answers from the calls made so far, a calculus of
    postconditions for return and exception; the worker's client, operations and attempt; when it may acknowledge,
    what a lost lease ends, and that every claimed job is settled unless it is interrupted or its lease is lost. An interrupt is raised at a call of the
    attempt; the heartbeat and cancellation threads have models of their own.
  \<^item> Conform (contracts.py, worker.py): the parsing of a commit, and that the two sides agree: every commit the worker posts
    parses, a hosted diff meets its contract, and the dispatch is the one the public contract allows.

  \<^bold>\<open>Interfaces.\<close> Where a component relies on a contract of another, the contract is a locale: the content store and the append-only
  log of the store, the embedder of an alignment and the laws of a similarity, the interning tables of a profile, the
  cursors a replay reads its log with, and the preorders on session states its operations respect. Each is interpreted
  on the model's own definitions in the theory that provides them, and the properties rest on the facts of the interpretation.

  \<^bold>\<open>Arguments of the model.\<close> SHA-256, the text of floats, Python's \<open>repr\<close> and the digits of Unicode that \<open>float()\<close> accepts are fields of \<^typ>\<open>py_env\<close>; pydantic's
  parsing and JSON's are codecs with the law that they read back what was dumped; tar archives, gzip, the report's
  template, clocks, fresh identifiers, model backends, tools, the disk and the network are functions the definitions take. A tool answers from its
  arguments and the world; the resolution of paths, which follows symbolic links on a replay too, is one function for all worlds. Floats are reals, so
  rounding, NaN and infinities are outside, but for the infinite length ratio of an empty run, which the report writes. Strings are
  their UTF-8 bytes; case conversion is that of ASCII.

  \<^bold>\<open>Bounds.\<close> Loops are structural recursions or terminate by a measure; no fuel is used except where the code itself counts
  attempts and in the worker's two threads, which are described after a number of timer ticks. The alignment's minus infinity is \<open>-1e30\<close> as in the code, and its
  theorem assumes runs shorter than \<open>10^29\<close> steps. Variable-length integers are the code's unbounded ones; the reader's
  shift limit makes \<open>2^77\<close> the bound of the round trip. The theorems that a log holds what happened and that replay repeats a recording are about sessions without redaction,
  which is on by default and changes what is recorded on purpose, and without a \<open>before_record\<close> hook, and about steps the world did not
  fail, but for a file that is not there.

  \<^bold>\<open>Not modelled.\<close> Opening and locking the SQLite file; the MLX embedder; the thread lock and clock facade of a session; the HTTP provider of llm.py with
  its configuration and files; printing (the command line, the tables of pprof, the worker's telemetry); replacing functions of the Python runtime (patches.py), which has no logic besides
  saving and restoring them (whether they can be installed is an argument of Opening); warnings; the pytest plugin; SQS
  polling and the process around the worker; the schema generator and the views only the control plane serves; benchmarks,
  evidence collection, fixtures and examples, which are not part of the program; the control plane (Go) and
  dashboard (TypeScript).
\<close>

end
